(* ===== verification/Prelude.thy ===== *)
theory Prelude
  imports Main "HOL-Library.Word"
begin

text \<open>
  Shared vocabulary of the development: the C types the library uses (\<open>size_t\<close>, bytes,
  addresses), the outcome type of an operation that may crash, the masked index arithmetic that
  both the hash table (\<open>HASHMAP_SIZE_MOD\<close>) and the ring queue (\<open>& (cap - 1)\<close>)
  rely on, the little-endian view of an object in memory, and lemmas on lists of optional slots.
\<close>

unbundle bit_operations_syntax

section \<open>C types\<close>

type_synonym byte = "8 word"
type_synonym size_t = "64 word"
type_synonym addr = "64 word"

abbreviation null :: addr where "null \<equiv> 0"

section \<open>Outcomes: a value, or the way the program went wrong\<close>

datatype fault =
    Null_Deref
  | Undefined_Arith
  | Assert_Failed
  | Use_After_Free
  | Out_Of_Bounds
  | Uninitialised
  | No_Fuel

type_synonym 'a run = "fault + 'a"

named_theorems run_simps \<open>evaluation of sequenced operations\<close>

definition andthen :: "'a run \<Rightarrow> ('a \<Rightarrow> 'b run) \<Rightarrow> 'b run" where
  "andthen r f = (case r of Inl e \<Rightarrow> Inl e | Inr a \<Rightarrow> f a)"

definition check :: "bool \<Rightarrow> unit run" where
  "check b = (if b then Inr () else Inl Assert_Failed)"

lemma andthen_Inr [simp, run_simps]: "andthen (Inr a) f = f a"
  by (simp add: andthen_def)

lemma andthen_Inl [simp, run_simps]: "andthen (Inl e) f = Inl e"
  by (simp add: andthen_def)

lemma check_simps [simp, run_simps]: "check True = Inr ()" "check False = Inl Assert_Failed"
  by (simp_all add: check_def)

lemma andthen_eq_Inr: "andthen r f = Inr b \<longleftrightarrow> (\<exists>a. r = Inr a \<and> f a = Inr b)"
  by (cases r) auto

lemma check_eq_Inr [simp]: "check b = Inr u \<longleftrightarrow> b"
  by (simp add: check_def)

lemma andthen_assoc: "andthen (andthen r f) g = andthen r (\<lambda>a. andthen (f a) g)"
  by (cases r) auto

section \<open>Masked indices\<close>

text \<open>The macro pattern \<^verbatim>\<open>(val) & (n - 1)\<close> on \<open>size_t\<close> operands.\<close>

definition mask_index :: "nat \<Rightarrow> size_t \<Rightarrow> nat" where
  "mask_index n w = unat (w AND (of_nat n - 1))"

definition is_pow2 :: "nat \<Rightarrow> bool" where
  "is_pow2 n \<longleftrightarrow> (\<exists>k<64. n = 2 ^ k)"

lemma is_pow2_pos: "is_pow2 n \<Longrightarrow> 0 < n"
  by (auto simp: is_pow2_def)

lemma is_pow2_bound: "is_pow2 n \<Longrightarrow> n \<le> 2 ^ 63"
proof -
  assume "is_pow2 n"
  then obtain k where "k < 64" "n = 2 ^ k" by (auto simp: is_pow2_def)
  then show ?thesis using power_increasing [of k 63 "2 :: nat"] by simp
qed

lemma is_pow2_dvd: "is_pow2 n \<Longrightarrow> n dvd 2 ^ 64"
proof -
  assume "is_pow2 n"
  then obtain k where "k < 64" "n = 2 ^ k" by (auto simp: is_pow2_def)
  then show ?thesis using le_imp_power_dvd [of k 64 "2 :: nat"] by simp
qed

lemma is_pow2_power [simp]: "k < 64 \<Longrightarrow> is_pow2 (2 ^ k)"
  by (auto simp: is_pow2_def)

lemma is_pow2_numerals [simp]: "is_pow2 8" "is_pow2 32" "is_pow2 128"
  using is_pow2_power [of 3] is_pow2_power [of 5] is_pow2_power [of 7] by simp_all

lemma is_pow2_double: "is_pow2 n \<Longrightarrow> n < 2 ^ 63 \<Longrightarrow> is_pow2 (2 * n)"
proof -
  assume "is_pow2 n" and n: "n < 2 ^ 63"
  then obtain k where "n = 2 ^ k" by (auto simp: is_pow2_def)
  with n have "k < 63" by (intro power_less_imp_less_exp [of "2 :: nat" k 63]) simp_all
  then have "Suc k < 64" by simp
  with \<open>n = 2 ^ k\<close> show ?thesis using is_pow2_power [of "Suc k"] by simp
qed

lemma mask_index_mod: assumes "is_pow2 n" shows "mask_index n w = unat w mod n"
proof -
  obtain k where k: "k < 64" "n = 2 ^ k" using assms by (auto simp: is_pow2_def)
  have "(of_nat n - 1 :: size_t) = mask k" by (simp add: k mask_eq_exp_minus_1)
  then show ?thesis
    by (simp add: mask_index_def k take_bit_eq_mask [symmetric] unsigned_take_bit_eq
        take_bit_eq_mod [where 'a = nat])
qed

lemma mask_index_less [simp]: "is_pow2 n \<Longrightarrow> mask_index n w < n"
  by (simp add: mask_index_mod is_pow2_pos)

text \<open>Subtracting one in \<open>size_t\<close>, written on naturals.\<close>

lemma wrap_pred:
  assumes "0 < x" "x < 2 ^ 64" shows "(x + (2 ^ 64 - 1)) mod 2 ^ 64 = (x - 1 :: nat)"
proof -
  obtain m where m: "x = Suc m" using assms(1) by (cases x) simp_all
  have "(Suc m + (2 ^ 64 - 1)) mod 2 ^ 64 = (m + 2 ^ 64) mod (2 ^ 64 :: nat)"
    by (rule arg_cong [of _ _ "\<lambda>x. x mod 2 ^ 64"]) simp
  also have "\<dots> = m" using assms(2) m by (simp only: mod_add_self2) simp
  finally show ?thesis by (simp only: m diff_Suc_1)
qed

text \<open>The next index round a ring of \<open>n\<close> slots, and the distance from one slot to another.\<close>

definition ring_next :: "nat \<Rightarrow> nat \<Rightarrow> nat" where
  "ring_next n i = (if Suc i = n then 0 else Suc i)"

definition ring_dist :: "nat \<Rightarrow> nat \<Rightarrow> nat \<Rightarrow> nat" where
  "ring_dist n a b = (if a \<le> b then b - a else b + n - a)"

lemma unat_of_nat_size: "i < 2 ^ 64 \<Longrightarrow> unat (of_nat i :: size_t) = i"
  by (simp add: unat_of_nat take_bit_nat_eq_self unsigned_of_nat)

lemma mask_index_of_nat: "is_pow2 n \<Longrightarrow> i < n \<Longrightarrow> mask_index n (of_nat i) = i"
  using is_pow2_bound [of n] by (simp add: mask_index_mod unat_of_nat_size)

lemma mask_index_next:
  assumes "is_pow2 n" "i < n"
  shows "mask_index n (of_nat i + 1) = ring_next n i"
proof -
  have "i + 1 < 2 ^ 64" using is_pow2_bound [OF assms(1)] assms(2) by simp
  then have "unat (of_nat (i + 1) :: size_t) = i + 1" by (rule unat_of_nat_size)
  then have "mask_index n (of_nat i + 1) = (i + 1) mod n"
    using assms(1) by (simp add: mask_index_mod add.commute)
  then show ?thesis using assms(2) by (auto simp: ring_next_def)
qed

lemma mask_index_diff:
  assumes n: "is_pow2 n" and ab: "a < n" "b < n"
  shows "mask_index n (of_nat b - of_nat a) = ring_dist n a b"
proof -
  have lt: "a < 2 ^ 64" "b < 2 ^ 64" using is_pow2_bound [OF n] ab by simp_all
  show ?thesis
  proof (cases "a \<le> b")
    case True
    then have eq: "(of_nat b - of_nat a :: size_t) = of_nat (b - a)" by (simp add: of_nat_diff)
    have "b - a < n" using ab by simp
    then show ?thesis using n True by (simp only: eq mask_index_of_nat ring_dist_def if_True)
  next
    case False
    then have lt': "2 ^ 64 - (a - b) < (2::nat) ^ 64" by simp
    have "(of_nat b - of_nat a :: size_t) = - of_nat (a - b)" using False by (simp add: of_nat_diff)
    also have "\<dots> = of_nat (2 ^ 64 - (a - b))"
      using lt False by (simp add: of_nat_diff)
    finally have eq: "mask_index n (of_nat b - of_nat a) = (2 ^ 64 - (a - b)) mod n"
      using lt' n by (simp only: mask_index_mod unat_of_nat_size)
    also obtain m where m: "(2::nat) ^ 64 = n * m" "0 < m"
      using is_pow2_dvd [OF n] by (metis dvdE mult_0_right neq0_conv power_not_zero zero_neq_numeral)
    have "(2::nat) ^ 64 - (a - b) = (n - (a - b)) + n * (m - 1)"
      using m ab False by (cases m) (simp_all add: algebra_simps)
    then have "((2::nat) ^ 64 - (a - b)) mod n = (n - (a - b)) mod n"
      by (simp only: mod_mult_self2)
    also have "\<dots> = n - (a - b)" using ab False by simp
    finally show ?thesis using eq ab False by (simp add: ring_dist_def)
  qed
qed

lemma ring_next_less [simp]: "i < n \<Longrightarrow> ring_next n i < n"
  by (simp add: ring_next_def)

lemma ring_dist_less [simp]: "a < n \<Longrightarrow> b < n \<Longrightarrow> ring_dist n a b < n"
  by (auto simp: ring_dist_def)

lemma ring_dist_self [simp]: "ring_dist n a a = 0"
  by (simp add: ring_dist_def)

lemma ring_dist_0_iff [simp]: "a < n \<Longrightarrow> b < n \<Longrightarrow> ring_dist n a b = 0 \<longleftrightarrow> a = b"
  by (auto simp: ring_dist_def)

lemma ring_dist_next:
  "a < n \<Longrightarrow> i < n \<Longrightarrow> ring_next n i \<noteq> a \<Longrightarrow> ring_dist n a (ring_next n i) = Suc (ring_dist n a i)"
  by (auto simp: ring_dist_def ring_next_def)

lemma ring_dist_add:
  "a < n \<Longrightarrow> b < n \<Longrightarrow> c < n \<Longrightarrow> ring_dist n a b + ring_dist n b c < n
    \<Longrightarrow> ring_dist n a c = ring_dist n a b + ring_dist n b c"
  by (auto simp: ring_dist_def split: if_splits)

lemma ring_dist_sub:
  "a < n \<Longrightarrow> b < n \<Longrightarrow> c < n \<Longrightarrow> ring_dist n a b \<le> ring_dist n a c
    \<Longrightarrow> ring_dist n b c = ring_dist n a c - ring_dist n a b"
  by (auto simp: ring_dist_def split: if_splits)

lemma ring_dist_inj: "a < n \<Longrightarrow> b < n \<Longrightarrow> c < n \<Longrightarrow> ring_dist n a b = ring_dist n a c \<Longrightarrow> b = c"
  by (auto simp: ring_dist_def split: if_splits)

lemma ring_dist_surj:
  assumes "a < n" "d < n" obtains j where "j < n" "ring_dist n a j = d"
proof
  show "(a + d) mod n < n" using assms by simp
  show "ring_dist n a ((a + d) mod n) = d"
    using assms by (cases "a + d < n") (auto simp: ring_dist_def mod_if)
qed

section \<open>Objects in memory as bytes\<close>

text \<open>The first \<open>n\<close> bytes of an integer object, least significant byte first.\<close>

primrec le_bytes :: "nat \<Rightarrow> 64 word \<Rightarrow> byte list" where
  "le_bytes 0 w = []"
| "le_bytes (Suc n) w = ucast w # le_bytes n (drop_bit 8 w)"

primrec of_le_bytes :: "byte list \<Rightarrow> 64 word" where
  "of_le_bytes [] = 0"
| "of_le_bytes (b # bs) = ucast b OR push_bit 8 (of_le_bytes bs)"

lemma length_le_bytes [simp]: "length (le_bytes n w) = n"
  by (induction n arbitrary: w) simp_all

lemma of_le_bytes_le_bytes: "of_le_bytes (le_bytes n w) = take_bit (8 * n) w"
proof (induction n arbitrary: w)
  case (Suc n)
  show ?case
    by (rule bit_eqI)
      (auto simp: Suc.IH bit_simps bit_or_iff bit_unsigned_iff bit_push_bit_iff bit_take_bit_iff)
qed simp

lemma le_bytes_roundtrip [simp]: "of_le_bytes (le_bytes 8 w) = w"
  using take_bit_length_eq [of w] by (simp add: of_le_bytes_le_bytes)

section \<open>Slots\<close>

lemma length_filter_update_Some:
  "i < length xs \<Longrightarrow> xs ! i = None \<Longrightarrow>
    length (filter (\<lambda>e. e \<noteq> None) (xs[i := Some v])) = Suc (length (filter (\<lambda>e. e \<noteq> None) xs))"
  by (induction xs arbitrary: i) (auto simp: nth_Cons split: nat.splits)

lemma length_filter_update_None:
  "i < length xs \<Longrightarrow> xs ! i \<noteq> None \<Longrightarrow>
    Suc (length (filter (\<lambda>e. e \<noteq> None) (xs[i := None]))) = length (filter (\<lambda>e. e \<noteq> None) xs)"
  by (induction xs arbitrary: i) (auto simp: nth_Cons split: nat.splits)

lemma free_slot_exists:
  assumes "length (filter (\<lambda>e. e \<noteq> None) xs) < length xs"
  obtains i where "i < length xs" "xs ! i = None"
proof -
  have "\<not> (\<forall>e\<in>set xs. e \<noteq> None)"
    using assms by (metis (mono_tags, lifting) filter_True less_irrefl)
  then show thesis using that by (metis in_set_conv_nth)
qed

end
