(* ===== verification/Hash_Functions.thy ===== *)
theory Hash_Functions
  imports Prelude
begin

text \<open>
  The hash functions of the library: Jenkins' one-at-a-time hash over memory and over strings
  (\<open>hashmap.c\<close>), the hash the pointer tracker uses for its keys (\<open>ptracker.c\<close>) and
  the \<open>murmur\<close> function of \<open>rpc_struct.c\<close>. A C \<open>char\<close> is signed on the platforms the build
  targets, so \<open>hash += *key\<close> adds the sign-extended character.
  The lemmas show that every round is a bijection of the running hash, so that inputs of one
  length that differ in a single byte never collide.
\<close>

section \<open>Rounds\<close>

definition hash_add_shl :: "nat \<Rightarrow> size_t \<Rightarrow> size_t" where
  "hash_add_shl n h = h + push_bit n h"

definition hash_xor_shr :: "nat \<Rightarrow> size_t \<Rightarrow> size_t" where
  "hash_xor_shr n h = h XOR drop_bit n h"

definition jenkins_round :: "size_t \<Rightarrow> size_t \<Rightarrow> size_t" where
  "jenkins_round h x = hash_xor_shr 6 (hash_add_shl 10 (h + x))"

definition jenkins_final :: "size_t \<Rightarrow> size_t" where
  "jenkins_final h = hash_add_shl 15 (hash_xor_shr 11 (hash_add_shl 3 h))"

section \<open>Hash functions of hashmap.c\<close>

fun hash_default_loop :: "size_t \<Rightarrow> byte list \<Rightarrow> size_t" where
  "hash_default_loop h [] = h"
| "hash_default_loop h (b # bs) = hash_default_loop (jenkins_round h (ucast b)) bs"

definition hashmap_hash_default :: "byte list \<Rightarrow> size_t" where
  "hashmap_hash_default data = jenkins_final (hash_default_loop 0 data)"

definition char_value :: "char \<Rightarrow> size_t" where
  "char_value c = scast (word_of_nat (of_char c) :: byte)"

fun hash_string_loop :: "size_t \<Rightarrow> string \<Rightarrow> size_t" where
  "hash_string_loop h [] = h"
| "hash_string_loop h (c # cs) = hash_string_loop (jenkins_round h (char_value c)) cs"

definition hashmap_hash_string :: "string \<Rightarrow> size_t" where
  "hashmap_hash_string key = jenkins_final (hash_string_loop 0 key)"

text \<open>\<open>tolower\<close> of the C locale; \<open>hash_string_i\<close> adds its \<open>int\<close> result.\<close>

definition tolower :: "char \<Rightarrow> size_t" where
  "tolower c = (if of_char c \<in> {65..90 :: nat} then char_value c + 32 else char_value c)"

fun hash_string_i_loop :: "size_t \<Rightarrow> string \<Rightarrow> size_t" where
  "hash_string_i_loop h [] = h"
| "hash_string_i_loop h (c # cs) = hash_string_i_loop (jenkins_round h (tolower c)) cs"

definition hashmap_hash_string_i :: "string \<Rightarrow> size_t" where
  "hashmap_hash_string_i key = jenkins_final (hash_string_i_loop 0 key)"

section \<open>Comparison of keys\<close>

text \<open>\<open>strcmp\<close> on the characters before the terminating NUL: only the sign of its result is
  specified, and the table only asks whether it is zero.\<close>

fun strcmp :: "string \<Rightarrow> string \<Rightarrow> int" where
  "strcmp [] [] = 0"
| "strcmp [] (d # ds) = - 1"
| "strcmp (c # cs) [] = 1"
| "strcmp (c # cs) (d # ds) =
     (if c = d then strcmp cs ds else if (of_char c :: nat) < of_char d then - 1 else 1)"

definition ptracker_hash_ptr :: "addr \<Rightarrow> size_t" where
  "ptracker_hash_ptr key = hashmap_hash_default (le_bytes 8 key)"

definition ptracker_ptr_cmp :: "addr \<Rightarrow> addr \<Rightarrow> int" where
  "ptracker_ptr_cmp k1 k2 = (if k1 \<noteq> k2 then 1 else 0)"

section \<open>murmur of \<open>rpc_struct.c\<close>\<close>

definition murmur_round :: "64 word \<Rightarrow> byte \<Rightarrow> 64 word" where
  "murmur_round h b = hash_xor_shr 47 ((h XOR ucast b) * 0x5bd1e9955bd1e995)"

fun murmur_loop :: "64 word \<Rightarrow> byte list \<Rightarrow> 64 word" where
  "murmur_loop h [] = h"
| "murmur_loop h (b # bs) = murmur_loop (murmur_round h b) bs"

text \<open>The length parameter is a \<open>uint32_t\<close>: only the first \<open>keylen\<close> bytes are read.\<close>

definition murmur :: "byte list \<Rightarrow> 32 word \<Rightarrow> 64 word" where
  "murmur inbuf keylen = murmur_loop 525201411107845655 (take (unat keylen) inbuf)"

section \<open>Rounds are bijections\<close>

lemma strcmp_eq_0 [simp]: "strcmp s t = 0 \<longleftrightarrow> s = t"
  by (induction s t rule: strcmp.induct) auto

lemma ptracker_ptr_cmp_eq_0 [simp]: "ptracker_ptr_cmp p q = 0 \<longleftrightarrow> p = q"
  by (simp add: ptracker_ptr_cmp_def)

lemma hash_xor_shr_inj:
  assumes n: "0 < n" and eq: "hash_xor_shr n g = hash_xor_shr n h"
  shows "g = h"
proof (rule bit_word_eqI)
  have bits: "bit (hash_xor_shr n w) i \<longleftrightarrow> bit w i \<noteq> bit w (n + i)" for w i
    by (simp add: hash_xor_shr_def bit_xor_iff bit_drop_bit_eq)
  have step: "bit g i = bit h i" if "bit g (i + n) = bit h (i + n)" for i
  proof -
    have "bit (hash_xor_shr n g) i = bit (hash_xor_shr n h) i" by (simp only: eq)
    moreover have "bit g (n + i) = bit h (n + i)" using that by (simp only: add.commute)
    ultimately show ?thesis unfolding bits by blast
  qed
  have "\<forall>j. d = 64 - j \<longrightarrow> bit g j = bit h j" for d
  proof (induction d rule: less_induct)
    case (less d)
    show ?case
    proof (intro allI impI)
      fix j assume d: "d = 64 - j"
      show "bit g j = bit h j"
      proof (cases "j < 64")
        case True
        then have "64 - (j + n) < d" using n d by simp
        then have "bit g (j + n) = bit h (j + n)" using less.IH by blast
        then show ?thesis using step True by blast
      next
        case False
        then show ?thesis by (simp add: bit_word.rep_eq)
      qed
    qed
  qed
  then show "bit g i = bit h i" for i by blast
qed

lemma mult_inverse_inj:
  assumes "c * d = (1 :: size_t)" "g * c = h * c" shows "g = h"
proof -
  have "g * c * d = h * c * d" by (simp only: assms(2))
  then show ?thesis by (simp only: mult.assoc assms(1) mult_1_right)
qed

lemma hash_add_shl_mult: "hash_add_shl n h = h * (1 + 2 ^ n)"
  by (simp add: hash_add_shl_def push_bit_eq_mult algebra_simps)

lemma hash_add_shl_inj:
  assumes "hash_add_shl n g = hash_add_shl n h" "n \<in> {3, 10, 15}"
  shows "g = h"
proof -
  have "\<exists>d. (1 + 2 ^ n) * d = (1 :: size_t)"
    using assms(2)
  proof (elim insertE emptyE)
    show "n = 3 \<Longrightarrow> ?thesis" by (intro exI [of _ "10248191152060862009"]) simp
    show "n = 10 \<Longrightarrow> ?thesis" by (intro exI [of _ "1151796703138937857"]) simp
    show "n = 15 \<Longrightarrow> ?thesis" by (intro exI [of _ "1152886321308467201"]) simp
  qed
  then obtain d where "(1 + 2 ^ n) * d = (1 :: size_t)" ..
  then show ?thesis
    using assms(1) by (simp only: hash_add_shl_mult) (rule mult_inverse_inj)
qed

lemma jenkins_round_inj: "jenkins_round g x = jenkins_round h y \<longleftrightarrow> g + x = h + y"
proof
  assume "jenkins_round g x = jenkins_round h y"
  then have "hash_add_shl 10 (g + x) = hash_add_shl 10 (h + y)"
    unfolding jenkins_round_def by (rule hash_xor_shr_inj [rotated]) simp
  then show "g + x = h + y" by (rule hash_add_shl_inj) simp
qed (simp add: jenkins_round_def)

lemma jenkins_final_inj: "jenkins_final g = jenkins_final h \<longleftrightarrow> g = h"
proof
  assume "jenkins_final g = jenkins_final h"
  then have "hash_xor_shr 11 (hash_add_shl 3 g) = hash_xor_shr 11 (hash_add_shl 3 h)"
    unfolding jenkins_final_def by (rule hash_add_shl_inj) simp
  then have "hash_add_shl 3 g = hash_add_shl 3 h" by (rule hash_xor_shr_inj [rotated]) simp
  then show "g = h" by (rule hash_add_shl_inj) simp
qed simp

lemma murmur_round_inj: "murmur_round g b = murmur_round h c \<longleftrightarrow> g XOR ucast b = h XOR ucast c"
proof
  assume "murmur_round g b = murmur_round h c"
  then have eq: "(g XOR ucast b) * 0x5bd1e9955bd1e995 = (h XOR ucast c) * 0x5bd1e9955bd1e995"
    unfolding murmur_round_def by (rule hash_xor_shr_inj [rotated]) simp
  have "0x5bd1e9955bd1e995 * 6066016189847116221 = (1 :: 64 word)" by simp
  then show "g XOR ucast b = h XOR ucast c" using eq by (rule mult_inverse_inj)
qed (simp add: murmur_round_def)

lemma xor_cancel_right: "g XOR w = h XOR w \<longleftrightarrow> g = (h :: 'a::len word)"
  by (metis xor.assoc xor.right_neutral xor_self_eq)

lemma ucast_byte_inj: "(ucast b :: 64 word) = ucast c \<longleftrightarrow> b = (c :: byte)"
proof
  assume "(ucast b :: 64 word) = ucast c"
  then have "(ucast (ucast b :: 64 word) :: byte) = ucast (ucast c :: 64 word)" by simp
  then show "b = c" by (simp add: ucast_up_ucast_id is_up_def source_size target_size)
qed simp

section \<open>Single-byte changes are never absorbed\<close>

lemma murmur_loop_inj: "length bs = n \<Longrightarrow> murmur_loop g bs = murmur_loop h bs \<longleftrightarrow> g = h"
  by (induction bs arbitrary: g h n) (simp_all add: murmur_round_inj xor_cancel_right)

lemma hash_default_loop_inj: "hash_default_loop g bs = hash_default_loop h bs \<longleftrightarrow> g = h"
  by (induction bs arbitrary: g h) (simp_all add: jenkins_round_inj)

lemma hash_string_loop_inj: "hash_string_loop g cs = hash_string_loop h cs \<longleftrightarrow> g = h"
  by (induction cs arbitrary: g h) (simp_all add: jenkins_round_inj)

lemma murmur_loop_append: "murmur_loop h (as @ bs) = murmur_loop (murmur_loop h as) bs"
  by (induction as arbitrary: h) simp_all

lemma hash_default_loop_append:
  "hash_default_loop h (as @ bs) = hash_default_loop (hash_default_loop h as) bs"
  by (induction as arbitrary: h) simp_all

lemma hash_string_loop_append:
  "hash_string_loop h (as @ bs) = hash_string_loop (hash_string_loop h as) bs"
  by (induction as arbitrary: h) simp_all

end
