(* ===== verification/Hashmap.thy ===== *)
theory Hashmap
  imports Hash_Functions "HOL-Library.Multiset"
begin

text \<open>
  The open-addressing hash table of \<open>src/hashmap.c\<close> and the macros of \<open>hashmap.h\<close> that the rest of
  the library calls it through: state, probing, backward-shift deletion, growth, iterators and the
  removal-safe \<open>foreach\<close> loops. A slot with a NULL key is \<open>None\<close>; NULL arguments are \<open>None\<close> too.
  Keys handed to \<open>key_free\<close> are returned as a list. Results of \<open>malloc\<close> are arguments (\<open>mem\<close>).
\<close>

section \<open>State\<close>

record ('k, 'v) hashmap_base =
  table_size_init :: nat
  table_size :: nat
  hb_size :: nat
  table :: "('k \<times> 'v) option list"
  hash :: "'k \<Rightarrow> size_t"
  compare :: "'k \<Rightarrow> 'k \<Rightarrow> int"
  key_dup :: "('k \<Rightarrow> 'k option) option"
  key_free :: bool

definition HASHMAP_SIZE_MIN :: nat where "HASHMAP_SIZE_MIN = 32"
definition HASHMAP_SIZE_DEFAULT :: nat where "HASHMAP_SIZE_DEFAULT = 128"

definition EINVAL :: int where "EINVAL = 22"
definition ENOMEM :: int where "ENOMEM = 12"
definition EFAULT :: int where "EFAULT = 14"
definition EEXIST :: int where "EEXIST = 17"
definition EADDRNOTAVAIL :: int where "EADDRNOTAVAIL = 99"

lemmas errno_defs = EINVAL_def ENOMEM_def EFAULT_def EEXIST_def EADDRNOTAVAIL_def

section \<open>Sizes and indices\<close>

definition HASHMAP_SIZE_MOD :: "('k, 'v) hashmap_base \<Rightarrow> size_t \<Rightarrow> nat" where
  "HASHMAP_SIZE_MOD hb val = mask_index (table_size hb) val"

definition HASHMAP_PROBE_NEXT :: "('k, 'v) hashmap_base \<Rightarrow> nat \<Rightarrow> nat" where
  "HASHMAP_PROBE_NEXT hb index = HASHMAP_SIZE_MOD hb (of_nat index + 1)"

fun bit_length :: "nat \<Rightarrow> nat" where
  "bit_length n = (if n = 0 then 0 else Suc (bit_length (n div 2)))"

declare bit_length.simps [simp del]

text \<open>\<open>__builtin_clzl\<close> is undefined on 0, and \<open>1 << s\<close> shifts an \<open>int\<close>.\<close>

definition builtin_clzl :: "nat \<Rightarrow> nat run" where
  "builtin_clzl x = (if x = 0 then Inl Undefined_Arith else Inr (64 - bit_length x))"

definition int_shl_one :: "nat \<Rightarrow> nat run" where
  "int_shl_one s = (if s < 31 then Inr (2 ^ s) else Inl Undefined_Arith)"

definition hashmap_calc_table_size :: "('k, 'v) hashmap_base \<Rightarrow> nat \<Rightarrow> nat run" where
  "hashmap_calc_table_size hb sz =
     (let ts = (sz + sz div 3) mod 2 ^ 64 in
      if ts < table_size_init hb then Inr (table_size_init hb)
      else andthen (builtin_clzl ((ts + (2 ^ 64 - 1)) mod 2 ^ 64)) (\<lambda>z. int_shl_one (64 - z)))"

definition hashmap_calc_index :: "('k, 'v) hashmap_base \<Rightarrow> 'k \<Rightarrow> nat" where
  "hashmap_calc_index hb key =
     HASHMAP_SIZE_MOD hb (hashmap_hash_default (le_bytes 8 (hash hb key)))"

section \<open>Probing\<close>

function next_populated :: "('k \<times> 'v) option list \<Rightarrow> nat \<Rightarrow> nat option" where
  "next_populated t i =
     (if i < length t then (if t ! i \<noteq> None then Some i else next_populated t (Suc i)) else None)"
  by pat_completeness auto
termination by (relation "measure (\<lambda>(t, i). length t - i)") auto

declare next_populated.simps [simp del]

definition hashmap_entry_get_populated :: "('k, 'v) hashmap_base \<Rightarrow> nat \<Rightarrow> nat option" where
  "hashmap_entry_get_populated hb entry =
     (if hb_size hb > 0 then next_populated (table hb) entry else None)"

fun entry_find_loop :: "('k, 'v) hashmap_base \<Rightarrow> 'k \<Rightarrow> bool \<Rightarrow> nat \<Rightarrow> nat \<Rightarrow> nat option" where
  "entry_find_loop hb key find_empty 0 index = None"
| "entry_find_loop hb key find_empty (Suc n) index =
     (case table hb ! index of
        None \<Rightarrow> if find_empty then Some index else None
      | Some (k, v) \<Rightarrow>
          if compare hb key k = 0 then Some index
          else entry_find_loop hb key find_empty n (HASHMAP_PROBE_NEXT hb index))"

definition hashmap_entry_find :: "('k, 'v) hashmap_base \<Rightarrow> 'k \<Rightarrow> bool \<Rightarrow> nat option" where
  "hashmap_entry_find hb key find_empty =
     entry_find_loop hb key find_empty (table_size hb) (hashmap_calc_index hb key)"

text \<open>Backward-shift deletion: \<open>removed\<close> is the slot to refill, whose stale entry stays in place
  until it is overwritten or cleared at the end.\<close>

fun entry_remove_loop :: "('k, 'v) hashmap_base \<Rightarrow> nat \<Rightarrow> nat \<Rightarrow> nat \<Rightarrow> ('k \<times> 'v) option list
    \<Rightarrow> ('k \<times> 'v) option list \<times> nat" where
  "entry_remove_loop hb 0 index removed t = (t, removed)"
| "entry_remove_loop hb (Suc n) index removed t =
     (case t ! index of
        None \<Rightarrow> (t, removed)
      | Some (k, v) \<Rightarrow>
          let entry_index = hashmap_calc_index hb k in
          if HASHMAP_SIZE_MOD hb (of_nat index - of_nat entry_index)
               > HASHMAP_SIZE_MOD hb (of_nat removed - of_nat entry_index)
          then entry_remove_loop hb n (HASHMAP_PROBE_NEXT hb index) index (t[removed := Some (k, v)])
          else entry_remove_loop hb n (HASHMAP_PROBE_NEXT hb index) removed t)"

definition hashmap_entry_remove ::
    "('k, 'v) hashmap_base \<Rightarrow> nat \<Rightarrow> 'k list \<times> ('k, 'v) hashmap_base" where
  "hashmap_entry_remove hb removed =
     (let freed = (case table hb ! removed of Some (k, v) \<Rightarrow> if key_free hb then [k] else [] | None \<Rightarrow> []);
          hb' = hb\<lparr>hb_size := hb_size hb - 1\<rparr>;
          (t, last) = entry_remove_loop hb' (hb_size hb') (HASHMAP_PROBE_NEXT hb' removed) removed (table hb')
      in (freed, hb'\<lparr>table := t[last := None]\<rparr>))"

section \<open>Growth\<close>

fun rehash_loop ::
    "('k, 'v) hashmap_base \<Rightarrow> ('k \<times> 'v) option list \<Rightarrow> ('k, 'v) hashmap_base run" where
  "rehash_loop hb [] = Inr hb"
| "rehash_loop hb (None # old) = rehash_loop hb old"
| "rehash_loop hb (Some (k, v) # old) =
     (case hashmap_entry_find hb k True of
        None \<Rightarrow> Inl Assert_Failed
      | Some i \<Rightarrow> rehash_loop (hb\<lparr>table := (table hb)[i := Some (k, v)]\<rparr>) old)"

text \<open>The new table is cleared before the result of \<open>malloc\<close> is tested.\<close>

definition hashmap_rehash ::
    "bool \<Rightarrow> ('k, 'v) hashmap_base \<Rightarrow> nat \<Rightarrow> (int \<times> ('k, 'v) hashmap_base) run" where
  "hashmap_rehash mem hb new_size =
     andthen (check (new_size AND (new_size - 1) = 0)) (\<lambda>_.
     andthen (check (new_size \<ge> hb_size hb)) (\<lambda>_.
     if \<not> mem then Inl Null_Deref
     else andthen (rehash_loop (hb\<lparr>table_size := new_size, table := replicate new_size None\<rparr>) (table hb))
            (\<lambda>hb'. Inr (0, hb'))))"

definition grow_if_needed ::
    "bool \<Rightarrow> ('k, 'v) hashmap_base \<Rightarrow> (int \<times> ('k, 'v) hashmap_base) run" where
  "grow_if_needed mem hb =
     andthen (hashmap_calc_table_size hb (hb_size hb)) (\<lambda>ts.
       if ts > table_size hb then hashmap_rehash mem hb ts else Inr (0, hb))"

section \<open>Operations\<close>

definition hashmap_free_keys :: "('k, 'v) hashmap_base \<Rightarrow> 'k list" where
  "hashmap_free_keys hb =
     (if \<not> key_free hb \<or> hb_size hb = 0 then []
      else map (\<lambda>e. fst (the e)) (filter (\<lambda>e. e \<noteq> None) (table hb)))"

definition hashmap_base_init ::
    "('k \<Rightarrow> size_t) \<Rightarrow> ('k \<Rightarrow> 'k \<Rightarrow> int) \<Rightarrow> ('k, 'v) hashmap_base" where
  "hashmap_base_init hash_func compare_func =
     \<lparr>table_size_init = HASHMAP_SIZE_DEFAULT, table_size = 0, hb_size = 0, table = [],
      hash = hash_func, compare = compare_func, key_dup = None, key_free = False\<rparr>"

text \<open>After the \<open>memset\<close> of the cleanup the function pointers are NULL; calling them is undefined and
  the placeholders below stand for them.\<close>

definition hashmap_base_cleanup :: "('k, 'v) hashmap_base \<Rightarrow> 'k list \<times> ('k, 'v) hashmap_base" where
  "hashmap_base_cleanup hb =
     (hashmap_free_keys hb,
      \<lparr>table_size_init = 0, table_size = 0, hb_size = 0, table = [],
       hash = (\<lambda>_. 0), compare = (\<lambda>_ _. 0), key_dup = None, key_free = False\<rparr>)"

definition hashmap_base_set_key_alloc_funcs ::
    "('k, 'v) hashmap_base \<Rightarrow> ('k \<Rightarrow> 'k option) option \<Rightarrow> bool \<Rightarrow> ('k, 'v) hashmap_base run" where
  "hashmap_base_set_key_alloc_funcs hb key_dup_func key_free_func =
     andthen (check (hb_size hb = 0))
       (\<lambda>_. Inr (hb\<lparr>key_dup := key_dup_func, key_free := key_free_func\<rparr>))"

definition hashmap_base_reserve ::
    "bool \<Rightarrow> ('k, 'v) hashmap_base \<Rightarrow> nat \<Rightarrow> (int \<times> ('k, 'v) hashmap_base) run" where
  "hashmap_base_reserve mem hb capacity =
     (let old_size_init = table_size_init hb; hb1 = hb\<lparr>table_size_init := HASHMAP_SIZE_MIN\<rparr> in
      andthen (hashmap_calc_table_size hb1 capacity) (\<lambda>ts.
        let hb2 = hb1\<lparr>table_size_init := ts\<rparr> in
        if ts > table_size hb2 then
          andthen (hashmap_rehash mem hb2 ts) (\<lambda>(r, hb3).
            Inr (r, if r < 0 then hb3\<lparr>table_size_init := old_size_init\<rparr> else hb3))
        else Inr (0, hb2)))"

definition hashmap_base_put :: "bool \<Rightarrow> ('k, 'v) hashmap_base \<Rightarrow> 'k option \<Rightarrow> 'v option
    \<Rightarrow> (int \<times> ('k, 'v) hashmap_base) run" where
  "hashmap_base_put mem hb key data =
     (case (key, data) of
        (Some k, Some d) \<Rightarrow>
          andthen (grow_if_needed mem hb) (\<lambda>(r, hb).
            case hashmap_entry_find hb k True of
              None \<Rightarrow> Inr (if r < 0 then r else - EADDRNOTAVAIL, hb)
            | Some i \<Rightarrow>
                if table hb ! i \<noteq> None then Inr (- EEXIST, hb)
                else (case key_dup hb of
                        None \<Rightarrow> Inr (0, hb\<lparr>table := (table hb)[i := Some (k, d)], hb_size := Suc (hb_size hb)\<rparr>)
                      | Some dup \<Rightarrow>
                          (case dup k of
                             None \<Rightarrow> Inr (- ENOMEM, hb)
                           | Some k' \<Rightarrow>
                               Inr (0, hb\<lparr>table := (table hb)[i := Some (k', d)], hb_size := Suc (hb_size hb)\<rparr>))))
      | _ \<Rightarrow> Inr (- EINVAL, hb))"

definition hashmap_base_insert :: "bool \<Rightarrow> ('k, 'v) hashmap_base \<Rightarrow> 'k option \<Rightarrow> 'v option
    \<Rightarrow> (int \<times> 'v option \<times> ('k, 'v) hashmap_base) run" where
  "hashmap_base_insert mem hb key data =
     (case (key, data) of
        (Some k, Some d) \<Rightarrow>
          andthen (grow_if_needed mem hb) (\<lambda>(r, hb).
            case hashmap_entry_find hb k True of
              None \<Rightarrow> Inr (if r < 0 then r else - EADDRNOTAVAIL, None, hb)
            | Some i \<Rightarrow>
                (case table hb ! i of
                   Some (k0, d0) \<Rightarrow>
                     Inr (r, if d = d0 then None else Some d0, hb\<lparr>table := (table hb)[i := Some (k0, d)]\<rparr>)
                 | None \<Rightarrow>
                     (case key_dup hb of
                        None \<Rightarrow> Inr (1, None, hb\<lparr>table := (table hb)[i := Some (k, d)], hb_size := Suc (hb_size hb)\<rparr>)
                      | Some dup \<Rightarrow>
                          (case dup k of
                             None \<Rightarrow> Inr (- ENOMEM, None, hb)
                           | Some k' \<Rightarrow>
                               Inr (1, None, hb\<lparr>table := (table hb)[i := Some (k', d)], hb_size := Suc (hb_size hb)\<rparr>)))))
      | _ \<Rightarrow> Inr (- EINVAL, None, hb))"

definition hashmap_base_get :: "('k, 'v) hashmap_base \<Rightarrow> 'k option \<Rightarrow> 'v option" where
  "hashmap_base_get hb key =
     (case key of
        None \<Rightarrow> None
      | Some k \<Rightarrow>
          (case hashmap_entry_find hb k False of
             None \<Rightarrow> None
           | Some i \<Rightarrow> map_option snd (table hb ! i)))"

definition hashmap_base_remove ::
    "('k, 'v) hashmap_base \<Rightarrow> 'k option \<Rightarrow> 'v option \<times> 'k list \<times> ('k, 'v) hashmap_base" where
  "hashmap_base_remove hb key =
     (case key of
        None \<Rightarrow> (None, [], hb)
      | Some k \<Rightarrow>
          (case hashmap_entry_find hb k False of
             None \<Rightarrow> (None, [], hb)
           | Some i \<Rightarrow> (map_option snd (table hb ! i), hashmap_entry_remove hb i)))"

definition hashmap_base_clear :: "('k, 'v) hashmap_base \<Rightarrow> 'k list \<times> ('k, 'v) hashmap_base" where
  "hashmap_base_clear hb =
     (hashmap_free_keys hb, hb\<lparr>hb_size := 0, table := replicate (table_size hb) None\<rparr>)"

definition hashmap_base_reset :: "bool \<Rightarrow> ('k, 'v) hashmap_base \<Rightarrow> 'k list \<times> ('k, 'v) hashmap_base" where
  "hashmap_base_reset mem hb =
     (let hb' = (if table_size hb \<noteq> table_size_init hb \<and> mem
                 then hb\<lparr>hb_size := 0, table_size := table_size_init hb\<rparr> else hb\<lparr>hb_size := 0\<rparr>)
      in (hashmap_free_keys hb, hb'\<lparr>table := replicate (table_size hb') None\<rparr>))"

section \<open>Iterators\<close>

text \<open>An iterator position is a slot number; \<open>None\<close> is the NULL iterator.\<close>

definition hashmap_base_iter :: "('k, 'v) hashmap_base \<Rightarrow> nat option \<Rightarrow> nat option" where
  "hashmap_base_iter hb pos =
     hashmap_entry_get_populated hb (case pos of None \<Rightarrow> 0 | Some p \<Rightarrow> p)"

definition hashmap_base_iter_valid :: "('k, 'v) hashmap_base \<Rightarrow> nat option \<Rightarrow> bool" where
  "hashmap_base_iter_valid hb iter =
     (case iter of None \<Rightarrow> False | Some i \<Rightarrow> i < table_size hb \<and> table hb ! i \<noteq> None)"

definition hashmap_base_iter_next :: "('k, 'v) hashmap_base \<Rightarrow> nat option \<Rightarrow> bool \<times> nat option" where
  "hashmap_base_iter_next hb iter =
     (case iter of
        None \<Rightarrow> (False, None)
      | Some i \<Rightarrow> let i' = hashmap_entry_get_populated hb (i + 1) in (i' \<noteq> None, i'))"

definition hashmap_base_iter_find :: "('k, 'v) hashmap_base \<Rightarrow> 'k option \<Rightarrow> nat option" where
  "hashmap_base_iter_find hb key =
     (case key of None \<Rightarrow> None | Some k \<Rightarrow> hashmap_entry_find hb k False)"

definition hashmap_base_iter_remove ::
    "('k, 'v) hashmap_base \<Rightarrow> nat option \<Rightarrow> bool \<times> nat option \<times> 'k list \<times> ('k, 'v) hashmap_base" where
  "hashmap_base_iter_remove hb iter =
     (case iter of
        None \<Rightarrow> (False, None, [], hb)
      | Some i \<Rightarrow>
          let (freed, hb') = (if table hb ! i \<noteq> None then hashmap_entry_remove hb i else ([], hb));
              i' = hashmap_entry_get_populated hb' i
          in (i' \<noteq> None, i', freed, hb'))"

definition hashmap_base_iter_get_key :: "('k, 'v) hashmap_base \<Rightarrow> nat option \<Rightarrow> 'k option" where
  "hashmap_base_iter_get_key hb iter =
     (case iter of None \<Rightarrow> None | Some i \<Rightarrow> map_option fst (table hb ! i))"

definition hashmap_base_iter_get_data :: "('k, 'v) hashmap_base \<Rightarrow> nat option \<Rightarrow> 'v option" where
  "hashmap_base_iter_get_data hb iter =
     (case iter of None \<Rightarrow> None | Some i \<Rightarrow> map_option snd (table hb ! i))"

definition hashmap_base_iter_set_data ::
    "('k, 'v) hashmap_base \<Rightarrow> nat option \<Rightarrow> 'v option \<Rightarrow> int \<times> ('k, 'v) hashmap_base" where
  "hashmap_base_iter_set_data hb iter data =
     (case iter of
        None \<Rightarrow> (- EFAULT, hb)
      | Some i \<Rightarrow>
          (case data of
             None \<Rightarrow> (- EINVAL, hb)
           | Some d \<Rightarrow> (0, hb\<lparr>table := (table hb)[i := map_option (\<lambda>(k, _). (k, d)) (table hb ! i)]\<rparr>)))"

section \<open>Statistics\<close>

fun collisions_loop :: "('k, 'v) hashmap_base \<Rightarrow> 'k \<Rightarrow> nat \<Rightarrow> nat \<Rightarrow> nat \<Rightarrow> nat" where
  "collisions_loop hb key 0 i index = i"
| "collisions_loop hb key (Suc n) i index =
     (case table hb ! index of
        None \<Rightarrow> 0
      | Some (k, v) \<Rightarrow>
          if compare hb key k = 0 then i
          else collisions_loop hb key n (Suc i) (HASHMAP_PROBE_NEXT hb index))"

definition hashmap_base_collisions :: "('k, 'v) hashmap_base \<Rightarrow> 'k option \<Rightarrow> nat" where
  "hashmap_base_collisions hb key =
     (case key of
        None \<Rightarrow> 0
      | Some k \<Rightarrow> collisions_loop hb k (table_size hb) 0 (hashmap_calc_index hb k))"

section \<open>The typed macros of the header\<close>

text \<open>The rest of the library passes non-NULL keys and data; allocations succeed.\<close>

definition hashmap_get :: "('k, 'v) hashmap_base \<Rightarrow> 'k \<Rightarrow> 'v option" where
  "hashmap_get hb key = hashmap_base_get hb (Some key)"

definition hashmap_contains :: "('k, 'v) hashmap_base \<Rightarrow> 'k \<Rightarrow> bool" where
  "hashmap_contains hb key = (hashmap_get hb key \<noteq> None)"

definition hashmap_put :: "('k, 'v) hashmap_base \<Rightarrow> 'k \<Rightarrow> 'v \<Rightarrow> (int \<times> ('k, 'v) hashmap_base) run" where
  "hashmap_put hb key data = hashmap_base_put True hb (Some key) (Some data)"

definition hashmap_insert :: "('k, 'v) hashmap_base \<Rightarrow> 'k \<Rightarrow> 'v \<Rightarrow> (int \<times> ('k, 'v) hashmap_base) run" where
  "hashmap_insert hb key data =
     andthen (hashmap_base_insert True hb (Some key) (Some data)) (\<lambda>(r, old_data, hb'). Inr (r, hb'))"

definition hashmap_remove :: "('k, 'v) hashmap_base \<Rightarrow> 'k \<Rightarrow> 'v option \<times> ('k, 'v) hashmap_base" where
  "hashmap_remove hb key =
     (let (data, freed, hb') = hashmap_base_remove hb (Some key) in (data, hb'))"

definition hashmap_empty :: "('k, 'v) hashmap_base \<Rightarrow> bool" where
  "hashmap_empty hb = (hb_size hb = 0)"

text \<open>\<open>hashmap_foreach\<close>: the entries seen by a loop whose body leaves the table alone.\<close>

definition hashmap_iter :: "('k, 'v) hashmap_base \<Rightarrow> nat option" where
  "hashmap_iter hb = hashmap_base_iter hb None"

lemma next_populated_bounds: "next_populated t i = Some j \<Longrightarrow> i \<le> j \<and> j < length t"
proof (induction t i rule: next_populated.induct)
  case (1 t i)
  show ?case
  proof (cases "i < length t \<and> t ! i = None")
    case True
    then have "next_populated t (Suc i) = Some j"
      using "1.prems" by (simp add: next_populated.simps [of t i])
    then show ?thesis using "1.IH" True by auto
  qed (use "1.prems" in \<open>auto simp: next_populated.simps [of t i] split: if_splits\<close>)
qed

function hashmap_foreach :: "('k, 'v) hashmap_base \<Rightarrow> nat option \<Rightarrow> ('k \<times> 'v) list" where
  "hashmap_foreach hb it =
     (case hashmap_base_iter_get_key hb it of
        None \<Rightarrow> []
      | Some key \<Rightarrow>
          (case hashmap_base_iter_get_data hb it of
             None \<Rightarrow> []
           | Some data \<Rightarrow> (key, data) # hashmap_foreach hb (snd (hashmap_base_iter_next hb it))))"
  by pat_completeness auto
termination
proof (relation "measure (\<lambda>(hb, it). case it of None \<Rightarrow> 0 | Some i \<Rightarrow> Suc (length (table hb) - i))")
  fix hb :: "('k, 'v) hashmap_base" and it key data
  assume "hashmap_base_iter_get_key hb it = Some key"
  then show "((hb, snd (hashmap_base_iter_next hb it)), hb, it)
      \<in> measure (\<lambda>(hb, it). case it of None \<Rightarrow> 0 | Some i \<Rightarrow> Suc (length (table hb) - i))"
    by (auto simp: hashmap_base_iter_get_key_def hashmap_base_iter_next_def Let_def
        hashmap_entry_get_populated_def split: option.splits if_splits dest!: next_populated_bounds)
qed simp

declare hashmap_foreach.simps [simp del]

text \<open>\<open>hashmap_foreach_safe\<close>: the body may remove the current key. \<open>table_of\<close> finds the table in the
  state the body works on; after the body the slot is looked at again, and the iterator advances when
  it still holds the same key. Each call of the body uses one unit of fuel.\<close>

fun hashmap_foreach_safe :: "nat \<Rightarrow> ('s \<Rightarrow> ('k, 'v) hashmap_base) \<Rightarrow> ('k \<Rightarrow> 'v \<Rightarrow> 's \<Rightarrow> 's run)
    \<Rightarrow> nat option \<Rightarrow> 's \<Rightarrow> 's run" where
  "hashmap_foreach_safe 0 table_of body it s = Inl No_Fuel"
| "hashmap_foreach_safe (Suc n) table_of body it s =
     (case hashmap_base_iter_get_key (table_of s) it of
        None \<Rightarrow> Inr s
      | Some key \<Rightarrow>
          (case hashmap_base_iter_get_data (table_of s) it of
             None \<Rightarrow> Inr s
           | Some data \<Rightarrow>
               andthen (body key data s) (\<lambda>s'.
                 let hb = table_of s';
                     it' = (if hashmap_base_iter_get_key hb it = Some key
                            then snd (hashmap_base_iter_next hb it) else hashmap_base_iter hb it)
                 in hashmap_foreach_safe n table_of body it' s')))"

end
