(* ===== verification/Hashmap_Props.thy ===== *)
theory Hashmap_Props
  imports Hashmap
begin

text \<open>
  Correctness of the hash table: the probing invariant, what a probe finds, and that every operation
  keeps the invariant and acts on the table as on a finite map. All reasoning about positions is
  relative to a slot of the ring (\<open>ring_dist\<close>).
\<close>

section \<open>Contents of a table\<close>

definition slots :: "('k \<times> 'v) option list \<Rightarrow> ('k \<times> 'v) list" where
  "slots t = map the (filter (\<lambda>e. e \<noteq> None) t)"

definition hm_entries :: "('k, 'v) hashmap_base \<Rightarrow> ('k \<times> 'v) list" where
  "hm_entries hb = slots (table hb)"

definition hm_map :: "('k, 'v) hashmap_base \<Rightarrow> 'k \<rightharpoonup> 'v" where
  "hm_map hb = map_of (hm_entries hb)"

lemma slots_simps [simp]:
  "slots [] = []" "slots (None # t) = slots t" "slots (Some e # t) = e # slots t"
  "slots (t @ u) = slots t @ slots u" "slots (replicate n None) = []"
  by (simp_all add: slots_def)

lemma length_slots: "length (slots t) = length (filter (\<lambda>e. e \<noteq> None) t)"
  by (simp add: slots_def)

lemma set_slots: "e \<in> set (slots t) \<longleftrightarrow> (\<exists>i<length t. t ! i = Some e)"
proof -
  have "e \<in> set (slots t) \<longleftrightarrow> Some e \<in> set t"
  proof (induction t)
    case (Cons x t)
    then show ?case by (cases x) auto
  qed simp
  then show ?thesis by (metis in_set_conv_nth)
qed

lemma slots_split:
  "i < length t \<Longrightarrow> slots t = slots (take i t) @ (case t ! i of None \<Rightarrow> [] | Some e \<Rightarrow> [e]) @ slots (drop (Suc i) t)"
  by (subst id_take_nth_drop [of i t]) (auto split: option.splits)

lemma slots_update:
  "i < length t \<Longrightarrow> slots (t[i := x]) = slots (take i t) @ (case x of None \<Rightarrow> [] | Some e \<Rightarrow> [e]) @ slots (drop (Suc i) t)"
  by (simp add: upd_conv_take_nth_drop split: option.splits)

lemma mset_slots_set:
  "i < length t \<Longrightarrow> t ! i = None \<Longrightarrow> mset (slots (t[i := Some e])) = add_mset e (mset (slots t))"
  by (simp add: slots_update slots_split)

lemma mset_slots_clear:
  "i < length t \<Longrightarrow> t ! i = Some e \<Longrightarrow> mset (slots t) = add_mset e (mset (slots (t[i := None])))"
  by (simp add: slots_update slots_split)

lemma distinct_slots_nth:
  assumes "distinct (map fst (slots t))" "i < length t" "j < length t"
    "t ! i = Some (k, v)" "t ! j = Some (k, w)"
  shows "i = j"
proof (rule ccontr)
  assume ne: "i \<noteq> j"
  have "mset (slots t) = add_mset (k, v) (mset (slots (t[i := None])))"
    using assms by (simp add: mset_slots_clear)
  moreover have "mset (slots (t[i := None])) = add_mset (k, w) (mset (slots (t[i := None, j := None])))"
    using assms ne by (intro mset_slots_clear) simp_all
  ultimately have "mset (map fst (slots t)) = {#k, k#} + image_mset fst (mset (slots (t[i := None, j := None])))"
    by simp
  then have "2 \<le> count (mset (map fst (slots t))) k" by simp
  moreover have "count (mset (map fst (slots t))) k \<le> 1"
    using assms(1) by (simp add: distinct_count_atmost_1 del: mset_map)
  ultimately show False by simp
qed

section \<open>The probing invariant\<close>

definition home :: "('k, 'v) hashmap_base \<Rightarrow> 'k \<Rightarrow> nat" where
  "home hb k = hashmap_calc_index hb k"

definition probe_ok :: "('k, 'v) hashmap_base \<Rightarrow> ('k \<times> 'v) option list \<Rightarrow> bool" where
  "probe_ok hb t \<longleftrightarrow>
     (\<forall>j k v i. j < length t \<longrightarrow> t ! j = Some (k, v) \<longrightarrow> i < length t \<longrightarrow>
        ring_dist (length t) (home hb k) i < ring_dist (length t) (home hb k) j \<longrightarrow> t ! i \<noteq> None)"

definition tbl_inv :: "('k, 'v) hashmap_base \<Rightarrow> bool" where
  "tbl_inv hb \<longleftrightarrow>
     length (table hb) = table_size hb \<and> is_pow2 (table_size hb) \<and>
     length (slots (table hb)) < table_size hb \<and>
     probe_ok hb (table hb) \<and> distinct (map fst (slots (table hb)))"

definition cfg_ok :: "('k, 'v) hashmap_base \<Rightarrow> bool" where
  "cfg_ok hb \<longleftrightarrow>
     is_pow2 (table_size_init hb) \<and> 32 \<le> table_size_init hb \<and>
     (\<forall>k k'. compare hb k k' = 0 \<longleftrightarrow> k = k') \<and>
     (\<forall>dup k. key_dup hb = Some dup \<longrightarrow> dup k = Some k)"

definition hm_inv :: "('k, 'v) hashmap_base \<Rightarrow> bool" where
  "hm_inv hb \<longleftrightarrow>
     cfg_ok hb \<and> hb_size hb = length (slots (table hb)) \<and>
     (table_size hb = 0 \<and> table hb = [] \<or> tbl_inv hb)"

definition hm_room :: "('k, 'v) hashmap_base \<Rightarrow> bool" where
  "hm_room hb \<longleftrightarrow> hb_size hb + hb_size hb div 3 \<le> 2 ^ 30"

text \<open>The configuration of a table: what no operation but initialisation changes.\<close>

definition same_cfg :: "('k, 'v) hashmap_base \<Rightarrow> ('k, 'v) hashmap_base \<Rightarrow> bool" where
  "same_cfg hb hb' \<longleftrightarrow>
     hash hb' = hash hb \<and> compare hb' = compare hb \<and> key_dup hb' = key_dup hb \<and>
     key_free hb' = key_free hb \<and> table_size_init hb' = table_size_init hb"

lemma same_cfg_refl [simp]: "same_cfg hb hb"
  by (simp add: same_cfg_def)

lemma same_cfg_trans: "same_cfg a b \<Longrightarrow> same_cfg b c \<Longrightarrow> same_cfg a c"
  by (simp add: same_cfg_def)

lemma same_cfg_ok: "same_cfg hb hb' \<Longrightarrow> cfg_ok hb' = cfg_ok hb"
  by (simp add: same_cfg_def cfg_ok_def)

lemma home_less [simp]: "is_pow2 (table_size hb) \<Longrightarrow> home hb k < table_size hb"
  by (simp add: home_def hashmap_calc_index_def HASHMAP_SIZE_MOD_def)

lemma home_cong: "table_size hb' = table_size hb \<Longrightarrow> hash hb' = hash hb \<Longrightarrow> home hb' k = home hb k"
  by (simp add: home_def hashmap_calc_index_def HASHMAP_SIZE_MOD_def)

lemma probe_ok_cong:
  assumes "table_size hb' = table_size hb" "hash hb' = hash hb"
  shows "probe_ok hb' t = probe_ok hb t"
  unfolding probe_ok_def home_cong [OF assms] ..

lemma probe_next: "is_pow2 (table_size hb) \<Longrightarrow> i < table_size hb \<Longrightarrow>
    HASHMAP_PROBE_NEXT hb i = ring_next (table_size hb) i"
  by (simp add: HASHMAP_PROBE_NEXT_def HASHMAP_SIZE_MOD_def mask_index_next)

lemma probe_okD:
  assumes "probe_ok hb t" "j < length t" "t ! j = Some (k, v)" "i < length t"
    "ring_dist (length t) (home hb k) i < ring_dist (length t) (home hb k) j"
  shows "t ! i \<noteq> None"
  by (rule assms(1) [unfolded probe_ok_def, rule_format, OF assms(2-)])

lemma probe_okI:
  assumes "\<And>j k v i. j < length t \<Longrightarrow> t ! j = Some (k, v) \<Longrightarrow> i < length t \<Longrightarrow>
    ring_dist (length t) (home hb k) i < ring_dist (length t) (home hb k) j \<Longrightarrow> t ! i \<noteq> None"
  shows "probe_ok hb t"
  using assms unfolding probe_ok_def by blast

lemma probe_ok_empty [simp]: "probe_ok hb (replicate n None)"
  by (simp add: probe_ok_def)

lemma tbl_invD:
  assumes "tbl_inv hb"
  shows "length (table hb) = table_size hb" "is_pow2 (table_size hb)" "0 < table_size hb"
    "length (slots (table hb)) < table_size hb" "probe_ok hb (table hb)"
    "distinct (map fst (slots (table hb)))"
  using assms by (auto simp: tbl_inv_def is_pow2_pos)

lemma hm_map_Some:
  assumes "distinct (map fst (slots (table hb)))"
  shows "hm_map hb k = Some v \<longleftrightarrow> (\<exists>i<length (table hb). table hb ! i = Some (k, v))"
  using assms by (simp add: hm_map_def hm_entries_def map_of_eq_Some_iff set_slots)

lemma hm_map_None: "hm_map hb k = None \<longleftrightarrow> (\<forall>i<length (table hb). \<forall>v. table hb ! i \<noteq> Some (k, v))"
proof -
  have "hm_map hb k = None \<longleftrightarrow> (\<forall>v. (k, v) \<notin> set (slots (table hb)))"
    by (force simp: hm_map_def hm_entries_def map_of_eq_None_iff)
  then show ?thesis by (auto simp: set_slots)
qed

section \<open>What a probe finds\<close>

text \<open>A probe stops at the first slot, from its start, that is free or holds the key.\<close>

definition stops :: "('k, 'v) hashmap_base \<Rightarrow> 'k \<Rightarrow> nat \<Rightarrow> bool" where
  "stops hb key j \<longleftrightarrow>
     (case table hb ! j of None \<Rightarrow> True | Some (k, v) \<Rightarrow> compare hb key k = 0)"

lemma find_loop_first:
  assumes N: "is_pow2 (table_size hb)"
    and "i < table_size hb" "j < table_size hb" "stops hb key j"
    and "\<And>x. x < table_size hb \<Longrightarrow> ring_dist (table_size hb) i x < ring_dist (table_size hb) i j \<Longrightarrow> \<not> stops hb key x"
    and "ring_dist (table_size hb) i j < n"
  shows "entry_find_loop hb key fe n i = (if table hb ! j = None \<and> \<not> fe then None else Some j)"
  using assms(2-)
proof (induction n arbitrary: i)
  case 0
  then show ?case by simp
next
  case (Suc n)
  let ?N = "table_size hb"
  show ?case
  proof (cases "i = j")
    case True
    with Suc.prems(3) show ?thesis by (auto simp: stops_def split: option.splits)
  next
    case False
    then have "0 < ring_dist ?N i j" using Suc.prems by (simp add: zero_less_iff_neq_zero)
    then have "\<not> stops hb key i" using Suc.prems(1) Suc.prems(4) [of i] by simp
    then obtain k v where e: "table hb ! i = Some (k, v)" "compare hb key k \<noteq> 0"
      by (auto simp: stops_def split: option.splits)
    let ?i = "ring_next ?N i"
    have dist: "ring_dist ?N i x = Suc (ring_dist ?N ?i x)" if "x < ?N" "x \<noteq> i" for x
      using that Suc.prems(1) by (auto simp: ring_dist_def ring_next_def)
    have "entry_find_loop hb key fe n ?i = (if table hb ! j = None \<and> \<not> fe then None else Some j)"
    proof (rule Suc.IH)
      show "?i < ?N" "j < ?N" "stops hb key j" using Suc.prems by simp_all
      show "ring_dist ?N ?i j < n" using dist [of j] False Suc.prems by simp
      fix x assume x: "x < ?N" "ring_dist ?N ?i x < ring_dist ?N ?i j"
      show "\<not> stops hb key x"
      proof (cases "x = i")
        case False
        with x \<open>i \<noteq> j\<close> Suc.prems show ?thesis by (simp add: dist)
      qed (use \<open>\<not> stops hb key i\<close> in simp)
    qed
    then show ?thesis using e N Suc.prems(1) by (simp add: probe_next)
  qed
qed

lemma entry_find_first:
  assumes N: "is_pow2 (table_size hb)" and j: "j < table_size hb" "stops hb key j"
    and "\<And>x. x < table_size hb \<Longrightarrow>
      ring_dist (table_size hb) (home hb key) x < ring_dist (table_size hb) (home hb key) j \<Longrightarrow> \<not> stops hb key x"
  shows "hashmap_entry_find hb key fe = (if table hb ! j = None \<and> \<not> fe then None else Some j)"
  unfolding hashmap_entry_find_def home_def [symmetric]
  by (rule find_loop_first) (use assms in simp_all)

lemma entry_find_present:
  assumes inv: "tbl_inv hb" and cmp: "\<And>k k'. compare hb k k' = 0 \<longleftrightarrow> k = k'"
    and j: "j < table_size hb" "table hb ! j = Some (key, v)"
  shows "hashmap_entry_find hb key fe = Some j"
proof -
  note D = tbl_invD [OF inv]
  have "hashmap_entry_find hb key fe = (if table hb ! j = None \<and> \<not> fe then None else Some j)"
  proof (rule entry_find_first)
    show "stops hb key j" using j cmp by (simp add: stops_def)
    fix x assume x: "x < table_size hb"
      "ring_dist (table_size hb) (home hb key) x < ring_dist (table_size hb) (home hb key) j"
    then have "table hb ! x \<noteq> None"
      using probe_okD [OF D(5), of j key v x] j D(1) by simp
    then obtain k w where e: "table hb ! x = Some (k, w)" by auto
    have "k \<noteq> key"
    proof
      assume "k = key"
      then have "x = j" using distinct_slots_nth [OF D(6), of x j] e j x D(1) by simp
      with x show False by simp
    qed
    then show "\<not> stops hb key x" using e cmp by (simp add: stops_def)
  qed (use D j in simp_all)
  with j show ?thesis by simp
qed

lemma entry_find_absent:
  assumes inv: "tbl_inv hb" and cmp: "\<And>k k'. compare hb k k' = 0 \<longleftrightarrow> k = k'"
    and none: "hm_map hb key = None"
  obtains e where "e < table_size hb" "table hb ! e = None"
    "hashmap_entry_find hb key True = Some e" "hashmap_entry_find hb key False = None"
    "\<And>x. x < table_size hb \<Longrightarrow>
      ring_dist (table_size hb) (home hb key) x < ring_dist (table_size hb) (home hb key) e \<Longrightarrow> table hb ! x \<noteq> None"
proof -
  note D = tbl_invD [OF inv]
  let ?N = "table_size hb" and ?d = "ring_dist (table_size hb) (home hb key)"
  obtain e0 where "e0 < ?N" "table hb ! e0 = None"
    using free_slot_exists [of "table hb"] D(1,4) by (metis length_slots)
  then obtain e where e: "e < ?N" "table hb ! e = None"
    and least: "\<And>x. x < ?N \<Longrightarrow> table hb ! x = None \<Longrightarrow> ?d e \<le> ?d x"
    using ex_has_least_nat [of "\<lambda>x. x < ?N \<and> table hb ! x = None" e0 ?d] by auto
  have before: "table hb ! x \<noteq> None" if "x < ?N" "?d x < ?d e" for x
    using that least [of x] by force
  have "hashmap_entry_find hb key fe = (if table hb ! e = None \<and> \<not> fe then None else Some e)" for fe
  proof (rule entry_find_first)
    show "stops hb key e" using e by (simp add: stops_def)
    fix x assume x: "x < ?N" "?d x < ?d e"
    with before obtain k w where "table hb ! x = Some (k, w)" by fastforce
    moreover from this none x D(1) have "k \<noteq> key" by (auto simp: hm_map_None)
    ultimately show "\<not> stops hb key x" using cmp by (simp add: stops_def)
  qed (use D e in simp_all)
  with e before show thesis by (intro that [of e]) simp_all
qed

lemma entry_find_empty_table [simp]: "table_size hb = 0 \<Longrightarrow> hashmap_entry_find hb key fe = None"
  by (simp add: hashmap_entry_find_def)

end
