(* ===== verification/Hashmap_Correct.thy ===== *)
theory Hashmap_Correct
  imports Hashmap_Props
begin

text \<open>
  Each operation of the hash table against the finite map it stands for: insertion into the slot a
  probe found, backward-shift deletion, rehashing, and from these \<open>put\<close>, \<open>insert\<close>, \<open>get\<close>, \<open>remove\<close>,
  \<open>reserve\<close>, \<open>clear\<close> and \<open>reset\<close>, with the size bound under which growing is defined.
\<close>

section \<open>Maps of distinct entries\<close>

lemma map_of_add:
  assumes "mset xs = add_mset (k, v) (mset ys)" "distinct (map fst xs)"
  shows "map_of xs = (map_of ys)(k \<mapsto> v)"
proof -
  have m: "mset xs = mset ((k, v) # ys)" using assms(1) by simp
  have "mset (map fst xs) = mset (map fst ((k, v) # ys))"
    using m by (simp only: mset_map)
  then have "distinct (map fst ((k, v) # ys))" using assms(2) by (metis mset_eq_imp_distinct_iff)
  moreover have "set xs = set ((k, v) # ys)" using m by (rule mset_eq_setD)
  ultimately have "map_of xs = map_of ((k, v) # ys)"
    using map_of_inject_set assms(2) by blast
  then show ?thesis by simp
qed

lemma map_of_same:
  assumes "mset xs = mset ys" "distinct (map fst xs)"
  shows "map_of xs = map_of ys" "distinct (map fst ys)"
proof -
  have "mset (map fst xs) = mset (map fst ys)" using assms(1) by simp
  then show d: "distinct (map fst ys)" using assms(2) by (metis mset_eq_imp_distinct_iff)
  show "map_of xs = map_of ys"
    using map_of_inject_set [OF assms(2) d] mset_eq_setD [OF assms(1)] by simp
qed

lemma map_of_del:
  assumes "mset xs = add_mset (k, v) (mset ys)" "distinct (map fst xs)"
  shows "map_of ys = (map_of xs)(k := None)"
proof -
  have "mset (map fst xs) = mset (k # map fst ys)" using assms(1) by simp
  then have "distinct (k # map fst ys)" using assms(2) by (metis mset_eq_imp_distinct_iff)
  then have "map_of ys k = None" by (simp add: map_of_eq_None_iff)
  then show ?thesis using map_of_add [OF assms] by (simp add: fun_upd_idem)
qed

section \<open>Filling the slot a probe found\<close>

lemma tbl_inv_insert:
  assumes inv: "tbl_inv hb" and e: "e < table_size hb" "table hb ! e = None"
    and before: "\<And>x. x < table_size hb \<Longrightarrow>
      ring_dist (table_size hb) (home hb k) x < ring_dist (table_size hb) (home hb k) e \<Longrightarrow> table hb ! x \<noteq> None"
    and none: "hm_map hb k = None"
    and room: "Suc (length (slots (table hb))) < table_size hb"
    and hb': "table_size hb' = table_size hb" "hash hb' = hash hb" "table hb' = (table hb)[e := Some (k, v)]"
  shows "tbl_inv hb'" "mset (slots (table hb')) = add_mset (k, v) (mset (slots (table hb)))"
proof -
  note D = tbl_invD [OF inv]
  show m: "mset (slots (table hb')) = add_mset (k, v) (mset (slots (table hb)))"
    using e D(1) by (simp add: hb' mset_slots_set)
  have len: "length (slots (table hb')) = Suc (length (slots (table hb)))"
    using arg_cong [OF m, of size] by simp
  have "mset (map fst (slots (table hb'))) = mset (k # map fst (slots (table hb)))"
    using m by simp
  moreover have "distinct (k # map fst (slots (table hb)))"
    using D(6) none by (simp add: hm_map_def hm_entries_def map_of_eq_None_iff)
  ultimately have dist: "distinct (map fst (slots (table hb')))"
    by (metis mset_eq_imp_distinct_iff)
  have "probe_ok hb (table hb')"
  proof (rule probe_okI)
    fix j k' v' i
    assume j: "j < length (table hb')" "table hb' ! j = Some (k', v')" and i: "i < length (table hb')"
      and lt: "ring_dist (length (table hb')) (home hb k') i < ring_dist (length (table hb')) (home hb k') j"
    have "table hb ! i \<noteq> None"
    proof (cases "j = e")
      case True
      with j i lt before D(1) hb'(3) show ?thesis by simp
    next
      case False
      with j i lt hb'(3) show ?thesis using probe_okD [OF D(5), of j k' v' i] by simp
    qed
    then show "table hb' ! i \<noteq> None" using i hb'(3) by (cases "i = e") simp_all
  qed
  then show "tbl_inv hb'"
    using D dist room len hb' by (simp add: tbl_inv_def probe_ok_cong [OF hb'(1,2)])
qed

section \<open>Backward-shift deletion\<close>

lemma ring_dist_rel:
  "r0 < n \<Longrightarrow> a < n \<Longrightarrow> b < n \<Longrightarrow>
    ring_dist n a b = ring_dist n (ring_dist n r0 a) (ring_dist n r0 b)"
  by (auto simp: ring_dist_def)

text \<open>On a ring, seen from \<open>r0\<close>: a path that crosses \<open>r\<close> on its way to a \<open>j\<close> beyond \<open>x\<close> crosses \<open>x\<close>;
  and a path that crosses \<open>x\<close> on its way to a \<open>j\<close> before \<open>x\<close> goes all the way round.\<close>

lemma ring_path_beyond:
  assumes "r0 < n" "h < n" "r < n" "x < n" "j < n"
    and "ring_dist n r0 r < ring_dist n r0 x" "ring_dist n r0 x < ring_dist n r0 j"
    and "ring_dist n h r < ring_dist n h j"
  shows "ring_dist n h x < ring_dist n h j"
  using assms(6-8)
  unfolding ring_dist_rel [OF assms(1,2,3)] ring_dist_rel [OF assms(1,2,4)] ring_dist_rel [OF assms(1,2,5)]
  using ring_dist_less [OF assms(1,2)] ring_dist_less [OF assms(1,3)]
    ring_dist_less [OF assms(1,4)] ring_dist_less [OF assms(1,5)]
  unfolding ring_dist_def [of n "ring_dist n r0 h"]
  by (auto split: if_splits)

lemma ring_path_round:
  assumes "r0 < n" "h < n" "e < n" "x < n" "j < n"
    and "ring_dist n r0 j < ring_dist n r0 x" "ring_dist n r0 x < ring_dist n r0 e"
    and "ring_dist n h x < ring_dist n h j"
  shows "ring_dist n h e < ring_dist n h j"
  using assms(6-8)
  unfolding ring_dist_rel [OF assms(1,2,3)] ring_dist_rel [OF assms(1,2,4)] ring_dist_rel [OF assms(1,2,5)]
  using ring_dist_less [OF assms(1,2)] ring_dist_less [OF assms(1,3)]
    ring_dist_less [OF assms(1,4)] ring_dist_less [OF assms(1,5)]
  unfolding ring_dist_def [of n "ring_dist n r0 h"]
  by (auto split: if_splits)

text \<open>The state of the deletion loop: \<open>r\<close> is the hole, \<open>x\<close> the slot looked at, \<open>r0\<close> the slot the
  deletion started from. Chains are intact but for the hole, and the entries already looked at do
  not need it.\<close>

definition hole_ok :: "('k, 'v) hashmap_base \<Rightarrow> nat \<Rightarrow> nat \<Rightarrow> nat \<Rightarrow> ('k \<times> 'v) option list \<Rightarrow> bool" where
  "hole_ok hb r0 x r t \<longleftrightarrow>
     length t = table_size hb \<and> r0 < length t \<and> x < length t \<and> r < length t \<and>
     ring_dist (length t) r0 r < ring_dist (length t) r0 x \<and>
     (\<forall>j k v i. j < length t \<longrightarrow> j \<noteq> r \<longrightarrow> t ! j = Some (k, v) \<longrightarrow> i < length t \<longrightarrow>
        ring_dist (length t) (home hb k) i < ring_dist (length t) (home hb k) j \<longrightarrow> i = r \<or> t ! i \<noteq> None) \<and>
     (\<forall>j k v. j < length t \<longrightarrow> j \<noteq> r \<longrightarrow> t ! j = Some (k, v) \<longrightarrow>
        ring_dist (length t) r0 j < ring_dist (length t) r0 x \<longrightarrow>
        \<not> ring_dist (length t) (home hb k) r < ring_dist (length t) (home hb k) j) \<and>
     (\<forall>j<length t. ring_dist (length t) r0 j < ring_dist (length t) r0 x \<longrightarrow> t ! j \<noteq> None) \<and>
     (\<exists>e<length t. t ! e = None)"

lemma hole_okD:
  assumes "hole_ok hb r0 x r t"
  shows "length t = table_size hb" "r0 < length t" "x < length t" "r < length t"
    "ring_dist (length t) r0 r < ring_dist (length t) r0 x"
    "\<And>j k v i. j < length t \<Longrightarrow> j \<noteq> r \<Longrightarrow> t ! j = Some (k, v) \<Longrightarrow> i < length t \<Longrightarrow>
        ring_dist (length t) (home hb k) i < ring_dist (length t) (home hb k) j \<Longrightarrow> i = r \<or> t ! i \<noteq> None"
    "\<And>j k v. j < length t \<Longrightarrow> j \<noteq> r \<Longrightarrow> t ! j = Some (k, v) \<Longrightarrow>
        ring_dist (length t) r0 j < ring_dist (length t) r0 x \<Longrightarrow>
        \<not> ring_dist (length t) (home hb k) r < ring_dist (length t) (home hb k) j"
    "\<And>j. j < length t \<Longrightarrow> ring_dist (length t) r0 j < ring_dist (length t) r0 x \<Longrightarrow> t ! j \<noteq> None"
    "\<exists>e<length t. t ! e = None"
  using assms unfolding hole_ok_def by blast+

lemma hole_okI:
  assumes "length t = table_size hb" "r0 < length t" "x < length t" "r < length t"
    "ring_dist (length t) r0 r < ring_dist (length t) r0 x"
    "\<And>j k v i. j < length t \<Longrightarrow> j \<noteq> r \<Longrightarrow> t ! j = Some (k, v) \<Longrightarrow> i < length t \<Longrightarrow>
        ring_dist (length t) (home hb k) i < ring_dist (length t) (home hb k) j \<Longrightarrow> i = r \<or> t ! i \<noteq> None"
    "\<And>j k v. j < length t \<Longrightarrow> j \<noteq> r \<Longrightarrow> t ! j = Some (k, v) \<Longrightarrow>
        ring_dist (length t) r0 j < ring_dist (length t) r0 x \<Longrightarrow>
        \<not> ring_dist (length t) (home hb k) r < ring_dist (length t) (home hb k) j"
    "\<And>j. j < length t \<Longrightarrow> ring_dist (length t) r0 j < ring_dist (length t) r0 x \<Longrightarrow> t ! j \<noteq> None"
    "\<exists>e<length t. t ! e = None"
  shows "hole_ok hb r0 x r t"
  unfolding hole_ok_def
  by (intro conjI allI impI; (rule assms(1-5,9) | erule (4) assms(6) | erule (3) assms(7) | erule (1) assms(8)))

lemma hole_closes:
  assumes H: "hole_ok hb r0 x r t"
    and "\<And>j k v. j < length t \<Longrightarrow> j \<noteq> r \<Longrightarrow> t ! j = Some (k, v) \<Longrightarrow>
      \<not> ring_dist (length t) r0 j < ring_dist (length t) r0 x \<Longrightarrow>
      \<not> ring_dist (length t) (home hb k) r < ring_dist (length t) (home hb k) j"
  shows "probe_ok hb (t[r := None])"
proof (rule probe_okI)
  fix j k v i
  assume j: "j < length (t[r := None])" "t[r := None] ! j = Some (k, v)"
    and i: "i < length (t[r := None])"
    and lt: "ring_dist (length (t[r := None])) (home hb k) i < ring_dist (length (t[r := None])) (home hb k) j"
  note D = hole_okD [OF H]
  have jr: "j \<noteq> r" using j by (cases "j = r") simp_all
  have "t ! j = Some (k, v)" using j jr by simp
  then have "i = r \<or> t ! i \<noteq> None" using D(6) [of j k v i] j jr i lt by simp
  moreover have "i \<noteq> r"
    using lt j jr \<open>t ! j = Some (k, v)\<close> D(7) [of j k v] assms(2) [of j k v] by auto
  ultimately show "t[r := None] ! i \<noteq> None" by simp
qed

lemma hole_ok_next:
  assumes H: "hole_ok hb r0 x r t" and x: "t ! x \<noteq> None"
  shows "ring_dist (length t) r0 (ring_next (length t) x) = Suc (ring_dist (length t) r0 x)"
proof (rule ring_dist_next)
  note D = hole_okD [OF H]
  show "r0 < length t" "x < length t" by (fact D)+
  show "ring_next (length t) x \<noteq> r0"
  proof
    assume "ring_next (length t) x = r0"
    then have "Suc (ring_dist (length t) r0 x) = length t"
      using D(2,3) by (auto simp: ring_next_def ring_dist_def split: if_splits)
    obtain e where e: "e < length t" "t ! e = None" using D(9) by blast
    have "ring_dist (length t) r0 e \<le> ring_dist (length t) r0 x"
      using \<open>Suc _ = length t\<close> ring_dist_less [OF D(2) e(1)] by simp
    then have "ring_dist (length t) r0 e = ring_dist (length t) r0 x \<or> t ! e \<noteq> None"
      using D(8) [OF e(1)] by linarith
    then have "e = x" using e D(2,3) ring_dist_inj by metis
    with e x show False by simp
  qed
qed

lemma hole_ok_skip:
  assumes H: "hole_ok hb r0 x r t" and x: "t ! x = Some (k, v)"
    and stay: "\<not> ring_dist (length t) (home hb k) r < ring_dist (length t) (home hb k) x"
  shows "hole_ok hb r0 (ring_next (length t) x) r t"
proof (rule hole_okI)
  note D = hole_okD [OF H]
  have nx: "ring_dist (length t) r0 (ring_next (length t) x) = Suc (ring_dist (length t) r0 x)"
    using hole_ok_next [OF H] x by simp
  note bounds = D(1,2,3,4)
  show "length t = table_size hb" "r0 < length t" "r < length t" "\<exists>e<length t. t ! e = None"
    by (fact D)+
  show "ring_next (length t) x < length t" using D(3) by simp
  show "ring_dist (length t) r0 r < ring_dist (length t) r0 (ring_next (length t) x)"
    using D(5) nx by simp
  show "i = r \<or> t ! i \<noteq> None" if "j < length t" "j \<noteq> r" "t ! j = Some (k', v')" "i < length t"
    "ring_dist (length t) (home hb k') i < ring_dist (length t) (home hb k') j" for j k' v' i
    using D(6) [OF that] .
  have upto: "j = x \<or> ring_dist (length t) r0 j < ring_dist (length t) r0 x"
    if "j < length t" "ring_dist (length t) r0 j < ring_dist (length t) r0 (ring_next (length t) x)" for j
    using that nx D(2,3) ring_dist_inj [of r0 "length t" j x] by force
  show "\<not> ring_dist (length t) (home hb k') r < ring_dist (length t) (home hb k') j"
    if "j < length t" "j \<noteq> r" "t ! j = Some (k', v')"
      "ring_dist (length t) r0 j < ring_dist (length t) r0 (ring_next (length t) x)" for j k' v'
    using upto [OF that(1,4)] D(7) [OF that(1-3)] that x stay by auto
  show "t ! j \<noteq> None"
    if "j < length t" "ring_dist (length t) r0 j < ring_dist (length t) r0 (ring_next (length t) x)" for j
    using upto [OF that] D(8) that x by auto
qed

lemma hole_ok_move:
  assumes H: "hole_ok hb r0 x r t" and N: "is_pow2 (table_size hb)" and x: "t ! x = Some (k, v)"
    and move: "ring_dist (length t) (home hb k) r < ring_dist (length t) (home hb k) x"
  shows "hole_ok hb r0 (ring_next (length t) x) x (t[r := Some (k, v)])"
proof (rule hole_okI, unfold length_list_update)
  note D = hole_okD [OF H]
  let ?t = "t[r := Some (k, v)]" and ?d = "ring_dist (length t)"
  have home: "home hb k' < length t" for k' using N D(1) by simp
  have nx: "?d r0 (ring_next (length t) x) = Suc (?d r0 x)"
    using hole_ok_next [OF H] x by simp
  have tr: "t ! r \<noteq> None" using D(8) [OF D(4,5)] .
  then have occ: "?t ! j \<noteq> None \<longleftrightarrow> t ! j \<noteq> None" if "j < length t" for j
    using that D(4) by (cases "j = r") simp_all
  show "length t = table_size hb" "r0 < length t" "x < length t" by (fact D)+
  show "ring_next (length t) x < length t" using D(3) by simp
  show "?d r0 x < ?d r0 (ring_next (length t) x)" using nx by simp
  have upto: "j = x \<or> ?d r0 j < ?d r0 x"
    if "j < length t" "?d r0 j < ?d r0 (ring_next (length t) x)" for j
    using that nx D(2,3) ring_dist_inj [of r0 "length t" j x] by force
  show "?t ! j \<noteq> None" if "j < length t" "?d r0 j < ?d r0 (ring_next (length t) x)" for j
    using upto [OF that] D(8) [of j] that(1) x occ by auto
  obtain e where e: "e < length t" "t ! e = None" using D(9) by blast
  then show "\<exists>e<length t. ?t ! e = None" using tr D(4) by (metis nth_list_update_neq)
  show paths: "i = x \<or> ?t ! i \<noteq> None"
    if j: "j < length t" "j \<noteq> x" "?t ! j = Some (k', v')" "i < length t" "?d (home hb k') i < ?d (home hb k') j"
    for j k' v' i
  proof (cases "j = r")
    case True
    then have "k' = k" using j D(4) by simp
    then have "i = r \<or> t ! i \<noteq> None"
      using D(6) [of x k v i] D(3,5) x j True move by fastforce
    then show ?thesis using occ j(4) tr by blast
  next
    case False
    then have "i = r \<or> t ! i \<noteq> None" using D(6) [of j k' v' i] j by simp
    then show ?thesis using occ j(4) tr by blast
  qed
  show "\<not> ?d (home hb k') x < ?d (home hb k') j"
    if j: "j < length t" "j \<noteq> x" "?t ! j = Some (k', v')" "?d r0 j < ?d r0 (ring_next (length t) x)"
    for j k' v'
  proof
    assume lt: "?d (home hb k') x < ?d (home hb k') j"
    have "?d r0 j < ?d r0 x" using upto j by blast
    moreover have "?d r0 x < ?d r0 e"
      using D(8) [OF e(1)] e x ring_dist_inj [of r0 "length t" x e] D(2,3) by fastforce
    ultimately have "?d (home hb k') e < ?d (home hb k') j"
      using ring_path_round [OF D(2) home e(1) D(3) j(1)] lt by blast
    then have "e = x \<or> ?t ! e \<noteq> None" using paths [OF j(1-3) e(1)] by blast
    then show False using occ [OF e(1)] e x by auto
  qed
qed

lemma hole_ok_free_slot_ends:
  assumes H: "hole_ok hb r0 x r t" and N: "is_pow2 (table_size hb)" and x: "t ! x = None"
  shows "probe_ok hb (t[r := None])"
proof (rule hole_closes [OF H])
  fix j k v
  note D = hole_okD [OF H]
  assume j: "j < length t" "j \<noteq> r" "t ! j = Some (k, v)"
    "\<not> ring_dist (length t) r0 j < ring_dist (length t) r0 x"
  show "\<not> ring_dist (length t) (home hb k) r < ring_dist (length t) (home hb k) j"
  proof
    assume lt: "ring_dist (length t) (home hb k) r < ring_dist (length t) (home hb k) j"
    have "j \<noteq> x" using j x by auto
    then have "ring_dist (length t) r0 x < ring_dist (length t) r0 j"
      using j ring_dist_inj [of r0 "length t" j x] D(2,3) by fastforce
    moreover have "home hb k < length t" using N D(1) by simp
    ultimately have "ring_dist (length t) (home hb k) x < ring_dist (length t) (home hb k) j"
      using ring_path_beyond [OF D(2) _ D(4) D(3) j(1) D(5)] lt by blast
    then have "x = r \<or> t ! x \<noteq> None" using D(6) [OF j(1-3) D(3)] by blast
    then show False using x D(5) by auto
  qed
qed

lemma entry_remove_loop_correct:
  assumes "hole_ok hb r0 x r t" "is_pow2 (table_size hb)"
    and "card {j. j < length t \<and> t ! j \<noteq> None \<and> ring_dist (length t) r0 x \<le> ring_dist (length t) r0 j} \<le> n"
    and "entry_remove_loop hb n x r t = (t', r')"
  shows "probe_ok hb (t'[r' := None]) \<and> length t' = length t \<and>
    mset (slots (t'[r' := None])) = mset (slots (t[r := None]))"
  using assms
proof (induction n arbitrary: x r t)
  case 0
  let ?S = "{j. j < length t \<and> t ! j \<noteq> None \<and> ring_dist (length t) r0 x \<le> ring_dist (length t) r0 j}"
  have "?S = {}" using 0(3) by simp
  have "probe_ok hb (t[r := None])"
  proof (rule hole_closes [OF 0(1)])
    fix j k v
    assume "j < length t" "t ! j = Some (k, v)"
      "\<not> ring_dist (length t) r0 j < ring_dist (length t) r0 x"
    then have "j \<in> ?S" by simp
    with \<open>?S = {}\<close> show "\<not> ring_dist (length t) (home hb k) r < ring_dist (length t) (home hb k) j"
      by blast
  qed
  with 0(4) show ?case by auto
next
  case (Suc n)
  note D = hole_okD [OF Suc.prems(1)]
  let ?N = "length t"
  let ?S = "\<lambda>x. {j. j < ?N \<and> t ! j \<noteq> None \<and> ring_dist ?N r0 x \<le> ring_dist ?N r0 j}"
  show ?case
  proof (cases "t ! x")
    case None
    then show ?thesis
      using hole_ok_free_slot_ends [OF Suc.prems(1,2) None] Suc.prems(4) by auto
  next
    case (Some kv)
    obtain k v where x: "t ! x = Some (k, v)" using Some by (cases kv) simp
    let ?x = "ring_next ?N x"
    have nx: "ring_dist ?N r0 ?x = Suc (ring_dist ?N r0 x)"
      using hole_ok_next [OF Suc.prems(1)] x by simp
    have later: "Suc (ring_dist ?N r0 x) \<le> ring_dist ?N r0 j \<longleftrightarrow> ring_dist ?N r0 x \<le> ring_dist ?N r0 j \<and> j \<noteq> x"
      if "j < ?N" for j
      using ring_dist_inj [OF D(2,3) that] by (auto simp: le_less)
    have "?S ?x = ?S x - {x}"
      unfolding nx using later by blast
    moreover have "x \<in> ?S x" using D(3) x by simp
    ultimately have card: "card (?S ?x) \<le> n" using Suc.prems(3) by simp
    have dist: "HASHMAP_SIZE_MOD hb (of_nat a - of_nat (home hb k)) = ring_dist ?N (home hb k) a"
      if "a < ?N" for a
      using that Suc.prems(2) D(1) by (simp add: HASHMAP_SIZE_MOD_def mask_index_diff)
    have next_x: "HASHMAP_PROBE_NEXT hb x = ?x" using Suc.prems(2) D(1,3) by (simp add: probe_next)
    show ?thesis
    proof (cases "ring_dist ?N (home hb k) r < ring_dist ?N (home hb k) x")
      case True
      let ?t = "t[r := Some (k, v)]"
      have tr: "t ! r \<noteq> None" using D(8) [OF D(4,5)] .
      have "j < ?N \<and> ?t ! j \<noteq> None \<longleftrightarrow> j < ?N \<and> t ! j \<noteq> None" for j
        using tr D(4) by (cases "j = r") auto
      then have "{j. j < length ?t \<and> ?t ! j \<noteq> None \<and>
          ring_dist (length ?t) r0 ?x \<le> ring_dist (length ?t) r0 j} = ?S ?x"
        by (auto simp del: not_None_eq)
      then have card': "card {j. j < length ?t \<and> ?t ! j \<noteq> None \<and>
          ring_dist (length ?t) r0 ?x \<le> ring_dist (length ?t) r0 j} \<le> n"
        using card by simp
      have "entry_remove_loop hb n ?x x ?t = (t', r')"
        using Suc.prems(4) x True dist D(3,4) by (simp add: next_x home_def [symmetric])
      then have IH: "probe_ok hb (t'[r' := None]) \<and> length t' = length ?t \<and>
          mset (slots (t'[r' := None])) = mset (slots (?t[x := None]))"
        using Suc.IH [OF hole_ok_move [OF Suc.prems(1,2) x True] Suc.prems(2) card'] by blast
      have rx: "r \<noteq> x" using D(5) by auto
      let ?u = "t[r := None]"
      have "?t[x := None] = (?u[x := None])[r := Some (k, v)]"
        using rx by (metis list_update_overwrite list_update_swap)
      moreover have "mset (slots ((?u[x := None])[r := Some (k, v)])) = add_mset (k, v) (mset (slots (?u[x := None])))"
        using rx D(4) by (intro mset_slots_set) simp_all
      moreover have "mset (slots ?u) = add_mset (k, v) (mset (slots (?u[x := None])))"
        using rx x D(3) by (intro mset_slots_clear) simp_all
      ultimately show ?thesis using IH by simp
    next
      case False
      have "entry_remove_loop hb n ?x r t = (t', r')"
        using Suc.prems(4) x False dist D(3,4) by (simp add: next_x home_def [symmetric])
      then show ?thesis
        using Suc.IH [OF hole_ok_skip [OF Suc.prems(1) x False] Suc.prems(2) card] by blast
    qed
  qed
qed

lemma entry_remove_correct:
  assumes inv: "hm_inv hb" and r: "r < table_size hb" "table hb ! r = Some (k, v)"
    and rem: "hashmap_entry_remove hb r = (freed, hb')"
  shows "freed = (if key_free hb then [k] else [])" "hm_inv hb'" "same_cfg hb hb'"
    "table_size hb' = table_size hb"
    "mset (slots (table hb)) = add_mset (k, v) (mset (slots (table hb')))"
proof -
  have ti: "tbl_inv hb" using inv r by (auto simp: hm_inv_def)
  note D = tbl_invD [OF ti]
  let ?N = "table_size hb" and ?t = "table hb"
  let ?hb = "hb\<lparr>hb_size := hb_size hb - 1\<rparr>"
  have home: "home ?hb k' = home hb k'" for k' by (rule home_cong) simp_all
  have m: "mset (slots ?t) = add_mset (k, v) (mset (slots (?t[r := None])))"
    using r D(1) by (intro mset_slots_clear) simp_all
  have size: "hb_size hb = length (slots ?t)" using inv by (simp add: hm_inv_def)
  have size1: "hb_size hb = Suc (length (slots (?t[r := None])))"
    using arg_cong [OF m, of size] size by simp
  then have N2: "2 \<le> ?N" using D(4) size by simp
  have P1: "ring_dist ?N r (ring_next ?N r) = 1"
    using r(1) N2 by (auto simp: ring_next_def ring_dist_def)
  have only: "j = r" if "j < ?N" "ring_dist ?N r j < ring_dist ?N r (ring_next ?N r)" for j
    using that r(1) P1 by simp
  have hole: "hole_ok ?hb r (ring_next ?N r) r ?t"
  proof (rule hole_okI, unfold D(1) home)
    show "?N = table_size ?hb" "r < ?N" "r < ?N" "ring_next ?N r < ?N" using r by simp_all
    show "ring_dist ?N r r < ring_dist ?N r (ring_next ?N r)" using P1 by simp
    show "i = r \<or> ?t ! i \<noteq> None" if "j < ?N" "?t ! j = Some (k', v')" "i < ?N"
      "ring_dist ?N (home hb k') i < ring_dist ?N (home hb k') j" for j k' v' i
      using probe_okD [OF D(5), of j k' v' i] that D(1) by simp
    show "\<not> ring_dist ?N (home hb k') r < ring_dist ?N (home hb k') j"
      if "j < ?N" "j \<noteq> r" "ring_dist ?N r j < ring_dist ?N r (ring_next ?N r)" for j k'
      using only that by blast
    show "?t ! j \<noteq> None" if "j < ?N" "ring_dist ?N r j < ring_dist ?N r (ring_next ?N r)" for j
      using only [OF that] r by simp
    show "\<exists>e<?N. ?t ! e = None"
      using free_slot_exists [of ?t] D(1,4) by (metis length_slots)
  qed
  have later: "1 \<le> ring_dist ?N r j \<longleftrightarrow> j \<noteq> r" if "j < ?N" for j
    using ring_dist_0_iff [OF r(1) that] by auto
  let ?O = "{j. j < length ?t \<and> ?t ! j \<noteq> None}"
  have "{j. j < length ?t \<and> ?t ! j \<noteq> None \<and> ring_dist (length ?t) r (ring_next ?N r) \<le> ring_dist (length ?t) r j}
      = ?O - {r}"
    using later D(1) P1 by auto
  moreover have "card ?O = hb_size hb"
    using size by (simp add: length_slots length_filter_conv_card)
  moreover have "r \<in> ?O" using r D(1) by simp
  ultimately have card: "card {j. j < length ?t \<and> ?t ! j \<noteq> None \<and>
      ring_dist (length ?t) r (ring_next ?N r) \<le> ring_dist (length ?t) r j} \<le> hb_size ?hb"
    by simp
  obtain t' r' where loop: "entry_remove_loop ?hb (hb_size ?hb) (ring_next ?N r) r ?t = (t', r')"
    by (cases "entry_remove_loop ?hb (hb_size ?hb) (ring_next ?N r) r ?t")
  have C: "probe_ok ?hb (t'[r' := None])" "length t' = length ?t"
    "mset (slots (t'[r' := None])) = mset (slots (?t[r := None]))"
    using entry_remove_loop_correct [OF hole _ card loop] D(2) by simp_all
  have next_r: "HASHMAP_PROBE_NEXT ?hb r = ring_next ?N r"
    using probe_next [of ?hb r] D(2) r by simp
  have hb': "hb' = ?hb\<lparr>table := t'[r' := None]\<rparr>" "freed = (if key_free hb then [k] else [])"
    using rem loop r by (simp_all add: hashmap_entry_remove_def next_r [simplified] Let_def)
  show "freed = (if key_free hb then [k] else [])" by (fact hb')
  show cfg: "same_cfg hb hb'" and N: "table_size hb' = table_size hb"
    by (simp_all add: hb' same_cfg_def)
  show M: "mset (slots (table hb)) = add_mset (k, v) (mset (slots (table hb')))"
    using m C(3) by (simp add: hb')
  have "mset (map fst (slots (table hb))) = mset (k # map fst (slots (table hb')))"
    using M by simp
  then have "distinct (map fst (slots (table hb')))"
    using D(6) by (metis distinct.simps(2) mset_eq_imp_distinct_iff)
  moreover have len: "length (slots (table hb)) = Suc (length (slots (table hb')))"
    using arg_cong [OF M, of size] by simp
  moreover have "probe_ok hb' u = probe_ok ?hb u" for u
    by (rule probe_ok_cong) (simp_all add: hb')
  then have "probe_ok hb' (table hb')"
    using C(1) by (simp add: hb')
  ultimately have "tbl_inv hb'" using D C(2) by (simp add: tbl_inv_def hb')
  moreover have "hb_size hb' = length (slots (table hb'))" using size len by (simp add: hb')
  moreover have "cfg_ok hb'" using inv same_cfg_ok [OF cfg] by (simp add: hm_inv_def)
  ultimately show "hm_inv hb'" by (simp add: hm_inv_def)
qed

section \<open>Rehashing\<close>

lemma rehash_loop_correct:
  assumes "tbl_inv hb" "\<And>k k'. compare hb k k' = 0 \<longleftrightarrow> k = k'"
    and "distinct (map fst (slots (table hb) @ slots old))"
    and "length (slots (table hb)) + length (slots old) < table_size hb"
  obtains hb' where "rehash_loop hb old = Inr hb'" "tbl_inv hb'" "hb' = hb\<lparr>table := table hb'\<rparr>"
    "mset (slots (table hb')) = mset (slots (table hb)) + mset (slots old)"
  using assms
proof (induction old arbitrary: hb thesis)
  case Nil
  then show ?case by (intro Nil.prems(1) [of hb]) simp_all
next
  case (Cons e old)
  show ?case
  proof (cases e)
    case None
    then show ?thesis
      using Cons.IH [OF Cons.prems(1) Cons.prems(2,3)] Cons.prems(4,5) by simp
  next
    case (Some kv)
    obtain k v where e: "e = Some (k, v)" using Some by (cases kv) simp
    have "hm_map hb k = None"
      using Cons.prems(4) e by (auto simp: hm_map_def hm_entries_def map_of_eq_None_iff)
    then obtain i where i: "i < table_size hb" "table hb ! i = None" "hashmap_entry_find hb k True = Some i"
      "\<And>x. x < table_size hb \<Longrightarrow>
        ring_dist (table_size hb) (home hb k) x < ring_dist (table_size hb) (home hb k) i \<Longrightarrow> table hb ! x \<noteq> None"
      using entry_find_absent [OF Cons.prems(2,3)] by metis
    let ?hb = "hb\<lparr>table := (table hb)[i := Some (k, v)]\<rparr>"
    have ins: "tbl_inv ?hb" "mset (slots (table ?hb)) = add_mset (k, v) (mset (slots (table hb)))"
      using tbl_inv_insert [OF Cons.prems(2) i(1,2,4) \<open>hm_map hb k = None\<close>, where hb' = ?hb and v = v]
        Cons.prems(5) e by simp_all
    have "mset (map fst (slots (table ?hb) @ slots old)) = mset (map fst (slots (table hb) @ slots (e # old)))"
      using ins(2) e by simp
    then have d: "distinct (map fst (slots (table ?hb) @ slots old))"
      using Cons.prems(4) by (metis mset_eq_imp_distinct_iff)
    have len: "length (slots (table ?hb)) = Suc (length (slots (table hb)))"
      using arg_cong [OF ins(2), of size] by simp
    then have room: "length (slots (table ?hb)) + length (slots old) < table_size ?hb"
      using Cons.prems(5) e by simp
    obtain hb' where hb': "rehash_loop ?hb old = Inr hb'" "tbl_inv hb'" "hb' = ?hb\<lparr>table := table hb'\<rparr>"
      "mset (slots (table hb')) = mset (slots (table ?hb)) + mset (slots old)"
      using Cons.IH [OF _ ins(1) _ d room] Cons.prems(3) by auto
    show ?thesis
      using hb' ins(2) i(3) e by (intro Cons.prems(1) [of hb']) simp_all
  qed
qed

lemma pow2_and_pred: "is_pow2 n \<Longrightarrow> n AND (n - 1) = 0"
proof -
  assume "is_pow2 n"
  then obtain k where "n = 2 ^ k" by (auto simp: is_pow2_def)
  then have "n AND (n - 1) = take_bit k (2 ^ k)"
    by (simp add: take_bit_eq_mask mask_eq_exp_minus_1)
  then show ?thesis by (simp add: take_bit_eq_mod)
qed

lemma rehash_correct:
  assumes inv: "hm_inv hb" and n: "is_pow2 n" "hb_size hb < n"
  obtains hb' where "hashmap_rehash True hb n = Inr (0, hb')" "hm_inv hb'" "same_cfg hb hb'"
    "table_size hb' = n" "hb_size hb' = hb_size hb" "mset (slots (table hb')) = mset (slots (table hb))"
proof -
  let ?hb = "hb\<lparr>table_size := n, table := replicate n None\<rparr>"
  have size: "hb_size hb = length (slots (table hb))" and cfg: "cfg_ok hb"
    using inv by (simp_all add: hm_inv_def)
  have d: "distinct (map fst (slots (table hb)))"
    using inv by (auto simp: hm_inv_def tbl_inv_def)
  have "tbl_inv ?hb" using n by (simp add: tbl_inv_def is_pow2_pos)
  then obtain hb' where hb': "rehash_loop ?hb (table hb) = Inr hb'" "tbl_inv hb'"
    "hb' = ?hb\<lparr>table := table hb'\<rparr>" "mset (slots (table hb')) = mset (slots (table hb))"
    using rehash_loop_correct [of ?hb "table hb"] cfg d n size by (auto simp: cfg_ok_def)
  have fields: "same_cfg hb hb'" "table_size hb' = n" "hb_size hb' = hb_size hb"
    by (subst hb'(3), simp add: same_cfg_def)+
  have "hm_inv hb'"
    using hb'(2) fields cfg size same_cfg_ok [OF fields(1)] arg_cong [OF hb'(4), of size]
    by (simp add: hm_inv_def)
  moreover have "hashmap_rehash True hb n = Inr (0, hb')"
    using n hb'(1) pow2_and_pred [OF n(1)] by (simp add: hashmap_rehash_def)
  ultimately show thesis using fields hb'(4) by (intro that [of hb']) simp_all
qed

end
