(* ===== verification/Hashmap_Ops.thy ===== *)
theory Hashmap_Ops
  imports Hashmap_Correct
begin

text \<open>
  The public operations of the table as finite-map operations, the interface \<open>finite_table\<close> that the
  other components of the library rely on (the macros of \<open>hashmap.h\<close>), its consequences proved once,
  and its interpretation on the hash table.
\<close>

section \<open>The table size computed for a number of entries\<close>

lemma less_bit_length: "n < 2 ^ bit_length n"
proof (induction n rule: bit_length.induct)
  case (1 n)
  show ?case
  proof (cases "n = 0")
    case False
    then have "n div 2 < 2 ^ bit_length (n div 2)" by (rule 1)
    then have "n < 2 * 2 ^ bit_length (n div 2)" by linarith
    then show ?thesis using False by (simp add: bit_length.simps [of n])
  qed simp
qed

lemma bit_length_le: "n < 2 ^ k \<Longrightarrow> bit_length n \<le> k"
proof (induction k arbitrary: n)
  case 0
  then show ?case by (simp add: bit_length.simps)
next
  case (Suc k)
  then have "n div 2 < 2 ^ k" by simp
  then show ?case using Suc.IH [of "n div 2"] by (simp add: bit_length.simps [of n])
qed

lemma calc_table_size_correct:
  assumes cfg: "cfg_ok hb" and room: "sz + sz div 3 \<le> 2 ^ 30"
  obtains ts where "hashmap_calc_table_size hb sz = Inr ts" "is_pow2 ts"
    "sz + sz div 3 \<le> ts" "table_size_init hb \<le> ts"
proof -
  let ?ts = "sz + sz div 3"
  have init: "is_pow2 (table_size_init hb)" "32 \<le> table_size_init hb"
    using cfg by (simp_all add: cfg_ok_def)
  show thesis
  proof (cases "?ts < table_size_init hb")
    case True
    with room init that [of "table_size_init hb"] show thesis
      by (simp add: hashmap_calc_table_size_def)
  next
    case False
    with init have pos: "32 \<le> ?ts" by simp
    have pred: "(?ts + (2 ^ 64 - 1)) mod 2 ^ 64 = ?ts - 1"
      using room pos by (intro wrap_pred) (linarith | simp)+
    let ?b = "bit_length (?ts - 1)"
    have b30: "?b \<le> 30" using room pos by (intro bit_length_le) simp
    have "?ts \<le> 2 ^ ?b" using less_bit_length [of "?ts - 1"] pos by linarith
    moreover have "hashmap_calc_table_size hb sz = Inr (2 ^ ?b)"
      using False room pos b30 pred
      by (simp add: hashmap_calc_table_size_def builtin_clzl_def int_shl_one_def Let_def)
    moreover have "is_pow2 (2 ^ ?b)" using b30 by simp
    ultimately show thesis using False by (intro that [of "2 ^ ?b"]) simp_all
  qed
qed

lemma room_bound: "n + n div 3 \<le> 2 ^ 30 \<longleftrightarrow> n \<le> (805306368 :: nat)"
  by simp linarith

section \<open>Growing, then filling a slot\<close>

lemma grow_correct:
  assumes inv: "hm_inv hb" and room: "hm_room hb"
  obtains hb' where "grow_if_needed True hb = Inr (0, hb')" "hm_inv hb'" "tbl_inv hb'" "same_cfg hb hb'"
    "hb_size hb' = hb_size hb" "mset (slots (table hb')) = mset (slots (table hb))"
    "Suc (length (slots (table hb'))) < table_size hb'"
proof -
  have cfg: "cfg_ok hb" using inv by (simp add: hm_inv_def)
  then obtain ts where ts: "hashmap_calc_table_size hb (hb_size hb) = Inr ts" "is_pow2 ts"
    "hb_size hb + hb_size hb div 3 \<le> ts" "table_size_init hb \<le> ts"
    using calc_table_size_correct room by (metis hm_room_def)
  have ts32: "32 \<le> ts" using ts(4) cfg by (simp add: cfg_ok_def)
  have fits: "Suc (hb_size hb) < n" if "ts \<le> n" for n
    using that ts(3) ts32 by linarith
  have size: "hb_size hb = length (slots (table hb))" using inv by (simp add: hm_inv_def)
  show thesis
  proof (cases "ts > table_size hb")
    case True
    obtain hb' where hb': "hashmap_rehash True hb ts = Inr (0, hb')" "hm_inv hb'" "same_cfg hb hb'"
      "table_size hb' = ts" "hb_size hb' = hb_size hb" "mset (slots (table hb')) = mset (slots (table hb))"
      using rehash_correct [OF inv ts(2)] fits [of ts] by auto
    moreover have "grow_if_needed True hb = Inr (0, hb')"
      using ts(1) True hb'(1) by (simp add: grow_if_needed_def)
    moreover have "tbl_inv hb'" using hb'(2,4) ts32 by (simp add: hm_inv_def)
    moreover have "Suc (length (slots (table hb'))) < table_size hb'"
      using hb'(4) fits [of ts] size arg_cong [OF hb'(6), of size] by simp
    ultimately show thesis by (intro that [of hb']) simp_all
  next
    case False
    then have "tbl_inv hb" using inv ts32 by (simp add: hm_inv_def)
    moreover have "grow_if_needed True hb = Inr (0, hb)"
      using ts(1) False by (simp add: grow_if_needed_def)
    ultimately show thesis
      using inv size fits [of "table_size hb"] False by (intro that [of hb]) simp_all
  qed
qed

lemma hm_map_mset_eq:
  assumes "hm_inv hb" "mset (slots (table hb')) = mset (slots (table hb))"
  shows "hm_map hb' = hm_map hb"
proof -
  have "distinct (map fst (slots (table hb)))"
    using assms(1) by (auto simp: hm_inv_def tbl_inv_def)
  then show ?thesis
    using map_of_same [of "slots (table hb)" "slots (table hb')"] assms(2)
    by (simp add: hm_map_def hm_entries_def)
qed

lemma hm_inv_cmp: "hm_inv hb \<Longrightarrow> compare hb k k' = 0 \<longleftrightarrow> k = k'"
  by (simp add: hm_inv_def cfg_ok_def)

lemma hm_inv_distinct: "hm_inv hb \<Longrightarrow> distinct (map fst (hm_entries hb))"
  by (auto simp: hm_inv_def tbl_inv_def hm_entries_def)

lemma hm_inv_size: "hm_inv hb \<Longrightarrow> hb_size hb = length (hm_entries hb)"
  by (simp add: hm_inv_def hm_entries_def)

lemma hm_inv_cases:
  assumes "hm_inv hb"
  obtains (empty) "table_size hb = 0" "table hb = []" "hm_map hb = Map.empty"
  | (tbl) "tbl_inv hb"
  using assms by (auto simp: hm_inv_def hm_map_def hm_entries_def)

lemma find_hit:
  assumes inv: "hm_inv hb" and hit: "hm_map hb k = Some v"
  obtains j where "j < table_size hb" "table hb ! j = Some (k, v)" "\<And>fe. hashmap_entry_find hb k fe = Some j"
  using inv
proof (cases rule: hm_inv_cases)
  case empty
  then show ?thesis using hit by simp
next
  case tbl
  note D = tbl_invD [OF tbl]
  obtain j where "j < table_size hb" "table hb ! j = Some (k, v)"
    using hit hm_map_Some [OF D(6)] D(1) by auto
  then show ?thesis
    using entry_find_present [OF tbl hm_inv_cmp [OF inv]] that by blast
qed

lemma find_miss:
  assumes inv: "hm_inv hb" and miss: "hm_map hb k = None"
  shows "hashmap_entry_find hb k False = None"
  using inv
proof (cases rule: hm_inv_cases)
  case tbl
  then show ?thesis
    using entry_find_absent [OF tbl hm_inv_cmp [OF inv] miss] by blast
qed simp

lemma hm_inv_fill:
  assumes inv: "hm_inv hb" and ti: "tbl_inv hb" and none: "hm_map hb k = None"
    and room: "Suc (length (slots (table hb))) < table_size hb"
  obtains e where "hashmap_entry_find hb k True = Some e" "table hb ! e = None"
    "\<And>v. hm_inv (hb\<lparr>table := (table hb)[e := Some (k, v)], hb_size := Suc (hb_size hb)\<rparr>)"
    "\<And>v. mset (slots ((table hb)[e := Some (k, v)])) = add_mset (k, v) (mset (slots (table hb)))"
proof -
  obtain e where e: "e < table_size hb" "table hb ! e = None" "hashmap_entry_find hb k True = Some e"
    "\<And>x. x < table_size hb \<Longrightarrow>
      ring_dist (table_size hb) (home hb k) x < ring_dist (table_size hb) (home hb k) e \<Longrightarrow> table hb ! x \<noteq> None"
    using entry_find_absent [OF ti hm_inv_cmp [OF inv] none] by metis
  let ?hb = "\<lambda>v. hb\<lparr>table := (table hb)[e := Some (k, v)], hb_size := Suc (hb_size hb)\<rparr>"
  have ins: "tbl_inv (?hb v)" "mset (slots ((table hb)[e := Some (k, v)])) = add_mset (k, v) (mset (slots (table hb)))"
    for v
    using tbl_inv_insert [OF ti e(1,2,4) none room, where hb' = "?hb v" and v = v] by simp_all
  have "cfg_ok (?hb v)" for v
    using inv by (simp add: hm_inv_def cfg_ok_def)
  moreover have "length (slots ((table hb)[e := Some (k, v)])) = Suc (length (slots (table hb)))" for v
    using arg_cong [OF ins(2) [of v], of size] by simp
  ultimately have "hm_inv (?hb v)" for v
    using ins(1) inv by (simp add: hm_inv_def)
  then show thesis using e ins(2) that by blast
qed

section \<open>put, insert, get, remove\<close>

lemma put_new:
  assumes inv: "hm_inv hb" and room: "hm_room hb" and none: "hm_map hb k = None"
  obtains hb' where "hashmap_base_put True hb (Some k) (Some v) = Inr (0, hb')" "hm_inv hb'"
    "same_cfg hb hb'" "mset (hm_entries hb') = add_mset (k, v) (mset (hm_entries hb))"
proof -
  obtain hb1 where g: "grow_if_needed True hb = Inr (0, hb1)" "hm_inv hb1" "tbl_inv hb1" "same_cfg hb hb1"
    "hb_size hb1 = hb_size hb" "mset (slots (table hb1)) = mset (slots (table hb))"
    "Suc (length (slots (table hb1))) < table_size hb1"
    using grow_correct [OF inv room] by blast
  have "hm_map hb1 k = None" using hm_map_mset_eq [OF inv g(6)] none by simp
  then obtain e where e: "hashmap_entry_find hb1 k True = Some e" "table hb1 ! e = None"
    "\<And>v. hm_inv (hb1\<lparr>table := (table hb1)[e := Some (k, v)], hb_size := Suc (hb_size hb1)\<rparr>)"
    "\<And>v. mset (slots ((table hb1)[e := Some (k, v)])) = add_mset (k, v) (mset (slots (table hb1)))"
    using hm_inv_fill [OF g(2,3) _ g(7)] by metis
  let ?hb = "hb1\<lparr>table := (table hb1)[e := Some (k, v)], hb_size := Suc (hb_size hb1)\<rparr>"
  have "dup k = Some k" if "key_dup hb1 = Some dup" for dup
    using that g(2) by (simp add: hm_inv_def cfg_ok_def)
  then have "hashmap_base_put True hb (Some k) (Some v) = Inr (0, ?hb)"
    using g(1) e(1,2) by (auto simp: hashmap_base_put_def split: option.splits)
  moreover have "same_cfg hb ?hb" using g(4) by (simp add: same_cfg_def)
  ultimately show thesis
    using e(3,4) [of v] g(6) by (intro that [of ?hb]) (simp_all add: hm_entries_def)
qed

lemma put_old:
  assumes inv: "hm_inv hb" and room: "hm_room hb" and old: "hm_map hb k = Some w"
  obtains hb' where "hashmap_base_put True hb (Some k) (Some v) = Inr (- EEXIST, hb')" "hm_inv hb'"
    "same_cfg hb hb'" "mset (hm_entries hb') = mset (hm_entries hb)"
proof -
  obtain hb1 where g: "grow_if_needed True hb = Inr (0, hb1)" "hm_inv hb1" "same_cfg hb hb1"
    "mset (slots (table hb1)) = mset (slots (table hb))"
    using grow_correct [OF inv room] by metis
  have "hm_map hb1 k = Some w" using hm_map_mset_eq [OF inv g(4)] old by simp
  then obtain j where "table hb1 ! j = Some (k, w)" "hashmap_entry_find hb1 k True = Some j"
    using find_hit [OF g(2)] by metis
  then have "hashmap_base_put True hb (Some k) (Some v) = Inr (- EEXIST, hb1)"
    using g(1) by (simp add: hashmap_base_put_def)
  then show thesis using g by (intro that [of hb1]) (simp_all add: hm_entries_def)
qed

lemma insert_new:
  assumes inv: "hm_inv hb" and room: "hm_room hb" and none: "hm_map hb k = None"
  obtains hb' where "hashmap_base_insert True hb (Some k) (Some v) = Inr (1, None, hb')" "hm_inv hb'"
    "same_cfg hb hb'" "mset (hm_entries hb') = add_mset (k, v) (mset (hm_entries hb))"
proof -
  obtain hb1 where g: "grow_if_needed True hb = Inr (0, hb1)" "hm_inv hb1" "tbl_inv hb1" "same_cfg hb hb1"
    "mset (slots (table hb1)) = mset (slots (table hb))"
    "Suc (length (slots (table hb1))) < table_size hb1"
    using grow_correct [OF inv room] by metis
  have "hm_map hb1 k = None" using hm_map_mset_eq [OF inv g(5)] none by simp
  then obtain e where e: "hashmap_entry_find hb1 k True = Some e" "table hb1 ! e = None"
    "\<And>v. hm_inv (hb1\<lparr>table := (table hb1)[e := Some (k, v)], hb_size := Suc (hb_size hb1)\<rparr>)"
    "\<And>v. mset (slots ((table hb1)[e := Some (k, v)])) = add_mset (k, v) (mset (slots (table hb1)))"
    using hm_inv_fill [OF g(2,3) _ g(6)] by metis
  let ?hb = "hb1\<lparr>table := (table hb1)[e := Some (k, v)], hb_size := Suc (hb_size hb1)\<rparr>"
  have "dup k = Some k" if "key_dup hb1 = Some dup" for dup
    using that g(2) by (simp add: hm_inv_def cfg_ok_def)
  then have "hashmap_base_insert True hb (Some k) (Some v) = Inr (1, None, ?hb)"
    using g(1) e(1,2) by (auto simp: hashmap_base_insert_def split: option.splits)
  moreover have "same_cfg hb ?hb" using g(4) by (simp add: same_cfg_def)
  ultimately show thesis
    using e(3,4) [of v] g(5) by (intro that [of ?hb]) (simp_all add: hm_entries_def)
qed

lemma hm_inv_overwrite:
  assumes inv: "hm_inv hb" and j: "j < table_size hb" "table hb ! j = Some (k, w)"
  shows "hm_inv (hb\<lparr>table := (table hb)[j := Some (k, v)]\<rparr>)"
    "hm_map (hb\<lparr>table := (table hb)[j := Some (k, v)]\<rparr>) = (hm_map hb)(k \<mapsto> v)"
    "hb_size (hb\<lparr>table := (table hb)[j := Some (k, v)]\<rparr>) = hb_size hb"
proof -
  let ?t = "(table hb)[j := Some (k, v)]" and ?hb = "hb\<lparr>table := (table hb)[j := Some (k, v)]\<rparr>"
  have ti: "tbl_inv hb" using inv j by (auto simp: hm_inv_def)
  note D = tbl_invD [OF ti]
  let ?rest = "(table hb)[j := None]"
  have m: "mset (slots (table hb)) = add_mset (k, w) (mset (slots ?rest))"
    using j D(1) by (intro mset_slots_clear) simp_all
  have "?t = ?rest[j := Some (k, v)]" by simp
  then have m': "mset (slots ?t) = add_mset (k, v) (mset (slots ?rest))"
    using j D(1) by (metis length_list_update mset_slots_set nth_list_update_eq)
  have keys: "mset (map fst (slots ?t)) = mset (map fst (slots (table hb)))"
    using m m' by simp
  then have d: "distinct (map fst (slots ?t))" using D(6) by (metis mset_eq_imp_distinct_iff)
  have len: "length (slots ?t) = length (slots (table hb))"
    using arg_cong [OF m, of size] arg_cong [OF m', of size] by simp
  have "probe_ok hb ?t"
  proof (rule probe_okI)
    fix a k' v' i
    assume a: "a < length ?t" "?t ! a = Some (k', v')" "i < length ?t"
      "ring_dist (length ?t) (home hb k') i < ring_dist (length ?t) (home hb k') a"
    then obtain v'' where "table hb ! a = Some (k', v'')"
      using j by (cases "a = j") simp_all
    then have "table hb ! i \<noteq> None" using probe_okD [OF D(5), of a k' v'' i] a by simp
    then show "?t ! i \<noteq> None" using a by (cases "i = j") simp_all
  qed
  moreover have "probe_ok ?hb u = probe_ok hb u" for u by (rule probe_ok_cong) simp_all
  ultimately have "tbl_inv ?hb" using D d len by (simp add: tbl_inv_def)
  then show "hm_inv ?hb" using inv len by (simp add: hm_inv_def cfg_ok_def)
  have "map_of (slots ?t) = (map_of (slots ?rest))(k \<mapsto> v)" using map_of_add [OF m' d] .
  moreover have "map_of (slots (table hb)) = (map_of (slots ?rest))(k \<mapsto> w)" using map_of_add [OF m D(6)] .
  ultimately show "hm_map ?hb = (hm_map hb)(k \<mapsto> v)" by (simp add: hm_map_def hm_entries_def)
qed simp

lemma insert_old:
  assumes inv: "hm_inv hb" and room: "hm_room hb" and old: "hm_map hb k = Some w"
  obtains hb' where
    "hashmap_base_insert True hb (Some k) (Some v) = Inr (0, if v = w then None else Some w, hb')"
    "hm_inv hb'" "hm_map hb' = (hm_map hb)(k \<mapsto> v)" "hb_size hb' = hb_size hb"
proof -
  obtain hb1 where g: "grow_if_needed True hb = Inr (0, hb1)" "hm_inv hb1" "hb_size hb1 = hb_size hb"
    "mset (slots (table hb1)) = mset (slots (table hb))"
    using grow_correct [OF inv room] by metis
  have map: "hm_map hb1 = hm_map hb" using hm_map_mset_eq [OF inv g(4)] .
  then obtain j where j: "j < table_size hb1" "table hb1 ! j = Some (k, w)" "hashmap_entry_find hb1 k True = Some j"
    using find_hit [OF g(2)] old by metis
  then have "hashmap_base_insert True hb (Some k) (Some v) =
      Inr (0, if v = w then None else Some w, hb1\<lparr>table := (table hb1)[j := Some (k, v)]\<rparr>)"
    using g(1) by (simp add: hashmap_base_insert_def)
  then show thesis
    using hm_inv_overwrite [OF g(2) j(1,2), of v] map g(3)
    by (intro that [of "hb1\<lparr>table := (table hb1)[j := Some (k, v)]\<rparr>"]) simp_all
qed

lemma get_map:
  assumes inv: "hm_inv hb"
  shows "hashmap_base_get hb (Some k) = hm_map hb k"
proof (cases "hm_map hb k")
  case None
  then show ?thesis using find_miss [OF inv] by (simp add: hashmap_base_get_def)
next
  case (Some v)
  obtain j where "table hb ! j = Some (k, v)" "hashmap_entry_find hb k False = Some j"
    using find_hit [OF inv Some] by metis
  then show ?thesis using Some by (simp add: hashmap_base_get_def)
qed

lemma remove_present:
  assumes inv: "hm_inv hb" and hit: "hm_map hb k = Some v"
  obtains hb' where "hashmap_base_remove hb (Some k) = (Some v, if key_free hb then [k] else [], hb')"
    "hm_inv hb'" "same_cfg hb hb'" "mset (hm_entries hb) = add_mset (k, v) (mset (hm_entries hb'))"
proof -
  obtain j where j: "j < table_size hb" "table hb ! j = Some (k, v)" "hashmap_entry_find hb k False = Some j"
    using find_hit [OF inv hit] by metis
  obtain freed hb' where r: "hashmap_entry_remove hb j = (freed, hb')"
    by (cases "hashmap_entry_remove hb j")
  from entry_remove_correct [OF inv j(1,2) r] j r show thesis
    by (intro that [of hb']) (simp_all add: hashmap_base_remove_def hm_entries_def)
qed

lemma remove_absent:
  assumes "hm_inv hb" "hm_map hb k = None"
  shows "hashmap_base_remove hb (Some k) = (None, [], hb)"
  using find_miss [OF assms] by (simp add: hashmap_base_remove_def)

end
