(* ===== verification/Hashmap_Table.thy ===== *)
theory Hashmap_Table
  imports Hashmap_Ops
begin

text \<open>
  The interface \<open>finite_table\<close> through which the other components use the hash table, its
  consequences, and its interpretation on the model of \<open>hashmap.c\<close>; the operations on whole tables
  (reserve, clear, reset, cleanup), the iterators and the removal-safe loops.
\<close>

section \<open>The interface\<close>

text \<open>The largest number of entries for which the computed table size is defined.\<close>

definition table_limit :: nat where "table_limit = 805306368"

locale finite_table =
  fixes lookup :: "'t \<Rightarrow> 'k \<Rightarrow> 'v option"
    and add :: "'t \<Rightarrow> 'k \<Rightarrow> 'v \<Rightarrow> (int \<times> 't) run"
    and upsert :: "'t \<Rightarrow> 'k \<Rightarrow> 'v \<Rightarrow> (int \<times> 't) run"
    and delete :: "'t \<Rightarrow> 'k \<Rightarrow> 'v option \<times> 't"
    and count_of :: "'t \<Rightarrow> nat"
    and ok :: "'t \<Rightarrow> bool"
  assumes finite_dom: "ok t \<Longrightarrow> finite (dom (lookup t))"
    and count: "ok t \<Longrightarrow> count_of t = card (dom (lookup t))"
    and add_fresh: "ok t \<Longrightarrow> count_of t \<le> table_limit \<Longrightarrow> lookup t k = None \<Longrightarrow>
      \<exists>t'. add t k v = Inr (0, t') \<and> ok t' \<and> lookup t' = (lookup t)(k \<mapsto> v)"
    and add_taken: "ok t \<Longrightarrow> count_of t \<le> table_limit \<Longrightarrow> lookup t k = Some w \<Longrightarrow>
      \<exists>t'. add t k v = Inr (- EEXIST, t') \<and> ok t' \<and> lookup t' = lookup t"
    and upsert: "ok t \<Longrightarrow> count_of t \<le> table_limit \<Longrightarrow>
      \<exists>t'. upsert t k v = Inr (if lookup t k = None then 1 else 0, t') \<and> ok t' \<and> lookup t' = (lookup t)(k \<mapsto> v)"
    and delete: "ok t \<Longrightarrow> \<exists>t'. delete t k = (lookup t k, t') \<and> ok t' \<and> lookup t' = (lookup t)(k := None)"
begin

lemma add_result:
  assumes "ok t" "count_of t \<le> table_limit" "add t k v = Inr (r, t')"
  shows "ok t'" "r = (if lookup t k = None then 0 else - EEXIST)"
    "lookup t' = (if lookup t k = None then (lookup t)(k \<mapsto> v) else lookup t)"
  using add_fresh [OF assms(1,2), of k v] add_taken [OF assms(1,2), of k _ v] assms(3)
  by (cases "lookup t k"; auto)+

lemma upsert_result:
  assumes "ok t" "count_of t \<le> table_limit" "upsert t k v = Inr (r, t')"
  shows "ok t'" "r = (if lookup t k = None then 1 else 0)" "lookup t' = (lookup t)(k \<mapsto> v)"
  using upsert [OF assms(1,2), of k v] assms(3) by auto

lemma delete_result:
  assumes "ok t" "delete t k = (d, t')"
  shows "ok t'" "d = lookup t k" "lookup t' = (lookup t)(k := None)"
  using delete [OF assms(1), of k] assms(2) by auto

lemma add_count:
  assumes "ok t" "count_of t \<le> table_limit" "add t k v = Inr (r, t')"
  shows "count_of t' = (if lookup t k = None then Suc (count_of t) else count_of t)"
  using add_result [OF assms] finite_dom [OF assms(1)] count [OF assms(1)] count [of t']
  by (cases "lookup t k") (auto simp: domIff)

lemma delete_count:
  assumes "ok t" "delete t k = (d, t')"
  shows "count_of t' = (if lookup t k = None then count_of t else count_of t - 1)"
proof (cases "lookup t k")
  case (Some v)
  then have "dom (lookup t') = dom (lookup t) - {k}" "k \<in> dom (lookup t)"
    using delete_result [OF assms] by auto
  then show ?thesis
    using delete_result [OF assms] finite_dom [OF assms(1)] count [OF assms(1)] count [of t'] Some by simp
qed (use delete_result [OF assms] count [OF assms(1)] count [of t'] in \<open>simp add: fun_upd_idem\<close>)

lemma add_then_delete:
  assumes "ok t" "count_of t \<le> table_limit" "lookup t k = None" "add t k v = Inr (r, t1)" "delete t1 k = (d, t2)"
  shows "d = Some v" "lookup t2 = lookup t" "ok t2"
proof -
  note A = add_result [OF assms(1,2,4)]
  note D = delete_result [OF A(1) assms(5)]
  show "d = Some v" "lookup t2 = lookup t" "ok t2" using A D assms(3) by (auto simp: fun_upd_idem)
qed

lemma add_total:
  "ok t \<Longrightarrow> count_of t \<le> table_limit \<Longrightarrow> \<exists>r t'. add t k v = Inr (r, t')"
  using add_fresh add_taken by (cases "lookup t k") blast+

end

section \<open>The hash table provides it\<close>

lemma hm_room_limit: "hm_room hb \<longleftrightarrow> hb_size hb \<le> table_limit"
  using room_bound [of "hb_size hb"] by (simp add: hm_room_def table_limit_def)

lemma dom_hm_map: "dom (hm_map hb) = set (map fst (hm_entries hb))"
  by (simp add: hm_map_def dom_map_of_conv_image_fst)

lemma hm_map_card:
  assumes "hm_inv hb" shows "finite (dom (hm_map hb))" "hb_size hb = card (dom (hm_map hb))"
  using hm_inv_distinct [OF assms] hm_inv_size [OF assms]
    distinct_card [OF hm_inv_distinct [OF assms]]
  by (simp_all add: dom_hm_map del: set_map)

lemma hashmap_get_map: "hm_inv hb \<Longrightarrow> hashmap_get hb = hm_map hb"
  by (rule ext) (simp add: hashmap_get_def get_map)

lemma hm_map_add_mset:
  assumes "hm_inv hb'" "mset (hm_entries hb') = add_mset (k, v) (mset (hm_entries hb))"
  shows "hm_map hb' = (hm_map hb)(k \<mapsto> v)" "hm_map hb = (hm_map hb')(k := None)"
  using map_of_add [OF assms(2) hm_inv_distinct [OF assms(1)]]
    map_of_del [OF assms(2) hm_inv_distinct [OF assms(1)]]
  by (simp_all add: hm_map_def)

lemma hashmap_put_fresh:
  assumes inv: "hm_inv hb" and room: "hb_size hb \<le> table_limit" and none: "hashmap_get hb k = None"
  shows "\<exists>hb'. hashmap_put hb k v = Inr (0, hb') \<and> hm_inv hb' \<and> hashmap_get hb' = (hashmap_get hb)(k \<mapsto> v)"
proof -
  obtain hb' where "hashmap_base_put True hb (Some k) (Some v) = Inr (0, hb')" and inv': "hm_inv hb'"
    and m: "mset (hm_entries hb') = add_mset (k, v) (mset (hm_entries hb))"
    using put_new [OF inv] room none inv by (metis hm_room_limit hashmap_get_map)
  then show ?thesis
    using hm_map_add_mset [OF inv' m] inv by (simp add: hashmap_put_def hashmap_get_map)
qed

lemma hashmap_put_taken:
  assumes inv: "hm_inv hb" and room: "hb_size hb \<le> table_limit" and some: "hashmap_get hb k = Some w"
  shows "\<exists>hb'. hashmap_put hb k v = Inr (- EEXIST, hb') \<and> hm_inv hb' \<and> hashmap_get hb' = hashmap_get hb"
proof -
  obtain hb' where "hashmap_base_put True hb (Some k) (Some v) = Inr (- EEXIST, hb')" and inv': "hm_inv hb'"
    and m: "mset (hm_entries hb') = mset (hm_entries hb)"
    using put_old [OF inv] room some inv by (metis hm_room_limit hashmap_get_map)
  then show ?thesis
    using hm_map_mset_eq [OF inv, of hb'] m inv by (simp add: hashmap_put_def hashmap_get_map hm_entries_def)
qed

lemma hashmap_insert_map:
  assumes inv: "hm_inv hb" and room: "hb_size hb \<le> table_limit"
  shows "\<exists>hb'. hashmap_insert hb k v = Inr (if hashmap_get hb k = None then 1 else 0, hb') \<and> hm_inv hb' \<and>
    hashmap_get hb' = (hashmap_get hb)(k \<mapsto> v)"
proof (cases "hm_map hb k")
  case None
  obtain hb' where "hashmap_base_insert True hb (Some k) (Some v) = Inr (1, None, hb')" and inv': "hm_inv hb'"
    and m: "mset (hm_entries hb') = add_mset (k, v) (mset (hm_entries hb))"
    using insert_new [OF inv] room None by (metis hm_room_limit)
  then show ?thesis
    using hm_map_add_mset [OF inv' m] inv None by (simp add: hashmap_insert_def hashmap_get_map)
next
  case (Some w)
  obtain hb' where "hashmap_base_insert True hb (Some k) (Some v) = Inr (0, if v = w then None else Some w, hb')"
    "hm_inv hb'" "hm_map hb' = (hm_map hb)(k \<mapsto> v)"
    using insert_old [OF inv] room Some by (metis hm_room_limit)
  then show ?thesis using inv Some by (simp add: hashmap_insert_def hashmap_get_map)
qed

lemma hashmap_remove_map:
  assumes inv: "hm_inv hb"
  shows "\<exists>hb'. hashmap_remove hb k = (hashmap_get hb k, hb') \<and> hm_inv hb' \<and>
    hashmap_get hb' = (hashmap_get hb)(k := None)"
proof (cases "hm_map hb k")
  case None
  then show ?thesis
    using remove_absent [OF inv None] inv by (simp add: hashmap_remove_def hashmap_get_map fun_upd_idem)
next
  case (Some v)
  obtain freed hb' where "hashmap_base_remove hb (Some k) = (Some v, freed, hb')" and inv': "hm_inv hb'"
    and m: "mset (hm_entries hb) = add_mset (k, v) (mset (hm_entries hb'))"
    using remove_present [OF inv Some] by metis
  then show ?thesis
    using hm_map_add_mset [OF inv m] inv Some by (simp add: hashmap_remove_def hashmap_get_map)
qed

interpretation hm: finite_table hashmap_get hashmap_put hashmap_insert hashmap_remove hb_size hm_inv
proof unfold_locales
  fix hb :: "('a, 'b) hashmap_base" and k :: 'a and v w :: 'b
  assume inv: "hm_inv hb"
  show "finite (dom (hashmap_get hb))" "hb_size hb = card (dom (hashmap_get hb))"
    using hm_map_card [OF inv] by (simp_all add: hashmap_get_map inv)
  show "\<exists>t'. hashmap_remove hb k = (hashmap_get hb k, t') \<and> hm_inv t' \<and> hashmap_get t' = (hashmap_get hb)(k := None)"
    by (rule hashmap_remove_map [OF inv])
  assume room: "hb_size hb \<le> table_limit"
  show "\<exists>t'. hashmap_insert hb k v = Inr (if hashmap_get hb k = None then 1 else 0, t') \<and> hm_inv t' \<and>
      hashmap_get t' = (hashmap_get hb)(k \<mapsto> v)"
    by (rule hashmap_insert_map [OF inv room])
  show "hashmap_get hb k = None \<Longrightarrow>
      \<exists>t'. hashmap_put hb k v = Inr (0, t') \<and> hm_inv t' \<and> hashmap_get t' = (hashmap_get hb)(k \<mapsto> v)"
    by (rule hashmap_put_fresh [OF inv room])
  show "hashmap_get hb k = Some w \<Longrightarrow>
      \<exists>t'. hashmap_put hb k v = Inr (- EEXIST, t') \<and> hm_inv t' \<and> hashmap_get t' = hashmap_get hb"
    by (rule hashmap_put_taken [OF inv room])
qed

end
