(* ===== verification/Hashmap_Iter.thy ===== *)
theory Hashmap_Iter
  imports Hashmap_Table
begin

text \<open>
  The operations of \<open>hashmap.c\<close> on whole tables (reserve, clear, reset), its iterators and loops, its
  statistics, and the two ways in which growing goes wrong.
\<close>

section \<open>Whole tables\<close>

lemma hashmap_init_inv:
  assumes "\<And>k k'. cmp k k' = 0 \<longleftrightarrow> k = k'"
  shows "hm_inv (hashmap_base_init hsh cmp)" "hm_map (hashmap_base_init hsh cmp) = Map.empty"
  using assms
  by (simp_all add: hm_inv_def hm_map_def hm_entries_def cfg_ok_def hashmap_base_init_def HASHMAP_SIZE_DEFAULT_def)

lemma set_key_alloc_funcs_inv:
  assumes "hm_inv hb" "hb_size hb = 0" "\<And>f k. dup = Some f \<Longrightarrow> f k = Some k"
  obtains hb' where "hashmap_base_set_key_alloc_funcs hb dup fr = Inr hb'" "hm_inv hb'" "hm_map hb' = hm_map hb"
proof
  let ?hb = "hb\<lparr>key_dup := dup, key_free := fr\<rparr>"
  show "hashmap_base_set_key_alloc_funcs hb dup fr = Inr ?hb"
    using assms by (simp add: hashmap_base_set_key_alloc_funcs_def)
  have "probe_ok ?hb t = probe_ok hb t" for t by (rule probe_ok_cong) simp_all
  then show "hm_inv ?hb" using assms by (auto simp: hm_inv_def cfg_ok_def tbl_inv_def)
  show "hm_map ?hb = hm_map hb" by (simp add: hm_map_def hm_entries_def)
qed

lemma free_keys_all:
  assumes "hm_inv hb"
  shows "hashmap_free_keys hb = (if key_free hb then map fst (hm_entries hb) else [])"
proof -
  have "map (\<lambda>e. fst (the e)) (filter (\<lambda>e. e \<noteq> None) t) = map fst (slots t)" for t :: "('a \<times> 'b) option list"
    by (simp add: slots_def)
  then show ?thesis
    using hm_inv_size [OF assms] by (auto simp: hashmap_free_keys_def hm_entries_def)
qed

lemma empty_table_inv:
  assumes "hm_inv hb" "hash hb' = hash hb" "compare hb' = compare hb" "key_dup hb' = key_dup hb"
    "table_size_init hb' = table_size_init hb" "hb_size hb' = 0" "table hb' = replicate (table_size hb') None"
    "table_size hb' = table_size hb \<or> table_size hb' = table_size_init hb"
  shows "hm_inv hb'" "hm_map hb' = Map.empty"
proof -
  have cfg: "cfg_ok hb'" using assms by (simp add: hm_inv_def cfg_ok_def)
  have "table_size hb' = 0 \<or> is_pow2 (table_size hb')"
    using assms(1,8) by (auto simp: hm_inv_def tbl_inv_def cfg_ok_def)
  then show "hm_inv hb'"
    using assms cfg by (auto simp: hm_inv_def tbl_inv_def is_pow2_pos)
  show "hm_map hb' = Map.empty" using assms by (simp add: hm_map_def hm_entries_def)
qed

lemma clear_correct:
  assumes "hm_inv hb" "hashmap_base_clear hb = (freed, hb')"
  shows "hm_inv hb'" "hm_map hb' = Map.empty" "freed = (if key_free hb then map fst (hm_entries hb) else [])"
  using assms empty_table_inv [OF assms(1), of hb'] free_keys_all [OF assms(1)]
  by (auto simp: hashmap_base_clear_def)

lemma reset_correct:
  assumes "hm_inv hb" "hashmap_base_reset mem hb = (freed, hb')"
  shows "hm_inv hb'" "hm_map hb' = Map.empty" "freed = (if key_free hb then map fst (hm_entries hb) else [])"
    "mem \<Longrightarrow> table_size hb' = table_size_init hb"
  using assms empty_table_inv [OF assms(1), of hb'] free_keys_all [OF assms(1)]
  by (auto simp: hashmap_base_reset_def Let_def split: if_splits)

text \<open>After a successful reservation, no growth is needed up to the capacity asked for.\<close>

lemma calc_table_size_mono:
  assumes "hashmap_calc_table_size hb c = Inr ts" "n \<le> c" "c + c div 3 \<le> 2 ^ 30" "32 \<le> table_size_init hb"
    "table_size_init hb' = ts"
  shows "hashmap_calc_table_size hb' n = Inr ts"
proof -
  let ?f = "\<lambda>n :: nat. n + n div 3"
  have mono: "?f n \<le> ?f c" using assms(2) by (intro add_mono div_le_mono)
  show ?thesis
  proof (cases "?f n < ts")
    case True
    then show ?thesis using assms mono by (simp add: hashmap_calc_table_size_def)
  next
    case False
    have big: "\<not> ?f c < table_size_init hb"
    proof
      assume "?f c < table_size_init hb"
      then have "ts = table_size_init hb" using assms(1,3) by (simp add: hashmap_calc_table_size_def)
      with \<open>?f c < table_size_init hb\<close> False mono show False by linarith
    qed
    then have c32: "32 \<le> ?f c" using assms(4) by linarith
    have pred: "(?f c + (2 ^ 64 - 1)) mod 2 ^ 64 = ?f c - 1"
      using c32 assms(3) by (intro wrap_pred) (linarith | simp)+
    have b30: "bit_length (?f c - 1) \<le> 30" using assms(3) c32 by (intro bit_length_le) simp
    have "hashmap_calc_table_size hb c = Inr (2 ^ bit_length (?f c - 1))"
      using big assms(3) c32 b30 pred
      by (simp add: hashmap_calc_table_size_def builtin_clzl_def int_shl_one_def Let_def)
    then have ts: "ts = 2 ^ bit_length (?f c - 1)" using assms(1) by simp
    have "?f c \<le> ts" using less_bit_length [of "?f c - 1"] ts c32 by linarith
    then have eq: "?f n = ts" "?f c = ts" using False mono by linarith+
    have small: "ts mod 2 ^ 64 = ts" using eq(2) assms(3) by simp
    have "hashmap_calc_table_size hb' n = hashmap_calc_table_size hb c"
      unfolding hashmap_calc_table_size_def Let_def eq small assms(5)
      using big eq(2) by (simp only: less_irrefl if_False)
    then show ?thesis using assms(1) by simp
  qed
qed

lemma reserve_correct:
  assumes inv: "hm_inv hb" and room: "c \<le> table_limit"
  obtains hb' where "hashmap_base_reserve True hb c = Inr (0, hb')" "hm_inv hb'" "hm_map hb' = hm_map hb"
    "\<And>n. n \<le> c \<Longrightarrow> hashmap_calc_table_size hb' n = Inr (table_size_init hb')"
    "table_size_init hb' \<le> table_size hb'"
proof -
  let ?hb1 = "hb\<lparr>table_size_init := HASHMAP_SIZE_MIN\<rparr>"
  have c30: "c + c div 3 \<le> 2 ^ 30" using room by (simp add: room_bound table_limit_def)
  have "cfg_ok ?hb1" using inv by (simp add: hm_inv_def cfg_ok_def HASHMAP_SIZE_MIN_def)
  then obtain ts where ts: "hashmap_calc_table_size ?hb1 c = Inr ts" "is_pow2 ts" "table_size_init ?hb1 \<le> ts"
    using calc_table_size_correct c30 by metis
  have ts32: "32 \<le> ts" using ts(3) by (simp add: HASHMAP_SIZE_MIN_def)
  let ?hb2 = "hb\<lparr>table_size_init := ts\<rparr>"
  have mono: "hashmap_calc_table_size hb' n = Inr ts"
    if "n \<le> c" "table_size_init hb' = ts" for n and hb' :: "('a, 'b) hashmap_base"
    using calc_table_size_mono [OF ts(1) that(1) c30, of hb'] that by (simp add: HASHMAP_SIZE_MIN_def)
  have "probe_ok ?hb2 t = probe_ok hb t" for t by (rule probe_ok_cong) simp_all
  then have inv2: "hm_inv ?hb2" using inv ts(2) ts32 by (auto simp: hm_inv_def cfg_ok_def tbl_inv_def)
  show thesis
  proof (cases "ts > table_size hb")
    case True
    have "hb_size hb \<le> table_size hb"
      using inv by (auto simp: hm_inv_def tbl_inv_def)
    then obtain hb' where hb': "hashmap_rehash True ?hb2 ts = Inr (0, hb')" "hm_inv hb'" "same_cfg ?hb2 hb'"
      "table_size hb' = ts" "mset (slots (table hb')) = mset (slots (table ?hb2))"
      using rehash_correct [OF inv2 ts(2)] True by auto
    have init': "table_size_init hb' = ts" using hb'(3) by (simp add: same_cfg_def)
    show thesis
      using ts(1) True hb' hm_map_mset_eq [OF inv2 hb'(5)] mono [OF _ init'] init'
      by (intro that [of hb'])
        (simp_all add: hashmap_base_reserve_def Let_def same_cfg_def hm_map_def hm_entries_def)
  next
    case False
    then show thesis
      using ts(1) inv2 mono
      by (intro that [of ?hb2]) (simp_all add: hashmap_base_reserve_def Let_def hm_map_def hm_entries_def)
  qed
qed

section \<open>Growing that goes wrong\<close>

lemma rehash_no_memory:
  assumes "hm_inv hb" "is_pow2 n" "hb_size hb \<le> n"
  shows "hashmap_rehash False hb n = Inl Null_Deref"
  using assms pow2_and_pred [OF assms(2)] by (simp add: hashmap_rehash_def)

lemma bit_length_gt: "2 ^ k \<le> n \<Longrightarrow> k < bit_length n"
proof (induction k arbitrary: n)
  case 0
  then show ?case by (simp add: bit_length.simps [of n])
next
  case (Suc k)
  have "0 < (2 :: nat) ^ Suc k" by simp
  then have "n \<noteq> 0" using Suc.prems by linarith
  have "2 ^ k \<le> n div 2" using Suc.prems by simp
  then show ?case using Suc.IH [of "n div 2"] \<open>n \<noteq> 0\<close> by (simp add: bit_length.simps [of n])
qed

lemma calc_table_size_overflow:
  assumes "table_limit < n" "n < 2 ^ 60" "table_size_init hb \<le> n"
  shows "hashmap_calc_table_size hb n = Inl Undefined_Arith"
proof -
  let ?ts = "n + n div 3"
  have big: "2 ^ 30 < ?ts"
    using assms(1) room_bound [of n] by (simp add: table_limit_def)
  have small: "?ts < 2 ^ 62" using assms(2) by simp
  have pred: "(?ts + (2 ^ 64 - 1)) mod 2 ^ 64 = ?ts - 1"
    using big small by (intro wrap_pred) (linarith | simp)+
  have up: "bit_length (?ts - 1) \<le> 62" using small by (intro bit_length_le) simp
  have lo: "30 < bit_length (?ts - 1)" using big by (intro bit_length_gt) simp
  show ?thesis
    using assms(3) big small pred up lo
    by (simp add: hashmap_calc_table_size_def builtin_clzl_def int_shl_one_def Let_def)
qed

section \<open>Iterators\<close>

lemma next_populated_slots:
  "slots (drop i t) = (case next_populated t i of None \<Rightarrow> [] | Some j \<Rightarrow> the (t ! j) # slots (drop (Suc j) t))"
proof (induction t i rule: next_populated.induct)
  case (1 t i)
  show ?case
  proof (cases "i < length t")
    case True
    then have d: "drop i t = t ! i # drop (Suc i) t" by (simp add: Cons_nth_drop_Suc)
    show ?thesis
    proof (cases "t ! i")
      case None
      then show ?thesis using 1 True d by (simp add: next_populated.simps [of t i])
    next
      case (Some e)
      then show ?thesis using True d by (simp add: next_populated.simps [of t i])
    qed
  qed (simp add: next_populated.simps [of t i])
qed

lemma next_populated_some: "next_populated t i = Some j \<Longrightarrow> t ! j \<noteq> None"
proof (induction t i rule: next_populated.induct)
  case (1 t i)
  then show ?case by (cases "t ! i") (simp_all add: next_populated.simps [of t i] split: if_splits)
qed

lemma next_populated_skips: "next_populated t i = Some j \<Longrightarrow> i \<le> x \<Longrightarrow> x < j \<Longrightarrow> t ! x = None"
proof (induction t i rule: next_populated.induct)
  case (1 t i)
  show ?case
  proof (cases "i < length t \<and> t ! i = None")
    case True
    then have "next_populated t (Suc i) = Some j"
      using "1.prems" by (simp add: next_populated.simps [of t i])
    then show ?thesis using "1.IH" "1.prems" True by (cases "x = i") simp_all
  qed (use "1.prems" in \<open>auto simp: next_populated.simps [of t i] split: if_splits\<close>)
qed

lemma get_populated:
  assumes "hm_inv hb"
  shows "hashmap_entry_get_populated hb i = next_populated (table hb) i"
proof (cases "hb_size hb")
  case 0
  then have "slots (table hb) = []" using assms by (simp add: hm_inv_def)
  then have none: "t ! i = None" if "t = table hb" "i < length t" for t i
    using that by (metis (no_types, opaque_lifting) empty_iff list.set(1) not_Some_eq set_slots)
  have "next_populated (table hb) i = None"
  proof (rule ccontr)
    assume "next_populated (table hb) i \<noteq> None"
    then obtain j where "next_populated (table hb) i = Some j" by auto
    then show False using none next_populated_some next_populated_bounds by metis
  qed
  then show ?thesis using 0 by (simp add: hashmap_entry_get_populated_def)
qed (simp add: hashmap_entry_get_populated_def)

lemma foreach_from:
  assumes inv: "hm_inv hb"
  shows "hashmap_foreach hb (next_populated (table hb) i) = slots (drop i (table hb))"
proof (induction "length (table hb) - i" arbitrary: i rule: less_induct)
  case less
  show ?case
  proof (cases "next_populated (table hb) i")
    case None
    then show ?thesis
      by (simp add: hashmap_foreach.simps hashmap_base_iter_get_key_def next_populated_slots)
  next
    case (Some j)
    then obtain k v where e: "table hb ! j = Some (k, v)" using next_populated_some by fastforce
    have j: "i \<le> j" "j < length (table hb)" using next_populated_bounds [OF Some] by simp_all
    then have "hashmap_foreach hb (next_populated (table hb) (Suc j)) = slots (drop (Suc j) (table hb))"
      by (intro less) simp
    then show ?thesis
      using Some e
      by (simp add: hashmap_foreach.simps [of hb "Some j"] hashmap_base_iter_get_key_def
          hashmap_base_iter_get_data_def hashmap_base_iter_next_def get_populated [OF inv]
          next_populated_slots [of i] Let_def)
  qed
qed

lemma foreach_entries:
  assumes "hm_inv hb"
  shows "hashmap_foreach hb (hashmap_iter hb) = hm_entries hb"
  using foreach_from [OF assms, of 0] get_populated [OF assms]
  by (simp add: hashmap_iter_def hashmap_base_iter_def hm_entries_def)

text \<open>Deletion leaves a free prefix of the table free.\<close>

lemma entry_remove_loop_prefix:
  assumes "entry_remove_loop hb n x r t = (t', r')" "is_pow2 (table_size hb)" "length t = table_size hb"
    and "x < table_size hb" "r < table_size hb" "b \<le> r" "b \<le> x \<or> x = 0" "\<forall>j<b. t ! j = None"
  shows "b \<le> r' \<and> r' < table_size hb \<and> length t' = length t \<and> (\<forall>j<b. t' ! j = None)"
  using assms
proof (induction n arbitrary: x r t)
  case (Suc n)
  show ?case
  proof (cases "t ! x")
    case None
    then show ?thesis using Suc.prems by simp
  next
    case (Some e)
    then have bx: "b \<le> x" using Suc.prems by (metis gr0I le_zero_eq option.discI)
    have nx: "HASHMAP_PROBE_NEXT hb x < table_size hb" "b \<le> HASHMAP_PROBE_NEXT hb x \<or> HASHMAP_PROBE_NEXT hb x = 0"
      using probe_next [of hb x] Suc.prems bx by (auto simp: ring_next_def)
    show ?thesis
      using Suc.prems Some nx bx Suc.IH [of "HASHMAP_PROBE_NEXT hb x" x "t[r := Some e]"]
        Suc.IH [of "HASHMAP_PROBE_NEXT hb x" r t]
      by (cases e) (auto simp: Let_def split: if_splits)
  qed
qed simp

lemma entry_remove_prefix:
  assumes inv: "hm_inv hb" and r: "r < table_size hb" "table hb ! r = Some e"
    and rem: "hashmap_entry_remove hb r = (freed, hb')" and free: "\<forall>j<r. table hb ! j = None"
  shows "\<forall>j<r. table hb' ! j = None"
proof -
  have ti: "tbl_inv hb" using inv r by (auto simp: hm_inv_def)
  note D = tbl_invD [OF ti]
  let ?hb = "hb\<lparr>hb_size := hb_size hb - 1\<rparr>"
  obtain t' r' where l: "entry_remove_loop ?hb (hb_size hb - 1) (HASHMAP_PROBE_NEXT ?hb r) r (table hb) = (t', r')"
    by fastforce
  have "HASHMAP_PROBE_NEXT ?hb r = ring_next (table_size hb) r" using probe_next [of ?hb r] D r by simp
  then have "r \<le> r' \<and> r' < table_size ?hb \<and> length t' = length (table hb) \<and> (\<forall>j<r. t' ! j = None)"
    using entry_remove_loop_prefix [OF l, of r] D r free by (auto simp: ring_next_def)
  moreover have "table hb' = t'[r' := None]"
    using rem l by (auto simp: hashmap_entry_remove_def Let_def)
  ultimately show ?thesis by simp
qed

text \<open>A removal-safe loop that removes every key it is given empties the table, in as many rounds as
  there are entries, and visits each key once.\<close>

definition drain_body :: "'k \<Rightarrow> 'v \<Rightarrow> ('k, 'v) hashmap_base \<times> 'k list
    \<Rightarrow> (('k, 'v) hashmap_base \<times> 'k list) run" where
  "drain_body key data s = Inr (snd (hashmap_remove (fst s) key), snd s @ [key])"

lemma iter_none_empty:
  assumes "hm_inv hb" "next_populated (table hb) i = None" "\<forall>j<i. j < length (table hb) \<longrightarrow> table hb ! j = None"
  shows "slots (table hb) = []"
proof -
  have "slots (drop i (table hb)) = []" using assms(2) by (simp add: next_populated_slots)
  moreover have "slots (take i (table hb)) = []"
  proof (rule ccontr)
    assume "slots (take i (table hb)) \<noteq> []"
    then obtain e where "e \<in> set (slots (take i (table hb)))" by (metis list.set_intros(1) neq_Nil_conv)
    then show False using assms(3) by (auto simp: set_slots)
  qed
  ultimately show ?thesis
    by (metis append_Nil append_take_drop_id slots_simps(4))
qed

lemma foreach_safe_drain:
  assumes "hm_inv hb" "hb_size hb < n" "\<forall>j<i. j < length (table hb) \<longrightarrow> table hb ! j = None"
  shows "\<exists>hb' ks. hashmap_foreach_safe n fst drain_body (next_populated (table hb) i) (hb, seen) = Inr (hb', seen @ ks)
    \<and> hm_inv hb' \<and> hm_entries hb' = [] \<and> mset ks = mset (map fst (hm_entries hb))"
  using assms
proof (induction n arbitrary: hb i seen)
  case (Suc n)
  note inv = Suc.prems(1)
  show ?case
  proof (cases "next_populated (table hb) i")
    case None
    then have "slots (table hb) = []" using iter_none_empty [OF inv] Suc.prems(3) by blast
    then show ?thesis
      using None inv by (simp add: hashmap_base_iter_get_key_def hm_entries_def)
  next
    case (Some r)
    then obtain k v where e: "table hb ! r = Some (k, v)" using next_populated_some by fastforce
    have r: "i \<le> r" "r < length (table hb)" using next_populated_bounds [OF Some] by simp_all
    have ti: "tbl_inv hb" using inv r by (auto simp: hm_inv_def)
    note D = tbl_invD [OF ti]
    have free: "\<forall>j<r. table hb ! j = None"
      using Suc.prems(3) next_populated_skips [OF Some] r by (meson leI less_trans)
    have find: "hashmap_entry_find hb k False = Some r"
      using entry_find_present [OF ti hm_inv_cmp [OF inv]] e r D(1) by simp
    obtain freed hb1 where rem: "hashmap_entry_remove hb r = (freed, hb1)" by fastforce
    note R = entry_remove_correct [OF inv _ e rem]
    have r1: "hm_inv hb1" "mset (hm_entries hb) = add_mset (k, v) (mset (hm_entries hb1))"
      "table_size hb1 = table_size hb"
      using R r D(1) by (simp_all add: hm_entries_def)
    have body: "drain_body k v (hb, seen) = Inr (hb1, seen @ [k])"
      using find e rem by (simp add: drain_body_def hashmap_remove_def hashmap_base_remove_def)
    have "hm_map hb1 k = None"
      using hm_map_add_mset(1) [of hb k v hb1] inv r1 hm_inv_distinct [OF inv]
        map_of_del [OF r1(2) hm_inv_distinct [OF inv]] by (simp add: hm_map_def)
    moreover have "length (table hb1) = table_size hb1"
      using r1(1,3) D(1,3) by (auto simp: hm_inv_def tbl_inv_def)
    ultimately have "hashmap_base_iter_get_key hb1 (Some r) \<noteq> Some k"
      using r r1(3) D(1) by (auto simp: hashmap_base_iter_get_key_def hm_map_None)
    moreover have "hashmap_base_iter hb1 (Some r) = next_populated (table hb1) r"
      by (simp add: hashmap_base_iter_def get_populated [OF r1(1)])
    ultimately have "hashmap_foreach_safe (Suc n) fst drain_body (Some r) (hb, seen) =
        hashmap_foreach_safe n fst drain_body (next_populated (table hb1) r) (hb1, seen @ [k])"
      using e body by (simp add: hashmap_base_iter_get_key_def hashmap_base_iter_get_data_def Let_def)
    moreover have "hb_size hb1 < n"
      using Suc.prems(2) hm_inv_size [OF inv] hm_inv_size [OF r1(1)] arg_cong [OF r1(2), of size] by simp
    moreover have "\<forall>j<r. j < length (table hb1) \<longrightarrow> table hb1 ! j = None"
      using entry_remove_prefix [OF inv _ e rem free] r D(1) by simp
    ultimately show ?thesis
      using Suc.IH [OF r1(1), of r "seen @ [k]"] Some r1(2) by fastforce
  qed
qed simp

section \<open>Statistics\<close>

lemma collisions_loop_distance:
  assumes N: "is_pow2 (table_size hb)" and cmp: "\<And>k k'. compare hb k k' = 0 \<longleftrightarrow> k = k'"
    and "i < table_size hb" "j < table_size hb" "table hb ! j = Some (k, v)"
    and "\<And>x. x < table_size hb \<Longrightarrow> ring_dist (table_size hb) i x < ring_dist (table_size hb) i j \<Longrightarrow>
      \<exists>k' v'. table hb ! x = Some (k', v') \<and> k' \<noteq> k"
    and "ring_dist (table_size hb) i j < n"
  shows "collisions_loop hb k n c i = c + ring_dist (table_size hb) i j"
  using assms(3-)
proof (induction n arbitrary: i c)
  case (Suc n)
  let ?N = "table_size hb"
  show ?case
  proof (cases "i = j")
    case True
    then show ?thesis using Suc.prems cmp by simp
  next
    case False
    have dist: "ring_dist ?N i x = Suc (ring_dist ?N (ring_next ?N i) x)" if "x < ?N" "x \<noteq> i" for x
      using that Suc.prems(1) by (auto simp: ring_dist_def ring_next_def)
    have "0 < ring_dist ?N i j" using False Suc.prems by (simp add: zero_less_iff_neq_zero)
    then obtain k' v' where e: "table hb ! i = Some (k', v')" "k' \<noteq> k"
      using Suc.prems(1) Suc.prems(4) [of i] by auto
    have "collisions_loop hb k n (Suc c) (ring_next ?N i) = Suc c + ring_dist ?N (ring_next ?N i) j"
    proof (rule Suc.IH)
      show "ring_next ?N i < ?N" "j < ?N" "table hb ! j = Some (k, v)" using Suc.prems by simp_all
      show "ring_dist ?N (ring_next ?N i) j < n" using dist [of j] False Suc.prems by simp
      fix x assume x: "x < ?N" "ring_dist ?N (ring_next ?N i) x < ring_dist ?N (ring_next ?N i) j"
      show "\<exists>k' v'. table hb ! x = Some (k', v') \<and> k' \<noteq> k"
      proof (cases "x = i")
        case False
        with x \<open>i \<noteq> j\<close> Suc.prems show ?thesis by (simp add: dist)
      qed (use e in simp)
    qed
    then show ?thesis using e N cmp Suc.prems(1,2) False dist [of j] by (simp add: probe_next)
  qed
qed simp

text \<open>The number of collisions of a stored key is its distance from its home slot, which the home slot
  reaches through occupied slots only.\<close>

lemma collisions_present:
  assumes inv: "hm_inv hb" and j: "j < table_size hb" "table hb ! j = Some (k, v)"
  shows "hashmap_base_collisions hb (Some k) = ring_dist (table_size hb) (home hb k) j"
proof -
  have ti: "tbl_inv hb" using inv j by (auto simp: hm_inv_def)
  note D = tbl_invD [OF ti]
  have "collisions_loop hb k (table_size hb) 0 (home hb k) = 0 + ring_dist (table_size hb) (home hb k) j"
  proof (rule collisions_loop_distance [OF D(2) hm_inv_cmp [OF inv] _ j])
    show "home hb k < table_size hb" using D by simp
    then show "ring_dist (table_size hb) (home hb k) j < table_size hb" using j by simp
    fix x assume x: "x < table_size hb"
      "ring_dist (table_size hb) (home hb k) x < ring_dist (table_size hb) (home hb k) j"
    then have "table hb ! x \<noteq> None" using probe_okD [OF D(5), of j k v x] j D(1) by simp
    then obtain k' v' where e: "table hb ! x = Some (k', v')" by auto
    have "k' \<noteq> k"
    proof
      assume "k' = k"
      then have "x = j" using distinct_slots_nth [OF D(6), of x j] e j x D(1) by simp
      with x show False by simp
    qed
    with e show "\<exists>k' v'. table hb ! x = Some (k', v') \<and> k' \<noteq> k" by blast
  qed
  then show ?thesis by (simp add: hashmap_base_collisions_def home_def)
qed

end
