(* ===== verification/Hashmap_Claims.thy ===== *)
theory Hashmap_Claims
  imports Hashmap_Iter
begin

text \<open>
  What the hash table and the hash functions promise, as properties of the model of \<open>hashmap.c\<close>; each
  is drawn from the interface, from the iterator lemmas or from the lemmas on hash rounds.
\<close>

text \<open>A table of strings that holds one entry, obtained from an empty one by \<open>hashmap_put\<close>.\<close>

abbreviation string_table :: "(string, nat) hashmap_base" where
  "string_table \<equiv> hashmap_base_init hashmap_hash_string strcmp"

lemma string_table_ok: "hm_inv string_table" "hashmap_get string_table = Map.empty" "hb_size string_table = 0"
proof -
  show inv: "hm_inv string_table" using hashmap_init_inv(1) [of strcmp hashmap_hash_string] by simp
  show "hashmap_get string_table = Map.empty"
    using hashmap_init_inv(2) [of strcmp hashmap_hash_string] by (simp add: hashmap_get_map [OF inv])
  show "hb_size string_table = 0" by (simp add: hashmap_base_init_def)
qed

lemma one_entry_table:
  obtains t where "hm_inv t" "hashmap_get t = [k \<mapsto> v]" "hb_size t = 1"
    "hashmap_put string_table k v = Inr (0, t)"
proof -
  obtain t where t: "hashmap_put string_table k v = Inr (0, t)" "hm_inv t" "hashmap_get t = [k \<mapsto> v]"
    using hm.add_fresh [OF string_table_ok(1), of k v] string_table_ok(2,3) by (auto simp: table_limit_def)
  moreover have "hb_size t = 1" using hm.count [OF t(2)] t(3) by simp
  ultimately show thesis using that by blast
qed

section \<open>The table is a finite map\<close>

text \<open>C1: Putting a key that is absent succeeds, up to the largest table the size computation is defined
  for: the table then maps the key to the data, every other key to what it was, and holds one more entry.\<close>

theorem put_absent_key:
  assumes "hm_inv hb" "hb_size hb \<le> 805306368" "hashmap_get hb k = None"
  shows "\<exists>hb'. hashmap_put hb k v = Inr (0, hb') \<and> hm_inv hb' \<and>
    hashmap_get hb' = (hashmap_get hb)(k \<mapsto> v) \<and> hb_size hb' = hb_size hb + 1"
proof -
  have room: "hb_size hb \<le> table_limit" using assms(2) by (simp add: table_limit_def)
  obtain hb' where hb': "hashmap_put hb k v = Inr (0, hb')" "hm_inv hb'" "hashmap_get hb' = (hashmap_get hb)(k \<mapsto> v)"
    using hm.add_fresh [OF assms(1) room assms(3)] by blast
  then show ?thesis using hm.add_count [OF assms(1) room hb'(1)] assms(3) by auto
qed

theorem put_absent_key_witness:
  "\<exists>hb'. hashmap_put string_table ''id'' 7 = Inr (0, hb') \<and> hm_inv hb' \<and> hashmap_get hb' ''id'' = Some 7"
  using put_absent_key [OF string_table_ok(1), of "''id''" 7] string_table_ok(2,3) by auto

text \<open>Putting a key that is present returns \<open>-EEXIST\<close> and changes neither the contents nor the size,
  even when it grew the table.\<close>

theorem put_present_key:
  assumes "hm_inv hb" "hb_size hb \<le> 805306368" "hashmap_get hb k = Some w"
  shows "\<exists>hb'. hashmap_put hb k v = Inr (- EEXIST, hb') \<and> hm_inv hb' \<and>
    hashmap_get hb' = hashmap_get hb \<and> hb_size hb' = hb_size hb"
proof -
  have room: "hb_size hb \<le> table_limit" using assms(2) by (simp add: table_limit_def)
  obtain hb' where hb': "hashmap_put hb k v = Inr (- EEXIST, hb')" "hm_inv hb'" "hashmap_get hb' = hashmap_get hb"
    using hm.add_taken [OF assms(1) room assms(3)] by blast
  then show ?thesis using hm.add_count [OF assms(1) room hb'(1)] assms(3) by auto
qed

theorem put_present_key_witness:
  "\<exists>(hb :: (string, nat) hashmap_base) hb'. hashmap_put hb ''id'' 8 = Inr (- EEXIST, hb') \<and> hashmap_get hb' ''id'' = Some 7"
proof -
  obtain t where t: "hm_inv t" "hashmap_get t = [''id'' \<mapsto> 7]" "hb_size t = 1"
    "hashmap_put string_table ''id'' 7 = Inr (0, t)" by (rule one_entry_table)
  show ?thesis using put_present_key [OF t(1), of "''id''" 7 8] t(2,3) by fastforce
qed

text \<open>Inserting sets the key's data and returns 1 when the key was absent, 0 when its data was replaced.\<close>

theorem insert_sets_key:
  assumes "hm_inv hb" "hb_size hb \<le> 805306368"
  shows "\<exists>hb'. hashmap_insert hb k v = Inr (if hashmap_contains hb k then 0 else 1, hb') \<and> hm_inv hb' \<and>
    hashmap_get hb' = (hashmap_get hb)(k \<mapsto> v)"
  using hm.upsert [OF assms(1), of k v] assms(2)
  by (cases "hashmap_get hb k = None") (simp_all add: table_limit_def hashmap_contains_def)

theorem insert_sets_key_witness:
  "\<exists>hb'. hashmap_insert string_table ''id'' 9 = Inr (1, hb') \<and> hashmap_get hb' ''id'' = Some 9"
  using insert_sets_key [OF string_table_ok(1), of "''id''" 9] string_table_ok(2,3)
  by (auto simp: hashmap_contains_def)

text \<open>C2: Removing a key returns its data (nothing when it was absent) and deletes that key only: the
  backward shift keeps every other entry findable, so the table is again in the probing invariant.\<close>

theorem remove_deletes_key_only:
  assumes "hm_inv hb"
  shows "\<exists>hb'. hashmap_remove hb k = (hashmap_get hb k, hb') \<and> hm_inv hb' \<and>
    hashmap_get hb' = (hashmap_get hb)(k := None) \<and>
    hb_size hb' = hb_size hb - (if hashmap_contains hb k then 1 else 0)"
proof -
  obtain hb' where hb': "hashmap_remove hb k = (hashmap_get hb k, hb')" "hm_inv hb'"
    "hashmap_get hb' = (hashmap_get hb)(k := None)"
    using hm.delete [OF assms] by blast
  then show ?thesis using hm.delete_count [OF assms hb'(1)] by (auto simp: hashmap_contains_def)
qed

theorem remove_deletes_key_only_witness:
  "\<exists>(hb :: (string, nat) hashmap_base) hb'. hashmap_get hb ''id'' = Some 7 \<and> hashmap_remove hb ''id'' = (Some 7, hb') \<and>
    hashmap_get hb' ''id'' = None \<and> hb_size hb' = 0"
proof -
  obtain t where t: "hm_inv t" "hashmap_get t = [''id'' \<mapsto> 7]" "hb_size t = 1"
    "hashmap_put string_table ''id'' 7 = Inr (0, t)" by (rule one_entry_table)
  then obtain hb' where "hashmap_remove t ''id'' = (Some 7, hb')" "hashmap_get hb' ''id'' = None" "hb_size hb' = 0"
    using remove_deletes_key_only [OF t(1), of "''id''"] by (auto simp: hashmap_contains_def)
  then show ?thesis using t(2) by (intro exI [of _ t] exI [of _ hb']) simp
qed

text \<open>With managed keys, removing an entry frees exactly its own key, and clearing the table frees
  every key once; a key is never freed while its entry is in the table.\<close>

theorem keys_freed_with_their_entries:
  assumes "hm_inv hb" "key_free hb"
  shows "(\<forall>v. hashmap_get hb k = Some v \<longrightarrow> fst (snd (hashmap_base_remove hb (Some k))) = [k]) \<and>
    (hashmap_get hb k = None \<longrightarrow> fst (snd (hashmap_base_remove hb (Some k))) = []) \<and>
    fst (hashmap_base_clear hb) = map fst (hm_entries hb) \<and> distinct (map fst (hm_entries hb)) \<and>
    hashmap_get (snd (hashmap_base_clear hb)) = Map.empty"
proof -
  obtain fr hb' where c: "hashmap_base_clear hb = (fr, hb')" by fastforce
  note C = clear_correct [OF assms(1) c]
  have "fst (snd (hashmap_base_remove hb (Some k))) = [k]" if "hashmap_get hb k = Some v" for v
  proof -
    have "hm_map hb k = Some v" using that by (simp add: hashmap_get_map [OF assms(1)])
    then obtain hb' where "hashmap_base_remove hb (Some k) = (Some v, if key_free hb then [k] else [], hb')"
      by (rule remove_present [OF assms(1)])
    then show ?thesis using assms(2) by simp
  qed
  moreover have "fst (snd (hashmap_base_remove hb (Some k))) = []" if "hashmap_get hb k = None"
    using remove_absent [OF assms(1), of k] that assms by (simp add: hashmap_get_map)
  ultimately show ?thesis
    using C c assms hm_inv_distinct [OF assms(1)] by (simp add: hashmap_get_map)
qed

text \<open>The table of strings with the key functions that \<open>rpc_struct.c\<close> sets.\<close>

abbreviation managed_table :: "(string, nat) hashmap_base" where
  "managed_table \<equiv> projr (hashmap_base_set_key_alloc_funcs string_table (Some Some) True)"

lemma managed_table_ok: "hm_inv managed_table" "hm_map managed_table = Map.empty"
  "key_free managed_table" "hb_size managed_table = 0"
proof -
  obtain hb' where "hashmap_base_set_key_alloc_funcs string_table (Some Some) True = Inr hb'" "hm_inv hb'"
    "hm_map hb' = hm_map string_table"
    using set_key_alloc_funcs_inv [OF string_table_ok(1,3), of "Some Some" True] by auto
  then show "hm_inv managed_table" "hm_map managed_table = Map.empty"
    using string_table_ok by (simp_all flip: hashmap_get_map)
  show "key_free managed_table" "hb_size managed_table = 0"
    by (simp_all add: hashmap_base_set_key_alloc_funcs_def hashmap_base_init_def)
qed

theorem keys_freed_with_their_entries_witness:
  "fst (snd (hashmap_base_remove managed_table (Some ''id''))) = [] \<and>
   fst (hashmap_base_clear managed_table) = map fst (hm_entries managed_table)"
  using keys_freed_with_their_entries [OF managed_table_ok(1,3), of "''id''"] managed_table_ok(1,2)
  by (simp add: hashmap_get_map)

section \<open>Growth\<close>

text \<open>After \<open>hashmap_reserve\<close> for a capacity, no put of an entry within the capacity allocates a new
  table: the size computed for the entries never exceeds the table, whether or not memory is left.\<close>

theorem reserve_prevents_growth:
  fixes hb :: "('k, 'v) hashmap_base"
  assumes "hm_inv hb" "c \<le> 805306368"
  shows "\<exists>hb'. hashmap_base_reserve True hb c = Inr (0, hb') \<and> hm_inv hb' \<and> hm_map hb' = hm_map hb \<and>
    (\<forall>(hb'' :: ('k, 'v) hashmap_base) mem. table_size_init hb'' = table_size_init hb' \<and> table_size hb'' = table_size hb' \<and> hb_size hb'' \<le> c \<longrightarrow>
       grow_if_needed mem hb'' = Inr (0, hb''))"
proof -
  obtain hb' where hb': "hashmap_base_reserve True hb c = Inr (0, hb')" "hm_inv hb'" "hm_map hb' = hm_map hb"
    "\<And>n. n \<le> c \<Longrightarrow> hashmap_calc_table_size hb' n = Inr (table_size_init hb')"
    "table_size_init hb' \<le> table_size hb'"
    using reserve_correct [OF assms(1), of c] assms(2) by (auto simp: table_limit_def)
  have "grow_if_needed mem hb'' = Inr (0, hb'')"
    if "table_size_init hb'' = table_size_init hb'" "table_size hb'' = table_size hb'" "hb_size hb'' \<le> c" for hb'' :: "('k, 'v) hashmap_base" and mem
  proof -
    have "hashmap_calc_table_size hb'' n = hashmap_calc_table_size hb' n" for n
      unfolding hashmap_calc_table_size_def that(1) ..
    then show ?thesis using hb'(4) [OF that(3)] hb'(5) that(2) by (simp add: grow_if_needed_def)
  qed
  then show ?thesis using hb' by blast
qed

theorem reserve_prevents_growth_witness:
  "\<exists>hb'. hashmap_base_reserve True string_table 1000 = Inr (0, hb') \<and> hm_inv hb' \<and>
    grow_if_needed False (hb'\<lparr>hb_size := 1000\<rparr>) = Inr (0, hb'\<lparr>hb_size := 1000\<rparr>)"
proof -
  obtain hb' where hb': "hashmap_base_reserve True string_table 1000 = Inr (0, hb')" "hm_inv hb'"
    and grow: "\<forall>(hb'' :: (string, nat) hashmap_base) mem. table_size_init hb'' = table_size_init hb' \<and> table_size hb'' = table_size hb' \<and>
      hb_size hb'' \<le> 1000 \<longrightarrow> grow_if_needed mem hb'' = Inr (0, hb'')"
    using reserve_prevents_growth [OF string_table_ok(1), of 1000] by auto
  have "grow_if_needed False (hb'\<lparr>hb_size := 1000\<rparr>) = Inr (0, hb'\<lparr>hb_size := 1000\<rparr>)"
    using spec [OF spec [OF grow, of "hb'\<lparr>hb_size := 1000\<rparr>"], of False] by simp
  then show ?thesis using hb' by blast
qed

text \<open>A growth for which \<open>malloc\<close> fails is a NULL dereference, not the \<open>-ENOMEM\<close> that the code goes on
  to test for: the new table is cleared first. So the first put into a table crashes when memory is short.\<close>

theorem put_without_memory_crashes:
  assumes "hm_inv hb" "table_size hb = 0"
  shows "hashmap_base_put False hb (Some k) (Some v) = Inl Null_Deref"
proof -
  have size: "hb_size hb = 0" "is_pow2 (table_size_init hb)" "32 \<le> table_size_init hb"
    using assms by (auto simp: hm_inv_def tbl_inv_def cfg_ok_def is_pow2_def)
  then have "hashmap_calc_table_size hb (hb_size hb) = Inr (table_size_init hb)"
    by (simp add: hashmap_calc_table_size_def)
  then have "grow_if_needed False hb = Inl Null_Deref"
    using rehash_no_memory [OF assms(1) size(2)] size assms(2) by (simp add: grow_if_needed_def)
  then show ?thesis by (simp add: hashmap_base_put_def)
qed

theorem put_without_memory_crashes_witness:
  "hashmap_base_put False string_table (Some ''id'') (Some 7) = Inl Null_Deref"
  by (rule put_without_memory_crashes [OF string_table_ok(1)]) (simp add: hashmap_base_init_def)

text \<open>Above 805306368 entries the next table size is computed by shifting an \<open>int\<close> out of range, for
  every table whose initial size is not larger.\<close>

theorem table_size_computation_overflows:
  assumes "805306368 < n" "n < 2 ^ 60" "table_size_init hb \<le> n"
  shows "hashmap_calc_table_size hb n = Inl Undefined_Arith"
  using calc_table_size_overflow [OF _ assms(2,3)] assms(1) by (simp add: table_limit_def)

theorem table_size_computation_overflows_witness:
  "hashmap_calc_table_size string_table 805306369 = Inl Undefined_Arith"
  by (rule table_size_computation_overflows) (simp_all add: hashmap_base_init_def HASHMAP_SIZE_DEFAULT_def)

section \<open>Loops over a table\<close>

text \<open>\<open>hashmap_foreach\<close> visits every entry of the table once, and nothing else.\<close>

theorem foreach_visits_all_once:
  assumes "hm_inv hb"
  shows "distinct (map fst (hashmap_foreach hb (hashmap_iter hb))) \<and>
    map_of (hashmap_foreach hb (hashmap_iter hb)) = hashmap_get hb \<and>
    length (hashmap_foreach hb (hashmap_iter hb)) = hb_size hb"
  using foreach_entries [OF assms] hm_inv_distinct [OF assms] hm_inv_size [OF assms] hashmap_get_map [OF assms]
  by (simp add: hm_map_def)

theorem foreach_visits_all_once_witness:
  "\<exists>hb :: (string, nat) hashmap_base. hm_inv hb \<and> map_of (hashmap_foreach hb (hashmap_iter hb)) = [''id'' \<mapsto> 7]"
proof -
  obtain t where t: "hm_inv t" "hashmap_get t = [''id'' \<mapsto> 7]" "hb_size t = 1"
    "hashmap_put string_table ''id'' 7 = Inr (0, t)" by (rule one_entry_table)
  show ?thesis using foreach_visits_all_once [OF t(1)] t(1,2) by auto
qed

text \<open>C25: A \<open>hashmap_foreach_safe\<close> loop whose body removes the current key ends after one round per
  entry with an empty table, having been given each key once, although every removal shifts entries.\<close>

theorem foreach_safe_removes_all:
  assumes "hm_inv hb"
  shows "\<exists>hb' ks. hashmap_foreach_safe (hb_size hb + 1) fst drain_body (hashmap_iter hb) (hb, []) = Inr (hb', ks) \<and>
    hm_inv hb' \<and> hashmap_get hb' = Map.empty \<and> mset ks = mset (map fst (hm_entries hb))"
proof -
  have it: "hashmap_iter hb = next_populated (table hb) 0"
    by (simp add: hashmap_iter_def hashmap_base_iter_def get_populated [OF assms])
  obtain hb' ks where "hashmap_foreach_safe (hb_size hb + 1) fst drain_body (next_populated (table hb) 0) (hb, []) = Inr (hb', [] @ ks)"
    "hm_inv hb'" "hm_entries hb' = []" "mset ks = mset (map fst (hm_entries hb))"
    using foreach_safe_drain [OF assms, of "hb_size hb + 1" 0 "[]"] by auto
  then show ?thesis unfolding it by (auto simp: hashmap_get_map hm_map_def)
qed

theorem foreach_safe_removes_all_witness:
  "\<exists>(hb :: (string, nat) hashmap_base) hb' ks. hashmap_get hb ''id'' = Some 7 \<and>
    hashmap_foreach_safe (hb_size hb + 1) fst drain_body (hashmap_iter hb) (hb, []) = Inr (hb', ks) \<and>
    hashmap_get hb' = Map.empty"
proof -
  obtain t where t: "hm_inv t" "hashmap_get t = [''id'' \<mapsto> 7]" "hb_size t = 1"
    "hashmap_put string_table ''id'' 7 = Inr (0, t)" by (rule one_entry_table)
  obtain hb' ks where "hashmap_foreach_safe (hb_size t + 1) fst drain_body (hashmap_iter t) (t, []) = Inr (hb', ks)"
    "hashmap_get hb' = Map.empty"
    using foreach_safe_removes_all [OF t(1)] by blast
  moreover have "hashmap_get t ''id'' = Some 7" using t(2) by simp
  ultimately show ?thesis by blast
qed

section \<open>Statistics and hash functions\<close>

text \<open>\<open>hashmap_collisions\<close> of a stored key is the number of probes between its home slot and its
  slot, all of them occupied by other keys.\<close>

theorem collisions_is_probe_distance:
  assumes "hm_inv hb" "j < table_size hb" "table hb ! j = Some (k, v)"
  shows "hashmap_base_collisions hb (Some k) = ring_dist (table_size hb) (hashmap_calc_index hb k) j"
  using collisions_present [OF assms] by (simp add: home_def)

theorem collisions_is_probe_distance_witness:
  "\<exists>(hb :: (string, nat) hashmap_base) j. table hb ! j = Some (''id'', 7) \<and>
    hashmap_base_collisions hb (Some ''id'') = ring_dist (table_size hb) (hashmap_calc_index hb ''id'') j"
proof -
  obtain t where t: "hm_inv t" "hashmap_get t = [''id'' \<mapsto> 7]" "hb_size t = 1"
    "hashmap_put string_table ''id'' 7 = Inr (0, t)" by (rule one_entry_table)
  then have "hm_map t ''id'' = Some 7" by (simp flip: hashmap_get_map)
  then obtain j where j: "j < table_size t" "table t ! j = Some (''id'', 7)" using find_hit [OF t(1)] by metis
  show ?thesis using collisions_is_probe_distance [OF t(1) j] j by blast
qed

text \<open>Two memory blocks, or two strings, of one length that differ in a single byte have different
  hashes, under \<open>hashmap_hash_default\<close> and under \<open>murmur\<close>: every later round is a bijection.\<close>

theorem single_byte_change_changes_hash:
  assumes "b \<noteq> c"
  shows "hashmap_hash_default (as @ b # bs) \<noteq> hashmap_hash_default (as @ c # bs) \<and>
    murmur_loop h (as @ b # bs) \<noteq> murmur_loop h (as @ c # bs)"
proof -
  have "(ucast b :: size_t) \<noteq> ucast c" using assms by (simp add: ucast_byte_inj)
  moreover have "h' XOR ucast b \<noteq> h' XOR (ucast c :: 64 word)" for h'
    using calculation xor_cancel_right [of "ucast b" h' "ucast c"] by (simp add: xor.commute)
  ultimately show ?thesis
    by (simp add: hashmap_hash_default_def jenkins_final_inj hash_default_loop_append hash_default_loop_inj
        jenkins_round_inj murmur_loop_append murmur_loop_inj [OF refl] murmur_round_inj)
qed

theorem single_byte_change_changes_hash_witness:
  "hashmap_hash_default [1, 2, 3] \<noteq> hashmap_hash_default [1, 5, 3]"
  using single_byte_change_changes_hash [of 2 5 "[1]" "[3]" 0] by simp

end
