(* ===== verification/Alloc.thy ===== *)
theory Alloc
  imports Prelude
begin

text \<open>
  Dynamic memory as a map from addresses to objects. \<open>malloc\<close> is a parameter of the operations that
  allocate; \<open>allocator\<close> is what they rely on, and \<open>first_free\<close> an allocator that provides it. Also here:
  linked lists in such a memory.
\<close>

section \<open>Allocation\<close>

locale allocator =
  fixes malloc :: "(addr \<rightharpoonup> 'c) \<Rightarrow> addr"
  assumes malloc_fresh: "finite (dom h) \<Longrightarrow> card (dom h) < 2 ^ 63 \<Longrightarrow> malloc h \<noteq> null \<and> h (malloc h) = None"
begin

lemma malloc_not_null: "finite (dom h) \<Longrightarrow> card (dom h) < 2 ^ 63 \<Longrightarrow> malloc h \<noteq> null"
  using malloc_fresh by blast

lemma malloc_keeps:
  "finite (dom h) \<Longrightarrow> card (dom h) < 2 ^ 63 \<Longrightarrow> h p = Some c \<Longrightarrow> (h(malloc h \<mapsto> c')) p = Some c"
  using malloc_fresh [of h] by (metis fun_upd_other option.discI)

lemma malloc_card:
  "finite (dom h) \<Longrightarrow> card (dom h) < 2 ^ 63 \<Longrightarrow> card (dom (h(malloc h \<mapsto> c))) = Suc (card (dom h))"
  using malloc_fresh [of h] by (simp add: domIff)

end

text \<open>The lowest unused address above NULL, looked for in the first \<open>n\<close> of them.\<close>

fun scan_free :: "nat \<Rightarrow> addr \<Rightarrow> (addr \<rightharpoonup> 'c) \<Rightarrow> addr" where
  "scan_free 0 p h = p"
| "scan_free (Suc n) p h = (if h p = None then p else scan_free n (p + 1) h)"

definition first_free :: "(addr \<rightharpoonup> 'c) \<Rightarrow> addr" where
  "first_free h = scan_free (2 ^ 63) 1 h"

lemma scan_free_result:
  "scan_free n p h = p + of_nat n \<and> (\<forall>i<n. h (p + of_nat i) \<noteq> None) \<or>
   (\<exists>i<n. scan_free n p h = p + of_nat i \<and> h (p + of_nat i) = None)"
proof (induction n arbitrary: p)
  case (Suc n)
  show ?case
  proof (cases "h p")
    case None
    then show ?thesis by (intro disjI2 exI [of _ 0]) simp
  next
    case (Some c)
    then have eq: "scan_free (Suc n) p h = scan_free n (p + 1) h" by simp
    show ?thesis
      using Suc.IH [of "p + 1"]
    proof
      assume *: "scan_free n (p + 1) h = p + 1 + of_nat n \<and> (\<forall>i<n. h (p + 1 + of_nat i) \<noteq> None)"
      have "h (p + of_nat i) \<noteq> None" if "i < Suc n" for i
        using * that Some by (cases i) (simp_all add: add.assoc)
      then show ?thesis using * eq by (simp add: add.assoc)
    next
      assume "\<exists>i<n. scan_free n (p + 1) h = p + 1 + of_nat i \<and> h (p + 1 + of_nat i) = None"
      then obtain i where "i < n" "scan_free n (p + 1) h = p + 1 + of_nat i \<and> h (p + 1 + of_nat i) = None"
        by blast
      then show ?thesis using eq by (intro disjI2 exI [of _ "Suc i"]) (simp add: add.assoc)
    qed
  qed
qed simp

lemma first_free_fresh:
  assumes "finite (dom h)" "card (dom h) < 2 ^ 63"
  shows "first_free h \<noteq> null \<and> h (first_free h) = None"
proof -
  have inj: "inj_on (\<lambda>i. 1 + of_nat i :: addr) {..<2 ^ 63}"
  proof (rule inj_onI)
    fix i j :: nat assume ij: "i \<in> {..<2 ^ 63}" "j \<in> {..<2 ^ 63}" "(1 + of_nat i :: addr) = 1 + of_nat j"
    have "i < 2 ^ 64" "j < 2 ^ 64" using ij(1,2) by simp_all
    moreover have "unat (of_nat i :: addr) = unat (of_nat j :: addr)" using ij(3) by simp
    ultimately show "i = j" by (simp only: unat_of_nat_size)
  qed
  have "\<not> (\<forall>i<2 ^ 63. h (1 + of_nat i) \<noteq> None)"
  proof
    assume "\<forall>i<2 ^ 63. h (1 + of_nat i) \<noteq> None"
    then have "(\<lambda>i. 1 + of_nat i :: addr) ` {..<2 ^ 63} \<subseteq> dom h" by auto
    then have "card {..<2 ^ 63 :: nat} \<le> card (dom h)"
      using card_inj_on_le [OF inj] assms(1) by blast
    then show False using assms(2) by simp
  qed
  then obtain i :: nat where i: "i < 2 ^ 63" "first_free h = 1 + of_nat i" "h (1 + of_nat i) = None"
    using scan_free_result [of "2 ^ 63" 1 h] unfolding first_free_def by blast
  have "(1 + of_nat i :: addr) = of_nat (Suc i)" by simp
  moreover have "unat (of_nat (Suc i) :: addr) = Suc i" using i(1) by (intro unat_of_nat_size) simp
  ultimately have "(1 + of_nat i :: addr) \<noteq> 0" by (metis nat.simps(3) unat_0)
  with i show ?thesis by simp
qed

interpretation ff: allocator first_free
  by unfold_locales (rule first_free_fresh)

section \<open>Linked lists\<close>

text \<open>\<open>path nxt h p as\<close>: following \<open>nxt\<close> from \<open>p\<close> visits the objects at \<open>as\<close> and ends at NULL.\<close>

fun path :: "('c \<Rightarrow> addr) \<Rightarrow> (addr \<rightharpoonup> 'c) \<Rightarrow> addr \<Rightarrow> addr list \<Rightarrow> bool" where
  "path nxt h p [] = (p = null)"
| "path nxt h p (a # as) = (p = a \<and> a \<noteq> null \<and> (case h a of None \<Rightarrow> False | Some c \<Rightarrow> path nxt h (nxt c) as))"

lemma path_alloc: "path nxt h p as \<Longrightarrow> a \<in> set as \<Longrightarrow> h a \<noteq> None \<and> a \<noteq> null"
  by (induction as arbitrary: p) (auto split: option.splits)

lemma path_frame: "(\<And>a. a \<in> set as \<Longrightarrow> h' a = h a) \<Longrightarrow> path nxt h' p as = path nxt h p as"
  by (induction as arbitrary: p) (auto split: option.splits)

lemma path_append_cell:
  assumes "path nxt h p (as @ [a])" "distinct (as @ [a])" "b \<notin> set (as @ [a])" "b \<noteq> null"
    "nxt c = b" "nxt d = null"
  shows "path nxt (h(a \<mapsto> c, b \<mapsto> d)) p (as @ [a, b])"
  using assms(1-3)
proof (induction as arbitrary: p)
  case Nil
  then show ?case using assms(4-6) by (auto split: option.splits)
next
  case (Cons x as)
  then have "x \<noteq> a" "x \<noteq> b" by auto
  with Cons show ?case by (auto split: option.splits)
qed

end
