(* ===== verification/Sc_Queue.thy ===== *)
theory Sc_Queue
  imports Prelude
begin

text \<open>
  The ring-buffer queue of \<open>sc_queue.h\<close>: the macros as functions on a record with the fields of the
  C structure, where \<open>elems\<close> is the allocated array (\<open>[]\<close> is NULL). \<open>calloc\<close> fills new cells with a
  zero element \<open>z\<close>, and succeeds when \<open>mem\<close> holds. A queue refines a list.
\<close>

section \<open>State and operations\<close>

record 'a sc_queue =
  oom :: bool
  cap :: nat
  first :: nat
  sq_last :: nat
  elems :: "'a list"

definition SC_QUEUE_MAX :: nat where "SC_QUEUE_MAX = 2 ^ 64 - 1"

definition sc_queue_init :: "bool \<Rightarrow> 'a \<Rightarrow> 'a sc_queue" where
  "sc_queue_init mem z =
     \<lparr>oom = \<not> mem, cap = 8, first = 0, sq_last = 0, elems = (if mem then replicate 8 z else [])\<rparr>"

definition sc_queue_term :: "'a sc_queue \<Rightarrow> 'a sc_queue" where
  "sc_queue_term q = q\<lparr>elems := [], cap := 0, first := 0, sq_last := 0, oom := False\<rparr>"

definition sc_queue_size :: "'a sc_queue \<Rightarrow> nat" where
  "sc_queue_size q = mask_index (cap q) (of_nat (sq_last q) - of_nat (first q))"

definition sc_queue_clear :: "'a sc_queue \<Rightarrow> 'a sc_queue" where
  "sc_queue_clear q = q\<lparr>first := 0, sq_last := 0, oom := False\<rparr>"

definition sc_queue_empty :: "'a sc_queue \<Rightarrow> bool" where
  "sc_queue_empty q = (sq_last q = first q)"

definition sc_queue_next :: "'a sc_queue \<Rightarrow> nat \<Rightarrow> nat" where
  "sc_queue_next q i = mask_index (cap q) (of_nat i + 1)"

definition elems_get :: "'a sc_queue \<Rightarrow> nat \<Rightarrow> 'a run" where
  "elems_get q i =
     (if elems q = [] then Inl Null_Deref
      else if i < length (elems q) then Inr (elems q ! i) else Inl Out_Of_Bounds)"

definition elems_set :: "'a sc_queue \<Rightarrow> nat \<Rightarrow> 'a \<Rightarrow> 'a sc_queue run" where
  "elems_set q i x =
     (if elems q = [] then Inl Null_Deref
      else if i < length (elems q) then Inr (q\<lparr>elems := (elems q)[i := x]\<rparr>) else Inl Out_Of_Bounds)"

definition sc_queue_expand :: "bool \<Rightarrow> 'a \<Rightarrow> 'a sc_queue \<Rightarrow> 'a sc_queue" where
  "sc_queue_expand mem z q =
     (if sc_queue_next q (sq_last q) = first q then
        if cap q > SC_QUEUE_MAX div 2 then q\<lparr>oom := True\<rparr>
        else if \<not> mem then q\<lparr>oom := True\<rparr>
        else q\<lparr>oom := False, sq_last := cap q - 1, first := 0, cap := cap q * 2,
               elems := drop (first q) (elems q) @ take (first q) (elems q) @ replicate (cap q) z\<rparr>
      else q)"

definition sc_queue_at :: "'a sc_queue \<Rightarrow> nat \<Rightarrow> 'a run" where
  "sc_queue_at q i = elems_get q (mask_index (cap q) (of_nat (first q) + of_nat i))"

definition sc_queue_peek_first :: "'a sc_queue \<Rightarrow> 'a run" where
  "sc_queue_peek_first q = elems_get q (first q)"

definition sc_queue_peek_last :: "'a sc_queue \<Rightarrow> 'a run" where
  "sc_queue_peek_last q = elems_get q (mask_index (cap q) (of_nat (sq_last q) - 1))"

definition sc_queue_add_last :: "bool \<Rightarrow> 'a \<Rightarrow> 'a sc_queue \<Rightarrow> 'a \<Rightarrow> 'a sc_queue run" where
  "sc_queue_add_last mem z q elem =
     (let q1 = sc_queue_expand mem z q in
      if oom q1 then Inr q1
      else andthen (elems_set (q1\<lparr>oom := False\<rparr>) (sq_last q1) elem)
             (\<lambda>q2. Inr (q2\<lparr>sq_last := sc_queue_next q2 (sq_last q2)\<rparr>)))"

definition sc_queue_add_first :: "bool \<Rightarrow> 'a \<Rightarrow> 'a sc_queue \<Rightarrow> 'a \<Rightarrow> 'a sc_queue run" where
  "sc_queue_add_first mem z q elem =
     (let q1 = sc_queue_expand mem z q in
      if oom q1 then Inr q1
      else let q2 = q1\<lparr>oom := False, first := mask_index (cap q1) (of_nat (first q1) - 1)\<rparr>
           in elems_set q2 (first q2) elem)"

definition sc_queue_del_last :: "'a sc_queue \<Rightarrow> ('a \<times> 'a sc_queue) run" where
  "sc_queue_del_last q =
     (let q1 = q\<lparr>sq_last := mask_index (cap q) (of_nat (sq_last q) - 1)\<rparr>
      in andthen (elems_get q1 (sq_last q1)) (\<lambda>x. Inr (x, q1)))"

definition sc_queue_inc_first :: "nat \<Rightarrow> nat \<Rightarrow> nat \<times> nat" where
  "sc_queue_inc_first fst_index c = (fst_index, mask_index c (of_nat fst_index + 1))"

definition sc_queue_del_first :: "'a sc_queue \<Rightarrow> ('a \<times> 'a sc_queue) run" where
  "sc_queue_del_first q =
     (let (tmp, f) = sc_queue_inc_first (first q) (cap q)
      in andthen (elems_get q tmp) (\<lambda>x. Inr (x, q\<lparr>first := f\<rparr>)))"

text \<open>The elements a \<open>sc_queue_foreach\<close> loop is run on; the fuel bounds the steps round the ring.\<close>

fun foreach_loop :: "'a sc_queue \<Rightarrow> nat \<Rightarrow> nat \<Rightarrow> 'a list run" where
  "foreach_loop q 0 i = (if i \<noteq> sq_last q then Inl No_Fuel else Inr [])"
| "foreach_loop q (Suc n) i =
     (if i \<noteq> sq_last q
      then andthen (elems_get q i) (\<lambda>x. andthen (foreach_loop q n (sc_queue_next q i)) (\<lambda>xs. Inr (x # xs)))
      else Inr [])"

definition sc_queue_foreach :: "'a sc_queue \<Rightarrow> 'a list run" where
  "sc_queue_foreach q = foreach_loop q (cap q) (first q)"

section \<open>Interfaces\<close>

locale fifo =
  fixes enq :: "'q \<Rightarrow> 'a \<Rightarrow> 'q run"
    and deq :: "'q \<Rightarrow> ('a \<times> 'q) run"
    and contents :: "'q \<Rightarrow> 'a list"
    and ok :: "'q \<Rightarrow> bool"
    and limit :: nat
  assumes enq: "ok q \<Longrightarrow> length (contents q) < limit \<Longrightarrow>
      \<exists>q'. enq q x = Inr q' \<and> ok q' \<and> contents q' = contents q @ [x]"
    and deq: "ok q \<Longrightarrow> contents q = x # xs \<Longrightarrow> \<exists>q'. deq q = Inr (x, q') \<and> ok q' \<and> contents q' = xs"
begin

fun enq_all :: "'q \<Rightarrow> 'a list \<Rightarrow> 'q run" where
  "enq_all q [] = Inr q"
| "enq_all q (x # xs) = andthen (enq q x) (\<lambda>q'. enq_all q' xs)"

fun deq_many :: "'q \<Rightarrow> nat \<Rightarrow> ('a list \<times> 'q) run" where
  "deq_many q 0 = Inr ([], q)"
| "deq_many q (Suc n) = andthen (deq q) (\<lambda>(x, q'). andthen (deq_many q' n) (\<lambda>(xs, q''). Inr (x # xs, q'')))"

lemma enq_all: "ok q \<Longrightarrow> length (contents q) + length xs \<le> limit \<Longrightarrow>
    \<exists>q'. enq_all q xs = Inr q' \<and> ok q' \<and> contents q' = contents q @ xs"
proof (induction xs arbitrary: q)
  case (Cons x xs)
  then obtain q' where "enq q x = Inr q'" "ok q'" "contents q' = contents q @ [x]"
    using enq [of q x] by auto
  then show ?case using Cons.IH [of q'] Cons.prems by auto
qed simp

lemma deq_many: "ok q \<Longrightarrow> contents q = xs @ ys \<Longrightarrow>
    \<exists>q'. deq_many q (length xs) = Inr (xs, q') \<and> ok q' \<and> contents q' = ys"
proof (induction xs arbitrary: q)
  case (Cons x xs)
  then obtain q' where "deq q = Inr (x, q')" "ok q'" "contents q' = xs @ ys"
    using deq [of q x] by auto
  then show ?case using Cons.IH [of q'] by auto
qed simp

lemma first_in_first_out:
  assumes "ok q" "contents q = []" "length xs \<le> limit"
  obtains q1 q2 where "enq_all q xs = Inr q1" "deq_many q1 (length xs) = Inr (xs, q2)" "ok q2" "contents q2 = []"
proof -
  obtain q1 where "enq_all q xs = Inr q1" "ok q1" "contents q1 = xs"
    using enq_all [OF assms(1), of xs] assms(2,3) by auto
  then show thesis using deq_many [of q1 xs "[]"] that by auto
qed

end

locale deque = fifo enq deq contents ok limit
  for enq :: "'q \<Rightarrow> 'a \<Rightarrow> 'q run" and deq :: "'q \<Rightarrow> ('a \<times> 'q) run"
    and contents :: "'q \<Rightarrow> 'a list" and ok :: "'q \<Rightarrow> bool" and limit :: nat +
  fixes push :: "'q \<Rightarrow> 'a \<Rightarrow> 'q run"
    and pull :: "'q \<Rightarrow> ('a \<times> 'q) run"
    and top_elem :: "'q \<Rightarrow> 'a run"
  assumes push: "ok q \<Longrightarrow> length (contents q) < limit \<Longrightarrow>
      \<exists>q'. push q x = Inr q' \<and> ok q' \<and> contents q' = x # contents q"
    and pull: "ok q \<Longrightarrow> contents q = xs @ [x] \<Longrightarrow> \<exists>q'. pull q = Inr (x, q') \<and> ok q' \<and> contents q' = xs"
    and top_elem: "ok q \<Longrightarrow> contents q = x # xs \<Longrightarrow> top_elem q = Inr x"
begin

lemma push_deq:
  assumes "ok q" "length (contents q) < limit"
  obtains q1 q2 where "push q x = Inr q1" "top_elem q1 = Inr x" "deq q1 = Inr (x, q2)" "ok q2" "contents q2 = contents q"
  using push [OF assms, of x] deq top_elem by metis

lemma enq_pull:
  assumes "ok q" "length (contents q) < limit"
  obtains q1 q2 where "enq q x = Inr q1" "pull q1 = Inr (x, q2)" "ok q2" "contents q2 = contents q"
  using enq [OF assms, of x] pull by metis

text \<open>Adding at the end leaves the element at the front in place: a queue is not a stack.\<close>

lemma enq_top_elem:
  assumes "ok q" "length (contents q) < limit" "contents q = y # ys"
  obtains q1 where "enq q x = Inr q1" "top_elem q1 = Inr y"
  using enq [OF assms(1,2), of x] top_elem assms(3) by fastforce

end

section \<open>The queue refines a list\<close>

definition queue_inv :: "'a sc_queue \<Rightarrow> bool" where
  "queue_inv q \<longleftrightarrow> is_pow2 (cap q) \<and> 2 \<le> cap q \<and> length (elems q) = cap q \<and> first q < cap q \<and> sq_last q < cap q"

definition queue_list :: "'a sc_queue \<Rightarrow> 'a list" where
  "queue_list q = map (\<lambda>i. elems q ! ((first q + i) mod cap q)) [0..<ring_dist (cap q) (first q) (sq_last q)]"

definition queue_ok :: "'a sc_queue \<Rightarrow> bool" where
  "queue_ok q \<longleftrightarrow> queue_inv q \<and> \<not> oom q"

definition queue_limit :: nat where "queue_limit = 2 ^ 63 - 1"

lemma queue_invD:
  assumes "queue_inv q"
  shows "is_pow2 (cap q)" "2 \<le> cap q" "length (elems q) = cap q" "first q < cap q" "sq_last q < cap q" "elems q \<noteq> []"
  using assms by (auto simp: queue_inv_def)

lemma queue_size: "queue_inv q \<Longrightarrow> sc_queue_size q = length (queue_list q)"
  by (simp add: queue_inv_def sc_queue_size_def mask_index_diff queue_list_def)

lemma queue_empty: "queue_inv q \<Longrightarrow> sc_queue_empty q \<longleftrightarrow> queue_list q = []"
  by (auto simp: queue_inv_def sc_queue_empty_def queue_list_def ring_dist_0_iff)

lemma queue_next: "queue_inv q \<Longrightarrow> i < cap q \<Longrightarrow> sc_queue_next q i = ring_next (cap q) i"
  by (simp add: queue_inv_def sc_queue_next_def mask_index_next)

lemma ring_next_mod: "i < n \<Longrightarrow> ring_next n i = Suc i mod n"
  by (auto simp: ring_next_def)

lemma ring_dist_mod: "a < n \<Longrightarrow> b < n \<Longrightarrow> (a + ring_dist n a b) mod n = b"
  by (auto simp: ring_dist_def)

lemma ring_dist_of_mod: "a < n \<Longrightarrow> d < n \<Longrightarrow> ring_dist n a ((a + d) mod n) = d"
  by (cases "a + d < n") (auto simp: ring_dist_def mod_if)

text \<open>The index before a given one.\<close>

lemma mask_index_prev:
  assumes "is_pow2 n" "2 \<le> n" "i < n"
  shows "mask_index n (of_nat i - 1) = (i + (n - 1)) mod n" "ring_next n ((i + (n - 1)) mod n) = i"
proof -
  show "mask_index n (of_nat i - 1) = (i + (n - 1)) mod n"
    using mask_index_diff [OF assms(1), of 1 i] assms(2,3)
    by (cases i) (auto simp: ring_dist_def mod_if)
  show "ring_next n ((i + (n - 1)) mod n) = i"
    using assms(2,3) by (cases i) (auto simp: ring_next_def mod_if)
qed

lemma queue_list_nth: "i < length (queue_list q) \<Longrightarrow> queue_list q ! i = elems q ! ((first q + i) mod cap q)"
  by (simp add: queue_list_def)

lemma queue_length: "length (queue_list q) = ring_dist (cap q) (first q) (sq_last q)"
  by (simp add: queue_list_def)

section \<open>Each operation on the list\<close>

lemma init_list:
  "queue_ok (sc_queue_init True z)" "queue_list (sc_queue_init True z) = []"
  by (simp_all add: queue_ok_def queue_inv_def sc_queue_init_def queue_list_def)

lemma clear_list:
  assumes "queue_inv q" shows "queue_ok (sc_queue_clear q)" "queue_list (sc_queue_clear q) = []"
  using assms by (auto simp: queue_ok_def queue_inv_def sc_queue_clear_def queue_list_def)

lemma expand_list:
  assumes "queue_ok q" "length (queue_list q) < queue_limit"
  shows "queue_ok (sc_queue_expand True z q)" "queue_list (sc_queue_expand True z q) = queue_list q"
    "ring_next (cap (sc_queue_expand True z q)) (sq_last (sc_queue_expand True z q)) \<noteq> first (sc_queue_expand True z q)"
proof -
  have inv: "queue_inv q" using assms by (simp add: queue_ok_def)
  note D = queue_invD [OF inv]
  let ?q = "sc_queue_expand True z q"
  have "queue_ok ?q \<and> queue_list ?q = queue_list q \<and> ring_next (cap ?q) (sq_last ?q) \<noteq> first ?q"
  proof (cases "sc_queue_next q (sq_last q) = first q")
    case False
    then show ?thesis using assms queue_next [OF inv D(5)] by (simp add: sc_queue_expand_def)
  next
    case True
    then have nx: "ring_next (cap q) (sq_last q) = first q" using queue_next [OF inv D(5)] by simp
    then have full: "ring_dist (cap q) (first q) (sq_last q) = cap q - 1"
      using D(2,4,5) by (auto simp: ring_next_def ring_dist_def split: if_splits)
    then have "cap q \<le> 2 ^ 63 - 1"
      using assms(2) D(2) by (simp add: queue_length queue_limit_def)
    then have room: "\<not> cap q > SC_QUEUE_MAX div 2" and pow: "is_pow2 (2 * cap q)"
      using is_pow2_double [OF D(1)] by (simp_all add: SC_QUEUE_MAX_def)
    let ?e = "drop (first q) (elems q) @ take (first q) (elems q) @ replicate (cap q) z"
    have eq: "?q = q\<lparr>oom := False, sq_last := cap q - 1, first := 0, cap := cap q * 2, elems := ?e\<rparr>"
      using True room by (simp add: sc_queue_expand_def)
    have nth: "?e ! i = elems q ! ((first q + i) mod cap q)" if "i < cap q - 1" for i
      using that D(3,4) by (auto simp: nth_append mod_if add.commute)
    have "queue_list ?q = queue_list q"
      using nth D(2) full by (simp add: eq queue_list_def ring_dist_def [of _ 0])
    moreover have "queue_ok ?q"
      using D pow by (simp add: eq queue_ok_def queue_inv_def mult.commute)
    moreover have "ring_next (cap ?q) (sq_last ?q) \<noteq> first ?q"
      using D(2) by (simp add: eq ring_next_def)
    ultimately show ?thesis by blast
  qed
  then show "queue_ok ?q" "queue_list ?q = queue_list q" "ring_next (cap ?q) (sq_last ?q) \<noteq> first ?q"
    by blast+
qed

lemma add_last_list:
  assumes "queue_ok q" "length (queue_list q) < queue_limit"
  shows "\<exists>q'. sc_queue_add_last True z q x = Inr q' \<and> queue_ok q' \<and> queue_list q' = queue_list q @ [x]"
proof -
  let ?q = "sc_queue_expand True z q"
  note E = expand_list [OF assms, of z]
  have inv: "queue_inv ?q" and oom: "\<not> oom ?q" using E(1) by (simp_all add: queue_ok_def)
  note D = queue_invD [OF inv]
  let ?q' = "?q\<lparr>oom := False, elems := (elems ?q)[sq_last ?q := x], sq_last := ring_next (cap ?q) (sq_last ?q)\<rparr>"
  have nx: "sc_queue_next (?q\<lparr>oom := False, elems := e\<rparr>) (sq_last ?q) = ring_next (cap ?q) (sq_last ?q)" for e
    using queue_next [OF inv D(5)] by (simp add: sc_queue_next_def)
  have "sc_queue_add_last True z q x = Inr ?q'"
    using oom D nx by (simp add: sc_queue_add_last_def elems_set_def Let_def)
  moreover have "queue_ok ?q'" using D by (simp add: queue_ok_def queue_inv_def)
  moreover have "queue_list ?q' = queue_list ?q @ [x]"
  proof (rule nth_equalityI)
    have len: "ring_dist (cap ?q) (first ?q) (ring_next (cap ?q) (sq_last ?q)) = Suc (length (queue_list ?q))"
      using ring_dist_next [OF D(4,5) E(3)] by (simp add: queue_length)
    then show "length (queue_list ?q') = length (queue_list ?q @ [x])" by (simp add: queue_length)
    fix i assume il: "i < length (queue_list ?q')"
    with queue_list_nth have at_i: "queue_list ?q' ! i = elems ?q' ! ((first ?q' + i) mod cap ?q')" by blast
    from il have i: "i \<le> length (queue_list ?q)" using len by (simp add: queue_length)
    have lt: "length (queue_list ?q) < cap ?q" using D by (simp add: queue_length)
    have "(first ?q + i) mod cap ?q = sq_last ?q \<longleftrightarrow> i = length (queue_list ?q)"
      using ring_dist_of_mod [OF D(4), of i] ring_dist_mod [OF D(4,5)] i lt by (auto simp: queue_length)
    moreover have "queue_list ?q' ! i = (elems ?q)[sq_last ?q := x] ! ((first ?q + i) mod cap ?q)"
      using at_i by simp
    ultimately show "queue_list ?q' ! i = (queue_list ?q @ [x]) ! i"
      using i D(3,5) by (cases "i = length (queue_list ?q)") (simp_all add: nth_append queue_list_nth)
  qed
  ultimately show ?thesis using E(2) by metis
qed

lemma add_first_list:
  assumes "queue_ok q" "length (queue_list q) < queue_limit"
  shows "\<exists>q'. sc_queue_add_first True z q x = Inr q' \<and> queue_ok q' \<and> queue_list q' = x # queue_list q"
proof -
  let ?q = "sc_queue_expand True z q"
  note E = expand_list [OF assms, of z]
  have inv: "queue_inv ?q" and oom: "\<not> oom ?q" using E(1) by (simp_all add: queue_ok_def)
  note D = queue_invD [OF inv]
  let ?f = "(first ?q + (cap ?q - 1)) mod cap ?q"
  note P = mask_index_prev [OF D(1,2,4)]
  let ?q' = "?q\<lparr>oom := False, first := ?f, elems := (elems ?q)[?f := x]\<rparr>"
  have f: "?f < cap ?q" using D(2) by simp
  have "sc_queue_add_first True z q x = Inr ?q'"
    using oom D f by (simp add: sc_queue_add_first_def elems_set_def Let_def P(1))
  moreover have "queue_ok ?q'" using D f by (simp add: queue_ok_def queue_inv_def)
  moreover have "queue_list ?q' = x # queue_list ?q"
  proof (rule nth_equalityI)
    have ne: "?f \<noteq> sq_last ?q" using E(3) P(2) by metis
    have len: "ring_dist (cap ?q) ?f (sq_last ?q) = Suc (length (queue_list ?q))"
      using ne P(2) f D(4,5) unfolding queue_length
      by (auto simp: ring_next_def ring_dist_def split: if_splits)
    then show "length (queue_list ?q') = length (x # queue_list ?q)" by (simp add: queue_length)
    fix i assume il: "i < length (queue_list ?q')"
    with queue_list_nth have at_i: "queue_list ?q' ! i = elems ?q' ! ((first ?q' + i) mod cap ?q')" by blast
    from il have i: "i \<le> length (queue_list ?q)" using len by (simp add: queue_length)
    have lt: "Suc (length (queue_list ?q)) < cap ?q" using len f D(5) ring_dist_less by metis
    have at: "queue_list ?q' ! i = (elems ?q)[?f := x] ! ((?f + i) mod cap ?q)"
      using at_i by simp
    show "queue_list ?q' ! i = (x # queue_list ?q) ! i"
    proof (cases i)
      case 0
      then show ?thesis using at f D(3) by simp
    next
      case (Suc m)
      have "(?f + i) mod cap ?q = (Suc ?f mod cap ?q + m) mod cap ?q"
        using Suc by (simp add: mod_add_left_eq)
      also have "\<dots> = (first ?q + m) mod cap ?q" using P(2) f by (simp add: ring_next_mod)
      finally have ix: "(?f + i) mod cap ?q = (first ?q + m) mod cap ?q" .
      have "(?f + i) mod cap ?q \<noteq> ?f"
        using ring_dist_of_mod [OF f, of i] i lt Suc f by (metis le_imp_less_Suc less_trans nat.simps(3) ring_dist_self)
      then show ?thesis using Suc at ix i by (simp add: queue_list_nth)
    qed
  qed
  ultimately show ?thesis using E(2) by metis
qed

lemma del_first_list:
  assumes "queue_ok q" "queue_list q = x # xs"
  shows "\<exists>q'. sc_queue_del_first q = Inr (x, q') \<and> queue_ok q' \<and> queue_list q' = xs"
proof -
  have inv: "queue_inv q" using assms by (simp add: queue_ok_def)
  note D = queue_invD [OF inv]
  let ?q' = "q\<lparr>first := ring_next (cap q) (first q)\<rparr>"
  have len: "ring_dist (cap q) (first q) (sq_last q) = Suc (length xs)"
    using assms(2) by (metis length_Cons queue_length)
  have x: "elems q ! first q = x"
    using queue_list_nth [of 0 q] assms(2) D(4) by simp
  have "sc_queue_del_first q = Inr (x, ?q')"
    using D x by (simp add: sc_queue_del_first_def sc_queue_inc_first_def elems_get_def mask_index_next)
  moreover have "queue_ok ?q'" using D assms(1) by (simp add: queue_ok_def queue_inv_def)
  moreover have "queue_list ?q' = xs"
  proof (rule nth_equalityI)
    have l': "ring_dist (cap q) (ring_next (cap q) (first q)) (sq_last q) = length xs"
      using len D(4,5) by (auto simp: ring_dist_def ring_next_def split: if_splits)
    then show "length (queue_list ?q') = length xs" by (simp add: queue_length)
    fix i assume il: "i < length (queue_list ?q')"
    with queue_list_nth have at_i: "queue_list ?q' ! i = elems ?q' ! ((first ?q' + i) mod cap ?q')" by blast
    from il have i: "i < length xs" using l' by (simp add: queue_length)
    have "queue_list ?q' ! i = elems q ! ((Suc (first q) mod cap q + i) mod cap q)"
      using at_i D(4) by (simp add: ring_next_mod)
    also have "\<dots> = queue_list q ! Suc i"
      using i assms(2) queue_list_nth [of "Suc i" q] by (simp add: mod_add_left_eq)
    finally show "queue_list ?q' ! i = xs ! i" using assms(2) by simp
  qed
  ultimately show ?thesis by blast
qed

lemma del_last_list:
  assumes "queue_ok q" "queue_list q = xs @ [x]"
  shows "\<exists>q'. sc_queue_del_last q = Inr (x, q') \<and> queue_ok q' \<and> queue_list q' = xs"
proof -
  have inv: "queue_inv q" using assms by (simp add: queue_ok_def)
  note D = queue_invD [OF inv]
  let ?l = "(sq_last q + (cap q - 1)) mod cap q"
  note P = mask_index_prev [OF D(1,2,5)]
  let ?q' = "q\<lparr>sq_last := ?l\<rparr>"
  have l: "?l < cap q" using D(2) by simp
  have len: "ring_dist (cap q) (first q) (sq_last q) = Suc (length xs)"
    using assms(2) by (metis length_append_singleton queue_length)
  have len': "ring_dist (cap q) (first q) ?l = length xs"
    using len P(2) l D(4,5) by (auto simp: ring_dist_def ring_next_def split: if_splits)
  have x: "elems q ! ?l = x"
    using queue_list_nth [of "length xs" q] assms(2) len' ring_dist_mod [OF D(4) l] by simp
  have "sc_queue_del_last q = Inr (x, ?q')"
    using D l x by (simp add: sc_queue_del_last_def elems_get_def P(1) Let_def)
  moreover have "queue_ok ?q'" using D l assms(1) by (simp add: queue_ok_def queue_inv_def)
  moreover have "queue_list ?q' = xs"
  proof (rule nth_equalityI)
    show "length (queue_list ?q') = length xs" using len' by (simp add: queue_length)
    fix i assume il: "i < length (queue_list ?q')"
    with queue_list_nth have at_i: "queue_list ?q' ! i = elems ?q' ! ((first ?q' + i) mod cap ?q')" by blast
    from il have i: "i < length xs" using len' by (simp add: queue_length)
    have "queue_list ?q' ! i = queue_list q ! i"
      using at_i i assms(2) queue_list_nth [of i q] by simp
    then show "queue_list ?q' ! i = xs ! i" using i assms(2) by (simp add: nth_append)
  qed
  ultimately show ?thesis by blast
qed

lemma peek_first_list:
  assumes "queue_ok q" "queue_list q = x # xs"
  shows "sc_queue_peek_first q = Inr x"
proof -
  have "queue_inv q" using assms by (simp add: queue_ok_def)
  note D = queue_invD [OF this]
  show ?thesis
    using queue_list_nth [of 0 q] assms(2) D by (simp add: sc_queue_peek_first_def elems_get_def)
qed

lemma at_list:
  assumes "queue_inv q" "i < length (queue_list q)"
  shows "sc_queue_at q i = Inr (queue_list q ! i)"
proof -
  note D = queue_invD [OF assms(1)]
  have "i < cap q" using assms(2) D by (simp add: queue_length) (meson less_trans ring_dist_less)
  then have "first q + i < 2 ^ 64" using D(4) is_pow2_bound [OF D(1)] by simp
  then have "unat (of_nat (first q + i) :: size_t) = first q + i" by (rule unat_of_nat_size)
  then have "mask_index (cap q) (of_nat (first q) + of_nat i) = (first q + i) mod cap q"
    using D(1) by (simp add: mask_index_mod)
  moreover have "(first q + i) mod cap q < cap q" using D(2) by simp
  ultimately show ?thesis
    using assms(2) D by (simp add: sc_queue_at_def elems_get_def queue_list_nth)
qed

lemma foreach_loop_list:
  assumes inv: "queue_inv q" and "i + n = length (queue_list q)" "n \<le> m"
  shows "foreach_loop q m ((first q + i) mod cap q) = Inr (drop i (queue_list q))"
  using assms(2-)
proof (induction n arbitrary: i m)
  case 0
  note D = queue_invD [OF inv]
  have "(first q + i) mod cap q = sq_last q"
    using 0 ring_dist_mod [OF D(4,5)] by (simp add: queue_length)
  then show ?case using 0 by (cases m) simp_all
next
  case (Suc n)
  note D = queue_invD [OF inv]
  obtain m' where m: "m = Suc m'" using Suc.prems by (cases m) simp_all
  let ?j = "(first q + i) mod cap q"
  have j: "?j < cap q" using D(2) by simp
  have i: "i < length (queue_list q)" using Suc.prems by simp
  then have "i < cap q" using D by (simp add: queue_length) (meson less_trans ring_dist_less)
  then have ne: "?j \<noteq> sq_last q"
    using ring_dist_of_mod [OF D(4), of i] i by (auto simp: queue_length)
  have nx: "sc_queue_next q ?j = (first q + Suc i) mod cap q"
    using queue_next [OF inv j] j by (simp add: ring_next_mod mod_Suc_eq)
  have "foreach_loop q m' ((first q + Suc i) mod cap q) = Inr (drop (Suc i) (queue_list q))"
    using Suc.IH [of "Suc i" m'] Suc.prems m by simp
  then show ?case
    using m ne nx j i D(3,6) by (simp add: elems_get_def queue_list_nth Cons_nth_drop_Suc [symmetric])
qed

lemma foreach_list:
  assumes "queue_inv q" shows "sc_queue_foreach q = Inr (queue_list q)"
proof -
  note D = queue_invD [OF assms]
  have "length (queue_list q) \<le> cap q" using D by (simp add: queue_length less_imp_le)
  then show ?thesis
    using foreach_loop_list [OF assms, of 0 "length (queue_list q)" "cap q"] D(4)
    by (simp add: sc_queue_foreach_def)
qed

interpretation sq: deque "sc_queue_add_last True z" sc_queue_del_first queue_list queue_ok queue_limit
  "sc_queue_add_first True z" sc_queue_del_last sc_queue_peek_first
  by unfold_locales
    (fact add_last_list del_first_list add_first_list del_last_list peek_first_list)+

section \<open>Running out of memory\<close>

text \<open>A failed growth leaves the contents alone; the out-of-memory flag then stays set until the queue
  is cleared or grows, so elements are dropped even after room has been made.\<close>

lemma add_last_no_memory:
  assumes "queue_ok q" "sc_queue_next q (sq_last q) = first q"
  shows "sc_queue_add_last False z q x = Inr (q\<lparr>oom := True\<rparr>)" "queue_list (q\<lparr>oom := True\<rparr>) = queue_list q"
  using assms by (simp_all add: sc_queue_add_last_def sc_queue_expand_def queue_list_def Let_def)

lemma add_last_oom_sticky:
  assumes "oom q" "sc_queue_next q (sq_last q) \<noteq> first q"
  shows "sc_queue_add_last mem z q x = Inr q"
  using assms by (simp add: sc_queue_add_last_def sc_queue_expand_def)

end
