(* ===== verification/Jobqueue.thy ===== *)
theory Jobqueue
  imports Alloc Sc_Queue
begin

text \<open>
  The job queue of \<open>thpool.c\<close>: a linked list of heap-allocated jobs with a front and a rear pointer, a
  length, and the binary semaphore \<open>has_jobs\<close>. It refines the list of queued jobs and provides the
  interface \<open>fifo\<close>.
\<close>

section \<open>State\<close>

record job =
  prev :: addr
  func :: addr
  arg :: addr

text \<open>The memory \<open>jobs\<close> holds the \<open>job\<close> objects; \<open>sem_v\<close> is the value of \<open>has_jobs\<close>.\<close>

record jobqueue =
  front :: addr
  rear :: addr
  len :: nat
  sem_v :: nat
  jobs :: "addr \<rightharpoonup> job"

section \<open>Operations\<close>

definition bsem_init :: "int \<Rightarrow> nat option" where
  "bsem_init value = (if value < 0 \<or> value > 1 then None else Some (nat value))"

text \<open>The value part of the semaphore operations; whom a post wakes up is the pool's business.\<close>

definition bsem_post :: "jobqueue \<Rightarrow> jobqueue" where
  "bsem_post q = q\<lparr>sem_v := 1\<rparr>"

definition bsem_take :: "jobqueue \<Rightarrow> jobqueue option" where
  "bsem_take q = (if sem_v q \<noteq> 1 then None else Some (q\<lparr>sem_v := 0\<rparr>))"

definition jobqueue_init :: "(addr \<rightharpoonup> job) \<Rightarrow> jobqueue" where
  "jobqueue_init h = \<lparr>front = null, rear = null, len = 0, sem_v = 0, jobs = h\<rparr>"

definition job_set_prev :: "(addr \<rightharpoonup> job) \<Rightarrow> addr \<Rightarrow> addr \<Rightarrow> (addr \<rightharpoonup> job) run" where
  "job_set_prev h p x =
     (if p = null then Inl Null_Deref
      else case h p of None \<Rightarrow> Inl Use_After_Free | Some j \<Rightarrow> Inr (h(p \<mapsto> j\<lparr>prev := x\<rparr>)))"

definition job_free :: "(addr \<rightharpoonup> job) \<Rightarrow> addr \<Rightarrow> (addr \<rightharpoonup> job) run" where
  "job_free h p =
     (if p = null then Inr h
      else case h p of None \<Rightarrow> Inl Use_After_Free | Some j \<Rightarrow> Inr (h(p := None)))"

definition jobqueue_push :: "jobqueue \<Rightarrow> addr \<Rightarrow> jobqueue run" where
  "jobqueue_push q newjob =
     andthen (job_set_prev (jobs q) newjob null) (\<lambda>h.
     andthen (if len q = 0 then Inr (q\<lparr>front := newjob, rear := newjob, jobs := h\<rparr>)
              else andthen (job_set_prev h (rear q) newjob) (\<lambda>h'. Inr (q\<lparr>rear := newjob, jobs := h'\<rparr>)))
       (\<lambda>q'. Inr (bsem_post (q'\<lparr>len := len q' + 1\<rparr>))))"

text \<open>Pulling posts the semaphore again when jobs remain.\<close>

definition jobqueue_pull :: "jobqueue \<Rightarrow> (addr \<times> jobqueue) run" where
  "jobqueue_pull q =
     (let job_p = front q in
      if len q = 0 then Inr (job_p, q)
      else if len q = 1 then Inr (job_p, q\<lparr>front := null, rear := null, len := 0\<rparr>)
      else if job_p = null then Inl Null_Deref
      else case jobs q job_p of
             None \<Rightarrow> Inl Use_After_Free
           | Some j \<Rightarrow> Inr (job_p, bsem_post (q\<lparr>front := prev j, len := len q - 1\<rparr>)))"

fun jobqueue_clear_loop :: "nat \<Rightarrow> jobqueue \<Rightarrow> jobqueue run" where
  "jobqueue_clear_loop n q =
     (if len q = 0 then Inr q
      else case n of
             0 \<Rightarrow> Inl No_Fuel
           | Suc m \<Rightarrow>
               andthen (jobqueue_pull q) (\<lambda>(p, q').
               andthen (job_free (jobs q') p) (\<lambda>h. jobqueue_clear_loop m (q'\<lparr>jobs := h\<rparr>))))"

declare jobqueue_clear_loop.simps [simp del]

definition jobqueue_clear :: "jobqueue \<Rightarrow> jobqueue run" where
  "jobqueue_clear q =
     andthen (jobqueue_clear_loop (len q) q)
       (\<lambda>q'. Inr (q'\<lparr>front := null, rear := null, sem_v := 0, len := 0\<rparr>))"

text \<open>Allocating a job and queueing it, as \<open>thpool_add_work\<close> does; and taking one off and freeing it.\<close>

definition job_enqueue :: "((addr \<rightharpoonup> job) \<Rightarrow> addr) \<Rightarrow> jobqueue \<Rightarrow> addr \<times> addr \<Rightarrow> jobqueue run" where
  "job_enqueue malloc q w =
     (let p = malloc (jobs q)
      in jobqueue_push (q\<lparr>jobs := (jobs q)(p \<mapsto> \<lparr>prev = null, func = fst w, arg = snd w\<rparr>)\<rparr>) p)"

definition job_dequeue :: "jobqueue \<Rightarrow> ((addr \<times> addr) \<times> jobqueue) run" where
  "job_dequeue q =
     andthen (jobqueue_pull q) (\<lambda>(p, q').
       if p = null then Inl Null_Deref
       else case jobs q' p of
              None \<Rightarrow> Inl Use_After_Free
            | Some j \<Rightarrow> andthen (job_free (jobs q') p) (\<lambda>h. Inr ((func j, arg j), q'\<lparr>jobs := h\<rparr>)))"

section \<open>Refinement of a list\<close>

definition jq_path :: "jobqueue \<Rightarrow> addr list \<Rightarrow> bool" where
  "jq_path q as \<longleftrightarrow>
     path prev (jobs q) (front q) as \<and> distinct as \<and> len q = length as \<and>
     (as \<noteq> [] \<longrightarrow> rear q = last as) \<and> (as = [] \<longrightarrow> rear q = null)"

definition work_of :: "(addr \<rightharpoonup> job) \<Rightarrow> addr \<Rightarrow> addr \<times> addr" where
  "work_of h p = (case h p of None \<Rightarrow> (null, null) | Some j \<Rightarrow> (func j, arg j))"

lemma jq_path_alloc: "jq_path q as \<Longrightarrow> a \<in> set as \<Longrightarrow> jobs q a \<noteq> None \<and> a \<noteq> null"
  by (auto simp: jq_path_def dest: path_alloc)

lemma jq_init: "jq_path (jobqueue_init h) []"
  by (simp add: jq_path_def jobqueue_init_def)

lemma push_path:
  assumes P: "jq_path q as" and p: "p \<notin> set as" "jobs q p = Some j" "p \<noteq> null"
  obtains q' where "jobqueue_push q p = Inr q'" "jq_path q' (as @ [p])" "sem_v q' = 1"
    "dom (jobs q') = dom (jobs q)" "\<And>a. work_of (jobs q') a = work_of (jobs q) a"
proof (cases as rule: rev_cases)
  case Nil
  then show thesis
    using P p
    by (intro that [of "q\<lparr>front := p, rear := p, len := 1, sem_v := 1, jobs := (jobs q)(p \<mapsto> j\<lparr>prev := null\<rparr>)\<rparr>"])
      (auto simp: jq_path_def jobqueue_push_def job_set_prev_def bsem_post_def work_of_def)
next
  case (snoc bs r)
  then have r: "rear q = r" "r \<noteq> p" "r \<noteq> null" "len q \<noteq> 0"
    using P p jq_path_alloc [OF P, of r] by (auto simp: jq_path_def)
  then obtain c where c: "jobs q r = Some c" using jq_path_alloc [OF P, of r] snoc by auto
  let ?h = "(jobs q)(p \<mapsto> j\<lparr>prev := null\<rparr>, r \<mapsto> c\<lparr>prev := p\<rparr>)"
  let ?q = "q\<lparr>rear := p, len := len q + 1, sem_v := 1, jobs := ?h\<rparr>"
  have h: "?h = (jobs q)(r \<mapsto> c\<lparr>prev := p\<rparr>, p \<mapsto> j\<lparr>prev := null\<rparr>)" using r by (simp add: fun_upd_twist)
  have "path prev ?h (front q) (bs @ [r, p])"
    unfolding h using P snoc p by (intro path_append_cell) (auto simp: jq_path_def)
  then have "jq_path ?q (as @ [p])" using P p snoc r(2) by (auto simp: jq_path_def)
  moreover have "jobqueue_push q p = Inr ?q"
    using p r c by (simp add: jobqueue_push_def job_set_prev_def bsem_post_def)
  ultimately show thesis
    using p r c by (intro that [of ?q]) (auto simp: work_of_def)
qed

lemma pull_path:
  assumes P: "jq_path q as"
  obtains (none) "as = []" "jobqueue_pull q = Inr (null, q)"
  | (some) p bs q' where "as = p # bs" "jobqueue_pull q = Inr (p, q')" "jq_path q' bs" "jobs q' = jobs q"
    "sem_v q' = (if bs = [] then sem_v q else 1)"
proof (cases as)
  case Nil
  then show thesis using P none by (simp add: jq_path_def jobqueue_pull_def)
next
  case (Cons p bs)
  then obtain j where j: "jobs q p = Some j" "front q = p" "p \<noteq> null" "path prev (jobs q) (prev j) bs"
    using P by (auto simp: jq_path_def split: option.splits)
  have len: "len q = Suc (length bs)" using P Cons by (simp add: jq_path_def)
  show thesis
  proof (cases "bs = []")
    case True
    then show thesis
      using Cons len j
      by (intro some [of p bs "q\<lparr>front := null, rear := null, len := 0\<rparr>"]) (simp_all add: jobqueue_pull_def jq_path_def)
  next
    case False
    then have "len q \<noteq> 1" using len by simp
    then show thesis
      using Cons len j False P
      by (intro some [of p bs "q\<lparr>front := prev j, len := len q - 1, sem_v := 1\<rparr>"]) (simp_all add: jobqueue_pull_def jq_path_def bsem_post_def)
  qed
qed

lemma jq_path_frame:
  assumes "jq_path q as" "\<And>a. a \<in> set as \<Longrightarrow> h a = jobs q a"
  shows "jq_path (q\<lparr>jobs := h\<rparr>) as"
  using assms path_frame [of as h "jobs q" prev "front q"] by (simp add: jq_path_def)

lemma clear_loop_path:
  assumes "jq_path q as"
  obtains q' where "jobqueue_clear_loop (length as) q = Inr q'" "jq_path q' []"
    "jobs q' = (\<lambda>a. if a \<in> set as then None else jobs q a)"
  using assms
proof (induction as arbitrary: q thesis)
  case Nil
  show ?case
    by (rule Nil.prems(1)) (use Nil.prems(2) in \<open>simp_all add: jobqueue_clear_loop.simps jq_path_def\<close>)
next
  case (Cons p as)
  have p: "jobs q p \<noteq> None" "p \<noteq> null" "p \<notin> set as" "len q \<noteq> 0"
    using Cons.prems(2) jq_path_alloc [of q "p # as" p] by (auto simp: jq_path_def)
  show ?case
    using Cons.prems(2)
  proof (cases rule: pull_path)
    case (some p' bs q')
    let ?q = "q'\<lparr>jobs := (jobs q')(p := None)\<rparr>"
    have "jq_path ?q as" using some p(3) by (intro jq_path_frame) auto
    then obtain q2 where q2: "jobqueue_clear_loop (length as) ?q = Inr q2" "jq_path q2 []"
      "jobs q2 = (\<lambda>a. if a \<in> set as then None else jobs ?q a)"
      using Cons.IH by blast
    have "jobqueue_clear_loop (length (p # as)) q = Inr q2"
      using some p q2(1) by (subst jobqueue_clear_loop.simps) (auto simp: job_free_def split: option.splits)
    then show ?thesis using q2 some by (intro Cons.prems(1)) auto
  qed simp
qed

lemma clear_path:
  assumes "jq_path q as"
  shows "\<exists>q'. jobqueue_clear q = Inr q' \<and> jq_path q' [] \<and> sem_v q' = 0 \<and>
    jobs q' = (\<lambda>a. if a \<in> set as then None else jobs q a)"
proof -
  obtain q' where "jobqueue_clear_loop (length as) q = Inr q'" "jq_path q' []"
    "jobs q' = (\<lambda>a. if a \<in> set as then None else jobs q a)"
    using clear_loop_path [OF assms] by blast
  then show ?thesis
    using assms by (simp add: jobqueue_clear_def jq_path_def)
qed

section \<open>The queue provides the interface\<close>

definition jq_ok :: "jobqueue \<Rightarrow> bool" where
  "jq_ok q \<longleftrightarrow> (\<exists>as. jq_path q as \<and> dom (jobs q) = set as)"

fun jq_addrs :: "nat \<Rightarrow> (addr \<rightharpoonup> job) \<Rightarrow> addr \<Rightarrow> addr list" where
  "jq_addrs 0 h p = []"
| "jq_addrs (Suc n) h p = (case h p of None \<Rightarrow> [] | Some j \<Rightarrow> p # jq_addrs n h (prev j))"

definition jq_list :: "jobqueue \<Rightarrow> (addr \<times> addr) list" where
  "jq_list q = map (work_of (jobs q)) (jq_addrs (len q) (jobs q) (front q))"

definition jobqueue_limit :: nat where "jobqueue_limit = 2 ^ 31 - 1"

lemma jq_addrs_path: "path prev h p as \<Longrightarrow> jq_addrs (length as) h p = as"
  by (induction as arbitrary: p) (auto split: option.splits)

lemma jq_list_path: "jq_path q as \<Longrightarrow> jq_list q = map (work_of (jobs q)) as"
  by (simp add: jq_list_def jq_path_def jq_addrs_path)

lemma jq_list_length: "jq_ok q \<Longrightarrow> length (jq_list q) = len q"
  by (auto simp: jq_ok_def jq_list_path) (simp add: jq_path_def)

lemma enqueue_list:
  assumes "jq_ok q" "length (jq_list q) < jobqueue_limit"
    and fresh: "\<And>h :: addr \<rightharpoonup> job. finite (dom h) \<Longrightarrow> card (dom h) < 2 ^ 63 \<Longrightarrow> m h \<noteq> null \<and> h (m h) = None"
  shows "\<exists>q'. job_enqueue m q w = Inr q' \<and> jq_ok q' \<and> jq_list q' = jq_list q @ [w]"
proof -
  obtain as where P: "jq_path q as" and d: "dom (jobs q) = set as" using assms(1) by (auto simp: jq_ok_def)
  have "length as < 2 ^ 31 - 1" using assms(2) jq_list_path [OF P] by (simp add: jobqueue_limit_def)
  then have "card (dom (jobs q)) < 2 ^ 63" using d card_length [of as] by simp
  moreover have "finite (dom (jobs q))" using d by simp
  ultimately have p: "m (jobs q) \<noteq> null" "jobs q (m (jobs q)) = None" using fresh by blast+
  let ?p = "m (jobs q)" and ?j = "\<lparr>prev = null, func = fst w, arg = snd w\<rparr>"
  let ?q = "q\<lparr>jobs := (jobs q)(?p \<mapsto> ?j)\<rparr>"
  have pas: "?p \<notin> set as" using p d by auto
  then have P': "jq_path ?q as" by (intro jq_path_frame [OF P]) auto
  obtain q' where q': "jobqueue_push ?q ?p = Inr q'" "jq_path q' (as @ [?p])"
    "dom (jobs q') = dom (jobs ?q)" "\<And>a. work_of (jobs q') a = work_of (jobs ?q) a"
    by (rule push_path [OF P' pas _ p(1), where j = ?j]) simp_all
  have "jq_list q' = jq_list q @ [w]"
    using jq_list_path [OF q'(2)] jq_list_path [OF P] q'(4) pas by (auto simp: work_of_def)
  moreover have "jq_ok q'" using q'(2,3) d by (auto simp: jq_ok_def)
  ultimately show ?thesis using q'(1) by (simp add: job_enqueue_def Let_def)
qed

lemma dequeue_list:
  assumes "jq_ok q" "jq_list q = w # ws"
  shows "\<exists>q'. job_dequeue q = Inr (w, q') \<and> jq_ok q' \<and> jq_list q' = ws"
proof -
  obtain as where P: "jq_path q as" and d: "dom (jobs q) = set as" using assms(1) by (auto simp: jq_ok_def)
  show ?thesis
    using P
  proof (cases rule: pull_path)
    case none
    then show ?thesis using assms(2) jq_list_path [OF P] by simp
  next
    case (some p bs q')
    obtain j where j: "jobs q p = Some j" "p \<noteq> null" "p \<notin> set bs"
      using jq_path_alloc [OF P, of p] some P by (auto simp: jq_path_def)
    let ?q = "q'\<lparr>jobs := (jobs q')(p := None)\<rparr>"
    have P': "jq_path ?q bs" using some j by (intro jq_path_frame) auto
    have "job_dequeue q = Inr (w, ?q)"
      using some j assms(2) jq_list_path [OF P] by (simp add: job_dequeue_def job_free_def work_of_def)
    moreover have "dom (jobs ?q) = set bs" using d some j by auto
    moreover have "jq_list ?q = ws"
      using jq_list_path [OF P'] jq_list_path [OF P] assms(2) some j by (auto simp: work_of_def)
    ultimately show ?thesis using P' by (auto simp: jq_ok_def)
  qed
qed

interpretation jq: fifo "job_enqueue first_free" job_dequeue jq_list jq_ok jobqueue_limit
proof unfold_locales
  fix q :: jobqueue and x
  assume "jq_ok q" "length (jq_list q) < jobqueue_limit"
  then show "\<exists>q'. job_enqueue first_free q x = Inr q' \<and> jq_ok q' \<and> jq_list q' = jq_list q @ [x]"
    by (rule enqueue_list) (rule first_free_fresh)
qed (rule dequeue_list)

lemma jobqueue_init_ok: "jq_ok (jobqueue_init Map.empty)" "jq_list (jobqueue_init Map.empty) = []"
  using jq_init [of Map.empty] jq_list_path [OF jq_init] by (auto simp: jq_ok_def jobqueue_init_def)

end
