(* ===== verification/Queue_Claims.thy ===== *)
theory Queue_Claims
  imports Jobqueue
begin

text \<open>
  What the two queues of the library promise: the ring buffer of \<open>sc_queue.h\<close> and the linked list of
  jobs of \<open>thpool.c\<close>, both through the interface \<open>fifo\<close>.
\<close>

lemma queue_limit_pos [simp]: "0 < queue_limit" "n < 1000 \<Longrightarrow> n < queue_limit" "n \<le> 1000 \<Longrightarrow> n \<le> queue_limit"
  by (simp_all add: queue_limit_def)

section \<open>The ring buffer\<close>

text \<open>C18: Elements added at the end of an empty queue come out at its front in the same order, whatever
  their number and however often the buffer was doubled on the way.\<close>

theorem ring_first_in_first_out:
  assumes "queue_ok q" "queue_list q = []" "length xs \<le> 2 ^ 63 - 1"
  shows "\<exists>q1 q2. sq.enq_all z q xs = Inr q1 \<and> sc_queue_size q1 = length xs \<and>
    sq.deq_many q1 (length xs) = Inr (xs, q2) \<and> sc_queue_empty q2"
proof -
  have lim: "length xs \<le> queue_limit" using assms(3) by (simp add: queue_limit_def)
  obtain q1 where q1: "sq.enq_all z q xs = Inr q1" "queue_ok q1" "queue_list q1 = xs"
    using sq.enq_all [OF assms(1), of xs z] lim assms(2) by auto
  obtain q2 where "sq.deq_many q1 (length xs) = Inr (xs, q2)" "queue_ok q2" "queue_list q2 = []"
    using sq.deq_many [OF q1(2), of xs "[]"] q1(3) by auto
  then show ?thesis
    using q1 queue_size [of q1] queue_empty [of q2] by (simp add: queue_ok_def)
qed

theorem ring_first_in_first_out_witness:
  "\<exists>q1 q2. sq.enq_all 0 (sc_queue_init True (0 :: nat)) [5, 6, 7] = Inr q1 \<and>
    sq.deq_many q1 (length [5, 6, 7 :: nat]) = Inr ([5, 6, 7], q2) \<and> sc_queue_empty q2"
proof -
  have "length [5, 6, 7 :: nat] \<le> 2 ^ 63 - 1" by simp
  from ring_first_in_first_out [OF init_list(1) init_list(2) this, of 0 0] show ?thesis by blast
qed

text \<open>Adding at either end, below the largest capacity, extends the sequence of elements at that end
  and never overwrites one, also when the buffer is full and has to be doubled and unwrapped.\<close>

theorem add_extends_sequence:
  assumes "queue_ok q" "length (queue_list q) < 2 ^ 63 - 1"
  shows "(\<exists>q'. sc_queue_add_last True z q x = Inr q' \<and> queue_ok q' \<and> queue_list q' = queue_list q @ [x]) \<and>
    (\<exists>q'. sc_queue_add_first True z q x = Inr q' \<and> queue_ok q' \<and> queue_list q' = x # queue_list q)"
  using sq.enq [OF assms(1), of z x] sq.push [OF assms(1), of z x] assms(2) by (simp add: queue_limit_def)

theorem add_extends_sequence_witness:
  "\<exists>q'. sc_queue_add_last True 0 (sc_queue_init True (0 :: nat)) 5 = Inr q' \<and> queue_list q' = [5]"
  using add_extends_sequence [OF init_list(1) [of "0 :: nat"], of 0 5] init_list(2) [of "0 :: nat"] by fastforce

text \<open>Deleting at an end of a queue that is not empty returns the element at that end and leaves the
  others in place.\<close>

theorem delete_returns_end:
  assumes "queue_ok q" "queue_list q = x # xs" "queue_list q = ys @ [y]"
  shows "sc_queue_peek_first q = Inr x \<and>
    (\<exists>q'. sc_queue_del_first q = Inr (x, q') \<and> queue_ok q' \<and> queue_list q' = xs) \<and>
    (\<exists>q'. sc_queue_del_last q = Inr (y, q') \<and> queue_ok q' \<and> queue_list q' = ys)"
  using sq.deq [OF assms(1,2)] sq.pull [OF assms(1,3)] sq.top_elem [OF assms(1,2)] by blast

theorem delete_returns_end_witness:
  "\<exists>q. queue_list q = [5 :: nat] \<and> sc_queue_peek_first q = Inr 5 \<and>
    (\<exists>q'. sc_queue_del_last q = Inr (5, q') \<and> queue_list q' = [])"
proof -
  obtain q where q: "queue_ok q" "queue_list q = [5 :: nat]"
    using add_last_list [OF init_list(1) [of "0 :: nat"], of 0 5] init_list(2) [of "0 :: nat"] by auto
  show ?thesis using delete_returns_end [OF q, of "[]" 5] q(2) by auto
qed

text \<open>Indexing and \<open>sc_queue_foreach\<close> see the elements in order, without reading outside the buffer.\<close>

theorem queue_reads_in_order:
  assumes "queue_ok q" "i < sc_queue_size q"
  shows "sc_queue_at q i = Inr (queue_list q ! i) \<and> sc_queue_foreach q = Inr (queue_list q)"
proof -
  have "queue_inv q" using assms(1) by (simp add: queue_ok_def)
  then show ?thesis using at_list [of q i] foreach_list [of q] queue_size [of q] assms(2) by simp
qed

theorem queue_reads_in_order_witness:
  "\<exists>q. sc_queue_at q 0 = Inr (5 :: nat) \<and> sc_queue_foreach q = Inr [5]"
proof -
  obtain q where q: "queue_ok q" "queue_list q = [5 :: nat]"
    using add_last_list [OF init_list(1) [of "0 :: nat"], of 0 5] init_list(2) [of "0 :: nat"] by auto
  then have "0 < sc_queue_size q" using queue_size [of q] by (simp add: queue_ok_def)
  then show ?thesis using queue_reads_in_order [OF q(1)] q(2) by (metis nth_Cons_0)
qed

text \<open>An allocation failure is not forgotten: the failed add marks the queue, and from then on adds
  are dropped even when elements have been deleted and memory is available again.\<close>

theorem failed_growth_blocks_later_adds:
  assumes "queue_ok q" "sc_queue_next q (sq_last q) = first q" "queue_list q = x # xs"
  shows "\<exists>q1 q2. sc_queue_add_last False z q y = Inr q1 \<and> queue_list q1 = queue_list q \<and>
    sc_queue_del_first q1 = Inr (x, q2) \<and> queue_list q2 = xs \<and> sc_queue_add_last True z q2 y = Inr q2"
proof -
  have inv: "queue_inv q" using assms(1) by (simp add: queue_ok_def)
  note D = queue_invD [OF inv]
  obtain q' where q': "sc_queue_del_first q = Inr (x, q')" "queue_list q' = xs"
    using sq.deq [OF assms(1,3)] by blast
  have f: "q' = q\<lparr>first := ring_next (cap q) (first q)\<rparr>"
    using q'(1) D by (auto simp: sc_queue_del_first_def sc_queue_inc_first_def mask_index_next andthen_eq_Inr)
  let ?q1 = "q\<lparr>oom := True\<rparr>" and ?q2 = "q'\<lparr>oom := True\<rparr>"
  have "sc_queue_add_last False z q y = Inr ?q1" "queue_list ?q1 = queue_list q"
    using add_last_no_memory [OF assms(1,2)] by simp_all
  moreover have "sc_queue_del_first ?q1 = Inr (x, ?q2)"
    using q'(1) f D by (auto simp: sc_queue_del_first_def sc_queue_inc_first_def mask_index_next andthen_eq_Inr elems_get_def)
  moreover have "queue_list ?q2 = xs" using q'(2) by (simp add: queue_list_def)
  moreover have "sc_queue_next ?q2 (sq_last ?q2) \<noteq> first ?q2"
  proof -
    have "sc_queue_next ?q2 (sq_last ?q2) = first q" using assms(2) by (simp add: f sc_queue_next_def)
    then show ?thesis using D(2,4) by (auto simp: f ring_next_def)
  qed
  then have "sc_queue_add_last True z ?q2 y = Inr ?q2" by (intro add_last_oom_sticky) simp_all
  ultimately show ?thesis by blast
qed

text \<open>A full queue: seven elements in a buffer of eight.\<close>

definition full_queue :: "nat sc_queue" where
  "full_queue = \<lparr>oom = False, cap = 8, first = 0, sq_last = 7, elems = [1, 2, 3, 4, 5, 6, 7, 0]\<rparr>"

lemma full_queue_ok: "queue_ok full_queue" "sc_queue_next full_queue 7 = 0"
proof -
  show ok: "queue_ok full_queue" by (simp add: full_queue_def queue_ok_def queue_inv_def)
  have "7 < cap full_queue" by (simp add: full_queue_def)
  then have "sc_queue_next full_queue 7 = ring_next (cap full_queue) 7"
    using ok by (intro queue_next) (simp_all add: queue_ok_def)
  then show "sc_queue_next full_queue 7 = 0" by (simp add: full_queue_def ring_next_def)
qed

lemma full_queue_list: "queue_list full_queue = [1, 2, 3, 4, 5, 6, 7]"
  by code_simp

theorem failed_growth_blocks_later_adds_witness:
  "\<exists>q1 q2. sc_queue_add_last False 0 full_queue 8 = Inr q1 \<and> sc_queue_del_first q1 = Inr (1, q2) \<and>
    queue_list q2 = [2, 3, 4, 5, 6, 7] \<and> sc_queue_add_last True 0 q2 8 = Inr q2"
  using failed_growth_blocks_later_adds [OF full_queue_ok(1) _ full_queue_list, of 0 8] full_queue_ok(2)
  by (simp add: full_queue_def full_queue_list [unfolded full_queue_def]) blast

section \<open>The linked list of jobs\<close>

text \<open>Jobs pushed on an empty queue, each allocated by \<open>malloc\<close> at an unused address, are pulled in
  the order in which they were pushed; the links, the two end pointers and the length agree throughout,
  and no job is touched after it has been freed.\<close>

theorem jobs_first_in_first_out:
  assumes "jq_ok q" "jq_list q = []" "length ws \<le> 2147483647"
  shows "\<exists>q1 q2. jq.enq_all q ws = Inr q1 \<and> len q1 = length ws \<and>
    jq.deq_many q1 (length ws) = Inr (ws, q2) \<and> len q2 = 0 \<and> jq_ok q2"
proof -
  have lim: "length ws \<le> jobqueue_limit" using assms(3) by (simp add: jobqueue_limit_def)
  obtain q1 where q1: "jq.enq_all q ws = Inr q1" "jq_ok q1" "jq_list q1 = ws"
    using jq.enq_all [OF assms(1), of ws] lim assms(2) by auto
  obtain q2 where "jq.deq_many q1 (length ws) = Inr (ws, q2)" "jq_ok q2" "jq_list q2 = []"
    using jq.deq_many [OF q1(2), of ws "[]"] q1(3) by auto
  then show ?thesis using q1 jq_list_length [of q1] jq_list_length [of q2] by auto
qed

theorem jobs_first_in_first_out_witness:
  "\<exists>q1 q2. jq.enq_all (jobqueue_init Map.empty) [(1, 2), (3, 4)] = Inr q1 \<and>
    jq.deq_many q1 (length [(1, 2 :: nat), (3, 4)]) = Inr ([(1, 2), (3, 4)], q2) \<and> len q2 = 0"
proof -
  have "length [(1, 2), (3, 4 :: addr)] \<le> 2147483647" by simp
  from jobs_first_in_first_out [OF jobqueue_init_ok, of "[(1, 2), (3, 4)]"] this show ?thesis by fastforce
qed

text \<open>Clearing a job queue ends after one pull per job, frees exactly the queued jobs, and leaves an
  empty queue with the semaphore down.\<close>

theorem clear_frees_queued_jobs:
  assumes "jq_path q as"
  shows "\<exists>q'. jobqueue_clear q = Inr q' \<and> jq_path q' [] \<and> sem_v q' = 0 \<and>
    jobs q' = (\<lambda>a. if a \<in> set as then None else jobs q a)"
  by (rule clear_path [OF assms])

theorem clear_frees_queued_jobs_witness:
  "\<exists>q q'. jq_list q = [(1, 2)] \<and> jobqueue_clear q = Inr q' \<and> jq_path q' [] \<and> sem_v q' = 0"
proof -
  obtain q where q: "jq_ok q" "jq_list q = [(1, 2)]"
    using jq.enq [OF jobqueue_init_ok(1), of "(1, 2)"] jobqueue_init_ok(2) by (auto simp: jobqueue_limit_def)
  then obtain as where "jq_path q as" by (auto simp: jq_ok_def)
  then show ?thesis using clear_frees_queued_jobs q(2) by blast
qed

end
