(* ===== verification/Thread_Pool.thy ===== *)
theory Thread_Pool
  imports Jobqueue "HOL-Library.Multiset"
begin

text \<open>
  The thread pool of \<open>thpool.c\<close> as a transition system: one program counter per worker, advanced by
  \<open>thread_do\<close> in the atomic sections the code takes its locks for, together with the callers of
  \<open>thpool_add_work\<close>, \<open>thpool_wait\<close> and \<open>thpool_destroy\<close>. The queue is the linked list of
  \<^theory_text>\<open>Jobqueue\<close>. The work submitted, started and finished so far is recorded beside the state.
\<close>

section \<open>State\<close>

text \<open>Where a worker is in \<open>thread_do\<close>: before it counts itself alive; at the loop test; in
  \<open>bsem_wait\<close>, about to test the value or asleep on its condition; after it; before it counts itself
  working; before \<open>jobqueue_pull\<close>; in the job; before \<open>free\<close>; before it stops counting itself working;
  past the loop; holding the lock after it stopped counting itself alive; returned.\<close>

datatype pc =
    Starting
  | Loop
  | At_Sem
  | Sleeping
  | Awake
  | Counting
  | Pulling
  | Running addr addr addr
  | Freeing addr
  | Finishing
  | Leaving
  | Unlocking
  | Gone

datatype waiter = Idle | Wait_Test | Wait_Sleep | Wait_Done

record pool =
  keepalive :: bool
  num_threads_alive :: int
  num_threads_working :: int
  queue :: jobqueue
  workers :: "pc list"
  waiting :: waiter
  inited :: bool
  freed :: bool
  submitted :: "(addr \<times> addr) list"
  started :: "(addr \<times> addr) list"
  finished :: "(addr \<times> addr) list"

definition thpool_start :: "int \<Rightarrow> pool" where
  "thpool_start num_threads =
     \<lparr>keepalive = True, num_threads_alive = 0, num_threads_working = 0,
      queue = jobqueue_init Map.empty, workers = replicate (nat (max 0 num_threads)) Starting,
      waiting = Idle, inited = False, freed = False, submitted = [], started = [], finished = []\<rparr>"

section \<open>The condition of the semaphore\<close>

text \<open>A signal moves one sleeping worker, if there is one, back to testing the value.\<close>

definition signal_ok :: "pc list \<Rightarrow> nat option \<Rightarrow> bool" where
  "signal_ok ws wake =
     (case wake of None \<Rightarrow> Sleeping \<notin> set ws | Some i \<Rightarrow> i < length ws \<and> ws ! i = Sleeping)"

definition signal :: "pc list \<Rightarrow> nat option \<Rightarrow> pc list" where
  "signal ws wake = (case wake of None \<Rightarrow> ws | Some i \<Rightarrow> ws[i := At_Sem])"

definition broadcast :: "pc list \<Rightarrow> pc list" where
  "broadcast ws = map (\<lambda>w. if w = Sleeping then At_Sem else w) ws"

section \<open>A worker\<close>

definition goto :: "pool \<Rightarrow> nat \<Rightarrow> pc \<Rightarrow> pool" where
  "goto s i w = s\<lparr>workers := (workers s)[i := w]\<rparr>"

text \<open>\<open>None\<close>: the worker is blocked, or \<open>wake\<close> is no possible choice of whom a post wakes up. Any access
  to a pool that \<open>thpool_destroy\<close> has freed is a fault.\<close>

definition thread_pull :: "pool \<Rightarrow> nat \<Rightarrow> nat option \<Rightarrow> pool run option" where
  "thread_pull s i wake =
     (case jobqueue_pull (queue s) of
        Inl e \<Rightarrow> Some (Inl e)
      | Inr (p, q) \<Rightarrow>
          if len (queue s) > 1 \<and> \<not> signal_ok (workers s) wake then None
          else let s1 = s\<lparr>queue := q, workers := (if len (queue s) > 1 then signal (workers s) wake else workers s)\<rparr>
            in if p = null then Some (Inr (goto s1 i Finishing))
               else case jobs q p of
                      None \<Rightarrow> Some (Inl Use_After_Free)
                    | Some j \<Rightarrow> Some (Inr (goto (s1\<lparr>started := started s @ [(func j, arg j)]\<rparr>) i
                                              (Running p (func j) (arg j)))))"

definition thread_do :: "pool \<Rightarrow> nat \<Rightarrow> nat option \<Rightarrow> pool run option" where
  "thread_do s i wake =
     (if workers s ! i = Gone then None
      else if freed s then Some (Inl Use_After_Free)
      else case workers s ! i of
        Starting \<Rightarrow> Some (Inr (goto (s\<lparr>num_threads_alive := num_threads_alive s + 1\<rparr>) i Loop))
      | Loop \<Rightarrow> Some (Inr (goto s i (if keepalive s then At_Sem else Leaving)))
      | At_Sem \<Rightarrow>
          (case bsem_take (queue s) of
             None \<Rightarrow> Some (Inr (goto s i Sleeping))
           | Some q \<Rightarrow> Some (Inr (goto (s\<lparr>queue := q\<rparr>) i Awake)))
      | Sleeping \<Rightarrow> Some (Inr (goto s i At_Sem))
      | Awake \<Rightarrow> Some (Inr (goto s i (if keepalive s then Counting else Loop)))
      | Counting \<Rightarrow> Some (Inr (goto (s\<lparr>num_threads_working := num_threads_working s + 1\<rparr>) i Pulling))
      | Pulling \<Rightarrow> thread_pull s i wake
      | Running p f a \<Rightarrow> Some (Inr (goto (s\<lparr>finished := finished s @ [(f, a)]\<rparr>) i (Freeing p)))
      | Freeing p \<Rightarrow>
          Some (andthen (job_free (jobs (queue s)) p)
            (\<lambda>h. Inr (goto (s\<lparr>queue := (queue s)\<lparr>jobs := h\<rparr>\<rparr>) i Finishing)))
      | Finishing \<Rightarrow>
          let s1 = s\<lparr>num_threads_working := num_threads_working s - 1\<rparr> in
          Some (Inr (goto (if num_threads_working s1 = 0 \<and> waiting s = Wait_Sleep
                           then s1\<lparr>waiting := Wait_Test\<rparr> else s1) i Loop))
      | Leaving \<Rightarrow> Some (Inr (goto (s\<lparr>num_threads_alive := num_threads_alive s - 1\<rparr>) i Unlocking))
      | Unlocking \<Rightarrow> Some (Inr (goto s i Gone))
      | Gone \<Rightarrow> None)"

section \<open>The callers\<close>

definition thpool_init_return :: "pool \<Rightarrow> pool option" where
  "thpool_init_return s =
     (if \<not> inited s \<and> num_threads_alive s = int (length (workers s)) then Some (s\<lparr>inited := True\<rparr>) else None)"

text \<open>\<open>p\<close> is what \<open>malloc\<close> returns; on NULL the call returns -1 and the pool is as before.\<close>

definition thpool_add_work :: "pool \<Rightarrow> addr \<Rightarrow> addr \<times> addr \<Rightarrow> nat option \<Rightarrow> (int \<times> pool) run" where
  "thpool_add_work s p w wake =
     (if p = null then Inr (-1, s)
      else let q = (queue s)\<lparr>jobs := (jobs (queue s))(p \<mapsto> \<lparr>prev = null, func = fst w, arg = snd w\<rparr>)\<rparr> in
        andthen (jobqueue_push q p) (\<lambda>q'.
          Inr (0, s\<lparr>queue := q', workers := signal (workers s) wake, submitted := submitted s @ [w]\<rparr>)))"

definition thpool_wait :: "pool \<Rightarrow> pool option" where
  "thpool_wait s =
     (case waiting s of
        Idle \<Rightarrow> Some (s\<lparr>waiting := Wait_Test\<rparr>)
      | Wait_Test \<Rightarrow>
          Some (s\<lparr>waiting := (if len (queue s) \<noteq> 0 \<or> num_threads_working s \<noteq> 0 then Wait_Sleep else Wait_Done)\<rparr>)
      | Wait_Sleep \<Rightarrow> Some (s\<lparr>waiting := Wait_Test\<rparr>)
      | Wait_Done \<Rightarrow> Some (s\<lparr>waiting := Idle\<rparr>))"

definition thpool_destroy_begin :: "pool \<Rightarrow> pool" where
  "thpool_destroy_begin s = s\<lparr>keepalive := False\<rparr>"

definition thpool_destroy_poll :: "pool \<Rightarrow> pool run" where
  "thpool_destroy_poll s =
     (if num_threads_alive s \<noteq> 0
      then Inr (s\<lparr>queue := bsem_post (queue s), workers := broadcast (workers s)\<rparr>)
      else andthen (jobqueue_clear (queue s)) (\<lambda>q. Inr (s\<lparr>queue := q, freed := True\<rparr>)))"

section \<open>The system\<close>

inductive pool_step :: "pool \<Rightarrow> pool \<Rightarrow> bool" where
  worker: "i < length (workers s) \<Longrightarrow> thread_do s i wake = Some (Inr s') \<Longrightarrow> pool_step s s'"
| init_return: "thpool_init_return s = Some s' \<Longrightarrow> pool_step s s'"
| add_work: "inited s \<Longrightarrow> \<not> freed s \<Longrightarrow> jobs (queue s) p = None \<Longrightarrow> signal_ok (workers s) wake \<Longrightarrow>
    thpool_add_work s p w wake = Inr (r, s') \<Longrightarrow> pool_step s s'"
| wait: "inited s \<Longrightarrow> \<not> freed s \<Longrightarrow> thpool_wait s = Some s' \<Longrightarrow> pool_step s s'"
| destroy_begin: "inited s \<Longrightarrow> \<not> freed s \<Longrightarrow> pool_step s (thpool_destroy_begin s)"
| destroy_poll: "\<not> keepalive s \<Longrightarrow> \<not> freed s \<Longrightarrow> thpool_destroy_poll s = Inr s' \<Longrightarrow> pool_step s s'"

inductive_cases pool_stepE: "pool_step s s'"

inductive reachable :: "int \<Rightarrow> pool \<Rightarrow> bool" for n where
  start: "reachable n (thpool_start n)"
| step: "reachable n s \<Longrightarrow> pool_step s s' \<Longrightarrow> reachable n s'"

end
