(* ===== verification/Thread_Pool_Props.thy ===== *)
theory Thread_Pool_Props
  imports Thread_Pool
begin

text \<open>
  Invariants of the thread pool: the counters, the memory of the queued and running jobs, the record of
  the work, and the absence of lost wakeups. Each part is preserved by every step on its own.
\<close>

section \<open>Counting over the workers\<close>

lemma count_update:
  "i < length xs \<Longrightarrow> int (length (filter P (xs[i := y]))) =
     int (length (filter P xs)) - (if P (xs ! i) then 1 else 0) + (if P y then 1 else 0)"
  by (subst (2) id_take_nth_drop [of i xs]) (simp_all add: upd_conv_take_nth_drop)

lemma mset_collect_update:
  "i < length xs \<Longrightarrow> mset (concat (map f (xs[i := y]))) + mset (f (xs ! i)) = mset (concat (map f xs)) + mset (f y)"
  by (subst (3) id_take_nth_drop [of i xs]) (simp_all add: upd_conv_take_nth_drop)

lemma signal_count:
  assumes "signal_ok ws wake" "P Sleeping = P At_Sem"
  shows "length (filter P (signal ws wake)) = length (filter P ws)"
proof (cases wake)
  case (Some i)
  then have "i < length ws" "ws ! i = Sleeping" using assms(1) by (simp_all add: signal_ok_def)
  then have "int (length (filter P (ws[i := At_Sem]))) = int (length (filter P ws))"
    using count_update [of i ws P At_Sem] assms(2) by simp
  then show ?thesis using Some by (simp add: signal_def)
qed (simp add: signal_def)

lemma length_signal [simp]: "length (signal ws wake) = length ws"
  by (simp add: signal_def split: option.splits)

lemma length_broadcast [simp]: "length (broadcast ws) = length ws"
  by (simp add: broadcast_def)

lemma signal_nth: "signal_ok ws wake \<Longrightarrow> ws ! i \<noteq> Sleeping \<Longrightarrow> signal ws wake ! i = ws ! i"
  by (auto simp: signal_def signal_ok_def nth_list_update split: option.splits)

lemma broadcast_count: "P Sleeping = P At_Sem \<Longrightarrow> length (filter P (broadcast ws)) = length (filter P ws)"
  by (induction ws) (auto simp: broadcast_def)

section \<open>The counters\<close>

definition counted_working :: "pc \<Rightarrow> bool" where
  "counted_working w = (case w of Pulling \<Rightarrow> True | Running p f a \<Rightarrow> True | Freeing p \<Rightarrow> True | Finishing \<Rightarrow> True | _ \<Rightarrow> False)"

definition counted_alive :: "pc \<Rightarrow> bool" where
  "counted_alive w = (w \<noteq> Starting \<and> w \<noteq> Unlocking \<and> w \<noteq> Gone)"

definition counters_ok :: "pool \<Rightarrow> bool" where
  "counters_ok s \<longleftrightarrow>
     num_threads_working s = int (length (filter counted_working (workers s))) \<and>
     num_threads_alive s = int (length (filter counted_alive (workers s)))"

named_theorems pool_defs \<open>definitions a step is evaluated with\<close>
lemmas [pool_defs] = thread_do_def thread_pull_def goto_def thpool_init_return_def thpool_add_work_def
  thpool_wait_def thpool_destroy_begin_def thpool_destroy_poll_def Let_def

lemma thread_pull_form:
  assumes "thread_pull s i wake = Some (Inr s')"
  shows "\<exists>q ws w g. (ws = workers s \<or> signal_ok (workers s) wake \<and> ws = signal (workers s) wake) \<and>
    (w = Finishing \<or> (\<exists>p f a. w = Running p f a)) \<and>
    s' = goto (s\<lparr>queue := q, workers := ws, started := g\<rparr>) i w"
proof -
  obtain p q where pull: "jobqueue_pull (queue s) = Inr (p, q)"
    and ok: "len (queue s) > 1 \<longrightarrow> signal_ok (workers s) wake"
    using assms by (auto simp: thread_pull_def split: sum.splits if_splits)
  let ?ws = "if len (queue s) > 1 then signal (workers s) wake else workers s"
  have ws: "?ws = workers s \<or> signal_ok (workers s) wake \<and> ?ws = signal (workers s) wake" using ok by auto
  have "\<exists>w g. (w = Finishing \<or> (\<exists>p f a. w = Running p f a)) \<and>
      s' = goto (s\<lparr>queue := q, workers := ?ws, started := g\<rparr>) i w"
  proof (cases "p = null")
    case True
    then have "s' = goto (s\<lparr>queue := q, workers := ?ws, started := started s\<rparr>) i Finishing"
      using assms pull ok by (auto simp: thread_pull_def Let_def split: if_splits)
    then show ?thesis by blast
  next
    case False
    then obtain j where "jobs q p = Some j"
      using assms pull ok by (auto simp: thread_pull_def Let_def split: if_splits option.splits)
    then have "s' = goto (s\<lparr>queue := q, workers := ?ws, started := started s @ [(func j, arg j)]\<rparr>) i
        (Running p (func j) (arg j))"
      using assms pull ok False by (auto simp: thread_pull_def Let_def split: if_splits)
    then show ?thesis by blast
  qed
  then show ?thesis using ws by blast
qed

lemma counters_worker:
  assumes "counters_ok s" "i < length (workers s)" "thread_do s i wake = Some (Inr s')"
  shows "counters_ok s'"
proof (cases "workers s ! i = Pulling")
  case True
  then obtain q ws w g where ws: "ws = workers s \<or> signal_ok (workers s) wake \<and> ws = signal (workers s) wake"
    and w: "w = Finishing \<or> (\<exists>p f a. w = Running p f a)"
    and s': "s' = goto (s\<lparr>queue := q, workers := ws, started := g\<rparr>) i w"
  proof -
    have "thread_pull s i wake = Some (Inr s')"
      using assms(3) True by (simp add: thread_do_def split: if_splits)
    from thread_pull_form [OF this] show thesis using that by blast
  qed
  have count: "length (filter P ws) = length (filter P (workers s))" if "P Sleeping = P At_Sem" for P
    using ws signal_count [of "workers s" wake P] that by auto
  have wi: "ws ! i = Pulling" "i < length ws" using ws signal_nth [of "workers s" wake i] True assms(2) by auto
  show ?thesis
    using assms(1) w count_update [OF wi(2)] count [of counted_working] count [of counted_alive] wi(1)
    by (auto simp: s' goto_def counters_ok_def counted_working_def counted_alive_def)
next
  case False
  have cu: "int (length (filter P ((workers s)[i := y]))) = int (length (filter P (workers s)))
      - (if P (workers s ! i) then 1 else 0) + (if P y then 1 else 0)" for P y
    by (rule count_update [OF assms(2)])
  show ?thesis
    using False assms(1,3)
    by (cases "workers s ! i")
      (auto simp: thread_do_def goto_def Let_def counters_ok_def cu counted_working_def counted_alive_def
        andthen_eq_Inr split: option.splits if_splits)
qed

lemma counters_step: "pool_step s s' \<Longrightarrow> counters_ok s \<Longrightarrow> counters_ok s'"
proof (induction rule: pool_step.induct)
  case (worker i s wake s')
  then show ?case by (blast intro: counters_worker)
next
  case (add_work s p wake w r s')
  then show ?case
    using signal_count [of "workers s" wake counted_working] signal_count [of "workers s" wake counted_alive]
    by (auto simp: pool_defs counters_ok_def andthen_eq_Inr counted_working_def counted_alive_def split: if_splits)
next
  case (destroy_poll s s')
  then show ?case
    using broadcast_count [of counted_working "workers s"] broadcast_count [of counted_alive "workers s"]
    by (auto simp: pool_defs counters_ok_def andthen_eq_Inr counted_working_def counted_alive_def split: if_splits)
qed (auto simp: pool_defs counters_ok_def split: if_splits waiter.splits)

lemma counters_reachable: "reachable n s \<Longrightarrow> counters_ok s"
proof (induction rule: reachable.induct)
  case start
  then show ?case
    by (simp add: counters_ok_def thpool_start_def counted_working_def counted_alive_def)
qed (rule counters_step)

section \<open>Jobs in memory\<close>

definition held :: "pc \<Rightarrow> addr list" where
  "held w = (case w of Running p f a \<Rightarrow> [p] | Freeing p \<Rightarrow> [p] | _ \<Rightarrow> [])"

definition doing :: "pc \<Rightarrow> (addr \<times> addr) list" where
  "doing w = (case w of Running p f a \<Rightarrow> [(f, a)] | _ \<Rightarrow> [])"

abbreviation all_held :: "pool \<Rightarrow> addr list" where "all_held s \<equiv> concat (map held (workers s))"
abbreviation all_doing :: "pool \<Rightarrow> (addr \<times> addr) list" where "all_doing s \<equiv> concat (map doing (workers s))"

definition memory_ok :: "pool \<Rightarrow> addr list \<Rightarrow> bool" where
  "memory_ok s as \<longleftrightarrow>
     jq_path (queue s) as \<and> distinct (as @ all_held s) \<and>
     (\<forall>p\<in>set (all_held s). p \<noteq> null \<and> jobs (queue s) p \<noteq> None) \<and>
     submitted s = started s @ map (work_of (jobs (queue s))) as \<and>
     mset (started s) = mset (finished s) + mset (all_doing s)"

lemma signal_collect:
  assumes "signal_ok ws wake" "f Sleeping = []" "f At_Sem = []"
  shows "concat (map f (signal ws wake)) = concat (map f ws)"
proof (cases wake)
  case None
  then show ?thesis by (simp add: signal_def)
next
  case (Some i)
  then have i: "i < length ws" "ws ! i = Sleeping" using assms(1) by (simp_all add: signal_ok_def)
  have "map f (signal ws wake) = (map f ws)[i := map f ws ! i]"
    using Some i assms(2,3) by (simp add: signal_def map_update)
  then show ?thesis by simp
qed

lemma broadcast_collect: "f Sleeping = [] \<Longrightarrow> f At_Sem = [] \<Longrightarrow> concat (map f (broadcast ws)) = concat (map f ws)"
  by (induction ws) (auto simp: broadcast_def)

lemma jq_path_cong:
  "jq_path q as \<Longrightarrow> front q' = front q \<Longrightarrow> rear q' = rear q \<Longrightarrow> len q' = len q \<Longrightarrow>
    (\<And>a. a \<in> set as \<Longrightarrow> jobs q' a = jobs q a) \<Longrightarrow> jq_path q' as"
  using path_frame [of as "jobs q'" "jobs q" prev "front q"] by (simp add: jq_path_def)

lemma map_same_update: "i < length xs \<Longrightarrow> f y = f (xs ! i) \<Longrightarrow> map f (xs[i := y]) = map f xs"
  by (metis list_update_id map_update)

text \<open>A worker that moves on without touching a job.\<close>

lemma memory_goto:
  assumes "memory_ok s as" "i < length (workers s)" "held w = held (workers s ! i)" "doing w = doing (workers s ! i)"
    "queue s' = queue s" "workers s' = (workers s)[i := w]" "submitted s' = submitted s"
    "started s' = started s" "finished s' = finished s"
  shows "memory_ok s' as"
proof -
  have "map held (workers s') = map held (workers s)" "map doing (workers s') = map doing (workers s)"
    using assms(2-4) by (simp_all add: assms(6) map_same_update)
  then show ?thesis using assms(1,5,7-9) unfolding memory_ok_def by simp
qed

lemma memory_queue_cong:
  assumes "memory_ok s as" "front q = front (queue s)" "rear q = rear (queue s)" "len q = len (queue s)"
    "jobs q = jobs (queue s)"
  shows "memory_ok (s\<lparr>queue := q\<rparr>) as"
  using assms jq_path_cong [of "queue s" as q] by (simp add: memory_ok_def)

lemma memory_pull:
  assumes M: "memory_ok s as" and i: "i < length (workers s)" "workers s ! i = Pulling"
    and step: "thread_pull s i wake = Some r"
  shows "\<exists>s' bs. r = Inr s' \<and> memory_ok s' bs \<and>
    (as = [] \<and> s' = goto s i Finishing \<or> as \<noteq> [] \<and> bs = tl as \<and> queue s' = snd (projr (jobqueue_pull (queue s))))"
proof -
  have P: "jq_path (queue s) as" using M by (simp add: memory_ok_def)
  show ?thesis
    using P
  proof (cases rule: pull_path)
    case none
    then have "len (queue s) = 0" using P by (simp add: jq_path_def)
    then have "r = Inr (goto s i Finishing)" using step none by (simp add: thread_pull_def)
    moreover have "memory_ok (goto s i Finishing) as"
      by (rule memory_goto [OF M i(1)]) (simp_all add: goto_def held_def doing_def i)
    ultimately show ?thesis using none by blast
  next
    case (some p bs q)
    obtain j where j: "jobs (queue s) p = Some j" "p \<noteq> null"
      using jq_path_alloc [OF P, of p] some by auto
    let ?ws = "if len (queue s) > 1 then signal (workers s) wake else workers s"
    let ?s = "goto (s\<lparr>queue := q, workers := ?ws, started := started s @ [(func j, arg j)]\<rparr>) i
                (Running p (func j) (arg j))"
    have ok: "len (queue s) > 1 \<Longrightarrow> signal_ok (workers s) wake" and r: "r = Inr ?s"
      using step some j by (auto simp: thread_pull_def Let_def goto_def split: if_splits)
    have wi: "?ws ! i = Pulling" "i < length ?ws" using i signal_nth [OF ok, of i] by auto
    have collect: "concat (map f ?ws) = concat (map f (workers s))"
      if "f Sleeping = []" "f At_Sem = []" for f :: "pc \<Rightarrow> 'z list"
      using signal_collect [OF ok, of f] that by simp
    have h: "mset (all_held ?s) = add_mset p (mset (all_held s))"
      using mset_collect_update [OF wi(2), of held "Running p (func j) (arg j)"] collect [of held] wi(1)
      by (simp add: goto_def held_def)
    have d: "mset (all_doing ?s) = add_mset (func j, arg j) (mset (all_doing s))"
      using mset_collect_update [OF wi(2), of doing "Running p (func j) (arg j)"] collect [of doing] wi(1)
      by (simp add: goto_def doing_def)
    have "distinct (as @ all_held s)" using M by (simp add: memory_ok_def)
    moreover have "mset (bs @ all_held ?s) = mset (as @ all_held s)" using h some by simp
    ultimately have "distinct (bs @ all_held ?s)" by (metis mset_eq_imp_distinct_iff)
    moreover have "set (all_held ?s) = insert p (set (all_held s))"
      using arg_cong [OF h, of set_mset] by (simp only: set_mset_mset set_mset_add_mset_insert)
    ultimately have "memory_ok ?s bs"
      using M some j d by (simp add: memory_ok_def work_of_def goto_def)
    then show ?thesis using r some by (auto simp: goto_def)
  qed
qed

lemma memory_free:
  assumes M: "memory_ok s as" and i: "i < length (workers s)" "workers s ! i = Freeing p"
  shows "\<exists>h. job_free (jobs (queue s)) p = Inr h \<and> memory_ok (goto (s\<lparr>queue := (queue s)\<lparr>jobs := h\<rparr>\<rparr>) i Finishing) as"
proof -
  have "p \<in> set (all_held s)" using i by (force simp: held_def in_set_conv_nth)
  then have p: "p \<noteq> null" "jobs (queue s) p \<noteq> None" "p \<notin> set as" using M by (auto simp: memory_ok_def)
  let ?h = "(jobs (queue s))(p := None)"
  let ?s = "goto (s\<lparr>queue := (queue s)\<lparr>jobs := ?h\<rparr>\<rparr>) i Finishing"
  have free: "job_free (jobs (queue s)) p = Inr ?h" using p by (auto simp: job_free_def)
  have h: "mset (all_held s) = add_mset p (mset (all_held ?s))"
    using mset_collect_update [OF i(1), of held Finishing] i(2) by (simp add: goto_def held_def)
  have d: "mset (all_doing ?s) = mset (all_doing s)"
    using mset_collect_update [OF i(1), of doing Finishing] i(2) by (simp add: goto_def doing_def)
  have dist: "distinct (as @ all_held s)" using M by (simp add: memory_ok_def)
  have "mset (as @ all_held s) = mset (p # as @ all_held ?s)" using h by simp
  then have dist': "distinct (p # as @ all_held ?s)" using dist by (metis mset_eq_imp_distinct_iff)
  have set: "set (all_held s) = insert p (set (all_held ?s))"
    using arg_cong [OF h, of set_mset] by (simp only: set_mset_mset set_mset_add_mset_insert)
  have "jq_path (queue s) as" using M by (simp add: memory_ok_def)
  then have "jq_path ((queue s)\<lparr>jobs := ?h\<rparr>) as" using p(3) by (intro jq_path_frame) auto
  then have P: "jq_path (queue ?s) as" by (simp add: goto_def)
  have w: "map (work_of ?h) as = map (work_of (jobs (queue s))) as" using p by (auto simp: work_of_def)
  have pq: "p \<notin> set (all_held ?s)" "distinct (as @ all_held ?s)" using dist' by simp_all
  have held: "\<forall>q\<in>set (all_held ?s). q \<noteq> null \<and> jobs (queue ?s) q \<noteq> None"
  proof
    fix q assume q: "q \<in> set (all_held ?s)"
    then have "q \<noteq> null \<and> jobs (queue s) q \<noteq> None" using M set unfolding memory_ok_def by blast
    moreover have "q \<noteq> p" using q pq(1) by blast
    ultimately show "q \<noteq> null \<and> jobs (queue ?s) q \<noteq> None" by (simp add: goto_def)
  qed
  have "submitted ?s = started ?s @ map (work_of (jobs (queue ?s))) as"
    using M w by (simp add: memory_ok_def goto_def)
  moreover have "mset (started ?s) = mset (finished ?s) + mset (all_doing ?s)"
    using M d by (simp add: memory_ok_def goto_def)
  ultimately have "memory_ok ?s as"
    unfolding memory_ok_def using P pq(2) held by blast
  then show ?thesis using free by blast
qed

definition touches_jobs :: "pc \<Rightarrow> bool" where
  "touches_jobs w \<longleftrightarrow> w = Pulling \<or> w = At_Sem \<or> held w \<noteq> []"

lemma thread_do_plain:
  assumes "\<not> touches_jobs (workers s ! i)" "\<not> freed s" "thread_do s i wake = Some r"
  obtains s' w where "r = Inr s'" "held w = []" "doing w = []" "queue s' = queue s"
    "workers s' = (workers s)[i := w]" "submitted s' = submitted s" "started s' = started s" "finished s' = finished s"
proof (cases "workers s ! i")
  case Starting
  then have "r = Inr (goto (s\<lparr>num_threads_alive := num_threads_alive s + 1\<rparr>) i Loop)" using assms(2,3) by (simp add: thread_do_def Let_def)
  then show thesis by (rule that) (simp_all add: goto_def held_def doing_def)
next
  case Loop
  then have "r = Inr (goto s i (if keepalive s then At_Sem else Leaving))" using assms(2,3) by (simp add: thread_do_def Let_def)
  then show thesis by (rule that) (simp_all add: goto_def held_def doing_def)
next
  case Sleeping
  then have "r = Inr (goto s i At_Sem)" using assms(2,3) by (simp add: thread_do_def Let_def)
  then show thesis by (rule that) (simp_all add: goto_def held_def doing_def)
next
  case Awake
  then have "r = Inr (goto s i (if keepalive s then Counting else Loop))" using assms(2,3) by (simp add: thread_do_def Let_def)
  then show thesis by (rule that) (simp_all add: goto_def held_def doing_def)
next
  case Counting
  then have "r = Inr (goto (s\<lparr>num_threads_working := num_threads_working s + 1\<rparr>) i Pulling)" using assms(2,3) by (simp add: thread_do_def Let_def)
  then show thesis by (rule that) (simp_all add: goto_def held_def doing_def)
next
  case Finishing
  then have "r = Inr (goto (if num_threads_working s - 1 = 0 \<and> waiting s = Wait_Sleep
      then s\<lparr>num_threads_working := num_threads_working s - 1, waiting := Wait_Test\<rparr>
      else s\<lparr>num_threads_working := num_threads_working s - 1\<rparr>) i Loop)" using assms(2,3) by (simp add: thread_do_def Let_def)
  then show thesis by (rule that [of _ Loop]) (simp_all add: goto_def held_def doing_def)
next
  case Leaving
  then have "r = Inr (goto (s\<lparr>num_threads_alive := num_threads_alive s - 1\<rparr>) i Unlocking)" using assms(2,3) by (simp add: thread_do_def Let_def)
  then show thesis by (rule that) (simp_all add: goto_def held_def doing_def)
next
  case Unlocking
  then have "r = Inr (goto s i Gone)" using assms(2,3) by (simp add: thread_do_def Let_def)
  then show thesis by (rule that) (simp_all add: goto_def held_def doing_def)
qed (use assms in \<open>simp_all add: thread_do_def touches_jobs_def held_def\<close>)

lemma memory_plain:
  assumes M: "memory_ok s as" and i: "i < length (workers s)" and "\<not> freed s"
    and step: "thread_do s i wake = Some r" and "\<not> touches_jobs (workers s ! i)" "doing (workers s ! i) = []"
  shows "\<exists>s' bs. r = Inr s' \<and> memory_ok s' bs"
proof -
  have h: "held (workers s ! i) = []" using assms(5) by (simp add: touches_jobs_def)
  obtain s' w where "r = Inr s'" "held w = []" "doing w = []" "queue s' = queue s"
    "workers s' = (workers s)[i := w]" "submitted s' = submitted s" "started s' = started s" "finished s' = finished s"
    using thread_do_plain [OF assms(5,3,4)] by blast
  then show ?thesis using memory_goto [OF M i, of w s'] h assms(6) by auto
qed

lemma memory_worker:
  assumes M: "memory_ok s as" and i: "i < length (workers s)" and "\<not> freed s"
    and step: "thread_do s i wake = Some r"
  shows "\<exists>s' bs. r = Inr s' \<and> memory_ok s' bs"
proof (cases "workers s ! i")
  case Pulling
  then have "thread_pull s i wake = Some r" using step assms(3) by (simp add: thread_do_def)
  then show ?thesis using memory_pull [OF M i Pulling] by blast
next
  case (Freeing p)
  then show ?thesis using memory_free [OF M i Freeing] step assms(3) by (auto simp: thread_do_def)
next
  case (Running p f a)
  let ?s = "goto (s\<lparr>finished := finished s @ [(f, a)]\<rparr>) i (Freeing p)"
  have "map held (workers ?s) = map held (workers s)"
    using Running i by (simp add: goto_def map_same_update held_def)
  moreover have "mset (all_doing s) = add_mset (f, a) (mset (all_doing ?s))"
    using mset_collect_update [OF i, of doing "Freeing p"] Running by (simp add: goto_def doing_def)
  ultimately have "memory_ok ?s as"
    using M unfolding memory_ok_def by (simp add: goto_def)
  moreover have "r = Inr ?s" using step assms(3) Running by (simp add: thread_do_def)
  ultimately show ?thesis by blast
next
  case At_Sem
  show ?thesis
  proof (cases "bsem_take (queue s)")
    case None
    then have "r = Inr (goto s i Sleeping)" using step At_Sem assms(3) by (simp add: thread_do_def)
    moreover have "memory_ok (goto s i Sleeping) as"
      by (rule memory_goto [OF M i]) (simp_all add: At_Sem held_def doing_def goto_def)
    ultimately show ?thesis by blast
  next
    case (Some q)
    have M': "memory_ok (s\<lparr>queue := q\<rparr>) as"
      using Some by (intro memory_queue_cong [OF M]) (auto simp: bsem_take_def split: if_splits)
    have "r = Inr (goto (s\<lparr>queue := q\<rparr>) i Awake)" using step At_Sem Some assms(3) by (simp add: thread_do_def)
    moreover have "memory_ok (goto (s\<lparr>queue := q\<rparr>) i Awake) as"
      by (rule memory_goto [OF M']) (simp_all add: i At_Sem held_def doing_def goto_def)
    ultimately show ?thesis by blast
  qed
qed (use memory_plain [OF M i assms(3) step] in \<open>simp_all add: held_def doing_def touches_jobs_def\<close>)

lemma memory_add_work:
  assumes M: "memory_ok s as" and fresh: "jobs (queue s) p = None" and ok: "signal_ok (workers s) wake"
    and step: "thpool_add_work s p w wake = Inr (r, s')"
  shows "\<exists>bs. memory_ok s' bs"
proof (cases "p = null")
  case True
  then show ?thesis using M step by (auto simp: thpool_add_work_def)
next
  case False
  let ?j = "\<lparr>prev = null, func = fst w, arg = snd w\<rparr>"
  let ?q = "(queue s)\<lparr>jobs := (jobs (queue s))(p \<mapsto> ?j)\<rparr>"
  have P: "jq_path (queue s) as" using M by (simp add: memory_ok_def)
  have pas: "p \<notin> set as" using jq_path_alloc [OF P, of p] fresh by auto
  have ph: "p \<notin> set (all_held s)" using M fresh unfolding memory_ok_def by blast
  have P': "jq_path ?q as" by (intro jq_path_frame [OF P]) (use pas in auto)
  obtain q' where q': "jobqueue_push ?q p = Inr q'" "jq_path q' (as @ [p])"
    "dom (jobs q') = dom (jobs ?q)" "\<And>a. work_of (jobs q') a = work_of (jobs ?q) a"
    by (rule push_path [OF P' pas _ False, where j = ?j]) simp_all
  have s': "s' = s\<lparr>queue := q', workers := signal (workers s) wake, submitted := submitted s @ [w]\<rparr>"
    using step False q'(1) by (simp add: thpool_add_work_def Let_def)
  have c: "all_held s' = all_held s" "all_doing s' = all_doing s"
    using signal_collect [OF ok, of held] signal_collect [OF ok, of doing] by (simp_all add: s' held_def doing_def)
  have "distinct ((as @ [p]) @ all_held s')" using M pas ph by (auto simp: c memory_ok_def)
  moreover have "\<forall>a\<in>set (all_held s'). a \<noteq> null \<and> jobs (queue s') a \<noteq> None"
  proof
    fix a assume "a \<in> set (all_held s')"
    then have "a \<noteq> null \<and> a \<in> dom (jobs (queue s))" using M unfolding c memory_ok_def by blast
    then show "a \<noteq> null \<and> jobs (queue s') a \<noteq> None" using q'(3) by (auto simp: s')
  qed
  moreover have "submitted s' = started s' @ map (work_of (jobs (queue s'))) (as @ [p])"
    using M pas q'(4) by (simp add: s' memory_ok_def) (auto simp: work_of_def)
  moreover have "mset (started s') = mset (finished s') + mset (all_doing s')"
    using M unfolding c by (simp add: s' memory_ok_def)
  ultimately have "memory_ok s' (as @ [p])"
    using q'(2) unfolding memory_ok_def by (simp add: s')
  then show ?thesis by blast
qed

lemma memory_step: "pool_step s s' \<Longrightarrow> \<not> freed s \<Longrightarrow> memory_ok s as \<Longrightarrow> freed s' \<or> (\<exists>bs. memory_ok s' bs)"
proof (induction rule: pool_step.induct)
  case (worker i s wake s')
  then show ?case using memory_worker [of s as i wake "Inr s'"] by blast
next
  case (add_work s p w wake r s')
  then show ?case using memory_add_work by blast
next
  case (destroy_poll s s')
  show ?case
  proof (cases "num_threads_alive s = 0")
    case True
    then show ?thesis using destroy_poll by (auto simp: thpool_destroy_poll_def andthen_eq_Inr)
  next
    case False
    let ?s = "s\<lparr>queue := bsem_post (queue s)\<rparr>"
    have "memory_ok ?s as" using destroy_poll by (intro memory_queue_cong) (simp_all add: bsem_post_def)
    then have "memory_ok (?s\<lparr>workers := broadcast (workers s)\<rparr>) as"
      using broadcast_collect [of held "workers s"] broadcast_collect [of doing "workers s"]
      unfolding memory_ok_def by (simp add: held_def doing_def)
    then show ?thesis using destroy_poll False by (auto simp: thpool_destroy_poll_def)
  qed
qed (auto simp: thpool_init_return_def thpool_wait_def thpool_destroy_begin_def memory_ok_def
    split: if_splits waiter.splits)

lemma freed_step: "pool_step s s' \<Longrightarrow> freed s \<Longrightarrow> freed s'"
proof (induction rule: pool_step.induct)
  case (worker i s wake s')
  then show ?case by (simp add: thread_do_def split: if_splits)
qed (auto simp: thpool_init_return_def split: if_splits)

lemma memory_reachable: "reachable n s \<Longrightarrow> freed s \<or> (\<exists>as. memory_ok s as)"
proof (induction rule: reachable.induct)
  case start
  have "concat (map f (replicate m Starting)) = []" if "f Starting = []" for f :: "pc \<Rightarrow> addr list" and m
    using that by (induction m) simp_all
  moreover have "concat (map f (replicate m Starting)) = []" if "f Starting = []" for f :: "pc \<Rightarrow> (addr \<times> addr) list" and m
    using that by (induction m) simp_all
  ultimately have "memory_ok (thpool_start n) []"
    using jq_init by (simp add: memory_ok_def thpool_start_def held_def doing_def)
  then show ?case by blast
next
  case (step s s')
  then show ?case using memory_step freed_step by blast
qed

section \<open>No lost wakeups\<close>

definition about_to_pull :: "pc \<Rightarrow> bool" where
  "about_to_pull w \<longleftrightarrow> w = Awake \<or> w = Counting \<or> w = Pulling"

definition awake_ok :: "pool \<Rightarrow> bool" where
  "awake_ok s \<longleftrightarrow>
     (keepalive s \<and> len (queue s) > 0 \<longrightarrow> sem_v (queue s) = 1 \<or> (\<exists>w\<in>set (workers s). about_to_pull w)) \<and>
     (sem_v (queue s) = 1 \<and> workers s \<noteq> [] \<longrightarrow> (\<exists>w\<in>set (workers s). w \<noteq> Sleeping))"

lemma bex_update:
  "i < length xs \<Longrightarrow> P (xs[i := y]! j) \<Longrightarrow> j < length xs \<Longrightarrow> \<exists>w\<in>set (xs[i := y]). P w"
  by (metis length_list_update nth_mem)

lemma bex_keep:
  assumes "\<exists>w\<in>set xs. P w" "i < length xs" "P (xs ! i) \<Longrightarrow> P y"
  shows "\<exists>w\<in>set (xs[i := y]). P w"
proof -
  obtain j where j: "j < length xs" "P (xs ! j)" using assms(1) by (metis in_set_conv_nth)
  then have "P (xs[i := y] ! j)" using assms(2,3) by (cases "i = j") auto
  then show ?thesis using j by (metis length_list_update nth_mem)
qed

lemma bex_new: "i < length xs \<Longrightarrow> P y \<Longrightarrow> \<exists>w\<in>set (xs[i := y]). P w"
  by (meson set_update_memI)

text \<open>After a signal, some worker is not asleep.\<close>

lemma signal_awake: "signal_ok ws wake \<Longrightarrow> ws \<noteq> [] \<Longrightarrow> \<exists>w\<in>set (signal ws wake). w \<noteq> Sleeping"
proof (cases wake)
  case None
  assume "signal_ok ws wake" "ws \<noteq> []"
  then show ?thesis using None by (cases ws) (auto simp: signal_ok_def signal_def)
next
  case (Some i)
  assume "signal_ok ws wake" "ws \<noteq> []"
  then show ?thesis using Some bex_new [of i ws "\<lambda>w. w \<noteq> Sleeping" At_Sem]
    by (simp add: signal_ok_def signal_def)
qed

lemma signal_pullers:
  assumes "signal_ok ws wake" "\<exists>w\<in>set ws. about_to_pull w"
  shows "\<exists>w\<in>set (signal ws wake). about_to_pull w"
proof (cases wake)
  case (Some i)
  then show ?thesis
    using assms bex_keep [of ws about_to_pull i At_Sem] by (auto simp: signal_ok_def signal_def about_to_pull_def)
qed (use assms in \<open>simp add: signal_def\<close>)

lemma broadcast_awake: "ws \<noteq> [] \<Longrightarrow> \<exists>w\<in>set (broadcast ws). w \<noteq> Sleeping"
  by (cases ws) (auto simp: broadcast_def)

lemma awake_goto:
  assumes A: "awake_ok s" and i: "i < length (workers s)"
    and "sem_v (queue s') = sem_v (queue s)" "len (queue s') = len (queue s)" "keepalive s' = keepalive s"
    "workers s' = (workers s)[i := w]"
    and "w \<noteq> Sleeping" "keepalive s \<Longrightarrow> about_to_pull (workers s ! i) \<Longrightarrow> about_to_pull w"
  shows "awake_ok s'"
  unfolding awake_ok_def assms(3-6)
proof (intro conjI impI)
  assume "keepalive s \<and> 0 < len (queue s)"
  then have "sem_v (queue s) = 1 \<or> (\<exists>w\<in>set (workers s). about_to_pull w)" using A by (simp add: awake_ok_def)
  then show "sem_v (queue s) = 1 \<or> (\<exists>w\<in>set ((workers s)[i := w]). about_to_pull w)"
    using bex_keep [OF _ i, of about_to_pull w] assms(8) \<open>keepalive s \<and> _\<close> by blast
next
  show "\<exists>w\<in>set ((workers s)[i := w]). w \<noteq> Sleeping" using assms(7) i by (intro bex_new)
qed

lemma awake_pull:
  assumes A: "awake_ok s" and i: "i < length (workers s)" "workers s ! i = Pulling"
    and P: "jq_path (queue s) as" and step: "thread_pull s i wake = Some (Inr s')"
  shows "awake_ok s'"
  using P
proof (cases rule: pull_path)
  case none
  then have "len (queue s) = 0" using P by (simp add: jq_path_def)
  then have "s' = goto s i Finishing" using step none by (simp add: thread_pull_def)
  then show ?thesis
    using \<open>len (queue s) = 0\<close> i bex_new [OF i(1), of "\<lambda>w. w \<noteq> Sleeping" Finishing]
    by (simp add: awake_ok_def goto_def)
next
  case (some p bs q)
  have p: "p \<noteq> null" using jq_path_alloc [OF P, of p] some by auto
  obtain ws w g where ws: "ws = workers s \<or> signal_ok (workers s) wake \<and> ws = signal (workers s) wake"
    and w: "w \<noteq> Sleeping" and s': "s' = goto (s\<lparr>queue := q, workers := ws, started := g\<rparr>) i w"
    using step some p
    by (fastforce simp: thread_pull_def Let_def goto_def split: if_splits option.splits)
  have il: "i < length ws" using ws i by auto
  have "len q = length bs" using some by (simp add: jq_path_def)
  then have "len q > 0 \<longrightarrow> sem_v q = 1" using some by simp
  then show ?thesis
    using bex_new [OF il, of "\<lambda>w. w \<noteq> Sleeping" w] w by (simp add: awake_ok_def s' goto_def)
qed

lemma awake_worker:
  assumes A: "awake_ok s" and i: "i < length (workers s)" and M: "memory_ok s as" and f: "\<not> freed s"
    and step: "thread_do s i wake = Some (Inr s')"
  shows "awake_ok s'"
proof (cases "workers s ! i")
  case Pulling
  have P: "jq_path (queue s) as" using M by (simp add: memory_ok_def)
  have "thread_pull s i wake = Some (Inr s')" using step f Pulling by (simp add: thread_do_def)
  then show ?thesis using awake_pull [OF A i Pulling P] by simp
next
  case At_Sem
  show ?thesis
  proof (cases "sem_v (queue s) = 1")
    case True
    then have "s' = goto (s\<lparr>queue := (queue s)\<lparr>sem_v := 0\<rparr>\<rparr>) i Awake"
      using step f At_Sem by (simp add: thread_do_def bsem_take_def)
    then show ?thesis
      using bex_new [OF i, of about_to_pull Awake] by (simp add: awake_ok_def goto_def about_to_pull_def)
  next
    case False
    then have "s' = goto s i Sleeping" using step f At_Sem by (simp add: thread_do_def bsem_take_def)
    then show ?thesis
      using A False bex_keep [OF _ i, of about_to_pull Sleeping] At_Sem
      by (simp add: awake_ok_def goto_def about_to_pull_def)
  qed
next
  case (Freeing p)
  then obtain h where "s' = goto (s\<lparr>queue := (queue s)\<lparr>jobs := h\<rparr>\<rparr>) i Finishing"
    using step f by (auto simp: thread_do_def andthen_eq_Inr)
  then show ?thesis using Freeing by (intro awake_goto [OF A i, where w = "Finishing"]) (simp_all add: goto_def about_to_pull_def)
next
  case (Running p x a)
  then have "s' = goto (s\<lparr>finished := finished s @ [(x, a)]\<rparr>) i (Freeing p)"
    using step f by (simp add: thread_do_def)
  then show ?thesis using Running by (intro awake_goto [OF A i, where w = "(Freeing p)"]) (simp_all add: goto_def about_to_pull_def)
next
  case Finishing
  then have "queue s' = queue s" "keepalive s' = keepalive s" "workers s' = (workers s)[i := Loop]"
    using step f by (auto simp: thread_do_def Let_def goto_def split: if_splits)
  then show ?thesis using Finishing by (intro awake_goto [OF A i, where w = "Loop"]) (simp_all add: goto_def about_to_pull_def)
next
  case Loop
  then have "s' = goto s i (if keepalive s then At_Sem else Leaving)" using step f by (simp add: thread_do_def)
  then show ?thesis using Loop by (intro awake_goto [OF A i, where w = "(if keepalive s then At_Sem else Leaving)"]) (simp_all add: goto_def about_to_pull_def)
next
  case Awake
  then have "s' = goto s i (if keepalive s then Counting else Loop)" using step f by (simp add: thread_do_def)
  then show ?thesis using Awake by (intro awake_goto [OF A i, where w = "(if keepalive s then Counting else Loop)"]) (simp_all add: goto_def about_to_pull_def)
next
  case Counting
  then have "s' = goto (s\<lparr>num_threads_working := num_threads_working s + 1\<rparr>) i Pulling"
    using step f by (simp add: thread_do_def)
  then show ?thesis using Counting by (intro awake_goto [OF A i, where w = "Pulling"]) (simp_all add: goto_def about_to_pull_def)
next
  case Starting
  then have "s' = goto (s\<lparr>num_threads_alive := num_threads_alive s + 1\<rparr>) i Loop"
    using step f by (simp add: thread_do_def)
  then show ?thesis using Starting by (intro awake_goto [OF A i, where w = "Loop"]) (simp_all add: goto_def about_to_pull_def)
next
  case Leaving
  then have "s' = goto (s\<lparr>num_threads_alive := num_threads_alive s - 1\<rparr>) i Unlocking"
    using step f by (simp add: thread_do_def)
  then show ?thesis using Leaving by (intro awake_goto [OF A i, where w = "Unlocking"]) (simp_all add: goto_def about_to_pull_def)
next
  case Sleeping
  then have "s' = goto s i At_Sem" using step f by (simp add: thread_do_def)
  then show ?thesis using Sleeping by (intro awake_goto [OF A i, where w = "At_Sem"]) (simp_all add: goto_def about_to_pull_def)
next
  case Unlocking
  then have "s' = goto s i Gone" using step f by (simp add: thread_do_def)
  then show ?thesis using Unlocking by (intro awake_goto [OF A i, where w = "Gone"]) (simp_all add: goto_def about_to_pull_def)
qed (use step in \<open>simp add: thread_do_def\<close>)

lemma awake_add_work:
  assumes A: "awake_ok s" and M: "memory_ok s as" and fresh: "jobs (queue s) p = None"
    and ok: "signal_ok (workers s) wake" and step: "thpool_add_work s p w wake = Inr (r, s')"
  shows "awake_ok s'"
proof (cases "p = null")
  case True
  then show ?thesis using A step by (simp add: thpool_add_work_def)
next
  case False
  then obtain q' where q': "jobqueue_push ((queue s)\<lparr>jobs := (jobs (queue s))(p \<mapsto> \<lparr>prev = null, func = fst w, arg = snd w\<rparr>)\<rparr>) p = Inr q'"
    and s': "s' = s\<lparr>queue := q', workers := signal (workers s) wake, submitted := submitted s @ [w]\<rparr>"
    using step by (auto simp: thpool_add_work_def Let_def andthen_eq_Inr)
  have "sem_v q' = 1" using q' by (auto simp: jobqueue_push_def andthen_eq_Inr bsem_post_def)
  moreover have "workers s \<noteq> []" if "signal (workers s) wake \<noteq> []"
    using that by (metis length_0_conv length_signal)
  ultimately show ?thesis using signal_awake [OF ok] by (auto simp: awake_ok_def s')
qed

lemma awake_cong:
  "awake_ok s \<Longrightarrow> (keepalive s' \<Longrightarrow> keepalive s) \<Longrightarrow> queue s' = queue s \<Longrightarrow> workers s' = workers s \<Longrightarrow> awake_ok s'"
  by (simp add: awake_ok_def)

lemma awake_step:
  assumes "pool_step s s'" "\<not> freed s" "\<exists>as. memory_ok s as" "awake_ok s"
  shows "freed s' \<or> awake_ok s'"
  using assms
proof (induction rule: pool_step.induct)
  case (worker i s wake s')
  then show ?case using awake_worker by blast
next
  case (add_work s p wake w r s')
  then show ?case using awake_add_work by blast
next
  case (destroy_poll s s')
  show ?case
  proof (cases "num_threads_alive s = 0")
    case True
    then show ?thesis using destroy_poll by (auto simp: thpool_destroy_poll_def andthen_eq_Inr)
  next
    case False
    then have "s' = s\<lparr>queue := bsem_post (queue s), workers := broadcast (workers s)\<rparr>"
      using destroy_poll by (simp add: thpool_destroy_poll_def)
    moreover have "broadcast (workers s) \<noteq> [] \<Longrightarrow> \<exists>w\<in>set (broadcast (workers s)). w \<noteq> Sleeping"
      using broadcast_awake [of "workers s"] by (simp add: broadcast_def)
    ultimately show ?thesis by (simp add: awake_ok_def bsem_post_def)
  qed
next
  case (wait s s')
  have "awake_ok s'"
    by (rule awake_cong [of s]) (use wait in \<open>auto simp: thpool_wait_def split: waiter.splits\<close>)
  then show ?case ..
next
  case (init_return s s')
  have "awake_ok s'"
    by (rule awake_cong [of s]) (use init_return in \<open>auto simp: thpool_init_return_def split: if_splits\<close>)
  then show ?case ..
next
  case (destroy_begin s)
  have "awake_ok (thpool_destroy_begin s)"
    by (rule awake_cong [of s]) (use destroy_begin in \<open>simp_all add: thpool_destroy_begin_def\<close>)
  then show ?case ..
qed

lemma awake_reachable: "reachable n s \<Longrightarrow> freed s \<or> awake_ok s"
proof (induction rule: reachable.induct)
  case start
  then show ?case by (simp add: awake_ok_def thpool_start_def jobqueue_init_def)
next
  case (step s s')
  then show ?case using awake_step freed_step memory_reachable by blast
qed

end
