(* ===== verification/Thread_Pool_Claims.thy ===== *)
theory Thread_Pool_Claims
  imports Thread_Pool_Props
begin

text \<open>
  What the pool promises: every job runs once, in the order of submission; \<open>thpool_wait\<close> returns only
  when all work is done and is not left asleep when it is; no worker sleeps through work; no worker
  touches freed memory while the pool lives. The last property is about the end of its life.
\<close>

section \<open>An executable scheduler\<close>

datatype action =
    Work nat "nat option"
  | Init_Return
  | Add addr "addr \<times> addr" "nat option"
  | Wait
  | Destroy
  | Poll

fun act :: "action \<Rightarrow> pool \<Rightarrow> pool option" where
  "act (Work i wake) s =
     (if i < length (workers s) then (case thread_do s i wake of Some (Inr s') \<Rightarrow> Some s' | _ \<Rightarrow> None) else None)"
| "act Init_Return s = thpool_init_return s"
| "act (Add p w wake) s =
     (if inited s \<and> \<not> freed s \<and> jobs (queue s) p = None \<and> signal_ok (workers s) wake
      then (case thpool_add_work s p w wake of Inr (r, s') \<Rightarrow> Some s' | Inl e \<Rightarrow> None) else None)"
| "act Wait s = (if inited s \<and> \<not> freed s then thpool_wait s else None)"
| "act Destroy s = (if inited s \<and> \<not> freed s then Some (thpool_destroy_begin s) else None)"
| "act Poll s =
     (if \<not> keepalive s \<and> \<not> freed s then (case thpool_destroy_poll s of Inr s' \<Rightarrow> Some s' | Inl e \<Rightarrow> None) else None)"

fun schedule :: "action list \<Rightarrow> pool \<Rightarrow> pool option" where
  "schedule [] s = Some s"
| "schedule (a # as) s = (case act a s of None \<Rightarrow> None | Some s' \<Rightarrow> schedule as s')"

lemma act_step: "act a s = Some s' \<Longrightarrow> pool_step s s'"
  by (cases a) (auto intro: pool_step.intros split: if_splits option.splits sum.splits)

lemma step_act: "pool_step s s' \<Longrightarrow> \<exists>a. act a s = Some s'"
proof (induction rule: pool_step.induct)
  case (worker i s wake s')
  then show ?case by (intro exI [of _ "Work i wake"]) simp
next
  case (init_return s s')
  then show ?case by (intro exI [of _ Init_Return]) simp
next
  case (add_work s p wake w r s')
  then show ?case by (intro exI [of _ "Add p w wake"]) simp
next
  case (wait s s')
  then show ?case by (intro exI [of _ Wait]) simp
next
  case (destroy_begin s)
  then show ?case by (intro exI [of _ Destroy]) simp
next
  case (destroy_poll s s')
  then show ?case by (intro exI [of _ Poll]) simp
qed

lemma schedule_reachable: "schedule as s = Some s' \<Longrightarrow> reachable n s \<Longrightarrow> reachable n s'"
proof (induction as arbitrary: s)
  case (Cons a as)
  then obtain s1 where "act a s = Some s1" "schedule as s1 = Some s'" by (auto split: option.splits)
  then show ?case using Cons.IH [of s1] reachable.step [OF Cons.prems(2) act_step] by blast
qed simp

lemma schedule_start: "schedule as (thpool_start n) = Some s \<Longrightarrow> reachable n s"
  by (rule schedule_reachable) (auto intro: reachable.start)

lemmas schedule_eval = pool_defs thpool_start_def jobqueue_init_def signal_ok_def signal_def broadcast_def
  bsem_take_def bsem_post_def jobqueue_push_def jobqueue_pull_def job_set_prev_def job_free_def
  jobqueue_clear_def jobqueue_clear_loop.simps

text \<open>A pool of one worker that is given one job: while the job is queued, while it runs, when it has
  been run and \<open>thpool_wait\<close> tests for it, and when the pool has been destroyed.\<close>

definition demo_queued :: "action list" where
  "demo_queued = [Work 0 None, Init_Return, Add 16 (1, 2) None, Wait, Wait]"

definition demo_running :: "action list" where
  "demo_running = demo_queued @ [Work 0 None, Work 0 None, Work 0 None, Work 0 None, Work 0 None]"

definition demo_done :: "action list" where
  "demo_done = demo_running @ [Work 0 None, Work 0 None, Work 0 None]"

definition demo_destroyed :: "action list" where
  "demo_destroyed = demo_done @ [Destroy, Work 0 None, Work 0 None, Poll]"

lemmas demo_defs = demo_queued_def demo_running_def demo_done_def demo_destroyed_def

lemma demo_queued:
  obtains s where "schedule demo_queued (thpool_start 1) = Some s" "reachable 1 s" "\<not> freed s" "keepalive s"
    "len (queue s) = 1" "workers s = [Loop]" "waiting s = Wait_Sleep" "submitted s = [(1, 2)]"
proof -
  have "\<exists>s. schedule demo_queued (thpool_start 1) = Some s \<and> \<not> freed s \<and> keepalive s \<and>
      len (queue s) = 1 \<and> workers s = [Loop] \<and> waiting s = Wait_Sleep \<and> submitted s = [(1, 2)]"
    by (simp add: demo_defs schedule_eval)
  then show thesis using that schedule_start by blast
qed

lemma demo_running:
  obtains s where "schedule demo_running (thpool_start 1) = Some s" "reachable 1 s" "\<not> freed s"
    "workers s = [Running 16 1 2]" "submitted s = [(1, 2)]"
proof -
  have "\<exists>s. schedule demo_running (thpool_start 1) = Some s \<and> \<not> freed s \<and>
      workers s = [Running 16 1 2] \<and> submitted s = [(1, 2)]"
    by (simp add: demo_defs schedule_eval)
  then show thesis using that schedule_start by blast
qed

lemma demo_done:
  obtains s where "schedule demo_done (thpool_start 1) = Some s" "reachable 1 s" "\<not> freed s"
    "len (queue s) = 0" "num_threads_working s = 0" "waiting s = Wait_Test" "submitted s = [(1, 2)]"
proof -
  have "\<exists>s. schedule demo_done (thpool_start 1) = Some s \<and> \<not> freed s \<and>
      len (queue s) = 0 \<and> num_threads_working s = 0 \<and> waiting s = Wait_Test \<and> submitted s = [(1, 2)]"
    by (simp add: demo_defs schedule_eval)
  then show thesis using that schedule_start by blast
qed

lemma demo_destroyed:
  obtains s where "schedule demo_destroyed (thpool_start 1) = Some s" "reachable 1 s" "freed s"
    "workers s = [Unlocking]"
proof -
  have "\<exists>s. schedule demo_destroyed (thpool_start 1) = Some s \<and> freed s \<and> workers s = [Unlocking]"
    by (simp add: demo_defs schedule_eval)
  then show thesis using that schedule_start by blast
qed

section \<open>The waiter\<close>

definition wait_ok :: "pool \<Rightarrow> bool" where
  "wait_ok s \<longleftrightarrow> (waiting s = Wait_Sleep \<longrightarrow> len (queue s) > 0 \<or> num_threads_working s \<noteq> 0)"

lemma working_pos:
  assumes "counters_ok s" "i < length (workers s)" "counted_working (workers s ! i)"
  shows "num_threads_working s > 0"
proof -
  have "workers s ! i \<in> set (filter counted_working (workers s))" using assms(2,3) by simp
  then have "filter counted_working (workers s) \<noteq> []" by force
  then show ?thesis using assms(1) by (simp add: counters_ok_def)
qed

lemma wait_worker:
  assumes W: "wait_ok s" and C: "counters_ok s" and i: "i < length (workers s)" and f: "\<not> freed s"
    and step: "thread_do s i wake = Some (Inr s')"
  shows "wait_ok s'"
proof (cases "workers s ! i = Pulling")
  case True
  have "thread_pull s i wake = Some (Inr s')" using step f True by (simp add: thread_do_def)
  then have "num_threads_working s' = num_threads_working s"
    using thread_pull_form [of s i wake s'] by (auto simp: goto_def)
  then show ?thesis using working_pos [OF C i] True by (simp add: wait_ok_def counted_working_def)
next
  case False
  have pos: "num_threads_working s \<ge> 0" using C by (simp add: counters_ok_def)
  show ?thesis
    using W False step f pos
    by (cases "workers s ! i")
      (auto simp: thread_do_def goto_def Let_def wait_ok_def andthen_eq_Inr bsem_take_def split: option.splits if_splits)
qed

lemma wait_step: "pool_step s s' \<Longrightarrow> \<not> freed s \<Longrightarrow> counters_ok s \<Longrightarrow> wait_ok s \<Longrightarrow> freed s' \<or> wait_ok s'"
proof (induction rule: pool_step.induct)
  case (worker i s wake s')
  then show ?case using wait_worker by blast
next
  case (add_work s p wake w r s')
  have "wait_ok s'"
  proof (cases "p = null")
    case False
    then have "len (queue s') > 0"
      using add_work by (auto simp: thpool_add_work_def Let_def andthen_eq_Inr jobqueue_push_def bsem_post_def)
    then show ?thesis by (simp add: wait_ok_def)
  qed (use add_work in \<open>simp add: thpool_add_work_def\<close>)
  then show ?case ..
next
  case (wait s s')
  then show ?case by (auto simp: thpool_wait_def wait_ok_def split: waiter.splits if_splits)
next
  case (init_return s s')
  then show ?case by (auto simp: thpool_init_return_def wait_ok_def split: if_splits)
next
  case (destroy_begin s)
  then show ?case by (simp add: thpool_destroy_begin_def wait_ok_def)
next
  case (destroy_poll s s')
  then show ?case by (auto simp: thpool_destroy_poll_def andthen_eq_Inr wait_ok_def bsem_post_def split: if_splits)
qed

lemma wait_reachable: "reachable n s \<Longrightarrow> freed s \<or> wait_ok s"
proof (induction rule: reachable.induct)
  case start
  then show ?case by (simp add: wait_ok_def thpool_start_def)
next
  case (step s s')
  then show ?case using wait_step freed_step counters_reachable by blast
qed

section \<open>Properties\<close>

lemma idle_all_done:
  assumes "memory_ok s as" "counters_ok s" "len (queue s) = 0" "num_threads_working s = 0"
  shows "mset (finished s) = mset (submitted s)"
proof -
  have "filter counted_working (workers s) = []" using assms(2,4) by (simp add: counters_ok_def)
  then have "\<not> counted_working w" if "w \<in> set (workers s)" for w using that by (simp add: filter_empty_conv)
  then have "doing w = []" if "w \<in> set (workers s)" for w
    using that by (cases w) (force simp: doing_def counted_working_def)+
  then have "all_doing s = []" by simp
  moreover have "as = []" using assms(1,3) by (simp add: memory_ok_def jq_path_def)
  ultimately show ?thesis using assms(1) by (simp add: memory_ok_def)
qed

text \<open>C3: When \<open>thpool_wait\<close> finds the queue empty and no worker working, and so returns, every job
  submitted so far has been run to its end, and exactly once.\<close>

theorem wait_returns_all_done:
  assumes "reachable n s" "\<not> freed s" "waiting s = Wait_Test" "thpool_wait s = Some s'" "waiting s' = Wait_Done"
  shows "mset (finished s') = mset (submitted s')"
proof -
  have "len (queue s) = 0" "num_threads_working s = 0" "finished s' = finished s" "submitted s' = submitted s"
    using assms(3-5) by (auto simp: thpool_wait_def split: if_splits)
  then show ?thesis
    using idle_all_done memory_reachable [OF assms(1)] counters_reachable [OF assms(1)] assms(2) by metis
qed

theorem wait_returns_all_done_witness:
  "\<exists>s s'. reachable 1 s \<and> thpool_wait s = Some s' \<and> waiting s' = Wait_Done \<and>
    submitted s' = [(1, 2)] \<and> mset (finished s') = mset (submitted s')"
proof -
  obtain s where s: "schedule demo_done (thpool_start 1) = Some s" "reachable 1 s" "\<not> freed s"
    "len (queue s) = 0" "num_threads_working s = 0" "waiting s = Wait_Test" "submitted s = [(1, 2)]"
    by (rule demo_done)
  let ?s = "s\<lparr>waiting := Wait_Done\<rparr>"
  have w: "thpool_wait s = Some ?s" using s by (simp add: thpool_wait_def)
  have "mset (finished ?s) = mset (submitted ?s)"
    using wait_returns_all_done [OF s(2,3,6) w] by simp
  with s w show ?thesis by (intro exI [of _ s] exI [of _ ?s]) simp
qed

text \<open>C13: Jobs are started in the order in which they were submitted, none is lost and none is run twice:
  the submitted work is the started work followed by the queued work, and the started work is what is
  finished and what workers are running.\<close>

theorem jobs_in_order_once:
  assumes "reachable n s" "\<not> freed s"
  shows "submitted s = started s @ jq_list (queue s) \<and> mset (started s) = mset (finished s) + mset (all_doing s)"
  using memory_reachable [OF assms(1)] assms(2) by (auto simp: memory_ok_def jq_list_path)

theorem jobs_in_order_once_witness:
  "\<exists>s. reachable 1 s \<and> submitted s = [(1, 2)] \<and> submitted s = started s @ jq_list (queue s) \<and>
    mset (started s) = mset (finished s) + mset (all_doing s)"
proof -
  obtain s where s: "schedule demo_running (thpool_start 1) = Some s" "reachable 1 s" "\<not> freed s"
    "workers s = [Running 16 1 2]" "submitted s = [(1, 2)]" by (rule demo_running)
  show ?thesis using jobs_in_order_once [OF s(2,3)] s(2,5) by blast
qed

text \<open>C24: While the pool has not been freed, no step of a worker dereferences NULL or touches a job that
  has been freed: every job is freed once, by the worker that ran it.\<close>

theorem worker_memory_safe:
  assumes "reachable n s" "\<not> freed s" "i < length (workers s)"
  shows "thread_do s i wake \<noteq> Some (Inl e)"
  using memory_reachable [OF assms(1)] memory_worker [OF _ assms(3,2)] assms(2) by fastforce

theorem worker_memory_safe_witness:
  "\<exists>s. reachable 1 s \<and> workers s = [Running 16 1 2] \<and> thread_do s 0 None \<noteq> Some (Inl Use_After_Free)"
proof -
  obtain s where s: "schedule demo_running (thpool_start 1) = Some s" "reachable 1 s" "\<not> freed s"
    "workers s = [Running 16 1 2]" "submitted s = [(1, 2)]" by (rule demo_running)
  show ?thesis using worker_memory_safe [OF s(2,3), of 0 None] s(2,4) by auto
qed

text \<open>C19: No wakeup is lost: while the pool is kept alive and jobs are queued, the semaphore is up or a
  worker is about to pull, and some worker is not asleep.\<close>

theorem no_lost_wakeup:
  assumes "reachable n s" "\<not> freed s" "keepalive s" "len (queue s) > 0" "workers s \<noteq> []"
  shows "(sem_v (queue s) = 1 \<or> (\<exists>w\<in>set (workers s). about_to_pull w)) \<and> (\<exists>w\<in>set (workers s). w \<noteq> Sleeping)"
proof -
  have A: "awake_ok s" using awake_reachable [OF assms(1)] assms(2) by blast
  have "w \<noteq> Sleeping" if "about_to_pull w" for w using that by (auto simp: about_to_pull_def)
  then show ?thesis using A assms(3-5) unfolding awake_ok_def by blast
qed

theorem no_lost_wakeup_witness:
  "\<exists>s. reachable 1 s \<and> len (queue s) = 1 \<and> (sem_v (queue s) = 1 \<or> (\<exists>w\<in>set (workers s). about_to_pull w)) \<and>
    (\<exists>w\<in>set (workers s). w \<noteq> Sleeping)"
proof -
  obtain s where s: "schedule demo_queued (thpool_start 1) = Some s" "reachable 1 s" "\<not> freed s" "keepalive s"
    "len (queue s) = 1" "workers s = [Loop]" "waiting s = Wait_Sleep" "submitted s = [(1, 2)]" by (rule demo_queued)
  show ?thesis using no_lost_wakeup [OF s(2-4)] s(2,5,6) by auto
qed

text \<open>\<open>thpool_wait\<close> is not left asleep on its condition when the pool is idle.\<close>

theorem waiter_not_stranded:
  assumes "reachable n s" "\<not> freed s" "waiting s = Wait_Sleep"
  shows "len (queue s) > 0 \<or> num_threads_working s > 0"
proof -
  have "num_threads_working s \<ge> 0" using counters_reachable [OF assms(1)] by (simp add: counters_ok_def)
  then show ?thesis using wait_reachable [OF assms(1)] assms(2,3) by (auto simp: wait_ok_def)
qed

theorem waiter_not_stranded_witness:
  "\<exists>s. reachable 1 s \<and> waiting s = Wait_Sleep \<and> (len (queue s) > 0 \<or> num_threads_working s > 0)"
proof -
  obtain s where s: "schedule demo_queued (thpool_start 1) = Some s" "reachable 1 s" "\<not> freed s" "keepalive s"
    "len (queue s) = 1" "workers s = [Loop]" "waiting s = Wait_Sleep" "submitted s = [(1, 2)]" by (rule demo_queued)
  show ?thesis using waiter_not_stranded [OF s(2,3,7)] s(2,7) by blast
qed

text \<open>The two counters of the pool count the workers: \<open>num_threads_working\<close> those between the
  increment and the decrement, \<open>num_threads_alive\<close> those that have entered and not left the loop.\<close>

theorem counters_count_workers:
  assumes "reachable n s"
  shows "num_threads_working s = int (length (filter counted_working (workers s))) \<and>
    num_threads_alive s = int (length (filter counted_alive (workers s)))"
  using counters_reachable [OF assms] by (simp_all add: counters_ok_def)

theorem counters_count_workers_witness:
  "\<exists>s. reachable 1 s \<and> num_threads_working s = int (length (filter counted_working (workers s))) \<and>
    num_threads_working s = 1"
proof -
  obtain s where s: "schedule demo_running (thpool_start 1) = Some s" "reachable 1 s" "\<not> freed s"
    "workers s = [Running 16 1 2]" "submitted s = [(1, 2)]" by (rule demo_running)
  show ?thesis using counters_count_workers [OF s(2)] s(2,4) by (auto simp: counted_working_def)
qed

text \<open>C40: The end of a pool's life is not safe: \<open>thpool_destroy\<close> can free the pool as soon as the last
  worker has decremented \<open>num_threads_alive\<close>, while that worker has still to release the pool's lock.\<close>

theorem destroy_frees_lock_in_use:
  "\<exists>s. reachable 1 s \<and> freed s \<and> workers s = [Unlocking] \<and> thread_do s 0 None = Some (Inl Use_After_Free)"
proof -
  obtain s where "reachable 1 s" "freed s" "workers s = [Unlocking]" by (rule demo_destroyed)
  then show ?thesis by (intro exI [of _ s]) (simp add: thread_do_def)
qed

end
