(* ===== verification/Thread_Pool_Hold.thy ===== *)
theory Thread_Pool_Hold
  imports Thread_Pool_Claims
begin

text \<open>
  Pausing a pool (\<open>thpool.c\<close>): a signal to each worker, whose handler keeps it until a variable of the
  program is cleared. Workers are stopped between the sections of the transition system of
  \<^theory_text>\<open>Thread_Pool\<close>; signals arrive some time after they were sent.
\<close>

section \<open>State and operations\<close>

record held_pool =
  hp_pool :: pool
  threads_on_hold :: bool
  hp_pending :: "nat set"
  hp_stopped :: "nat set"

definition hold_start :: "int \<Rightarrow> held_pool" where
  "hold_start n = \<lparr>hp_pool = thpool_start n, threads_on_hold = False, hp_pending = {}, hp_stopped = {}\<rparr>"

text \<open>A signal to a thread that has returned is undefined.\<close>

definition thpool_pause :: "held_pool \<Rightarrow> held_pool run" where
  "thpool_pause s =
     (let signalled = {i. int i < num_threads_alive (hp_pool s)} in
      if \<exists>i\<in>signalled. i \<ge> length (workers (hp_pool s)) \<or> workers (hp_pool s) ! i = Gone then Inl Use_After_Free
      else Inr (s\<lparr>hp_pending := hp_pending s \<union> signalled\<rparr>))"

definition thpool_resume :: "held_pool \<Rightarrow> held_pool" where
  "thpool_resume s = s\<lparr>threads_on_hold := False\<rparr>"

text \<open>The handler: when the signal arrives, and each time it wakes up to look at the variable.\<close>

definition thread_hold :: "nat \<Rightarrow> held_pool \<Rightarrow> held_pool" where
  "thread_hold i s = s\<lparr>threads_on_hold := True, hp_pending := hp_pending s - {i}, hp_stopped := insert i (hp_stopped s)\<rparr>"

definition thread_hold_poll :: "nat \<Rightarrow> held_pool \<Rightarrow> held_pool" where
  "thread_hold_poll i s = (if threads_on_hold s then s else s\<lparr>hp_stopped := hp_stopped s - {i}\<rparr>)"

definition thpool_num_threads_working :: "pool \<Rightarrow> int" where
  "thpool_num_threads_working s = num_threads_working s"

text \<open>All that can happen but for \<open>thpool_resume\<close>: an action of the pool, of a worker only if it is not
  stopped; a pause; a signal that arrives (not while its own handler runs); a worker in its handler that wakes up.\<close>

inductive holding_step :: "held_pool \<Rightarrow> held_pool \<Rightarrow> bool" where
  act: "act a (hp_pool s) = Some p \<Longrightarrow> (\<And>i wake. a = Work i wake \<Longrightarrow> i \<notin> hp_stopped s) \<Longrightarrow> holding_step s (s\<lparr>hp_pool := p\<rparr>)"
| pause: "\<not> freed (hp_pool s) \<Longrightarrow> thpool_pause s = Inr s' \<Longrightarrow> holding_step s s'"
| arrive: "i \<in> hp_pending s \<Longrightarrow> i \<notin> hp_stopped s \<Longrightarrow> holding_step s (thread_hold i s)"
| poll: "i \<in> hp_stopped s \<Longrightarrow> holding_step s (thread_hold_poll i s)"

inductive hold_reachable :: "int \<Rightarrow> held_pool \<Rightarrow> bool" for n where
  start: "hold_reachable n (hold_start n)"
| step: "hold_reachable n s \<Longrightarrow> holding_step s s' \<Longrightarrow> hold_reachable n s'"
| resume: "hold_reachable n s \<Longrightarrow> hold_reachable n (thpool_resume s)"

inductive_cases holding_stepE: "holding_step s s'"

lemma hold_pool_simps [simp]:
  "hp_pool (thpool_resume s) = hp_pool s" "hp_pool (thread_hold i s) = hp_pool s" "hp_pool (thread_hold_poll i s) = hp_pool s"
  by (simp_all add: thpool_resume_def thread_hold_def thread_hold_poll_def)

lemma pause_keeps:
  assumes "thpool_pause s = Inr s'"
  shows "hp_pool s' = hp_pool s" "threads_on_hold s' = threads_on_hold s" "hp_stopped s' = hp_stopped s"
  using assms by (auto simp: thpool_pause_def Let_def split: if_splits)

section \<open>Pausing keeps what the pool promises\<close>

lemma hold_projects: "hold_reachable n s \<Longrightarrow> reachable n (hp_pool s)"
proof (induction rule: hold_reachable.induct)
  case start
  then show ?case by (simp add: hold_start_def reachable.start)
next
  case (step s s')
  from step(2) show ?case
  proof (cases rule: holding_step.cases)
    case (act a p)
    then show ?thesis using reachable.step [OF step(3) act_step] by simp
  next
    case pause
    then show ?thesis using step(3) pause_keeps(1) by simp
  qed (use step(3) in simp_all)
next
  case (resume s)
  then show ?case by simp
qed


section \<open>A signal that arrives late\<close>

lemma other_worker_kept:
  assumes "act a s = Some s'" "\<And>wake. a \<noteq> Work i wake" "i < length (workers s)" "workers s ! i \<noteq> Sleeping"
  shows "workers s' ! i = workers s ! i"
proof -
  have sig: "signal (workers s) wake ! i = workers s ! i" if "signal_ok (workers s) wake" for wake
    by (rule signal_nth [OF that assms(4)])
  have bc: "broadcast (workers s) ! i = workers s ! i" using assms(3,4) by (simp add: broadcast_def)
  show ?thesis
  proof (cases a)
    case (Work j wake)
    then have ne: "j \<noteq> i" using assms(2) by blast
    have j: "j < length (workers s)" "thread_do s j wake = Some (Inr s')"
      using assms(1) Work by (auto split: if_splits option.splits sum.splits)
    show ?thesis
    proof (cases "workers s ! j = Pulling")
      case True
      then have "thread_pull s j wake = Some (Inr s')" using j(2) by (simp add: thread_do_def split: if_splits)
      from thread_pull_form [OF this] show ?thesis using ne sig by (auto simp: goto_def)
    next
      case False
      then show ?thesis
        using j(2) ne by (cases "workers s ! j") (auto simp: thread_do_def goto_def Let_def andthen_eq_Inr split: if_splits option.splits)
    qed
  qed (use assms(1) sig bc in \<open>auto simp: thpool_init_return_def thpool_add_work_def thpool_wait_def thpool_destroy_begin_def
        thpool_destroy_poll_def andthen_eq_Inr Let_def split: if_splits option.splits sum.splits waiter.splits\<close>)
qed

definition stuck :: "nat \<Rightarrow> pc \<Rightarrow> held_pool \<Rightarrow> bool" where
  "stuck i w s \<longleftrightarrow> threads_on_hold s \<and> i \<in> hp_stopped s \<and> i < length (workers (hp_pool s)) \<and> workers (hp_pool s) ! i = w"

lemma workers_kept:
  assumes "act a s = Some s'" shows "length (workers s') = length (workers s)"
proof (cases a)
  case (Work j wake)
  then have j: "thread_do s j wake = Some (Inr s')" using assms by (auto split: if_splits option.splits sum.splits)
  show ?thesis
  proof (cases "workers s ! j = Pulling")
    case True
    then have "thread_pull s j wake = Some (Inr s')" using j by (simp add: thread_do_def split: if_splits)
    from thread_pull_form [OF this] show ?thesis by (auto simp: goto_def)
  next
    case False
    then show ?thesis
      using j by (cases "workers s ! j") (auto simp: thread_do_def goto_def Let_def andthen_eq_Inr split: if_splits option.splits)
  qed
qed (use assms in \<open>auto simp: thpool_init_return_def thpool_add_work_def thpool_wait_def thpool_destroy_begin_def
      thpool_destroy_poll_def andthen_eq_Inr Let_def split: if_splits option.splits sum.splits waiter.splits\<close>)

lemma stuck_step:
  assumes "holding_step s s'" "stuck i w s" "w \<noteq> Sleeping"
  shows "stuck i w s'"
  using assms(1)
proof (cases rule: holding_step.cases)
  case (act a p)
  then have "\<And>wake. a \<noteq> Work i wake" using assms(2) by (auto simp: stuck_def)
  then show ?thesis
    using other_worker_kept [OF act(2)] workers_kept [OF act(2)] assms(2,3) act(1) by (simp add: stuck_def)
next
  case pause
  then show ?thesis using assms(2) pause_keeps [OF pause(2)] by (simp add: stuck_def)
next
  case (arrive j)
  then show ?thesis using assms(2) by (simp add: stuck_def thread_hold_def)
next
  case (poll j)
  then show ?thesis using assms(2) by (simp add: stuck_def thread_hold_poll_def)
qed

lemma stuck_forever:
  assumes "holding_step\<^sup>*\<^sup>* s s'" "stuck i w s" "w \<noteq> Sleeping" shows "stuck i w s'"
  using assms(1,2) by (induction rule: rtranclp_induct) (blast intro: stuck_step [OF _ _ assms(3)])+

lemma hold_reachable_steps: "holding_step\<^sup>*\<^sup>* s s' \<Longrightarrow> hold_reachable n s \<Longrightarrow> hold_reachable n s'"
  by (induction rule: rtranclp_induct) (auto intro: hold_reachable.step)

text \<open>While a worker is kept in a job, \<open>thpool_wait\<close> does not return.\<close>

lemma wait_blocked:
  assumes "holding_step s s'" "hold_reachable n s" "stuck i (Running p f a) s" "waiting (hp_pool s) \<noteq> Wait_Done"
  shows "waiting (hp_pool s') \<noteq> Wait_Done"
  using assms(1)
proof (cases rule: holding_step.cases)
  case (act x p')
  have "counted_working (workers (hp_pool s) ! i)" "i < length (workers (hp_pool s))"
    using assms(3) by (simp_all add: stuck_def counted_working_def)
  then have pos: "num_threads_working (hp_pool s) > 0"
    using working_pos [OF counters_reachable [OF hold_projects [OF assms(2)]]] by blast
  have "waiting p' \<noteq> Wait_Done"
  proof (cases x)
    case (Work j wake)
    then have j: "thread_do (hp_pool s) j wake = Some (Inr p')" using act(2) by (auto split: if_splits option.splits sum.splits)
    show ?thesis
    proof (cases "workers (hp_pool s) ! j = Pulling")
      case True
      then have "thread_pull (hp_pool s) j wake = Some (Inr p')" using j by (simp add: thread_do_def split: if_splits)
      from thread_pull_form [OF this] show ?thesis using assms(4) by (auto simp: goto_def)
    next
      case False
      then show ?thesis
        using j assms(4) by (cases "workers (hp_pool s) ! j")
          (auto simp: thread_do_def goto_def Let_def andthen_eq_Inr split: if_splits option.splits)
    qed
  qed (use act(2) assms(4) pos in \<open>auto simp: thpool_init_return_def thpool_add_work_def thpool_wait_def thpool_destroy_begin_def
        thpool_destroy_poll_def andthen_eq_Inr Let_def split: if_splits option.splits sum.splits waiter.splits\<close>)
  then show ?thesis using act(1) by simp
next
  case pause
  then show ?thesis using assms(4) pause_keeps(1) by simp
qed (use assms(4) in simp_all)

text \<open>C39: A signal of \<open>thpool_pause\<close> that arrives only after \<open>thpool_resume\<close> stops its worker again: whatever
  happens from then on, the worker stays where it is until \<open>thpool_resume\<close> is called once more, and when it was
  in a job, \<open>thpool_wait\<close> does not return.\<close>

theorem late_signal_stops_worker:
  assumes "hold_reachable n s" "i \<in> hp_pending s" "i \<notin> hp_stopped s" "i < length (workers (hp_pool s))"
    "workers (hp_pool s) ! i = Running p f a" "waiting (hp_pool s) \<noteq> Wait_Done"
  shows "\<exists>s1. holding_step (thpool_resume s) s1 \<and>
    (\<forall>s2. holding_step\<^sup>*\<^sup>* s1 s2 \<longrightarrow> workers (hp_pool s2) ! i = Running p f a \<and> waiting (hp_pool s2) \<noteq> Wait_Done)"
proof (intro exI conjI allI impI)
  let ?s = "thpool_resume s" and ?s1 = "thread_hold i (thpool_resume s)" and ?w = "Running p f a"
  have "i \<in> hp_pending ?s" "i \<notin> hp_stopped ?s" using assms(2,3) by (simp_all add: thpool_resume_def)
  then show step: "holding_step ?s ?s1" by (rule holding_step.arrive)
  have r1: "hold_reachable n ?s1" using hold_reachable.step [OF hold_reachable.resume [OF assms(1)] step] .
  have k1: "stuck i ?w ?s1" using assms(4,5) by (simp add: stuck_def) (simp add: thread_hold_def)
  fix s2 assume run: "holding_step\<^sup>*\<^sup>* ?s1 s2"
  show "workers (hp_pool s2) ! i = ?w" using stuck_forever [OF run k1] by (simp add: stuck_def)
  show "waiting (hp_pool s2) \<noteq> Wait_Done"
    using run
  proof (induction rule: rtranclp_induct)
    case base
    then show ?case using assms(6) by simp
  next
    case (step y z)
    show ?case by (rule wait_blocked [OF step(2) hold_reachable_steps [OF step(1) r1] stuck_forever [OF step(1) k1] step(3)]) simp
  qed
qed

text \<open>The worker of the example pool runs its job; the pool is paused and resumed at once.\<close>

lemma paused_example:
  obtains s where "hold_reachable 1 s" "0 \<in> hp_pending s" "workers (hp_pool s) = [Running 16 1 2]"
    "waiting (hp_pool s) \<noteq> Wait_Done" "hp_stopped s = {}" "\<not> freed (hp_pool s)"
proof -
  have run: "hold_reachable 1 (s\<lparr>hp_pool := p\<rparr>)" if "hold_reachable 1 s" "hp_stopped s = {}" "schedule as (hp_pool s) = Some p" for as s p
    using that
  proof (induction as arbitrary: s)
    case Nil
    then show ?case by (cases s) simp
  next
    case (Cons a as)
    then obtain p1 where 1: "act a (hp_pool s) = Some p1" "schedule as p1 = Some p" by (auto split: option.splits)
    then have "hold_reachable 1 (s\<lparr>hp_pool := p1\<rparr>)"
      by (intro hold_reachable.step [OF Cons.prems(1)] holding_step.act [OF 1(1)]) (use Cons.prems(2) in simp)
    then show ?case using Cons.IH [of "s\<lparr>hp_pool := p1\<rparr>"] Cons.prems(2) 1(2) by simp
  qed
  have "\<exists>p. schedule demo_running (thpool_start 1) = Some p \<and> \<not> freed p \<and> num_threads_alive p = 1 \<and>
      workers p = [Running 16 1 2] \<and> waiting p = Wait_Sleep \<and> submitted p = [(1, 2)]"
    by (simp add: demo_defs schedule_eval)
  then obtain p where p: "schedule demo_running (thpool_start 1) = Some p" "\<not> freed p" "num_threads_alive p = 1"
    "workers p = [Running 16 1 2]" "waiting p = Wait_Sleep" "submitted p = [(1, 2)]" by blast
  let ?s = "(hold_start 1)\<lparr>hp_pool := p\<rparr>"
  have s: "hold_reachable 1 ?s"
    by (rule run [OF hold_reachable.start]) (use p(1) in \<open>simp_all add: hold_start_def\<close>)
  have "thpool_pause ?s = Inr (?s\<lparr>hp_pending := {i. int i < 1}\<rparr>)"
    using p(3,4) by (simp add: thpool_pause_def hold_start_def)
  then have "hold_reachable 1 (?s\<lparr>hp_pending := {i. int i < 1}\<rparr>)"
    by (intro hold_reachable.step [OF s] holding_step.pause) (use p(2) in simp_all)
  then show thesis using p by (intro that [of "?s\<lparr>hp_pending := {i. int i < 1}\<rparr>"]) (simp_all add: hold_start_def)
qed


theorem late_signal_stops_worker_witness:
  "\<exists>s s1. hold_reachable 1 s \<and> holding_step (thpool_resume s) s1 \<and>
    (\<forall>s2. holding_step\<^sup>*\<^sup>* s1 s2 \<longrightarrow> workers (hp_pool s2) ! 0 = Running 16 1 2 \<and> waiting (hp_pool s2) \<noteq> Wait_Done)"
proof -
  obtain s where s: "hold_reachable 1 s" "0 \<in> hp_pending s" "workers (hp_pool s) = [Running 16 1 2]" "waiting (hp_pool s) \<noteq> Wait_Done"
    "0 \<notin> hp_stopped s" by (rule paused_example) simp
  have w: "0 < length (workers (hp_pool s))" "workers (hp_pool s) ! 0 = Running 16 1 2" using s(3) by simp_all
  obtain s1 where "holding_step (thpool_resume s) s1 \<and>
    (\<forall>s2. holding_step\<^sup>*\<^sup>* s1 s2 \<longrightarrow> workers (hp_pool s2) ! 0 = Running 16 1 2 \<and> waiting (hp_pool s2) \<noteq> Wait_Done)"
    using late_signal_stops_worker [OF s(1,2,5) w s(4)] by (rule exE)
  with s(1) have "hold_reachable 1 s \<and> holding_step (thpool_resume s) s1 \<and>
    (\<forall>s2. holding_step\<^sup>*\<^sup>* s1 s2 \<longrightarrow> workers (hp_pool s2) ! 0 = Running 16 1 2 \<and> waiting (hp_pool s2) \<noteq> Wait_Done)"
    by (rule conjI)
  then show ?thesis by (rule exI [of _ s, OF exI [of _ s1]])
qed

end
