(* ===== verification/Thread_Pool_Memory.thy ===== *)
theory Thread_Pool_Memory
  imports Thread_Pool_Claims
begin

text \<open>
  The blocks that \<open>thpool_init\<close> allocates and \<open>thpool_destroy\<close> releases: the pool, the semaphore of its
  queue, the array of threads and the threads, with every failure of \<open>malloc\<close>. Queued jobs are in the
  memory of \<^theory_text>\<open>Jobqueue\<close>. The workers of the pool that is waited for are those for which there was memory.
\<close>

section \<open>Blocks\<close>

text \<open>A member or an entry that has not been written is \<open>None\<close>. A pool has its threads and its semaphore, a
  thread its number and its pool.\<close>

datatype block =
    Thpool (bl_threads: "addr option") (bl_has_jobs: "addr option")
  | Bsem
  | Threads (bl_array: "addr option list")
  | Thread nat addr

type_synonym blocks = "addr \<rightharpoonup> block"

definition block_free :: "blocks \<Rightarrow> addr \<Rightarrow> blocks run" where
  "block_free h p =
     (if p = null then Inr h
      else case h p of None \<Rightarrow> Inl Use_After_Free | Some b \<Rightarrow> Inr (h(p := None)))"

text \<open>The \<open>n\<close>-th call of \<open>malloc\<close>: NULL, or a block that is not in use.\<close>

locale failing_allocator =
  fixes malloc :: "nat \<Rightarrow> blocks \<Rightarrow> addr"
  assumes fresh_or_null: "malloc n h \<noteq> null \<Longrightarrow> h (malloc n h) = None"

text \<open>Each call has an address of its own, and memory is used up after \<open>c\<close> calls.\<close>

definition bump :: "nat \<Rightarrow> nat \<Rightarrow> blocks \<Rightarrow> addr" where
  "bump c n h = (if n < c \<and> h (of_nat n + 1) = None then of_nat n + 1 else null)"

interpretation bump: failing_allocator "bump c" for c
  by unfold_locales (simp add: bump_def split: if_splits)

section \<open>Members\<close>

definition set_threads :: "addr \<Rightarrow> addr \<Rightarrow> blocks \<Rightarrow> blocks run" where
  "set_threads p t h = (case h p of Some (Thpool _ b) \<Rightarrow> Inr (h(p \<mapsto> Thpool (Some t) b)) | _ \<Rightarrow> Inl Use_After_Free)"

definition set_has_jobs :: "addr \<Rightarrow> addr \<Rightarrow> blocks \<Rightarrow> blocks run" where
  "set_has_jobs p b h = (case h p of Some (Thpool t _) \<Rightarrow> Inr (h(p \<mapsto> Thpool t (Some b))) | _ \<Rightarrow> Inl Use_After_Free)"

definition set_thread :: "addr \<Rightarrow> nat \<Rightarrow> addr \<Rightarrow> blocks \<Rightarrow> blocks run" where
  "set_thread t n x h =
     (case h t of
        Some (Threads ts) \<Rightarrow> if n \<ge> length ts then Inl Out_Of_Bounds else Inr (h(t \<mapsto> Threads (ts[n := Some x])))
      | _ \<Rightarrow> Inl Use_After_Free)"

definition written :: "addr option \<Rightarrow> addr run" where
  "written v = (case v of None \<Rightarrow> Inl Uninitialised | Some x \<Rightarrow> Inr x)"

definition get_threads :: "addr \<Rightarrow> blocks \<Rightarrow> addr run" where
  "get_threads p h = (case h p of Some (Thpool t _) \<Rightarrow> written t | _ \<Rightarrow> Inl Use_After_Free)"

definition get_has_jobs :: "addr \<Rightarrow> blocks \<Rightarrow> addr run" where
  "get_has_jobs p h = (case h p of Some (Thpool _ b) \<Rightarrow> written b | _ \<Rightarrow> Inl Use_After_Free)"

definition get_thread :: "addr \<Rightarrow> nat \<Rightarrow> blocks \<Rightarrow> addr run" where
  "get_thread t n h =
     (case h t of
        Some (Threads ts) \<Rightarrow> if n \<ge> length ts then Inl Out_Of_Bounds else written (ts ! n)
      | _ \<Rightarrow> Inl Use_After_Free)"

section \<open>Allocation\<close>

text \<open>The result of the queue's initialisation is 0, or -1 without memory for the semaphore.\<close>

definition jobqueue_alloc :: "(nat \<Rightarrow> blocks \<Rightarrow> addr) \<Rightarrow> addr \<Rightarrow> blocks \<Rightarrow> (int \<times> blocks) run" where
  "jobqueue_alloc malloc p h =
     (let b = malloc 1 h in
      if b = null then andthen (set_has_jobs p b h) (\<lambda>h1. Inr (-1, h1))
      else andthen (set_has_jobs p b (h(b \<mapsto> Bsem))) (\<lambda>h1. Inr (0, h1)))"

definition thread_init :: "(nat \<Rightarrow> blocks \<Rightarrow> addr) \<Rightarrow> addr \<Rightarrow> addr \<Rightarrow> nat \<Rightarrow> blocks \<Rightarrow> (int \<times> blocks) run" where
  "thread_init malloc p t n h =
     (let x = malloc (3 + n) h in
      andthen (set_thread t n x h) (\<lambda>h1.
        if x = null then Inr (-1, h1) else Inr (0, h1(x \<mapsto> Thread n p))))"

text \<open>The result of \<open>thread_init\<close> is not looked at.\<close>

fun thread_inits :: "(nat \<Rightarrow> blocks \<Rightarrow> addr) \<Rightarrow> addr \<Rightarrow> addr \<Rightarrow> nat \<Rightarrow> nat \<Rightarrow> blocks \<Rightarrow> blocks run" where
  "thread_inits malloc p t n 0 h = Inr h"
| "thread_inits malloc p t n (Suc k) h =
     andthen (thread_init malloc p t n h) (\<lambda>(r, h1). thread_inits malloc p t (n + 1) k h1)"

section \<open>Release\<close>

definition thread_destroy :: "blocks \<Rightarrow> addr \<Rightarrow> blocks run" where
  "thread_destroy h x = block_free h x"

text \<open>Resetting the semaphore, after the queue has been emptied, needs the block; then it is released.\<close>

definition bsem_reset :: "addr \<Rightarrow> blocks \<Rightarrow> unit run" where
  "bsem_reset b h =
     (if b = null then Inl Null_Deref else case h b of Some Bsem \<Rightarrow> Inr () | _ \<Rightarrow> Inl Use_After_Free)"

definition jobqueue_destroy :: "jobqueue \<Rightarrow> addr \<Rightarrow> blocks \<Rightarrow> (jobqueue \<times> blocks) run" where
  "jobqueue_destroy q p h =
     andthen (jobqueue_clear q) (\<lambda>q1.
     andthen (get_has_jobs p h) (\<lambda>b.
     andthen (bsem_reset b h) (\<lambda>_.
     andthen (block_free h b) (\<lambda>h1. Inr (q1, h1)))))"

fun threads_destroy :: "addr \<Rightarrow> nat \<Rightarrow> nat \<Rightarrow> blocks \<Rightarrow> blocks run" where
  "threads_destroy t n 0 h = Inr h"
| "threads_destroy t n (Suc k) h =
     andthen (get_thread t n h) (\<lambda>x. andthen (thread_destroy h x) (threads_destroy t (n + 1) k))"

section \<open>The pool\<close>

text \<open>\<open>thpool_init\<close> up to its last loop, which waits until \<open>num_threads_alive\<close> is the number of threads that
  was asked for.\<close>

definition thpool_alloc :: "(nat \<Rightarrow> blocks \<Rightarrow> addr) \<Rightarrow> int \<Rightarrow> blocks \<Rightarrow> (addr \<times> blocks) run" where
  "thpool_alloc malloc num_threads h =
     (let num = nat (if num_threads < 0 then 0 else num_threads); p = malloc 0 h in
      if p = null then Inr (null, h)
      else andthen (jobqueue_alloc malloc p (h(p \<mapsto> Thpool None None))) (\<lambda>(r, h1).
        if r = -1 then andthen (block_free h1 p) (\<lambda>h2. Inr (null, h2))
        else
          let t = malloc 2 h1 in
          andthen (set_threads p t (if t = null then h1 else h1(t \<mapsto> Threads (replicate num None)))) (\<lambda>h2.
          if t = null
          then andthen (jobqueue_destroy (jobqueue_init Map.empty) p h2) (\<lambda>(q, h3).
               andthen (block_free h3 p) (\<lambda>h4. Inr (null, h4)))
          else andthen (thread_inits malloc p t 0 num h2) (\<lambda>h3. Inr (p, h3)))))"

definition thpool_init_waits :: "int \<Rightarrow> pool \<Rightarrow> bool" where
  "thpool_init_waits num_threads s = (num_threads_alive s \<noteq> (if num_threads < 0 then 0 else num_threads))"

text \<open>\<open>thpool_destroy\<close> after its threads have ended; \<open>threads_total\<close> was read before they were told to.\<close>

definition thpool_release :: "jobqueue \<Rightarrow> int \<Rightarrow> addr \<Rightarrow> blocks \<Rightarrow> (jobqueue \<times> blocks) run" where
  "thpool_release q threads_total p h =
     (if p = null then Inr (q, h)
      else andthen (jobqueue_destroy q p h) (\<lambda>(q1, h1).
        andthen (get_threads p h1) (\<lambda>t.
        andthen (threads_destroy t 0 (nat threads_total) h1) (\<lambda>h2.
        andthen (block_free h2 t) (\<lambda>h3.
        andthen (block_free h3 p) (\<lambda>h4. Inr (q1, h4)))))))"

text \<open>The threads that have been created.\<close>

definition thread_blocks :: "addr \<Rightarrow> blocks \<Rightarrow> addr option list" where
  "thread_blocks p h =
     (case h p of Some (Thpool (Some t) _) \<Rightarrow> (case h t of Some (Threads ts) \<Rightarrow> ts | _ \<Rightarrow> []) | _ \<Rightarrow> [])"

definition threads_created :: "addr \<Rightarrow> blocks \<Rightarrow> nat" where
  "threads_created p h = length (filter (\<lambda>x. x \<noteq> Some null) (thread_blocks p h))"

section \<open>What allocation makes\<close>

lemma block_free_some [simp]: "h p = Some b \<Longrightarrow> p \<noteq> null \<Longrightarrow> block_free h p = Inr (h(p := None))"
  by (simp add: block_free_def)

lemma block_free_null [simp]: "block_free h null = Inr h"
  by (simp add: block_free_def)

text \<open>\<open>made h h' t xs\<close>: beyond \<open>h\<close>, \<open>h'\<close> has the threads \<open>xs\<close>, those that are not NULL, and has changed the
  array at \<open>t\<close> only.\<close>

definition made :: "blocks \<Rightarrow> blocks \<Rightarrow> addr \<Rightarrow> addr list \<Rightarrow> bool" where
  "made h h' t xs \<longleftrightarrow>
     distinct (filter (\<lambda>x. x \<noteq> null) xs) \<and> (\<forall>x\<in>set xs. x \<noteq> null \<longrightarrow> h x = None \<and> h' x \<noteq> None) \<and>
     (\<forall>a. a \<noteq> t \<longrightarrow> a = null \<or> a \<notin> set xs \<longrightarrow> h' a = h a)"

context failing_allocator
begin

lemma thread_inits_made:
  assumes "h t = Some (Threads ts)" "length ts = n + k"
  obtains xs h' where "thread_inits malloc p t n k h = Inr h'" "length xs = k"
    "h' t = Some (Threads (take n ts @ map Some xs))" "made h h' t xs"
  using assms
proof (induction k arbitrary: thesis h ts n)
  case 0
  then show ?case by (auto simp: made_def)
next
  case (Suc k)
  define x where "x = malloc (3 + n) h"
  define h1 where "h1 = h(t \<mapsto> Threads (ts[n := Some x]))"
  define h2 where "h2 = (if x = null then h1 else h1(x \<mapsto> Thread n p))"
  have x: "h x = None" "x \<noteq> t" if "x \<noteq> null"
    using that fresh_or_null [of "3 + n" h] Suc.prems(2) by (auto simp: x_def)
  have step: "thread_init malloc p t n h = Inr (if x = null then -1 else 0, h2)"
    using Suc.prems(2,3) by (simp add: thread_init_def set_thread_def h1_def h2_def flip: x_def)
  have h2t: "h2 t = Some (Threads (ts[n := Some x]))" using x(2) by (auto simp: h2_def h1_def)
  obtain xs h' where r: "thread_inits malloc p t (n + 1) k h2 = Inr h'" "length xs = k"
    "h' t = Some (Threads (take (n + 1) (ts[n := Some x]) @ map Some xs))" "made h2 h' t xs"
    by (rule Suc.IH [where h = h2 and ts = "ts[n := Some x]" and n = "n + 1"]) (use h2t Suc.prems(3) in auto)
  have "take (n + 1) (ts[n := Some x]) = take n ts @ [Some x]"
    using Suc.prems(3) by (simp add: take_Suc_conv_app_nth)
  then have arr: "h' t = Some (Threads (take n ts @ map Some (x # xs)))" using r(3) by simp
  have "made h h' t (x # xs)"
    using r(4) x by (auto simp: made_def h2_def h1_def split: if_splits)
  then show ?case using Suc.prems(1) [of h' "x # xs"] step r(1,2) arr by simp
qed

end

lemma threads_destroy_made:
  assumes "h t = Some (Threads (pre @ map Some xs))" "distinct (filter (\<lambda>x. x \<noteq> null) xs)"
    "\<And>x. x \<in> set xs \<Longrightarrow> x \<noteq> null \<Longrightarrow> h x \<noteq> None \<and> x \<noteq> t"
  shows "threads_destroy t (length pre) (length xs) h = Inr (\<lambda>a. if a \<in> set xs \<and> a \<noteq> null then None else h a)"
  using assms
proof (induction xs arbitrary: pre h)
  case (Cons x xs)
  define h1 where "h1 = (if x = null then h else h(x := None))"
  have free: "thread_destroy h x = Inr h1"
    using Cons.prems(3) [of x] by (auto simp: thread_destroy_def h1_def)
  have arr: "h1 t = Some (Threads ((pre @ [Some x]) @ map Some xs))"
    using Cons.prems(1) Cons.prems(3) [of x] by (auto simp: h1_def)
  have rest: "h1 y \<noteq> None \<and> y \<noteq> t" if "y \<in> set xs" "y \<noteq> null" for y
    using that Cons.prems(2) Cons.prems(3) [of y] by (auto simp: h1_def split: if_splits)
  have "distinct (filter (\<lambda>x. x \<noteq> null) xs)" using Cons.prems(2) by (simp split: if_splits)
  from Cons.IH [OF arr this rest] have "threads_destroy t (length pre + 1) (length xs) h1 =
      Inr (\<lambda>a. if a \<in> set xs \<and> a \<noteq> null then None else h1 a)" by simp
  moreover have "get_thread t (length pre) h = Inr x"
    using Cons.prems(1) by (simp add: get_thread_def written_def)
  moreover have "(\<lambda>a. if a \<in> set xs \<and> a \<noteq> null then None else h1 a) = (\<lambda>a. if a \<in> set (x # xs) \<and> a \<noteq> null then None else h a)"
    by (auto simp: h1_def)
  ultimately show ?case using free by simp
qed simp

context failing_allocator
begin

lemma no_semaphore:
  assumes "h p = None" "p \<noteq> null" "malloc 0 h = p" "malloc 1 (h(p \<mapsto> Thpool None None)) = null"
  shows "thpool_alloc malloc num h = Inr (null, h)"
proof -
  have "h(p := None) = h" using assms(1) by auto
  then show ?thesis using assms(2-4) by (simp add: thpool_alloc_def jobqueue_alloc_def set_has_jobs_def Let_def)
qed

lemma no_array:
  assumes "h p = None" "p \<noteq> null" "malloc 0 h = p" "malloc 1 (h(p \<mapsto> Thpool None None)) = b" "b \<noteq> null" "b \<noteq> p" "h b = None"
    "malloc 2 (h(p \<mapsto> Thpool None (Some b), b \<mapsto> Bsem)) = null"
  shows "thpool_alloc malloc num h = Inr (null, h)"
proof -
  let ?h1 = "h(p \<mapsto> Thpool None (Some b), b \<mapsto> Bsem)" and ?q = "jobqueue_init Map.empty"
  have alloc: "jobqueue_alloc malloc p (h(p \<mapsto> Thpool None None)) = Inr (0, ?h1)"
    using assms(4-6) by (auto simp: jobqueue_alloc_def set_has_jobs_def Let_def)
  let ?h2 = "h(p \<mapsto> Thpool (Some null) (Some b), b \<mapsto> Bsem)"
  have set: "set_threads p null ?h1 = Inr ?h2" using assms(6) by (auto simp: set_threads_def)
  obtain q1 where "jobqueue_clear ?q = Inr q1" using clear_path [OF jq_init] by blast
  then have "jobqueue_destroy ?q p ?h2 = Inr (q1, ?h2(b := None))"
    using assms(5,6) by (simp add: jobqueue_destroy_def get_has_jobs_def written_def bsem_reset_def)
  moreover have "block_free (?h2(b := None)) p = Inr h"
    using assms(1,2,6,7) by (auto simp: block_free_def)
  ultimately show ?thesis
    using assms(2,3,8) alloc set by (simp add: thpool_alloc_def Let_def)
qed

lemma thpool_alloc_cases:
  obtains (no_memory) "thpool_alloc malloc num h = Inr (null, h)"
  | (pool) p b t xs h1 h' where "thpool_alloc malloc num h = Inr (p, h')" "p \<noteq> null" "b \<noteq> null" "t \<noteq> null"
      "distinct [p, b, t]" "h p = None" "h b = None" "h t = None" "length xs = nat num"
      "h1 = h(p \<mapsto> Thpool (Some t) (Some b), b \<mapsto> Bsem, t \<mapsto> Threads (replicate (nat num) None))"
      "h' t = Some (Threads (map Some xs))" "made h1 h' t xs"
proof -
  define p where "p = malloc 0 h"
  define b where "b = malloc 1 (h(p \<mapsto> Thpool None None))"
  let ?h1 = "h(p \<mapsto> Thpool None (Some b), b \<mapsto> Bsem)"
  define t where "t = malloc 2 ?h1"
  have p: "h p = None" if "p \<noteq> null" using that fresh_or_null [of 0 h] by (simp add: p_def)
  have b: "b \<noteq> p" "h b = None" if "b \<noteq> null"
    using that fresh_or_null [of 1 "h(p \<mapsto> Thpool None None)"] by (simp_all add: b_def split: if_splits)
  have t: "t \<noteq> p" "t \<noteq> b" "h t = None" if "t \<noteq> null"
    using that fresh_or_null [of 2 ?h1] by (simp_all add: t_def split: if_splits)
  consider "p = null" | "p \<noteq> null" "b = null" | "p \<noteq> null" "b \<noteq> null" "t = null" | "p \<noteq> null" "b \<noteq> null" "t \<noteq> null" by blast
  then show thesis
  proof cases
    case 1
    then show thesis using no_memory by (simp add: thpool_alloc_def p_def Let_def)
  next
    case 2
    have "thpool_alloc malloc num h = Inr (null, h)"
      by (rule no_semaphore [OF p [OF 2(1)] 2(1) p_def [symmetric] trans [OF b_def [symmetric] 2(2)]])
    then show thesis by (rule no_memory)
  next
    case 3
    have "thpool_alloc malloc num h = Inr (null, h)"
      by (rule no_array [OF p [OF 3(1)] 3(1) p_def [symmetric] b_def [symmetric] 3(2) b(1) [OF 3(2)] b(2) [OF 3(2)]
            trans [OF t_def [symmetric] 3(3)]])
    then show thesis by (rule no_memory)
  next
    case 4
    let ?h2 = "h(p \<mapsto> Thpool (Some t) (Some b), b \<mapsto> Bsem, t \<mapsto> Threads (replicate (nat num) None))"
    have m1: "malloc (Suc 0) (h(p \<mapsto> Thpool None None)) = b" by (simp add: b_def)
    obtain xs h' where x: "thread_inits malloc p t 0 (nat num) ?h2 = Inr h'" "length xs = nat num"
      "h' t = Some (Threads (map Some xs))" "made ?h2 h' t xs"
      by (rule thread_inits_made [of ?h2 t "replicate (nat num) None" 0 "nat num" p]) auto
    have alloc: "jobqueue_alloc malloc p (h(p \<mapsto> Thpool None None)) = Inr (0, ?h1)"
      using 4 b m1 by (auto simp: jobqueue_alloc_def set_has_jobs_def Let_def)
    have set: "set_threads p t (?h1(t \<mapsto> Threads (replicate (nat num) None))) = Inr ?h2"
      using 4 b t by (simp add: set_threads_def fun_upd_twist)
    have "nat (if num < 0 then 0 else num) = nat num" by simp
    then have "thpool_alloc malloc num h = Inr (p, h')"
      using 4 alloc set x(1) by (simp add: thpool_alloc_def Let_def flip: p_def t_def)
    then show thesis using pool 4 p b t x(2-4) by simp
  qed
qed

end

section \<open>Threads that are counted\<close>

text \<open>Between \<open>thpool_init\<close> and \<open>thpool_destroy\<close> every worker counts itself alive.\<close>

definition all_staying :: "pool \<Rightarrow> bool" where
  "all_staying s \<longleftrightarrow> (keepalive s \<longrightarrow> set (workers s) \<inter> {Leaving, Unlocking, Gone} = {}) \<and>
     (inited s \<longrightarrow> Starting \<notin> set (workers s))"

lemma set_signal: "set (signal ws wake) \<subseteq> insert At_Sem (set ws)"
  by (auto simp: signal_def dest: subsetD [OF set_update_subset_insert] split: option.splits)

lemma staying_set:
  assumes "all_staying s" "set (workers s') \<subseteq> insert w (insert At_Sem (set (workers s)))" "keepalive s' = keepalive s"
    "inited s' = inited s" "w \<noteq> Starting" "keepalive s \<Longrightarrow> w \<notin> {Leaving, Unlocking, Gone}"
  shows "all_staying s'"
  using assms by (auto simp: all_staying_def)

lemma staying_worker:
  assumes "all_staying s" "i < length (workers s)" "thread_do s i wake = Some (Inr s')"
  shows "all_staying s' \<and> length (workers s') = length (workers s)"
proof (cases "workers s ! i = Pulling")
  case True
  then have "thread_pull s i wake = Some (Inr s')" using assms(3) by (simp add: thread_do_def split: if_splits)
  from thread_pull_form [OF this] obtain q ws w g
    where ws: "ws = workers s \<or> signal_ok (workers s) wake \<and> ws = signal (workers s) wake"
      and w: "w = Finishing \<or> (\<exists>p f a. w = Running p f a)"
      and s': "s' = goto (s\<lparr>queue := q, workers := ws, started := g\<rparr>) i w" by blast
  have "set (ws[i := w]) \<subseteq> insert w (insert At_Sem (set (workers s)))"
    using ws set_signal [of "workers s" wake] set_update_subset_insert [of ws i w] by blast
  then have "all_staying s'" by (intro staying_set [OF assms(1), of s' w]) (use w in \<open>auto simp: s' goto_def\<close>)
  then show ?thesis using ws by (auto simp: s' goto_def)
next
  case False
  have up: "set ((workers s)[i := w]) \<subseteq> insert w (insert At_Sem (set (workers s)))" for w
    using set_update_subset_insert [of "workers s" i w] by blast
  have stay: "all_staying s'" if "workers s' = (workers s)[i := w]" "keepalive s' = keepalive s" "inited s' = inited s"
      "w \<noteq> Starting" "keepalive s \<Longrightarrow> w \<notin> {Leaving, Unlocking, Gone}" for w
    using that up [of w] by (intro staying_set [OF assms(1), of s' w]) auto
  have now: "keepalive s \<Longrightarrow> workers s ! i \<notin> {Leaving, Unlocking, Gone}"
    using assms(1) nth_mem [OF assms(2)] unfolding all_staying_def by blast
  have "\<exists>w. workers s' = (workers s)[i := w] \<and> keepalive s' = keepalive s \<and> inited s' = inited s \<and>
      w \<noteq> Starting \<and> (keepalive s \<longrightarrow> w \<notin> {Leaving, Unlocking, Gone})"
    using assms(3) False now
    by (cases "workers s ! i") (auto simp: thread_do_def goto_def Let_def andthen_eq_Inr split: if_splits option.splits)
  then show ?thesis using stay by (metis length_list_update)
qed

lemma staying_reachable:
  "reachable n s \<Longrightarrow> all_staying s \<and> length (workers s) = nat (max 0 n)"
proof (induction rule: reachable.induct)
  case start
  then show ?case by (simp add: all_staying_def thpool_start_def)
next
  case (step s s')
  note IH = step.IH
  note cnt = counters_reachable [OF step.hyps(1)]
  show ?case
    using step.hyps(2)
  proof (cases rule: pool_step.cases)
    case (worker i wake)
    then show ?thesis using staying_worker IH by metis
  next
    case init_return
    then have s': "s' = s\<lparr>inited := True\<rparr>" "num_threads_alive s = int (length (workers s))"
      by (auto simp: thpool_init_return_def split: if_splits)
    then have "length (filter counted_alive (workers s)) = length (workers s)" using cnt by (simp add: counters_ok_def)
    then have "\<forall>w\<in>set (workers s). counted_alive w" by (metis length_filter_less nat_less_le)
    then show ?thesis using IH s'(1) by (auto simp: all_staying_def counted_alive_def)
  next
    case (add_work p wake w r)
    then show ?thesis
      using IH set_signal [of "workers s" wake]
      by (auto simp: thpool_add_work_def all_staying_def andthen_eq_Inr Let_def split: if_splits)
  next
    case wait
    then show ?thesis using IH by (auto simp: thpool_wait_def all_staying_def split: waiter.splits)
  next
    case destroy_begin
    then show ?thesis using IH by (auto simp: thpool_destroy_begin_def all_staying_def)
  next
    case destroy_poll
    then show ?thesis
      using IH by (auto simp: thpool_destroy_poll_def all_staying_def broadcast_def andthen_eq_Inr split: if_splits)
  qed
qed

lemma all_alive:
  assumes "reachable n s" "inited s" "keepalive s" shows "num_threads_alive s = max 0 n"
proof -
  have "\<forall>w\<in>set (workers s). counted_alive w"
    using staying_reachable [OF assms(1)] assms(2,3) by (auto simp: all_staying_def counted_alive_def)
  then have "filter counted_alive (workers s) = workers s" by simp
  then show ?thesis
    using counters_reachable [OF assms(1)] staying_reachable [OF assms(1)] by (simp add: counters_ok_def)
qed

lemma alive_bound: "reachable n s \<Longrightarrow> num_threads_alive s \<le> max 0 n"
  using counters_reachable [of n s] staying_reachable [of n s] length_filter_le [of counted_alive "workers s"]
  by (simp add: counters_ok_def)

section \<open>What is released\<close>

lemma release_made:
  assumes "p \<noteq> null" "b \<noteq> null" "t \<noteq> null" "distinct [p, b, t]" "h p = None" "h b = None" "h t = None"
    and h1: "h1 = h(p \<mapsto> Thpool (Some t) (Some b), b \<mapsto> Bsem, t \<mapsto> Threads none)"
    and arr: "h' t = Some (Threads (map Some xs))" and made: "made h1 h' t xs" and q: "jq_path q as"
  shows "\<exists>q'. thpool_release q (int (length xs)) p h' = Inr (q', h) \<and> jq_path q' [] \<and>
    jobs q' = (\<lambda>a. if a \<in> set as then None else jobs q a)"
proof -
  obtain q' where q': "jobqueue_clear q = Inr q'" "jq_path q' []" "jobs q' = (\<lambda>a. if a \<in> set as then None else jobs q a)"
    using clear_path [OF q] by blast
  have new: "x \<noteq> t" "h x = None" if "x \<in> set xs" "x \<noteq> null" for x
  proof -
    have "h1 x = None" using made that by (simp add: made_def)
    then show "x \<noteq> t" "h x = None" by (simp_all add: h1 split: if_splits)
  qed
  have pb: "p \<notin> set xs" "b \<notin> set xs" using made assms(1,2,4) by (auto simp: made_def h1)
  have old: "h' a = h1 a" if "a \<noteq> t" "a = null \<or> a \<notin> set xs" for a using made that by (auto simp: made_def)
  have hp: "h' p = Some (Thpool (Some t) (Some b))" "h' b = Some Bsem"
    using old [of p] old [of b] pb assms(4) by (auto simp: h1)
  let ?h1 = "h'(b := None)"
  let ?h2 = "\<lambda>a. if a \<in> set xs \<and> a \<noteq> null then None else ?h1 a"
  have "jobqueue_destroy q p h' = Inr (q', ?h1)"
    using hp assms(2) q'(1) by (simp add: jobqueue_destroy_def get_has_jobs_def written_def bsem_reset_def)
  moreover have "get_threads p ?h1 = Inr t" using hp(1) assms(4) by (simp add: get_threads_def written_def)
  moreover have "threads_destroy t (length ([] :: addr option list)) (length xs) ?h1 = Inr ?h2"
  proof (rule threads_destroy_made)
    show "?h1 t = Some (Threads ([] @ map Some xs))" using arr assms(4) by auto
    show "distinct (filter (\<lambda>x. x \<noteq> null) xs)" using made by (simp add: made_def)
    show "?h1 x \<noteq> None \<and> x \<noteq> t" if "x \<in> set xs" "x \<noteq> null" for x
      using that made pb(2) new(1) [OF that] by (auto simp: made_def)
  qed
  moreover have "block_free ?h2 t = Inr (?h2(t := None))"
    by (rule block_free_some [OF _ assms(3)]) (use arr assms(4) new(1) in auto)
  moreover have "block_free (?h2(t := None)) p = Inr h"
  proof -
    have "h a = ((?h2(t := None))(p := None)) a" for a
    proof -
      consider "a \<in> {p, b, t}" | "a \<notin> {p, b, t}" "a \<in> set xs" "a \<noteq> null" | "a \<notin> {p, b, t}" "a = null \<or> a \<notin> set xs" by blast
      then show ?thesis
      proof cases
        case 1
        then show ?thesis using assms(5-7) by auto
      next
        case 2
        then show ?thesis using new(2) [OF 2(2,3)] by simp
      next
        case 3
        then have "h' a = h a" using old [of a] by (auto simp: h1)
        then show ?thesis using 3 by auto
      qed
    qed
    then have eq: "(?h2(t := None))(p := None) = h" by (rule ext [symmetric])
    have "(?h2(t := None)) p = Some (Thpool (Some t) (Some b))" using hp(1) pb(1) assms(4) by simp
    then have "block_free (?h2(t := None)) p = Inr ((?h2(t := None))(p := None))" by (rule block_free_some [OF _ assms(1)])
    then show ?thesis unfolding eq .
  qed
  ultimately show ?thesis using assms(1) q'(2,3) by (simp add: thpool_release_def)
qed

text \<open>C14: However \<open>malloc\<close> fails, \<open>thpool_init\<close> uses no memory wrongly. Without memory for the pool, its
  semaphore or its array it returns NULL and has kept nothing. With memory for all threads, the pool that it
  returns gives back all of it, with the jobs still queued, when it is destroyed. Without memory for some
  thread it never returns, however the others run.\<close>

theorem pool_memory_accounted:
  assumes "failing_allocator malloc"
  shows "\<exists>p h'. thpool_alloc malloc num h = Inr (p, h') \<and>
    (if p = null then h' = h
     else if threads_created p h' = nat num
     then \<forall>s q as. reachable num s \<and> inited s \<and> keepalive s \<and> jq_path q as \<longrightarrow>
       (\<exists>q'. thpool_release q (num_threads_alive s) p h' = Inr (q', h) \<and> jq_path q' [] \<and>
          jobs q' = (\<lambda>a. if a \<in> set as then None else jobs q a))
     else \<forall>s. reachable (int (threads_created p h')) s \<longrightarrow> thpool_init_waits num s)"
proof (cases rule: failing_allocator.thpool_alloc_cases [OF assms, of num h, case_names no_memory pool])
  case no_memory
  then show ?thesis by simp
next
  case (pool p b t xs h1 h')
  have "h' p = h1 p" using pool(2,5,10,12) by (auto simp: made_def)
  then have "thread_blocks p h' = map Some xs"
    using pool(5,10,11) by (simp add: thread_blocks_def)
  then have created: "threads_created p h' = length (filter (\<lambda>x. x \<noteq> null) xs)"
    by (simp add: threads_created_def filter_map comp_def)
  then have less: "threads_created p h' \<le> nat num" using pool(9) by (metis length_filter_le)
  have "thpool_init_waits num s" if "threads_created p h' < nat num" "reachable (int (threads_created p h')) s" for s
    using alive_bound [OF that(2)] that(1) by (auto simp: thpool_init_waits_def)
  moreover have "\<exists>q'. thpool_release q (num_threads_alive s) p h' = Inr (q', h) \<and> jq_path q' [] \<and>
      jobs q' = (\<lambda>a. if a \<in> set as then None else jobs q a)"
    if "reachable num s" "inited s" "keepalive s" "jq_path q as" for s q as
  proof -
    have "num_threads_alive s = int (length xs)" using all_alive [OF that(1-3)] pool(9) by simp
    then show ?thesis using release_made [OF pool(2-8) pool(10-12) that(4)] by simp
  qed
  ultimately show ?thesis using pool(1,2) less by (intro exI [of _ p] exI [of _ h']) auto
qed

text \<open>Two threads, and memory for one of them.\<close>

theorem pool_memory_accounted_witness:
  "\<exists>p h'. thpool_alloc (bump 4) 2 Map.empty = Inr (p, h') \<and> p \<noteq> null \<and> threads_created p h' = 1 \<and>
    (\<forall>s. reachable 1 s \<longrightarrow> thpool_init_waits 2 s)"
proof -
  have two: "thread_inits m p t n 2 h = thread_inits m p t n (Suc (Suc 0)) h" "replicate 2 x = [x, x]"
    for m p t n h and x :: "addr option" by (simp_all add: numeral_2_eq_2)
  have run: "\<exists>p h'. thpool_alloc (bump 4) 2 Map.empty = Inr (p, h') \<and> p \<noteq> null \<and> threads_created p h' = 1"
    by (simp add: thpool_alloc_def bump_def jobqueue_alloc_def set_has_jobs_def set_threads_def thread_init_def set_thread_def
        threads_created_def thread_blocks_def two Let_def)
  then obtain p h' where r: "thpool_alloc (bump 4) 2 Map.empty = Inr (p, h')" "p \<noteq> null" "threads_created p h' = 1" by blast
  have "failing_allocator (bump 4)" by unfold_locales
  from pool_memory_accounted [OF this, of 2 Map.empty] r show ?thesis by auto
qed

end
