(* ===== verification/Rpc_Types.thy ===== *)
theory Rpc_Types
  imports Hash_Functions
begin

text \<open>
  The value types of \<open>rpc_struct.h\<close>: the type tags, tagged containers, and the conversions between C
  objects and containers that the macros \<open>ctype_to_rpc\<close>, \<open>c_to_rpc\<close> and \<open>rpc_struct_get\<close> expand to.
  C objects are their bytes, least significant first; an address is a 64-bit integer.
\<close>

section \<open>Type tags\<close>

datatype rpc_types =
    RPC_none
  | RPC_number
  | RPC_real
  | RPC_string
  | RPC_struct
  | RPC_sizedbuf
  | RPC_function
  | RPC_unknown

text \<open>The enumeration's values, in the order of its declaration.\<close>

fun enum_value :: "rpc_types \<Rightarrow> nat" where
  "enum_value RPC_none = 0"
| "enum_value RPC_number = 1"
| "enum_value RPC_real = 2"
| "enum_value RPC_string = 3"
| "enum_value RPC_struct = 4"
| "enum_value RPC_sizedbuf = 5"
| "enum_value RPC_function = 6"
| "enum_value RPC_unknown = 7"

definition all_types :: "rpc_types list" where
  "all_types = [RPC_none, RPC_number, RPC_real, RPC_string, RPC_struct, RPC_sizedbuf, RPC_function, RPC_unknown]"

lemma enum_value_inj [simp]: "enum_value a = enum_value b \<longleftrightarrow> a = b"
  by (cases a; cases b) simp_all

lemma enum_value_less [simp]: "enum_value a < 8"
  by (cases a) simp_all

lemma all_types_nth [simp]: "all_types ! enum_value a = a"
  by (cases a) (simp_all add: all_types_def numeral_eq_Suc)

text \<open>The tags are ordered as C compares them.\<close>

instantiation rpc_types :: linorder
begin

definition less_eq_rpc_types :: "rpc_types \<Rightarrow> rpc_types \<Rightarrow> bool" where
  "less_eq_rpc_types a b = (enum_value a \<le> enum_value b)"

definition less_rpc_types :: "rpc_types \<Rightarrow> rpc_types \<Rightarrow> bool" where
  "less_rpc_types a b = (enum_value a < enum_value b)"

instance
  by standard (auto simp: less_eq_rpc_types_def less_rpc_types_def simp flip: enum_value_inj)

end

definition rpc_is_pointer :: "rpc_types \<Rightarrow> bool" where
  "rpc_is_pointer t = (t = RPC_struct \<or> t = RPC_string \<or> t = RPC_sizedbuf \<or> t = RPC_function \<or> t = RPC_unknown)"

text \<open>Objects of these types are reference counted: the condition the code writes out at each use.\<close>

definition counted_type :: "rpc_types \<Rightarrow> bool" where
  "counted_type t = (rpc_is_pointer t \<and> t \<noteq> RPC_string \<and> t \<noteq> RPC_unknown)"

text \<open>The release functions \<open>rpc_freefn_of\<close> chooses from; the fall-through of its last case is harmless.\<close>

datatype freefn = Free_Struct | Free_Sizedbuf | Free_Function

definition rpc_freefn_of :: "rpc_types \<Rightarrow> freefn option" where
  "rpc_freefn_of t =
     (if rpc_is_pointer t
      then (case t of RPC_struct \<Rightarrow> Some Free_Struct | RPC_sizedbuf \<Rightarrow> Some Free_Sizedbuf
            | RPC_function \<Rightarrow> Some Free_Function | _ \<Rightarrow> None)
      else None)"

lemma freefn_counted: "rpc_freefn_of t \<noteq> None \<longleftrightarrow> counted_type t"
  by (cases t) (simp_all add: rpc_freefn_of_def counted_type_def rpc_is_pointer_def)

section \<open>C types\<close>

datatype ctype =
    C_char | C_int8 | C_uint8 | C_int16 | C_uint16 | C_int32 | C_uint32 | C_int64 | C_uint64
  | C_float | C_double | C_char_ptr | C_rpc_struct | C_rpc_sizedbuf | C_rpc_function | C_other_ptr

fun ctype_to_rpc :: "ctype \<Rightarrow> rpc_types" where
  "ctype_to_rpc C_char = RPC_number"
| "ctype_to_rpc C_int8 = RPC_number"
| "ctype_to_rpc C_uint8 = RPC_number"
| "ctype_to_rpc C_int16 = RPC_number"
| "ctype_to_rpc C_uint16 = RPC_number"
| "ctype_to_rpc C_int32 = RPC_number"
| "ctype_to_rpc C_uint32 = RPC_number"
| "ctype_to_rpc C_int64 = RPC_number"
| "ctype_to_rpc C_uint64 = RPC_number"
| "ctype_to_rpc C_float = RPC_real"
| "ctype_to_rpc C_double = RPC_real"
| "ctype_to_rpc C_char_ptr = RPC_string"
| "ctype_to_rpc C_rpc_struct = RPC_struct"
| "ctype_to_rpc C_rpc_sizedbuf = RPC_sizedbuf"
| "ctype_to_rpc C_rpc_function = RPC_function"
| "ctype_to_rpc C_other_ptr = RPC_unknown"

fun c_sizeof :: "ctype \<Rightarrow> nat" where
  "c_sizeof C_char = 1"
| "c_sizeof C_int8 = 1"
| "c_sizeof C_uint8 = 1"
| "c_sizeof C_int16 = 2"
| "c_sizeof C_uint16 = 2"
| "c_sizeof C_int32 = 4"
| "c_sizeof C_uint32 = 4"
| "c_sizeof C_int64 = 8"
| "c_sizeof C_uint64 = 8"
| "c_sizeof C_float = 4"
| "c_sizeof C_double = 8"
| "c_sizeof C_char_ptr = 8"
| "c_sizeof C_rpc_struct = 8"
| "c_sizeof C_rpc_sizedbuf = 8"
| "c_sizeof C_rpc_function = 8"
| "c_sizeof C_other_ptr = 8"

lemma c_sizeof_le [simp]: "c_sizeof t \<le> 8"
  by (cases t) simp_all

section \<open>Containers\<close>

text \<open>The union is its eight bytes; \<open>ptr_value\<close> reads them as an address.\<close>

record rpc_type_t =
  data_container :: "byte list"
  rt_length :: nat
  rt_type :: rpc_types

definition ptr_value :: "rpc_type_t \<Rightarrow> addr" where
  "ptr_value e = of_le_bytes (data_container e)"

definition set_ptr_value :: "addr \<Rightarrow> rpc_type_t \<Rightarrow> rpc_type_t" where
  "set_ptr_value p e = e\<lparr>data_container := le_bytes 8 p\<rparr>"

definition none_element :: rpc_type_t where
  "none_element = \<lparr>data_container = replicate 8 0, rt_length = 0, rt_type = RPC_none\<rparr>"

text \<open>\<open>memcpy\<close> of \<open>n\<close> bytes over the beginning of an object.\<close>

definition memcpy :: "byte list \<Rightarrow> byte list \<Rightarrow> nat \<Rightarrow> byte list" where
  "memcpy dst src n = take n src @ drop n dst"

text \<open>\<open>c_to_rpc\<close> on an object of type \<open>t\<close> whose bytes are those of \<open>w\<close>; \<open>junk\<close> is what the container
  held before.\<close>

definition c_to_rpc :: "byte list \<Rightarrow> ctype \<Rightarrow> 64 word \<Rightarrow> rpc_type_t" where
  "c_to_rpc junk t w =
     (if rpc_is_pointer (ctype_to_rpc t)
      then \<lparr>data_container = le_bytes 8 w, rt_length = 0, rt_type = ctype_to_rpc t\<rparr>
      else \<lparr>data_container = memcpy junk (le_bytes (c_sizeof t) w) (c_sizeof t),
            rt_length = c_sizeof t, rt_type = ctype_to_rpc t\<rparr>)"

text \<open>The part of \<open>rpc_struct_get\<close> and \<open>rpc_struct_get_unsafe\<close> after the lookup: the output variable has
  type \<open>t\<close> and holds the bytes \<open>out\<close> before.\<close>

definition rpc_output :: "ctype \<Rightarrow> byte list \<Rightarrow> rpc_type_t \<Rightarrow> byte list" where
  "rpc_output t out e =
     (if rpc_is_pointer (rt_type e) then memcpy out (le_bytes 8 (ptr_value e)) (min 8 (c_sizeof t))
      else memcpy out (data_container e) (min (rt_length e) (c_sizeof t)))"

definition rpc_get_element :: "ctype \<Rightarrow> byte list \<Rightarrow> rpc_type_t \<Rightarrow> int \<times> byte list" where
  "rpc_get_element t out e =
     (if rt_type e \<noteq> RPC_none \<and> rt_type e = ctype_to_rpc t then (0, rpc_output t out e) else (1, out))"

definition rpc_get_element_unsafe :: "ctype \<Rightarrow> byte list \<Rightarrow> rpc_type_t \<Rightarrow> int \<times> byte list" where
  "rpc_get_element_unsafe t out e =
     (if rt_type e \<noteq> RPC_none then (0, rpc_output t out e) else (1, out))"

section \<open>Conversions\<close>

lemma length_memcpy: "n \<le> length src \<Longrightarrow> n \<le> length dst \<Longrightarrow> length (memcpy dst src n) = length dst"
  by (simp add: memcpy_def)

lemma take_le_bytes: "m \<le> n \<Longrightarrow> take m (le_bytes n w) = le_bytes m w"
proof (induction n arbitrary: m w)
  case (Suc n)
  then show ?case by (cases m) simp_all
qed simp

lemma ctype_to_rpc_not_none [simp]: "ctype_to_rpc t \<noteq> RPC_none"
  by (cases t) simp_all

lemma pointer_sizeof: "rpc_is_pointer (ctype_to_rpc t) \<Longrightarrow> c_sizeof t = 8"
  by (cases t) (simp_all add: rpc_is_pointer_def)

lemma c_to_rpc_fields:
  "rt_type (c_to_rpc junk t w) = ctype_to_rpc t"
  "rpc_is_pointer (ctype_to_rpc t) \<Longrightarrow> ptr_value (c_to_rpc junk t w) = w"
  "\<not> rpc_is_pointer (ctype_to_rpc t) \<Longrightarrow> rt_length (c_to_rpc junk t w) = c_sizeof t"
  "length junk = 8 \<Longrightarrow> length (data_container (c_to_rpc junk t w)) = 8"
  by (simp_all add: c_to_rpc_def ptr_value_def length_memcpy)

lemma set_ptr_value_simps [simp]:
  "ptr_value (set_ptr_value p e) = p" "rt_type (set_ptr_value p e) = rt_type e" "rt_length (set_ptr_value p e) = rt_length e"
  by (simp_all add: set_ptr_value_def ptr_value_def)

text \<open>Stored as type \<open>s\<close>, read as type \<open>t\<close>: the first bytes are those of the value, and any bytes that
  the stored type did not have are those the output variable held before.\<close>

lemma get_c_to_rpc:
  assumes "ctype_to_rpc t = ctype_to_rpc s" "length junk = 8" "length out = c_sizeof t"
  shows "rpc_get_element t out (c_to_rpc junk s w) =
    (0, le_bytes (min (c_sizeof s) (c_sizeof t)) w @ drop (c_sizeof s) out)"
proof (cases "rpc_is_pointer (ctype_to_rpc s)")
  case True
  then have "c_sizeof s = 8" "c_sizeof t = 8" using assms(1) pointer_sizeof by auto
  then show ?thesis
    using True assms by (simp add: rpc_get_element_def rpc_output_def c_to_rpc_fields memcpy_def)
next
  case False
  have n: "min (c_sizeof s) (c_sizeof t) \<le> c_sizeof s" by simp
  have "data_container (c_to_rpc junk s w) = le_bytes (c_sizeof s) w @ drop (c_sizeof s) junk"
    using False by (simp add: c_to_rpc_def memcpy_def)
  then have "take (min (c_sizeof s) (c_sizeof t)) (data_container (c_to_rpc junk s w)) = le_bytes (min (c_sizeof s) (c_sizeof t)) w"
    using take_le_bytes [OF n] by simp
  moreover have "drop (min (c_sizeof s) (c_sizeof t)) out = drop (c_sizeof s) out"
    using assms(3) by (cases "c_sizeof s \<le> c_sizeof t") (simp_all add: min_def)
  ultimately show ?thesis
    using False assms by (simp add: rpc_get_element_def rpc_output_def c_to_rpc_fields memcpy_def)
qed

end
