(* ===== verification/Jansson.thy ===== *)
theory Jansson
  imports Rpc_Types "HOL-Library.AList"
begin

text \<open>
  The JSON library, which is not part of the repository: a parameter of the operations that use it, as a
  record of its functions. \<open>jansson_ok\<close> states what the code relies on; a small library of trees shows
  that it can hold.
\<close>

section \<open>The operations used\<close>

datatype json_type =
    JSON_OBJECT | JSON_ARRAY | JSON_STRING | JSON_INTEGER | JSON_REAL | JSON_TRUE | JSON_FALSE | JSON_NULL

text \<open>JSON values are immutable here: the code only extends values it has just made, which nothing else
  refers to. A NULL result is \<open>None\<close>: \<open>json_string\<close> rejects texts that are not UTF-8 and \<open>json_real\<close> numbers
  that are not finite. \<open>j_elems\<close> stands for \<open>json_array_size\<close> and \<open>json_array_foreach\<close>, \<open>j_pairs\<close> for
  \<open>json_object_foreach\<close>; like the getters they also accept values of another kind.\<close>

record 'j jansson =
  j_typeof :: "'j \<Rightarrow> json_type"
  j_object :: 'j
  j_set :: "'j \<Rightarrow> string \<Rightarrow> 'j \<Rightarrow> 'j"
  j_get :: "'j \<Rightarrow> string \<Rightarrow> 'j option"
  j_pairs :: "'j \<Rightarrow> (string \<times> 'j) list"
  j_string :: "string \<Rightarrow> 'j option"
  j_string_value :: "'j \<Rightarrow> string option"
  j_integer :: "int \<Rightarrow> 'j"
  j_integer_value :: "'j \<Rightarrow> int"
  j_real :: "64 word \<Rightarrow> 'j option"
  j_real_value :: "'j \<Rightarrow> 64 word"
  j_array :: 'j
  j_append :: "'j \<Rightarrow> 'j \<Rightarrow> 'j"
  j_elems :: "'j \<Rightarrow> 'j list"

text \<open>\<open>json_object_set_new\<close> leaves the object alone when it is given NULL for a value.\<close>

definition json_object_set_new :: "'j jansson \<Rightarrow> 'j \<Rightarrow> string \<Rightarrow> 'j option \<Rightarrow> 'j" where
  "json_object_set_new J x k v = (case v of None \<Rightarrow> x | Some j \<Rightarrow> j_set J x k j)"

section \<open>What the code relies on\<close>

definition ascii :: "string \<Rightarrow> bool" where
  "ascii s = (\<forall>c\<in>set s. of_char c < (128 :: nat))"

text \<open>A double is finite when the bits of its exponent are not all ones.\<close>

definition finite_double :: "64 word \<Rightarrow> bool" where
  "finite_double x = (take_bit 11 (drop_bit 52 x) \<noteq> 2047)"

definition jansson_objects :: "'j jansson \<Rightarrow> bool" where
  "jansson_objects J \<longleftrightarrow>
     j_typeof J (j_object J) = JSON_OBJECT \<and> (\<forall>k. j_get J (j_object J) k = None) \<and>
     (\<forall>x k v. j_typeof J x = JSON_OBJECT \<longrightarrow> j_typeof J (j_set J x k v) = JSON_OBJECT) \<and>
     (\<forall>x k v k'. j_typeof J x = JSON_OBJECT \<longrightarrow> ascii k \<longrightarrow>
        j_get J (j_set J x k v) k' = (if k' = k then Some v else j_get J x k')) \<and>
     (\<forall>x. distinct (map fst (j_pairs J x)) \<and> map_of (j_pairs J x) = j_get J x)"

definition jansson_values :: "'j jansson \<Rightarrow> bool" where
  "jansson_values J \<longleftrightarrow>
     (\<forall>s. ascii s \<longrightarrow> (\<exists>j. j_string J s = Some j \<and> j_string_value J j = Some s \<and> j_typeof J j = JSON_STRING)) \<and>
     (\<forall>i. - (2 ^ 63) \<le> i \<and> i < 2 ^ 63 \<longrightarrow>
        j_integer_value J (j_integer J i) = i \<and> j_typeof J (j_integer J i) = JSON_INTEGER) \<and>
     (\<forall>x. finite_double x \<longrightarrow> (\<exists>j. j_real J x = Some j \<and> j_real_value J j = x \<and> j_typeof J j = JSON_REAL)) \<and>
     (\<forall>xs. j_elems J (foldl (j_append J) (j_array J) xs) = xs)"

definition jansson_ok :: "'j jansson \<Rightarrow> bool" where
  "jansson_ok J \<longleftrightarrow> jansson_objects J \<and> jansson_values J"

lemma jansson_okD:
  assumes "jansson_ok J"
  shows "j_typeof J (j_object J) = JSON_OBJECT" "j_get J (j_object J) k = None"
    "j_typeof J x = JSON_OBJECT \<Longrightarrow> j_typeof J (j_set J x k v) = JSON_OBJECT"
    "j_typeof J x = JSON_OBJECT \<Longrightarrow> ascii k \<Longrightarrow> j_get J (j_set J x k v) k' = (if k' = k then Some v else j_get J x k')"
    "distinct (map fst (j_pairs J x))" "map_of (j_pairs J x) = j_get J x"
    "- (2 ^ 63) \<le> i \<Longrightarrow> i < 2 ^ 63 \<Longrightarrow> j_integer_value J (j_integer J i) = i"
    "- (2 ^ 63) \<le> i \<Longrightarrow> i < 2 ^ 63 \<Longrightarrow> j_typeof J (j_integer J i) = JSON_INTEGER"
    "j_elems J (foldl (j_append J) (j_array J) xs) = xs"
  using assms unfolding jansson_ok_def jansson_objects_def jansson_values_def by blast+

lemma jansson_string:
  assumes "jansson_ok J" "ascii s"
  obtains j where "j_string J s = Some j" "j_string_value J j = Some s" "j_typeof J j = JSON_STRING"
  using assms unfolding jansson_ok_def jansson_values_def by blast

lemma jansson_real:
  assumes "jansson_ok J" "finite_double x"
  obtains j where "j_real J x = Some j" "j_real_value J j = x" "j_typeof J j = JSON_REAL"
  using assms unfolding jansson_ok_def jansson_values_def by blast

lemma set_new_Some [simp]: "json_object_set_new J x k (Some v) = j_set J x k v"
  by (simp add: json_object_set_new_def)

lemma set_new_None [simp]: "json_object_set_new J x k None = x"
  by (simp add: json_object_set_new_def)

text \<open>The keys the code writes itself.\<close>

lemma ascii_literals [simp]:
  "ascii ''type''" "ascii ''serialised''" "ascii ''ID''" "ascii ''duplicates''" "ascii ''prototype''"
  "ascii ''return_type''" "ascii ''RPC_struct''" "ascii ''RPC_sizedbuf''" "ascii ''RPC_function''"
  by (simp_all add: ascii_def)

section \<open>A library of trees\<close>

datatype json =
    J_Object "(string \<times> json) list"
  | J_Array "json list"
  | J_String string
  | J_Integer int
  | J_Real "64 word"

fun tree_typeof :: "json \<Rightarrow> json_type" where
  "tree_typeof (J_Object kvs) = JSON_OBJECT"
| "tree_typeof (J_Array xs) = JSON_ARRAY"
| "tree_typeof (J_String s) = JSON_STRING"
| "tree_typeof (J_Integer i) = JSON_INTEGER"
| "tree_typeof (J_Real x) = JSON_REAL"

definition tree_json :: "json jansson" where
  "tree_json = \<lparr>
     j_typeof = tree_typeof,
     j_object = J_Object [],
     j_set = (\<lambda>x k v. case x of J_Object kvs \<Rightarrow> J_Object ((k, v) # kvs) | _ \<Rightarrow> x),
     j_get = (\<lambda>x k. case x of J_Object kvs \<Rightarrow> map_of kvs k | _ \<Rightarrow> None),
     j_pairs = (\<lambda>x. case x of J_Object kvs \<Rightarrow> AList.clearjunk kvs | _ \<Rightarrow> []),
     j_string = (\<lambda>s. if ascii s then Some (J_String s) else None),
     j_string_value = (\<lambda>x. case x of J_String s \<Rightarrow> Some s | _ \<Rightarrow> None),
     j_integer = J_Integer,
     j_integer_value = (\<lambda>x. case x of J_Integer i \<Rightarrow> i | _ \<Rightarrow> 0),
     j_real = (\<lambda>x. if finite_double x then Some (J_Real x) else None),
     j_real_value = (\<lambda>x. case x of J_Real y \<Rightarrow> y | _ \<Rightarrow> 0),
     j_array = J_Array [],
     j_append = (\<lambda>x y. case x of J_Array xs \<Rightarrow> J_Array (xs @ [y]) | _ \<Rightarrow> x),
     j_elems = (\<lambda>x. case x of J_Array xs \<Rightarrow> xs | _ \<Rightarrow> [])\<rparr>"

lemma tree_json_array: "foldl (j_append tree_json) (j_array tree_json) xs = J_Array xs"
  by (induction xs rule: rev_induct) (simp_all add: tree_json_def)

lemma tree_json_ok: "jansson_ok tree_json"
proof -
  have "j_elems tree_json (J_Array xs) = xs" for xs by (simp add: tree_json_def)
  then have "jansson_values tree_json"
    unfolding jansson_values_def tree_json_array by (simp add: tree_json_def)
  moreover have "j_get tree_json (j_set tree_json x k v) k' = (if k' = k then Some v else j_get tree_json x k')"
    "j_typeof tree_json (j_set tree_json x k v) = JSON_OBJECT" if "j_typeof tree_json x = JSON_OBJECT" for x k v k'
    using that by (cases x; simp add: tree_json_def)+
  moreover have "j_get tree_json (j_object tree_json) k = None" for k by (simp add: tree_json_def)
  moreover have "distinct (map fst (j_pairs tree_json x))" "map_of (j_pairs tree_json x) = j_get tree_json x" for x
    by (cases x; auto simp: tree_json_def map_of_clearjunk)+
  moreover have "j_typeof tree_json (j_object tree_json) = JSON_OBJECT" by (simp add: tree_json_def)
  ultimately show ?thesis unfolding jansson_ok_def jansson_objects_def by blast
qed

end
