(* ===== verification/Rpc_Values.thy ===== *)
theory Rpc_Values
  imports Jansson
begin

text \<open>
  The composite values of the library beside the struct: sized buffers (\<open>rpc_sizedbuf.c\<close>) and function
  descriptions (\<open>rpc_function.c\<close>), with their JSON forms.
\<close>

section \<open>Sized buffers\<close>

record rpc_sizedbuf =
  sb_buf :: "byte list"
  sb_length :: nat

definition rpc_sizedbuf_create :: "byte list \<Rightarrow> nat \<Rightarrow> rpc_sizedbuf run" where
  "rpc_sizedbuf_create buf len =
     (if len > length buf then Inl Out_Of_Bounds else Inr \<lparr>sb_buf = take len buf, sb_length = len\<rparr>)"

definition rpc_sizedbuf_getbuf :: "rpc_sizedbuf option \<Rightarrow> (byte list \<times> nat) run" where
  "rpc_sizedbuf_getbuf szbuf =
     (case szbuf of None \<Rightarrow> Inl Assert_Failed | Some sb \<Rightarrow> Inr (sb_buf sb, sb_length sb))"

text \<open>In the C call the buffer is an argument evaluated together with the length it reports.\<close>

definition rpc_sizedbuf_copy :: "rpc_sizedbuf option \<Rightarrow> rpc_sizedbuf run" where
  "rpc_sizedbuf_copy szbuf =
     andthen (rpc_sizedbuf_getbuf szbuf) (\<lambda>(buf, len). rpc_sizedbuf_create buf len)"

definition rpc_sizedbuf_serialize :: "'j jansson \<Rightarrow> rpc_sizedbuf \<Rightarrow> 'j run" where
  "rpc_sizedbuf_serialize J szbuf =
     (let root = json_object_set_new J (j_object J) ''type'' (j_string J ''RPC_sizedbuf'') in
      if sb_length szbuf > length (sb_buf szbuf) then Inl Out_Of_Bounds
      else Inr (json_object_set_new J root ''serialised''
             (Some (foldl (j_append J) (j_array J)
               (map (\<lambda>b. j_integer J (sint b)) (take (sb_length szbuf) (sb_buf szbuf)))))))"

text \<open>On its error exit the function releases a buffer pointer that was never initialised.\<close>

definition rpc_sizedbuf_deserialize :: "'j jansson \<Rightarrow> 'j \<Rightarrow> rpc_sizedbuf option run" where
  "rpc_sizedbuf_deserialize J json =
     (case j_get J json ''type'' of
        None \<Rightarrow> Inl Uninitialised
      | Some type \<Rightarrow>
          if j_string_value J type \<noteq> Some ''RPC_sizedbuf'' then Inl Uninitialised
          else let elems = (case j_get J json ''serialised'' of None \<Rightarrow> [] | Some a \<Rightarrow> j_elems J a) in
            Inr (Some \<lparr>sb_buf = map (\<lambda>x. word_of_int (j_integer_value J x)) elems, sb_length = length elems\<rparr>))"

text \<open>Both calls of \<open>murmur\<close> are made for nothing.\<close>

definition rpc_sizedbuf_hash :: "rpc_sizedbuf \<Rightarrow> 64 word" where
  "rpc_sizedbuf_hash szbuf =
     (let ignored1 = murmur (sb_buf szbuf) (of_nat (sb_length szbuf));
          hash = 0 + of_nat (sb_length szbuf);
          ignored2 = murmur (le_bytes 8 hash) 8
      in hash)"

definition sizedbuf_wf :: "rpc_sizedbuf \<Rightarrow> bool" where
  "sizedbuf_wf szbuf = (length (sb_buf szbuf) = sb_length szbuf)"

lemma sizedbuf_create_wf: "rpc_sizedbuf_create buf len = Inr sb \<Longrightarrow> sizedbuf_wf sb"
  by (auto simp: rpc_sizedbuf_create_def sizedbuf_wf_def split: if_splits)

lemma sizedbuf_copy_same: "sizedbuf_wf sb \<Longrightarrow> rpc_sizedbuf_copy (Some sb) = Inr sb"
  by (simp add: rpc_sizedbuf_copy_def rpc_sizedbuf_getbuf_def rpc_sizedbuf_create_def sizedbuf_wf_def)

lemma byte_through_json:
  assumes "jansson_ok J"
  shows "word_of_int (j_integer_value J (j_integer J (sint (b :: byte)))) = b"
proof -
  have "- (2 ^ 7) \<le> sint b" "sint b < 2 ^ 7"
    using sint_ge [of b] sint_lt [of b] by simp_all
  then have "j_integer_value J (j_integer J (sint b)) = sint b" by (intro jansson_okD(7) [OF assms]) simp_all
  then show ?thesis by simp
qed

lemma sizedbuf_json_roundtrip:
  assumes J: "jansson_ok J" and wf: "sizedbuf_wf sb"
  obtains j where "rpc_sizedbuf_serialize J sb = Inr j" "rpc_sizedbuf_deserialize J j = Inr (Some sb)"
proof -
  let ?elems = "map (\<lambda>b. j_integer J (sint b)) (sb_buf sb)"
  obtain t where t: "j_string J ''RPC_sizedbuf'' = Some t" "j_string_value J t = Some ''RPC_sizedbuf''"
    using jansson_string [OF J, of "''RPC_sizedbuf''"] by auto
  let ?j = "j_set J (j_set J (j_object J) ''type'' t) ''serialised''
      (foldl (j_append J) (j_array J) ?elems)"
  have "rpc_sizedbuf_serialize J sb = Inr ?j"
    using wf t by (simp add: rpc_sizedbuf_serialize_def sizedbuf_wf_def)
  moreover have "rpc_sizedbuf_deserialize J ?j = Inr (Some sb)"
    using t wf
    by (simp add: rpc_sizedbuf_deserialize_def jansson_okD [OF J] comp_def byte_through_json [OF J] sizedbuf_wf_def)
  ultimately show thesis using that by blast
qed

section \<open>Function descriptions\<close>

text \<open>Type tags are stored as values of the enumeration's integer type; a NULL prototype is \<open>None\<close>.\<close>

record rpc_function =
  prototype :: "nat list option"
  prototype_len :: int
  return_type :: nat
  fnptr :: addr

definition rpc_function_create :: rpc_function where
  "rpc_function_create = \<lparr>prototype = None, prototype_len = 0, return_type = 0, fnptr = null\<rparr>"

definition rpc_function_get_fnptr :: "rpc_function option \<Rightarrow> addr" where
  "rpc_function_get_fnptr fn = (case fn of None \<Rightarrow> null | Some f \<Rightarrow> fnptr f)"

definition rpc_function_set_fnptr :: "rpc_function option \<Rightarrow> addr \<Rightarrow> rpc_function option" where
  "rpc_function_set_fnptr fn p = map_option (\<lambda>f. f\<lparr>fnptr := p\<rparr>) fn"

text \<open>A negative length asks \<open>malloc\<close> for more than the address space.\<close>

definition rpc_function_set_prototype ::
    "rpc_function option \<Rightarrow> nat list option \<Rightarrow> int \<Rightarrow> rpc_function option run" where
  "rpc_function_set_prototype fn proto len =
     (case fn of
        None \<Rightarrow> Inr None
      | Some f \<Rightarrow>
          if len < 0 then Inl Assert_Failed
          else (case proto of
                  None \<Rightarrow> if len > 0 then Inl Null_Deref
                          else Inr (Some (f\<lparr>prototype := Some [], prototype_len := len\<rparr>))
                | Some ts \<Rightarrow>
                    if nat len > length ts then Inl Out_Of_Bounds
                    else Inr (Some (f\<lparr>prototype := Some (take (nat len) ts), prototype_len := len\<rparr>))))"

definition rpc_function_get_prototype :: "rpc_function option \<Rightarrow> nat list option run" where
  "rpc_function_get_prototype fn = (case fn of None \<Rightarrow> Inl Null_Deref | Some f \<Rightarrow> Inr (prototype f))"

definition rpc_function_get_prototype_len :: "rpc_function option \<Rightarrow> int run" where
  "rpc_function_get_prototype_len fn = (case fn of None \<Rightarrow> Inl Null_Deref | Some f \<Rightarrow> Inr (prototype_len f))"

definition rpc_function_set_return_type :: "rpc_function option \<Rightarrow> nat \<Rightarrow> rpc_function option" where
  "rpc_function_set_return_type fn t = map_option (\<lambda>f. f\<lparr>return_type := t\<rparr>) fn"

definition rpc_function_get_return_type :: "rpc_function option \<Rightarrow> nat run" where
  "rpc_function_get_return_type fn = (case fn of None \<Rightarrow> Inl Null_Deref | Some f \<Rightarrow> Inr (return_type f))"

definition rpc_function_copy :: "rpc_function option \<Rightarrow> rpc_function option run" where
  "rpc_function_copy fn =
     (let new1 = rpc_function_set_fnptr (Some rpc_function_create) (rpc_function_get_fnptr fn) in
      andthen (rpc_function_get_return_type fn) (\<lambda>rt.
      andthen (rpc_function_get_prototype fn) (\<lambda>proto.
      andthen (rpc_function_get_prototype_len fn) (\<lambda>len.
        rpc_function_set_prototype (rpc_function_set_return_type new1 rt) proto len))))"

definition rpc_function_serialize :: "'j jansson \<Rightarrow> rpc_function \<Rightarrow> 'j run" where
  "rpc_function_serialize J fn =
     (let root = json_object_set_new J (json_object_set_new J (j_object J) ''type'' (j_string J ''RPC_function''))
                   ''return_type'' (Some (j_integer J (int (return_type fn)))) in
      case prototype fn of
        None \<Rightarrow> Inr root
      | Some ts \<Rightarrow>
          if prototype_len fn \<le> 0 then Inr root
          else if nat (prototype_len fn) > length ts then Inl Out_Of_Bounds
          else Inr (json_object_set_new J root ''prototype''
                 (Some (foldl (j_append J) (j_array J)
                   (map (\<lambda>t. j_integer J (int t)) (take (nat (prototype_len fn)) ts))))))"

definition enum_of_int :: "int \<Rightarrow> nat" where
  "enum_of_int i = nat (i mod 2 ^ 32)"

definition rpc_function_deserialize :: "'j jansson \<Rightarrow> 'j \<Rightarrow> rpc_function option" where
  "rpc_function_deserialize J json =
     (case j_get J json ''type'' of
        None \<Rightarrow> None
      | Some type \<Rightarrow>
          if j_string_value J type \<noteq> Some ''RPC_function'' then None
          else let rt = (case j_get J json ''return_type'' of None \<Rightarrow> 0 | Some x \<Rightarrow> j_integer_value J x);
                   f = rpc_function_create\<lparr>return_type := enum_of_int rt\<rparr> in
            (case j_get J json ''prototype'' of
               None \<Rightarrow> Some f
             | Some a \<Rightarrow>
                 Some (f\<lparr>prototype := Some (map (\<lambda>x. enum_of_int (j_integer_value J x)) (j_elems J a)),
                         prototype_len := int (length (j_elems J a))\<rparr>)))"

definition function_wf :: "rpc_function \<Rightarrow> bool" where
  "function_wf fn \<longleftrightarrow>
     return_type fn < 2 ^ 32 \<and>
     (case prototype fn of
        None \<Rightarrow> prototype_len fn = 0
      | Some ts \<Rightarrow> prototype_len fn = int (length ts) \<and> (\<forall>t\<in>set ts. t < 2 ^ 32))"

text \<open>What the JSON form of a description keeps: everything but the address, and an empty prototype
  becomes none.\<close>

definition function_in_json :: "rpc_function \<Rightarrow> rpc_function" where
  "function_in_json fn =
     fn\<lparr>fnptr := null, prototype := (if prototype fn = Some [] then None else prototype fn)\<rparr>"

lemma enum_through_json:
  assumes "jansson_ok J" "t < 2 ^ 32"
  shows "enum_of_int (j_integer_value J (j_integer J (int t))) = t"
proof -
  have "int t < 2 ^ 63" using assms(2) by simp
  then have "j_integer_value J (j_integer J (int t)) = int t"
    using jansson_okD(7) [OF assms(1), of "int t"] by simp
  moreover have "int t mod 2 ^ 32 = int t" using assms(2) by (intro mod_pos_pos_trivial) simp_all
  ultimately show ?thesis by (simp only: enum_of_int_def nat_int)
qed

lemma function_json_roundtrip:
  assumes J: "jansson_ok J" and wf: "function_wf fn"
  obtains j where "rpc_function_serialize J fn = Inr j" "rpc_function_deserialize J j = Some (function_in_json fn)"
proof -
  obtain t where t: "j_string J ''RPC_function'' = Some t" "j_string_value J t = Some ''RPC_function''"
    using jansson_string [OF J, of "''RPC_function''"] by auto
  let ?root = "j_set J (j_set J (j_object J) ''type'' t) ''return_type'' (j_integer J (int (return_type fn)))"
  have rt: "enum_of_int (j_integer_value J (j_integer J (int (return_type fn)))) = return_type fn"
    using wf by (intro enum_through_json [OF J]) (simp add: function_wf_def)
  show thesis
  proof (cases "prototype fn = None \<or> prototype fn = Some []")
    case True
    have "rpc_function_serialize J fn = Inr ?root"
      using True wf t by (auto simp: rpc_function_serialize_def function_wf_def)
    moreover have "rpc_function_deserialize J ?root = Some (function_in_json fn)"
      using True wf t rt
      by (auto simp: rpc_function_deserialize_def jansson_okD [OF J] rpc_function_create_def function_in_json_def function_wf_def)
    ultimately show thesis using that by blast
  next
    case False
    then obtain ts where ts: "prototype fn = Some ts" "ts \<noteq> []" by auto
    then have len: "prototype_len fn = int (length ts)" and small: "\<And>t. t \<in> set ts \<Longrightarrow> t < 2 ^ 32"
      using wf by (auto simp: function_wf_def)
    let ?j = "j_set J ?root ''prototype'' (foldl (j_append J) (j_array J) (map (\<lambda>t. j_integer J (int t)) ts))"
    have "rpc_function_serialize J fn = Inr ?j"
      using ts len t by (simp add: rpc_function_serialize_def)
    moreover have "map (\<lambda>t. enum_of_int (j_integer_value J (j_integer J (int t)))) ts = ts"
      using enum_through_json [OF J] small by (intro map_idI) simp
    then have "rpc_function_deserialize J ?j = Some (function_in_json fn)"
      using t rt ts len
      by (simp add: rpc_function_deserialize_def jansson_okD [OF J] comp_def rpc_function_create_def
          function_in_json_def)
    ultimately show thesis using that by blast
  qed
qed

lemma function_copy_same:
  assumes "function_wf fn"
  shows "rpc_function_copy (Some fn) = Inr (Some (fn\<lparr>prototype := Some (case prototype fn of None \<Rightarrow> [] | Some ts \<Rightarrow> ts)\<rparr>))"
  using assms
  by (simp add: rpc_function_copy_def rpc_function_get_fnptr_def rpc_function_get_return_type_def
      rpc_function_get_prototype_def rpc_function_get_prototype_len_def rpc_function_set_prototype_def
      rpc_function_set_fnptr_def rpc_function_set_return_type_def rpc_function_create_def function_wf_def
      split: option.splits)

end
