(* ===== verification/Origins.thy ===== *)
theory Origins
  imports Sc_Queue "HOL-Library.Multiset"
begin

text \<open>
  The table of origins that \<open>rpc_struct.c\<close> keeps for one pointer and one key
  (\<open>rpc_struct_prec_ctx\<close>): the structs that hold the pointer under that key, in an array with holes,
  and a queue of the holes to fill first. It is a client of the queue interface.
\<close>

record prec_ctx =
  origins :: "addr list"
  o_index :: nat
  o_size :: nat
  empty_origins :: "nat sc_queue"

definition ORIGINS_DEFAULT_SIZE :: nat where "ORIGINS_DEFAULT_SIZE = 16"

text \<open>Cells of a new or extended array are not initialised: \<open>junk\<close> is what they hold.\<close>

definition ctx_create :: "addr \<Rightarrow> prec_ctx" where
  "ctx_create junk =
     \<lparr>origins = replicate ORIGINS_DEFAULT_SIZE junk, o_index = 0, o_size = ORIGINS_DEFAULT_SIZE,
      empty_origins = sc_queue_init True 0\<rparr>"

definition ctx_take_index :: "prec_ctx \<Rightarrow> (nat \<times> prec_ctx) run" where
  "ctx_take_index ctx =
     (if sc_queue_size (empty_origins ctx) = 0 then Inr (o_index ctx, ctx\<lparr>o_index := o_index ctx + 1\<rparr>)
      else andthen (sc_queue_del_first (empty_origins ctx)) (\<lambda>(i, q). Inr (i, ctx\<lparr>empty_origins := q\<rparr>)))"

definition ctx_add :: "addr \<Rightarrow> prec_ctx \<Rightarrow> addr \<Rightarrow> prec_ctx run" where
  "ctx_add junk ctx origin =
     andthen (ctx_take_index ctx) (\<lambda>(index, ctx1).
       let ctx2 = (if index = o_size ctx1 - 1
                   then ctx1\<lparr>o_size := o_size ctx1 + ORIGINS_DEFAULT_SIZE,
                             origins := origins ctx1 @ replicate ORIGINS_DEFAULT_SIZE junk\<rparr> else ctx1)
       in if index < length (origins ctx2) then Inr (ctx2\<lparr>origins := (origins ctx2)[index := origin]\<rparr>)
          else Inl Out_Of_Bounds)"

text \<open>The loop of the decrement callback, for at most \<open>n\<close> more rounds from index \<open>i\<close>.\<close>

primrec ctx_remove_loop :: "nat \<Rightarrow> nat \<Rightarrow> prec_ctx \<Rightarrow> addr \<Rightarrow> prec_ctx run" where
  "ctx_remove_loop 0 i ctx origin = Inr ctx"
| "ctx_remove_loop (Suc n) i ctx origin =
     (if i < o_index ctx then
        if i < length (origins ctx) then
          if origins ctx ! i = origin then
            let ctx1 = ctx\<lparr>origins := (origins ctx)[i := null]\<rparr> in
            if i = o_index ctx1 - 1 then ctx_remove_loop n (i + 1) (ctx1\<lparr>o_index := o_index ctx1 - 1\<rparr>) origin
            else andthen (sc_queue_add_last True 0 (empty_origins ctx1) i)
                   (\<lambda>q. ctx_remove_loop n (i + 1) (ctx1\<lparr>empty_origins := q\<rparr>) origin)
          else ctx_remove_loop n (i + 1) ctx origin
        else Inl Out_Of_Bounds
      else Inr ctx)"

definition ctx_remove :: "prec_ctx \<Rightarrow> addr \<Rightarrow> prec_ctx run" where
  "ctx_remove ctx origin = ctx_remove_loop (o_index ctx) 0 ctx origin"

lemma ctx_add_size: "ctx_add junk ctx p = Inr ctx' \<Longrightarrow> o_size ctx' \<le> o_size ctx + 16"
  by (auto simp: ctx_add_def andthen_eq_Inr ctx_take_index_def Let_def ORIGINS_DEFAULT_SIZE_def split: if_splits)

section \<open>The array with holes is a multiset of origins\<close>

definition holders :: "prec_ctx \<Rightarrow> addr list" where
  "holders ctx = filter (\<lambda>p. p \<noteq> null) (take (o_index ctx) (origins ctx))"

definition ctx_inv :: "prec_ctx \<Rightarrow> bool" where
  "ctx_inv ctx \<longleftrightarrow>
     length (origins ctx) = o_size ctx \<and> o_index ctx < o_size ctx \<and> 16 \<le> o_size ctx \<and> o_size ctx < 2 ^ 31 \<and>
     queue_ok (empty_origins ctx) \<and> distinct (queue_list (empty_origins ctx)) \<and>
     set (queue_list (empty_origins ctx)) = {j. j < o_index ctx \<and> origins ctx ! j = null}"

lemma ctx_invD:
  assumes "ctx_inv ctx"
  shows "length (origins ctx) = o_size ctx" "o_index ctx < o_size ctx" "16 \<le> o_size ctx" "o_size ctx < 2 ^ 31"
    "queue_ok (empty_origins ctx)" "distinct (queue_list (empty_origins ctx))"
    "set (queue_list (empty_origins ctx)) = {j. j < o_index ctx \<and> origins ctx ! j = null}"
  using assms unfolding ctx_inv_def by blast+

lemma ctx_create_inv: "ctx_inv (ctx_create junk)" "holders (ctx_create junk) = []"
  by (simp_all add: ctx_inv_def ctx_create_def init_list ORIGINS_DEFAULT_SIZE_def holders_def)

lemma ctx_queue_short:
  assumes "ctx_inv ctx" shows "length (queue_list (empty_origins ctx)) < queue_limit"
proof -
  have "length (queue_list (empty_origins ctx)) = card {j. j < o_index ctx \<and> origins ctx ! j = null}"
    using assms distinct_card [of "queue_list (empty_origins ctx)"] by (simp add: ctx_inv_def)
  also have "\<dots> \<le> card {..<o_index ctx}" by (intro card_mono) auto
  also have "\<dots> < queue_limit" using assms by (simp add: ctx_inv_def queue_limit_def)
  finally show ?thesis .
qed

text \<open>The array up to the index, seen from one of its cells.\<close>

lemma origins_at:
  assumes "i < n" "n \<le> length xs"
  obtains pre post where "take n xs = pre @ xs ! i # post" "\<And>y. take n (xs[i := y]) = pre @ y # post"
    "length pre = i"
proof
  show "take n xs = take i xs @ xs ! i # drop (Suc i) (take n xs)"
    using assms id_take_nth_drop [of i "take n xs"] by (simp add: min_absorb1)
  show "take n (xs[i := y]) = take i xs @ y # drop (Suc i) (take n xs)" for y
    using assms upd_conv_take_nth_drop [of i "take n xs" y] by (simp add: take_update_swap min_absorb1)
  show "length (take i xs) = i" using assms by simp
qed

lemma mset_holders_set:
  assumes "i < o_index ctx" "o_index ctx \<le> length (origins ctx)" "origins ctx ! i = null" "p \<noteq> null"
  shows "mset (filter (\<lambda>p. p \<noteq> null) (take (o_index ctx) ((origins ctx)[i := p]))) = add_mset p (mset (holders ctx))"
proof -
  obtain pre post where "take (o_index ctx) (origins ctx) = pre @ origins ctx ! i # post"
    "\<And>y. take (o_index ctx) ((origins ctx)[i := y]) = pre @ y # post"
    by (rule origins_at [OF assms(1,2)]) blast
  then show ?thesis using assms(3,4) by (simp add: holders_def)
qed

lemma ctx_add_correct:
  assumes inv: "ctx_inv ctx" and room: "o_size ctx < 2 ^ 31 - 16" and p: "p \<noteq> null"
  obtains ctx' where "ctx_add junk ctx p = Inr ctx'" "ctx_inv ctx'"
    "mset (holders ctx') = add_mset p (mset (holders ctx))" "o_size ctx' \<le> o_size ctx + 16"
proof -
  have q: "queue_ok (empty_origins ctx)" using inv by (simp add: ctx_inv_def)
  then have qs: "sc_queue_size (empty_origins ctx) = length (queue_list (empty_origins ctx))"
    by (intro queue_size) (simp add: queue_ok_def)
  let ?grow = "\<lambda>i c. if i = o_size c - 1
      then c\<lparr>o_size := o_size c + ORIGINS_DEFAULT_SIZE, origins := origins c @ replicate ORIGINS_DEFAULT_SIZE junk\<rparr> else c"
  show thesis
  proof (cases "queue_list (empty_origins ctx)")
    case Nil
    let ?i = "o_index ctx" and ?c1 = "ctx\<lparr>o_index := Suc (o_index ctx)\<rparr>"
    let ?c2 = "?grow ?i ?c1"
    define c where "c = ?c2\<lparr>origins := (origins ?c2)[?i := p]\<rparr>"
    have il: "?i < length (origins ctx)" using inv by (simp add: ctx_inv_def)
    have add: "ctx_add junk ctx p = Inr c"
      using Nil qs il by (simp add: c_def ctx_add_def ctx_take_index_def Let_def)
    have c: "o_index c = Suc ?i" "empty_origins c = empty_origins ctx" "length (origins c) = o_size c"
      "o_size ctx \<le> o_size c" "o_size c \<le> o_size ctx + 16" "Suc ?i < o_size c"
    proof -
      have "length (origins ctx) = o_size ctx" "?i < o_size ctx" using inv by (simp_all add: ctx_inv_def)
      then show "o_index c = Suc ?i" "empty_origins c = empty_origins ctx" "length (origins c) = o_size c"
        "o_size ctx \<le> o_size c" "o_size c \<le> o_size ctx + 16" "Suc ?i < o_size c"
        by (auto simp: c_def ORIGINS_DEFAULT_SIZE_def)
    qed
    have "take ?i (origins c) = take ?i (origins ctx)" "origins c ! ?i = p"
      using il by (simp_all add: c_def nth_append)
    then have t: "take (Suc ?i) (origins c) = take ?i (origins ctx) @ [p]"
      using c il by (simp add: take_Suc_conv_app_nth)
    have keep: "origins c ! j = origins ctx ! j" if "j < ?i" for j
      using that \<open>take ?i (origins c) = take ?i (origins ctx)\<close> by (metis nth_take)
    have "{j. j < o_index c \<and> origins c ! j = null} = {j. j < ?i \<and> origins ctx ! j = null}"
      using keep p c(1) \<open>origins c ! ?i = p\<close> by (auto simp: less_Suc_eq)
    then have "ctx_inv c"
      using inv room c by (auto simp: ctx_inv_def)
    moreover have "mset (holders c) = add_mset p (mset (holders ctx))"
      using p t c(1) by (simp add: holders_def)
    ultimately show thesis using add c(5) by (intro that [of c]) simp_all
  next
    case (Cons i es)
    obtain q' where q': "sc_queue_del_first (empty_origins ctx) = Inr (i, q')" "queue_ok q'" "queue_list q' = es"
      using sq.deq [OF q Cons] by blast
    note D = ctx_invD [OF inv]
    have "i \<in> set (queue_list (empty_origins ctx))" using Cons by simp
    then have i: "i < o_index ctx" "origins ctx ! i = null" unfolding D(7) by simp_all
    have dist: "distinct (i # es)" using D(6) Cons by simp
    let ?c1 = "ctx\<lparr>empty_origins := q'\<rparr>"
    have ng: "i \<noteq> o_size ctx - 1" using i(1) D(2) by linarith
    let ?c = "?c1\<lparr>origins := (origins ctx)[i := p]\<rparr>"
    have il: "i < length (origins ctx)" using inv i by (simp add: ctx_inv_def)
    have "ctx_add junk ctx p = Inr ?c"
      using Cons qs q'(1) il ng by (simp add: ctx_add_def ctx_take_index_def Let_def)
    moreover have "ctx_inv ?c"
    proof -
      have "{j. j < o_index ctx \<and> (origins ctx)[i := p] ! j = null} = {j. j < o_index ctx \<and> origins ctx ! j = null} - {i}"
        using il p by (auto simp: nth_list_update)
      also have "\<dots> = set (queue_list (empty_origins ctx)) - {i}" by (simp only: D(7))
      also have "\<dots> = set es" using Cons dist by auto
      finally show ?thesis using inv q' dist by (simp add: ctx_inv_def)
    qed
    moreover have "mset (holders ?c) = add_mset p (mset (holders ctx))"
      using mset_holders_set [OF i(1) _ i(2) p] inv by (simp add: holders_def ctx_inv_def)
    ultimately show thesis by (intro that [of ?c]) simp_all
  qed
qed

lemma holders_without:
  assumes "ctx_inv ctx" "o_index ctx \<le> i" "\<forall>j<i. j < o_index ctx \<longrightarrow> origins ctx ! j \<noteq> p"
  shows "holders ctx = filter (\<lambda>x. x \<noteq> p) (holders ctx)"
proof -
  have "p \<notin> set (take (o_index ctx) (origins ctx))"
    using assms by (auto simp: in_set_conv_nth ctx_inv_def)
  then have "\<forall>x\<in>set (holders ctx). x \<noteq> p" by (auto simp: holders_def)
  then show ?thesis by simp
qed

lemma ctx_remove_loop_correct:
  assumes "ctx_inv ctx" "p \<noteq> null" "n + i \<ge> o_index ctx" "\<forall>j<i. j < o_index ctx \<longrightarrow> origins ctx ! j \<noteq> p"
  obtains ctx' where "ctx_remove_loop n i ctx p = Inr ctx'" "ctx_inv ctx'"
    "holders ctx' = filter (\<lambda>x. x \<noteq> p) (holders ctx)" "o_index ctx' \<le> o_index ctx" "o_size ctx' = o_size ctx"
  using assms
proof (induction n arbitrary: i ctx thesis)
  case 0
  have "holders ctx = filter (\<lambda>x. x \<noteq> p) (holders ctx)"
    using holders_without [where ctx = ctx and i = i and p = p] 0 by simp
  then show ?case using 0 by (intro 0(1) [of ctx]) simp_all
next
  case (Suc n)
  note inv = Suc.prems(2)
  show ?case
  proof (cases "i < o_index ctx")
    case False
    have "holders ctx = filter (\<lambda>x. x \<noteq> p) (holders ctx)"
      using holders_without [where ctx = ctx and i = i and p = p] Suc.prems False by simp
    then show ?thesis using False inv by (intro Suc.prems(1) [of ctx]) simp_all
  next
    case True
    then have il: "i < length (origins ctx)" using inv by (simp add: ctx_inv_def)
    show ?thesis
    proof (cases "origins ctx ! i = p")
      case False
      then have "\<forall>j<Suc i. j < o_index ctx \<longrightarrow> origins ctx ! j \<noteq> p" using Suc.prems(5) by (auto simp: less_Suc_eq)
      then obtain ctx' where "ctx_remove_loop n (Suc i) ctx p = Inr ctx'" "ctx_inv ctx'"
        "holders ctx' = filter (\<lambda>x. x \<noteq> p) (holders ctx)" "o_index ctx' \<le> o_index ctx" "o_size ctx' = o_size ctx"
        using Suc.IH [of "Suc i" ctx] inv Suc.prems by auto
      then show ?thesis using True il False by (intro Suc.prems(1) [of ctx']) simp_all
    next
      case hit: True
      let ?os = "(origins ctx)[i := null]"
      have before: "\<forall>j<Suc i. j < o_index ctx \<longrightarrow> ?os ! j \<noteq> p"
        using Suc.prems(3,5) il by (auto simp: less_Suc_eq nth_list_update)
      have oil: "o_index ctx \<le> length (origins ctx)" using inv by (simp add: ctx_inv_def)
      have hold: "filter (\<lambda>x. x \<noteq> p) (filter (\<lambda>x. x \<noteq> null) (take (o_index ctx) ?os)) = filter (\<lambda>x. x \<noteq> p) (holders ctx)"
      proof -
        obtain pre post where "take (o_index ctx) (origins ctx) = pre @ origins ctx ! i # post"
          "\<And>y. take (o_index ctx) ((origins ctx)[i := y]) = pre @ y # post"
          by (rule origins_at [OF True oil]) blast
        then show ?thesis using hit by (simp add: holders_def)
      qed
      show ?thesis
      proof (cases "i = o_index ctx - 1")
        case last: True
        let ?c = "ctx\<lparr>origins := ?os, o_index := o_index ctx - 1\<rparr>"
        have oi: "o_index ctx = Suc i" using last True by simp
        have "{j. j < i \<and> ?os ! j = null} = {j. j < Suc i \<and> origins ctx ! j = null}"
          using hit Suc.prems(3) by (auto simp: less_Suc_eq nth_list_update)
        then have "ctx_inv ?c" using inv oi by (simp add: ctx_inv_def)
        then obtain ctx' where c': "ctx_remove_loop n (Suc i) ?c p = Inr ctx'" "ctx_inv ctx'"
          "holders ctx' = filter (\<lambda>x. x \<noteq> p) (holders ?c)" "o_index ctx' \<le> o_index ?c" "o_size ctx' = o_size ?c"
          using Suc.IH [of "Suc i" ?c] before Suc.prems oi by auto
        have "holders ?c = filter (\<lambda>x. x \<noteq> null) (take (o_index ctx) ?os)"
          using oi il by (simp add: holders_def take_Suc_conv_app_nth)
        then have "holders ctx' = filter (\<lambda>x. x \<noteq> p) (holders ctx)" using c'(3) hold by simp
        moreover have "ctx_remove_loop (Suc n) i ctx p = Inr ctx'"
          using True il hit last c'(1) by (simp add: Let_def)
        ultimately show ?thesis using c' by (intro Suc.prems(1) [of ctx']) simp_all
      next
        case notlast: False
        obtain q' where q': "sc_queue_add_last True 0 (empty_origins ctx) i = Inr q'" "queue_ok q'"
          "queue_list q' = queue_list (empty_origins ctx) @ [i]"
          using sq.enq [of "empty_origins ctx" 0 i] inv ctx_queue_short [OF inv] by (auto simp: ctx_inv_def)
        let ?c = "ctx\<lparr>origins := ?os, empty_origins := q'\<rparr>"
        have "{j. j < o_index ctx \<and> ?os ! j = null} = insert i {j. j < o_index ctx \<and> origins ctx ! j = null}"
          using True il by (auto simp: nth_list_update)
        moreover have "i \<notin> set (queue_list (empty_origins ctx))"
          using inv hit Suc.prems(3) by (simp add: ctx_inv_def)
        ultimately have "ctx_inv ?c" using inv q' by (simp add: ctx_inv_def)
        then obtain ctx' where c': "ctx_remove_loop n (Suc i) ?c p = Inr ctx'" "ctx_inv ctx'"
          "holders ctx' = filter (\<lambda>x. x \<noteq> p) (holders ?c)" "o_index ctx' \<le> o_index ?c" "o_size ctx' = o_size ?c"
          using Suc.IH [of "Suc i" ?c] before Suc.prems by auto
        have "holders ctx' = filter (\<lambda>x. x \<noteq> p) (holders ctx)" using c'(3) hold by (simp add: holders_def)
        moreover have "ctx_remove_loop (Suc n) i ctx p = Inr ctx'"
          using True il hit notlast c'(1) q'(1) by (simp add: Let_def)
        ultimately show ?thesis using c' by (intro Suc.prems(1) [of ctx']) simp_all
      qed
    qed
  qed
qed

lemma ctx_remove_correct:
  assumes "ctx_inv ctx" "p \<noteq> null"
  obtains ctx' where "ctx_remove ctx p = Inr ctx'" "ctx_inv ctx'" "holders ctx' = filter (\<lambda>x. x \<noteq> p) (holders ctx)"
    "o_size ctx' = o_size ctx"
  using ctx_remove_loop_correct [OF assms, of "o_index ctx" 0] by (auto simp: ctx_remove_def)

end
