(* ===== verification/Value_Claims.thy ===== *)
theory Value_Claims
  imports Rpc_Values Origins
begin

text \<open>
  What the value types promise: conversions to and from containers, the JSON forms of sized buffers and
  function descriptions, the hash of a sized buffer, and the table of origins of a pointer.
\<close>

section \<open>Containers\<close>

text \<open>A C object stored in a container and read back into a variable of the same type is unchanged,
  for every type the macros accept, whatever the container and the variable held before.\<close>

theorem container_roundtrip:
  assumes "length junk = 8" "length out = c_sizeof t"
  shows "rpc_get_element t out (c_to_rpc junk t w) = (0, le_bytes (c_sizeof t) w)"
  using get_c_to_rpc [of t t junk out w] assms by simp

theorem container_roundtrip_witness:
  "rpc_get_element C_uint16 [9, 9] (c_to_rpc (replicate 8 7) C_uint16 0x1234) = (0, le_bytes 2 0x1234)"
  using container_roundtrip [of "replicate 8 7" "[9, 9]" C_uint16 "0x1234"] by simp

text \<open>The type check of \<open>rpc_struct_get\<close> is by tag only: a number stored from a narrower C type and
  read into a wider variable leaves the high bytes of the variable as they were, so an uninitialised
  output is not fully set although the call reports success.\<close>

theorem narrow_number_leaves_high_bytes:
  assumes "ctype_to_rpc s = RPC_number" "ctype_to_rpc t = RPC_number" "c_sizeof s < c_sizeof t"
    "length junk = 8" "length out = c_sizeof t"
  shows "rpc_get_element t out (c_to_rpc junk s w) = (0, le_bytes (c_sizeof s) w @ drop (c_sizeof s) out)"
  using get_c_to_rpc [of t s junk out w] assms by simp

theorem narrow_number_leaves_high_bytes_witness:
  "rpc_get_element C_uint16 [0, 0xAB] (c_to_rpc (replicate 8 0) C_uint8 5) = (0, [5, 0xAB])"
  using narrow_number_leaves_high_bytes [of C_uint8 C_uint16 "replicate 8 0" "[0, 0xAB]" 5] by simp

text \<open>Reading with a type of another tag fails and leaves the output variable alone.\<close>

theorem tag_mismatch_rejected:
  assumes "ctype_to_rpc t \<noteq> ctype_to_rpc s"
  shows "rpc_get_element t out (c_to_rpc junk s w) = (1, out)"
  using assms by (simp add: rpc_get_element_def c_to_rpc_fields)

theorem tag_mismatch_rejected_witness:
  "rpc_get_element C_double (replicate 8 3) (c_to_rpc (replicate 8 0) C_int32 5) = (1, replicate 8 3)"
  by (rule tag_mismatch_rejected) simp

section \<open>JSON forms\<close>

text \<open>A sized buffer survives its JSON form, byte for byte, with any JSON library that keeps strings,
  64-bit integers, arrays and object members.\<close>

theorem sizedbuf_survives_json:
  assumes "jansson_ok J" "sizedbuf_wf sb"
  shows "\<exists>j. rpc_sizedbuf_serialize J sb = Inr j \<and> rpc_sizedbuf_deserialize J j = Inr (Some sb)"
  using sizedbuf_json_roundtrip [OF assms] by blast

theorem sizedbuf_survives_json_witness:
  "\<exists>j. rpc_sizedbuf_serialize tree_json \<lparr>sb_buf = [1, 0, 255], sb_length = 3\<rparr> = Inr j \<and>
    rpc_sizedbuf_deserialize tree_json j = Inr (Some \<lparr>sb_buf = [1, 0, 255], sb_length = 3\<rparr>)"
  by (rule sizedbuf_survives_json [OF tree_json_ok]) (simp add: sizedbuf_wf_def)

text \<open>A function description survives its JSON form but for its address, which comes back NULL, and an
  empty prototype, which comes back as none.\<close>

theorem function_survives_json:
  assumes "jansson_ok J" "function_wf fn"
  shows "\<exists>j. rpc_function_serialize J fn = Inr j \<and>
    rpc_function_deserialize J j =
      Some (fn\<lparr>fnptr := null, prototype := (if prototype fn = Some [] then None else prototype fn)\<rparr>)"
  using function_json_roundtrip [OF assms] unfolding function_in_json_def by blast

theorem function_survives_json_witness:
  "\<exists>j. rpc_function_serialize tree_json
      \<lparr>prototype = Some [1, 3], prototype_len = 2, return_type = 4, fnptr = 64\<rparr> = Inr j \<and>
    rpc_function_deserialize tree_json j =
      Some \<lparr>prototype = Some [1, 3], prototype_len = 2, return_type = 4, fnptr = null\<rparr>"
  using function_survives_json [OF tree_json_ok, of "\<lparr>prototype = Some [1, 3], prototype_len = 2, return_type = 4, fnptr = 64\<rparr>"]
  by (simp add: function_wf_def)

text \<open>A JSON value whose type member is missing or is not the string of a sized buffer makes
  \<open>rpc_sizedbuf_deserialize\<close> release a buffer pointer it never initialised.\<close>

theorem sizedbuf_bad_json_frees_garbage:
  assumes "\<And>x. j_get J json ''type'' = Some x \<Longrightarrow> j_string_value J x \<noteq> Some ''RPC_sizedbuf''"
  shows "rpc_sizedbuf_deserialize J json = Inl Uninitialised"
  using assms by (auto simp: rpc_sizedbuf_deserialize_def split: option.splits)

theorem sizedbuf_bad_json_frees_garbage_witness:
  "rpc_sizedbuf_deserialize tree_json (J_Object []) = Inl Uninitialised"
  by (rule sizedbuf_bad_json_frees_garbage) (simp add: tree_json_def)

text \<open>The hash of a sized buffer is its length: the contents, hashed for nothing, do not matter.\<close>

theorem sizedbuf_hash_ignores_contents:
  "rpc_sizedbuf_hash sb = of_nat (sb_length sb)"
  by (simp add: rpc_sizedbuf_hash_def Let_def)

section \<open>Origins of a pointer\<close>

text \<open>C37: The table of origins is a multiset of holders: adding an origin, in a hole or at the end, adds
  one holder; removing an origin removes all its entries and no other; holes are reused, and the table
  never reads or writes outside its array.\<close>

theorem origins_are_a_multiset:
  assumes "ctx_inv ctx" "o_size ctx < 2147483632" "p \<noteq> null"
  shows "(\<exists>ctx'. ctx_add junk ctx p = Inr ctx' \<and> ctx_inv ctx' \<and> mset (holders ctx') = add_mset p (mset (holders ctx))) \<and>
    (\<exists>ctx'. ctx_remove ctx p = Inr ctx' \<and> ctx_inv ctx' \<and> holders ctx' = filter (\<lambda>x. x \<noteq> p) (holders ctx))"
proof
  have "o_size ctx < 2 ^ 31 - 16" using assms(2) by simp
  from ctx_add_correct [OF assms(1) this assms(3)]
  show "\<exists>ctx'. ctx_add junk ctx p = Inr ctx' \<and> ctx_inv ctx' \<and> mset (holders ctx') = add_mset p (mset (holders ctx))"
    by metis
  show "\<exists>ctx'. ctx_remove ctx p = Inr ctx' \<and> ctx_inv ctx' \<and> holders ctx' = filter (\<lambda>x. x \<noteq> p) (holders ctx)"
    using ctx_remove_correct [OF assms(1,3)] by metis
qed

theorem origins_are_a_multiset_witness:
  "\<exists>ctx'. ctx_add 0 (ctx_create 0) 16 = Inr ctx' \<and> ctx_inv ctx' \<and> mset (holders ctx') = {#16#}"
proof -
  have "o_size (ctx_create 0) < 2147483632" "(16 :: addr) \<noteq> null"
    by (simp_all add: ctx_create_def ORIGINS_DEFAULT_SIZE_def)
  from origins_are_a_multiset [OF ctx_create_inv(1) this, of 0] show ?thesis
    by (simp add: ctx_create_inv(2))
qed

end
