(* ===== verification/Hashmap_Loops.thy ===== *)
theory Hashmap_Loops
  imports Hashmap_Iter
begin

text \<open>
  How the rest of the library walks over its tables: the key and data forms of the removal-safe loop, and
  writing through the data pointer that a lookup returned. Two rules reduce every such loop to a fold of
  its body over a list of entries: bodies that leave the table alone, and bodies that remove the key they
  are given.
\<close>

section \<open>Loops\<close>

text \<open>A body that removes at most the key it is given either advances the iterator or shrinks the table,
  so this many rounds are enough; the lemmas below show it for the loops of the library.\<close>

definition foreach_fuel :: "('k, 'v) hashmap_base \<Rightarrow> nat" where
  "foreach_fuel hb = Suc (length (table hb) + hb_size hb)"

definition hashmap_foreach_all :: "('s \<Rightarrow> ('k, 'v) hashmap_base) \<Rightarrow> ('k \<Rightarrow> 'v \<Rightarrow> 's \<Rightarrow> 's run) \<Rightarrow> 's \<Rightarrow> 's run" where
  "hashmap_foreach_all table_of body s =
     hashmap_foreach_safe (foreach_fuel (table_of s)) table_of body (hashmap_iter (table_of s)) s"

definition hashmap_foreach_key_safe :: "('s \<Rightarrow> ('k, 'v) hashmap_base) \<Rightarrow> ('k \<Rightarrow> 's \<Rightarrow> 's run) \<Rightarrow> 's \<Rightarrow> 's run" where
  "hashmap_foreach_key_safe table_of body s = hashmap_foreach_all table_of (\<lambda>key data. body key) s"

definition hashmap_foreach_data_safe :: "('s \<Rightarrow> ('k, 'v) hashmap_base) \<Rightarrow> ('v \<Rightarrow> 's \<Rightarrow> 's run) \<Rightarrow> 's \<Rightarrow> 's run" where
  "hashmap_foreach_data_safe table_of body s = hashmap_foreach_all table_of (\<lambda>key data. body data) s"

text \<open>Assignment through the pointer \<open>hashmap_get\<close> returned for \<open>key\<close>.\<close>

definition hashmap_poke :: "('k, 'v) hashmap_base \<Rightarrow> 'k \<Rightarrow> 'v \<Rightarrow> ('k, 'v) hashmap_base" where
  "hashmap_poke hb key data =
     (case hashmap_entry_find hb key False of
        None \<Rightarrow> hb
      | Some i \<Rightarrow> hb\<lparr>table := (table hb)[i := map_option (\<lambda>(k, _). (k, data)) (table hb ! i)]\<rparr>)"

section \<open>Folds\<close>

fun fold_run :: "('k \<Rightarrow> 'v \<Rightarrow> 's \<Rightarrow> 's run) \<Rightarrow> ('k \<times> 'v) list \<Rightarrow> 's \<Rightarrow> 's run" where
  "fold_run body [] s = Inr s"
| "fold_run body ((k, v) # es) s = andthen (body k v s) (fold_run body es)"

lemma fold_run_append: "fold_run body (xs @ ys) s = andthen (fold_run body xs s) (fold_run body ys)"
proof (induction xs arbitrary: s)
  case (Cons x xs)
  have "fold_run body (xs @ ys) = (\<lambda>a. andthen (fold_run body xs a) (fold_run body ys))"
    by (rule ext) (rule Cons.IH)
  then show ?case by (cases x) (simp add: andthen_assoc)
qed simp

lemma fold_run_invariant:
  assumes "fold_run body es s = Inr s'" "I s"
    "\<And>k v s s'. (k, v) \<in> set es \<Longrightarrow> I s \<Longrightarrow> body k v s = Inr s' \<Longrightarrow> I s'"
  shows "I s'"
  using assms
proof (induction es arbitrary: s)
  case (Cons e es)
  obtain k v where [simp]: "e = (k, v)" by fastforce
  obtain s1 where "body k v s = Inr s1" "fold_run body es s1 = Inr s'"
    using Cons.prems(1) by (auto simp: andthen_eq_Inr)
  moreover have "I s1" using Cons.prems(2,3) calculation(1) by (metis list.set_intros(1) \<open>e = (k, v)\<close>)
  ultimately show ?case using Cons.IH Cons.prems(3) by (metis list.set_intros(2))
qed simp

lemma fold_run_cong:
  "(\<And>k v s. (k, v) \<in> set es \<Longrightarrow> f k v s = g k v s) \<Longrightarrow> fold_run f es s = fold_run g es s"
proof (induction es arbitrary: s)
  case (Cons e es)
  obtain k v where [simp]: "e = (k, v)" by fastforce
  have "fold_run f es = fold_run g es" by (rule ext) (use Cons in auto)
  then show ?case using Cons.prems [of k v] by simp
qed simp

section \<open>Bodies that leave the table alone\<close>

lemma iter_at:
  assumes "hm_inv hb" "next_populated (table hb) i = Some r"
  obtains k v where "table hb ! r = Some (k, v)" "r < length (table hb)" "i \<le> r"
    "slots (drop i (table hb)) = (k, v) # slots (drop (Suc r) (table hb))"
proof -
  obtain k v where "table hb ! r = Some (k, v)" using next_populated_some [OF assms(2)] by fastforce
  then show thesis
    using that next_populated_bounds [OF assms(2)] next_populated_slots [of i "table hb"] assms(2) by simp
qed

lemma foreach_safe_pure:
  assumes "hm_inv hb" "length (slots (drop i (table hb))) < n" "table_of s = hb" "I s"
    "\<And>k v s s'. (k, v) \<in> set (hm_entries hb) \<Longrightarrow> I s \<Longrightarrow> table_of s = hb \<Longrightarrow> body k v s = Inr s' \<Longrightarrow> I s' \<and> table_of s' = hb"
  shows "hashmap_foreach_safe n table_of body (next_populated (table hb) i) s = fold_run body (slots (drop i (table hb))) s"
  using assms(2-4)
proof (induction n arbitrary: i s)
  case (Suc n)
  show ?case
  proof (cases "next_populated (table hb) i")
    case None
    then show ?thesis using Suc.prems by (simp add: hashmap_base_iter_get_key_def next_populated_slots)
  next
    case (Some r)
    obtain k v where r: "table hb ! r = Some (k, v)" "r < length (table hb)" "i \<le> r"
      "slots (drop i (table hb)) = (k, v) # slots (drop (Suc r) (table hb))"
      using iter_at [OF assms(1) Some] by metis
    have kv: "(k, v) \<in> set (hm_entries hb)" using r by (auto simp: hm_entries_def set_slots)
    have step: "hashmap_base_iter_next hb (Some r) = (next_populated (table hb) (Suc r) \<noteq> None, next_populated (table hb) (Suc r))"
      by (simp add: hashmap_base_iter_next_def get_populated [OF assms(1)] Let_def)
    show ?thesis
    proof (cases "body k v s")
      case (Inl e)
      then show ?thesis
        using Some r Suc.prems by (simp add: hashmap_base_iter_get_key_def hashmap_base_iter_get_data_def)
    next
      case (Inr s')
      then have s': "I s'" "table_of s' = hb" using assms(5) [OF kv] Suc.prems by blast+
      have "length (slots (drop (Suc r) (table hb))) < n" using Suc.prems(1) r(4) by simp
      from Suc.IH [OF this s'(2,1)] show ?thesis
        using Some r Suc.prems Inr s' step
        by (simp add: hashmap_base_iter_get_key_def hashmap_base_iter_get_data_def Let_def)
    qed
  qed
qed simp

lemma foreach_all_pure:
  assumes "hm_inv (table_of s)" "I s"
    "\<And>k v s1 s'. (k, v) \<in> set (hm_entries (table_of s)) \<Longrightarrow> I s1 \<Longrightarrow> table_of s1 = table_of s \<Longrightarrow>
      body k v s1 = Inr s' \<Longrightarrow> I s' \<and> table_of s' = table_of s"
  shows "hashmap_foreach_all table_of body s = fold_run body (hm_entries (table_of s)) s"
proof -
  have "length (slots (drop 0 (table (table_of s)))) < foreach_fuel (table_of s)"
    using hm_inv_size [OF assms(1)] by (simp add: foreach_fuel_def hm_entries_def)
  then have "hashmap_foreach_safe (foreach_fuel (table_of s)) table_of body (next_populated (table (table_of s)) 0) s =
      fold_run body (slots (drop 0 (table (table_of s)))) s"
    using assms by (intro foreach_safe_pure [where I = I]) blast+
  then show ?thesis
    by (simp add: hashmap_foreach_all_def hashmap_iter_def hashmap_base_iter_def get_populated [OF assms(1)] hm_entries_def)
qed

section \<open>Bodies that remove the key they are given\<close>

lemma remove_first_entry:
  assumes inv: "hm_inv hb" and first: "next_populated (table hb) i = Some r"
    and prefix: "\<forall>j<i. j < length (table hb) \<longrightarrow> table hb ! j = None"
  obtains k v hb1 where "table hb ! r = Some (k, v)" "hm_map hb k = Some v"
    "hashmap_remove hb k = (Some v, hb1)" "hm_inv hb1"
    "mset (hm_entries hb) = add_mset (k, v) (mset (hm_entries hb1))"
    "hashmap_base_iter_get_key hb1 (Some r) \<noteq> Some k"
    "\<forall>j<r. j < length (table hb1) \<longrightarrow> table hb1 ! j = None"
proof -
  obtain k v where e: "table hb ! r = Some (k, v)" "r < length (table hb)" "i \<le> r"
    using iter_at [OF inv first] by metis
  have ti: "tbl_inv hb" using inv e(2) by (auto simp: hm_inv_def)
  note D = tbl_invD [OF ti]
  have free: "\<forall>j<r. table hb ! j = None"
    using prefix next_populated_skips [OF first] e by (meson leI less_trans)
  have find: "hashmap_entry_find hb k False = Some r"
    using entry_find_present [OF ti hm_inv_cmp [OF inv]] e D(1) by simp
  obtain freed hb1 where rem: "hashmap_entry_remove hb r = (freed, hb1)" by fastforce
  have r1: "hm_inv hb1" "mset (hm_entries hb) = add_mset (k, v) (mset (hm_entries hb1))"
    "table_size hb1 = table_size hb"
    using entry_remove_correct [OF inv _ e(1) rem] e(2) D(1) by (simp_all add: hm_entries_def)
  have m: "hm_map hb = (hm_map hb1)(k \<mapsto> v)" "hm_map hb1 = (hm_map hb)(k := None)"
    using hm_map_add_mset [OF inv r1(2)] by simp_all
  have "length (table hb1) = table_size hb1"
    using r1(1,3) D(1,3) by (auto simp: hm_inv_def tbl_inv_def)
  moreover have "hm_map hb1 k = None" using m(2) by simp
  ultimately have "hashmap_base_iter_get_key hb1 (Some r) \<noteq> Some k"
    using e(2) r1(3) D(1) by (auto simp: hashmap_base_iter_get_key_def hm_map_None)
  moreover have "\<forall>j<r. j < length (table hb1) \<longrightarrow> table hb1 ! j = None"
    using entry_remove_prefix [OF inv _ e(1) rem free] e(2) D(1) by simp
  ultimately show thesis
    using that [OF e(1), of hb1] e find rem r1 m(1) by (simp add: hashmap_remove_def hashmap_base_remove_def)
qed

lemma foreach_safe_removing:
  assumes "hm_inv (table_of s)" "hb_size (table_of s) < n" "I s"
    "\<forall>j<i. j < length (table (table_of s)) \<longrightarrow> table (table_of s) ! j = None"
    "\<And>k v s s'. I s \<Longrightarrow> hm_inv (table_of s) \<Longrightarrow> hm_map (table_of s) k = Some v \<Longrightarrow> body k v s = Inr s' \<Longrightarrow>
      I s' \<and> table_of s' = snd (hashmap_remove (table_of s) k)"
  shows "\<exists>es. mset es = mset (hm_entries (table_of s)) \<and>
    hashmap_foreach_safe n table_of body (next_populated (table (table_of s)) i) s = fold_run body es s"
  using assms(1-4)
proof (induction n arbitrary: i s)
  case (Suc n)
  note inv = Suc.prems(1)
  show ?case
  proof (cases "next_populated (table (table_of s)) i")
    case None
    then have "slots (table (table_of s)) = []" using iter_none_empty [OF inv] Suc.prems(4) by blast
    then show ?thesis
      using None by (intro exI [of _ "[]"]) (simp add: hashmap_base_iter_get_key_def hm_entries_def)
  next
    case (Some r)
    obtain k v hb1 where r: "table (table_of s) ! r = Some (k, v)" "hm_map (table_of s) k = Some v"
      "hashmap_remove (table_of s) k = (Some v, hb1)" "hm_inv hb1"
      "mset (hm_entries (table_of s)) = add_mset (k, v) (mset (hm_entries hb1))"
      "hashmap_base_iter_get_key hb1 (Some r) \<noteq> Some k"
      "\<forall>j<r. j < length (table hb1) \<longrightarrow> table hb1 ! j = None"
      by (rule remove_first_entry [OF inv Some Suc.prems(4)])
    show ?thesis
    proof (cases "body k v s")
      case (Inl e)
      then show ?thesis
        using Some r by (intro exI [of _ "(k, v) # hm_entries hb1"])
          (simp add: hashmap_base_iter_get_key_def hashmap_base_iter_get_data_def)
    next
      case (Inr s1)
      then have s1: "I s1" "table_of s1 = hb1" using assms(5) [OF Suc.prems(3) inv r(2)] r(3) by simp_all
      have "hb_size hb1 < n"
        using Suc.prems(2) hm_inv_size [OF inv] hm_inv_size [OF r(4)] arg_cong [OF r(5), of size] by simp
      then obtain es where es: "mset es = mset (hm_entries hb1)"
        "hashmap_foreach_safe n table_of body (next_populated (table hb1) r) s1 = fold_run body es s1"
        using Suc.IH [of s1 r] s1 r(4,7) by auto
      have "hashmap_foreach_safe (Suc n) table_of body (Some r) s = fold_run body ((k, v) # es) s"
        using r(1,6) Inr s1 es(2) get_populated [OF r(4)]
        by (simp add: hashmap_base_iter_get_key_def hashmap_base_iter_get_data_def hashmap_base_iter_def Let_def)
      then show ?thesis using es(1) r(5) Some by (intro exI [of _ "(k, v) # es"]) simp
    qed
  qed
qed simp

lemma foreach_all_removing:
  assumes "hm_inv (table_of s)" "I s"
    "\<And>k v s s'. I s \<Longrightarrow> hm_inv (table_of s) \<Longrightarrow> hm_map (table_of s) k = Some v \<Longrightarrow> body k v s = Inr s' \<Longrightarrow>
      I s' \<and> table_of s' = snd (hashmap_remove (table_of s) k)"
  obtains es where "mset es = mset (hm_entries (table_of s))" "hashmap_foreach_all table_of body s = fold_run body es s"
proof -
  have "\<exists>es. mset es = mset (hm_entries (table_of s)) \<and>
    hashmap_foreach_safe (foreach_fuel (table_of s)) table_of body (next_populated (table (table_of s)) 0) s = fold_run body es s"
    by (rule foreach_safe_removing [where I = I, OF assms(1) _ assms(2) _ assms(3)]) (simp_all add: foreach_fuel_def)
  moreover have "hashmap_foreach_all table_of body s =
      hashmap_foreach_safe (foreach_fuel (table_of s)) table_of body (next_populated (table (table_of s)) 0) s"
    by (simp add: hashmap_foreach_all_def hashmap_iter_def hashmap_base_iter_def get_populated [OF assms(1)])
  ultimately show thesis using that by metis
qed

section \<open>Writing through a data pointer\<close>

lemma hashmap_poke_map:
  assumes inv: "hm_inv hb" and hit: "hashmap_get hb k = Some w"
  shows "hm_inv (hashmap_poke hb k v)" "hashmap_get (hashmap_poke hb k v) = (hashmap_get hb)(k \<mapsto> v)"
    "hb_size (hashmap_poke hb k v) = hb_size hb"
proof -
  obtain j where j: "j < table_size hb" "table hb ! j = Some (k, w)" "hashmap_entry_find hb k False = Some j"
    using find_hit [OF inv] hit by (metis hashmap_get_map [OF inv])
  then have p: "hashmap_poke hb k v = hb\<lparr>table := (table hb)[j := Some (k, v)]\<rparr>"
    by (simp add: hashmap_poke_def)
  note O = hm_inv_overwrite [OF inv j(1,2), of v]
  show "hm_inv (hashmap_poke hb k v)" "hb_size (hashmap_poke hb k v) = hb_size hb"
    using O by (simp_all add: p)
  show "hashmap_get (hashmap_poke hb k v) = (hashmap_get hb)(k \<mapsto> v)"
    using O hashmap_get_map [OF inv] by (simp add: p hashmap_get_map)
qed

end
