(* ===== verification/Store.thy ===== *)
theory Store
  imports Hashmap_Loops Origins Rpc_Values Alloc
begin

text \<open>
  The memory that \<open>rpc_struct.c\<close> and \<open>ptracker.c\<close> share: the objects allocated one by one (structs,
  sized buffers, function descriptions, strings, tracker records, argument types of functions, closures) by address, the table of the tracker and
  the random bytes still to come. Blocks with one owner that is never shared are part of the owner: the
  buffer of a sized buffer, the elements of a struct, the origin tables of a tracker record. One thread
  runs; taking a lock only requires that the object is still there.
\<close>

section \<open>State\<close>

text \<open>\<open>struct _rpc_struct\<close>, the context of a tracked pointer, and \<open>struct _prec\<close>. Every record is created
  with the callbacks of \<open>rpc_struct.c\<close>, which are arguments of the tracker's operations; the count stays
  below the bound of an \<open>int\<close> because each unit is an entry of some table.\<close>

record rstruct =
  rs_map :: "(string, rpc_type_t) hashmap_base"
  rs_ID :: string
  rs_copyof :: addr
  rs_destructor :: addr

record prec_ptr_ctx =
  pc_keys :: "(string, prec_ctx) hashmap_base"
  pc_free :: "freefn option"

record prec =
  pr_ptr :: addr
  pr_context :: "prec_ptr_ctx option"
  pr_refcount :: int

text \<open>The types of libffi that the code names.\<close>

datatype ffi_type = ffi_type_void | ffi_type_uint64 | ffi_type_double | ffi_type_pointer

text \<open>The data of a closure that stands for a function of a server (\<open>rpc_client.c\<close>): the client, by its
  number; the name and the description of the function, the object it belongs to, the address at which the
  closure can be called, and the types of its arguments.\<close>

record rpc_closure_udata =
  cu_client :: nat
  cu_fn_name :: string
  cu_fetched_fn :: addr
  cu_cobj :: addr
  cu_closure :: addr
  cu_ffi_prototype :: "ffi_type list"

datatype obj =
    Struct rstruct
  | Sizedbuf rpc_sizedbuf
  | Function rpc_function
  | Cstring string
  | Prec prec
  | Ffi_Types "ffi_type list"
  | Closure rpc_closure_udata

record store =
  mem :: "addr \<rightharpoonup> obj"
  ptracker :: "(addr, addr) hashmap_base"
  entropy :: "byte list"

text \<open>What the environment provides: memory, manual destructors (a function pointer and its argument),
  the contents of memory that was never written or that is not modelled, and whether \<open>realloc\<close> moves.\<close>

record env =
  e_malloc :: "(addr \<rightharpoonup> obj) \<Rightarrow> addr"
  e_dtor :: "addr \<Rightarrow> addr \<Rightarrow> store \<Rightarrow> store run"
  e_junk :: addr
  e_bytes :: "addr \<Rightarrow> byte list"
  e_realloc_moves :: bool

section \<open>Access\<close>

text \<open>An address where no object of the wanted kind is alive is a stale pointer.\<close>

definition the_struct :: "store \<Rightarrow> addr \<Rightarrow> rstruct run" where
  "the_struct w p =
     (if p = null then Inl Null_Deref
      else case mem w p of Some (Struct rs) \<Rightarrow> Inr rs | _ \<Rightarrow> Inl Use_After_Free)"

definition the_prec :: "store \<Rightarrow> addr \<Rightarrow> prec run" where
  "the_prec w p = (case mem w p of Some (Prec pr) \<Rightarrow> Inr pr | _ \<Rightarrow> Inl Use_After_Free)"

definition the_sizedbuf :: "store \<Rightarrow> addr \<Rightarrow> rpc_sizedbuf run" where
  "the_sizedbuf w p =
     (if p = null then Inl Null_Deref
      else case mem w p of Some (Sizedbuf sb) \<Rightarrow> Inr sb | _ \<Rightarrow> Inl Use_After_Free)"

definition the_function :: "store \<Rightarrow> addr \<Rightarrow> rpc_function run" where
  "the_function w p =
     (if p = null then Inl Null_Deref
      else case mem w p of Some (Function f) \<Rightarrow> Inr f | _ \<Rightarrow> Inl Use_After_Free)"

definition the_cstring :: "store \<Rightarrow> addr \<Rightarrow> string run" where
  "the_cstring w p =
     (if p = null then Inl Null_Deref
      else case mem w p of Some (Cstring s) \<Rightarrow> Inr s | _ \<Rightarrow> Inl Use_After_Free)"

definition put_obj :: "addr \<Rightarrow> obj \<Rightarrow> store \<Rightarrow> store" where
  "put_obj p x w = w\<lparr>mem := (mem w)(p \<mapsto> x)\<rparr>"

definition new_obj :: "env \<Rightarrow> obj \<Rightarrow> store \<Rightarrow> (addr \<times> store) run" where
  "new_obj E x w =
     andthen (check (e_malloc E (mem w) \<noteq> null)) (\<lambda>_.
       Inr (e_malloc E (mem w), put_obj (e_malloc E (mem w)) x w))"

definition free_obj :: "addr \<Rightarrow> store \<Rightarrow> store run" where
  "free_obj p w =
     (if p = null then Inr w
      else if mem w p = None then Inl Use_After_Free else Inr (w\<lparr>mem := (mem w)(p := None)\<rparr>))"

text \<open>Tables with string keys, as the code sets them up: keys are duplicated and released.\<close>

definition string_map :: "(string, 'v) hashmap_base" where
  "string_map = (hashmap_base_init hashmap_hash_string strcmp)\<lparr>key_dup := Some Some, key_free := True\<rparr>"

definition pointer_map :: "(addr, 'v) hashmap_base" where
  "pointer_map = hashmap_base_init ptracker_hash_ptr ptracker_ptr_cmp"

text \<open>The table of a struct and the keys of a tracker record, for the loops over them. The bodies of
  these loops fail when the object is gone.\<close>

definition struct_map :: "addr \<Rightarrow> store \<Rightarrow> (string, rpc_type_t) hashmap_base" where
  "struct_map s w = (case mem w s of Some (Struct rs) \<Rightarrow> rs_map rs | _ \<Rightarrow> string_map)"

definition prec_keys :: "addr \<Rightarrow> store \<Rightarrow> (string, prec_ctx) hashmap_base" where
  "prec_keys q w =
     (case mem w q of
        Some (Prec p) \<Rightarrow> (case pr_context p of Some c \<Rightarrow> pc_keys c | None \<Rightarrow> string_map)
      | _ \<Rightarrow> string_map)"

section \<open>Lemmas\<close>

named_theorems store_simps \<open>reading back what was written\<close>

lemma mem_put_obj [simp, store_simps]:
  "mem (put_obj p x w) = (mem w)(p \<mapsto> x)" "ptracker (put_obj p x w) = ptracker w" "entropy (put_obj p x w) = entropy w"
  by (simp_all add: put_obj_def)

lemma put_put [simp]: "put_obj p y (put_obj p x w) = put_obj p y w"
  by (simp add: put_obj_def)

lemma the_struct_eq: "the_struct w p = Inr rs \<longleftrightarrow> p \<noteq> null \<and> mem w p = Some (Struct rs)"
  by (auto simp: the_struct_def split: option.splits obj.splits)

lemma the_prec_eq: "the_prec w p = Inr pr \<longleftrightarrow> mem w p = Some (Prec pr)"
  by (auto simp: the_prec_def split: option.splits obj.splits)

lemma the_sizedbuf_eq: "the_sizedbuf w p = Inr sb \<longleftrightarrow> p \<noteq> null \<and> mem w p = Some (Sizedbuf sb)"
  by (auto simp: the_sizedbuf_def split: option.splits obj.splits)

lemma the_function_eq: "the_function w p = Inr f \<longleftrightarrow> p \<noteq> null \<and> mem w p = Some (Function f)"
  by (auto simp: the_function_def split: option.splits obj.splits)

lemma the_cstring_eq: "the_cstring w p = Inr s \<longleftrightarrow> p \<noteq> null \<and> mem w p = Some (Cstring s)"
  by (auto simp: the_cstring_def split: option.splits obj.splits)

lemma string_map_ok: "hm_inv (string_map :: (string, 'v) hashmap_base)"
  "hashmap_get (string_map :: (string, 'v) hashmap_base) = Map.empty"
  "hb_size (string_map :: (string, 'v) hashmap_base) = 0"
proof -
  let ?t = "hashmap_base_init hashmap_hash_string strcmp :: (string, 'v) hashmap_base"
  have i: "hm_inv ?t" "hm_map ?t = Map.empty" using hashmap_init_inv [of strcmp hashmap_hash_string] by simp_all
  obtain t where "hashmap_base_set_key_alloc_funcs ?t (Some Some) True = Inr t" "hm_inv t" "hm_map t = hm_map ?t"
    by (rule set_key_alloc_funcs_inv [OF i(1), of "Some Some" True]) (auto simp: hashmap_base_init_def)
  moreover from this(1) have "t = string_map"
    by (simp add: hashmap_base_set_key_alloc_funcs_def string_map_def andthen_eq_Inr)
  ultimately show "hm_inv (string_map :: (string, 'v) hashmap_base)"
    "hashmap_get (string_map :: (string, 'v) hashmap_base) = Map.empty"
    "hb_size (string_map :: (string, 'v) hashmap_base) = 0"
    using i(2) by (simp_all add: hashmap_get_map) (simp add: string_map_def hashmap_base_init_def)
qed

lemma pointer_map_ok: "hm_inv (pointer_map :: (addr, 'v) hashmap_base)"
  "hashmap_get (pointer_map :: (addr, 'v) hashmap_base) = Map.empty"
  "hb_size (pointer_map :: (addr, 'v) hashmap_base) = 0"
proof -
  have i: "hm_inv (pointer_map :: (addr, 'v) hashmap_base)" "hm_map (pointer_map :: (addr, 'v) hashmap_base) = Map.empty"
    using hashmap_init_inv [of ptracker_ptr_cmp ptracker_hash_ptr] by (simp_all add: pointer_map_def)
  then show "hm_inv (pointer_map :: (addr, 'v) hashmap_base)"
    "hashmap_get (pointer_map :: (addr, 'v) hashmap_base) = Map.empty" by (simp_all add: hashmap_get_map)
  show "hb_size (pointer_map :: (addr, 'v) hashmap_base) = 0" by (simp add: pointer_map_def hashmap_base_init_def)
qed

end
