(* ===== verification/Ptracker.thy ===== *)
theory Ptracker
  imports Store
begin

text \<open>
  The pointer tracker of \<open>ptracker.c\<close>: a table from pointers to records that count references, with
  callbacks on every change of the count. A \<open>prec_t\<close> is the address of a record, NULL for none. The
  callbacks are an argument, which may be of any type of user data. The table is set up by the first call;
  one that was never set up and an empty one are not told apart.
\<close>

section \<open>Operations\<close>

record 'u prec_callbacks =
  cb_increment :: "(addr \<Rightarrow> 'u \<Rightarrow> store \<Rightarrow> store run) option"
  cb_decrement :: "(addr \<Rightarrow> 'u \<Rightarrow> store \<Rightarrow> store run) option"
  cb_zero :: "(addr \<Rightarrow> store \<Rightarrow> store run) option"

definition ptracker_init :: "(addr, addr) hashmap_base" where
  "ptracker_init = hashmap_base_init ptracker_hash_ptr ptracker_ptr_cmp"

definition prec_get :: "store \<Rightarrow> addr \<Rightarrow> addr" where
  "prec_get w ptr =
     (case hashmap_base_get (ptracker w) (if ptr = null then None else Some ptr) of
        None \<Rightarrow> null
      | Some q \<Rightarrow> q)"

text \<open>The insertion is inside an \<open>assert\<close>; a NULL pointer makes it return \<open>-EINVAL\<close>.\<close>

definition prec_new :: "env \<Rightarrow> addr \<Rightarrow> store \<Rightarrow> (addr \<times> store) run" where
  "prec_new E ptr w =
     (if prec_get w ptr \<noteq> null then Inr (prec_get w ptr, w)
      else andthen (new_obj E (Prec \<lparr>pr_ptr = ptr, pr_context = None, pr_refcount = 0\<rparr>) w) (\<lambda>(q, w1).
        if ptr = null then Inl Assert_Failed
        else andthen (hashmap_insert (ptracker w1) ptr q) (\<lambda>(r, t).
             andthen (check (r = 1)) (\<lambda>_. Inr (q, w1\<lparr>ptracker := t\<rparr>)))))"

definition prec_delete :: "'u prec_callbacks \<Rightarrow> addr \<Rightarrow> store \<Rightarrow> store run" where
  "prec_delete cbs prec w =
     (if prec = null then Inr w
      else andthen (the_prec w prec) (\<lambda>p.
        let w1 = w\<lparr>ptracker := snd (hashmap_remove (ptracker w) (pr_ptr p))\<rparr> in
        andthen (case cb_zero cbs of None \<Rightarrow> Inr w1 | Some zero \<Rightarrow> zero prec w1) (free_obj prec)))"

definition prec_increment :: "'u prec_callbacks \<Rightarrow> addr \<Rightarrow> 'u \<Rightarrow> store \<Rightarrow> store run" where
  "prec_increment cbs prec udata w =
     (if prec = null then Inr w
      else andthen (the_prec w prec) (\<lambda>p.
        let w1 = put_obj prec (Prec (p\<lparr>pr_refcount := pr_refcount p + 1\<rparr>)) w in
        (case cb_increment cbs of None \<Rightarrow> Inr w1 | Some increment \<Rightarrow> increment prec udata w1)))"

definition prec_decrement :: "'u prec_callbacks \<Rightarrow> addr \<Rightarrow> 'u \<Rightarrow> store \<Rightarrow> store run" where
  "prec_decrement cbs prec udata w =
     (if prec = null then Inr w
      else andthen (the_prec w prec) (\<lambda>p.
        andthen
          (if pr_refcount p > 0
           then let w1 = put_obj prec (Prec (p\<lparr>pr_refcount := pr_refcount p - 1\<rparr>)) w in
                (case cb_decrement cbs of None \<Rightarrow> Inr w1 | Some decrement \<Rightarrow> decrement prec udata w1)
           else Inr w) (\<lambda>w2.
        andthen (the_prec w2 prec) (\<lambda>p2.
          if pr_refcount p2 = 0 then prec_delete cbs prec w2 else Inr w2))))"

definition prec_refcount :: "store \<Rightarrow> addr \<Rightarrow> int run" where
  "prec_refcount w prec = (if prec \<noteq> null then andthen (the_prec w prec) (\<lambda>p. Inr (pr_refcount p)) else Inr 0)"

definition prec_context_get :: "store \<Rightarrow> addr \<Rightarrow> prec_ptr_ctx option run" where
  "prec_context_get w prec =
     (if prec \<noteq> null then andthen (the_prec w prec) (\<lambda>p. Inr (pr_context p)) else Inr None)"

definition prec_context_set :: "addr \<Rightarrow> prec_ptr_ctx option \<Rightarrow> store \<Rightarrow> store run" where
  "prec_context_set prec context w =
     (if prec \<noteq> null then andthen (the_prec w prec) (\<lambda>p. Inr (put_obj prec (Prec (p\<lparr>pr_context := context\<rparr>)) w))
      else Inl Assert_Failed)"

definition prec_ptr :: "store \<Rightarrow> addr \<Rightarrow> addr run" where
  "prec_ptr w prec = (if prec \<noteq> null then andthen (the_prec w prec) (\<lambda>p. Inr (pr_ptr p)) else Inr null)"

section \<open>Well-formed trackers\<close>

text \<open>Every tracked pointer has a record of its own, at a live address, that names it.\<close>

definition tracker_ok :: "store \<Rightarrow> bool" where
  "tracker_ok w \<longleftrightarrow>
     hm_inv (ptracker w) \<and> finite (dom (mem w)) \<and> hashmap_get (ptracker w) null = None \<and>
     (\<forall>ptr q. hashmap_get (ptracker w) ptr = Some q \<longrightarrow>
        q \<noteq> null \<and> (\<exists>p. mem w q = Some (Prec p) \<and> pr_ptr p = ptr))"

lemma tracker_okD:
  assumes "tracker_ok w"
  shows "hm_inv (ptracker w)" "finite (dom (mem w))" "hashmap_get (ptracker w) null = None"
    "hashmap_get (ptracker w) ptr = Some q \<Longrightarrow> q \<noteq> null \<and> (\<exists>p. mem w q = Some (Prec p) \<and> pr_ptr p = ptr)"
  using assms unfolding tracker_ok_def by blast+

lemma prec_get_eq:
  assumes "tracker_ok w"
  shows "prec_get w ptr = (case hashmap_get (ptracker w) ptr of None \<Rightarrow> null | Some q \<Rightarrow> q)"
  using tracker_okD(3) [OF assms] by (simp add: prec_get_def hashmap_get_def hashmap_base_get_def)

lemma prec_get_null [simp]: "prec_get w null = null"
  by (simp add: prec_get_def hashmap_base_get_def)

lemma prec_get_tracked:
  assumes "tracker_ok w" "prec_get w ptr = q" "q \<noteq> null"
  obtains p where "hashmap_get (ptracker w) ptr = Some q" "mem w q = Some (Prec p)" "pr_ptr p = ptr"
proof -
  have "hashmap_get (ptracker w) ptr = Some q"
    using assms by (auto simp: prec_get_eq split: option.splits)
  then show thesis using that tracker_okD(4) [OF assms(1)] by blast
qed

lemma prec_get_untracked:
  assumes "tracker_ok w" shows "prec_get w ptr = null \<longleftrightarrow> hashmap_get (ptracker w) ptr = None"
  using tracker_okD(4) [OF assms, of ptr] by (auto simp: prec_get_eq [OF assms] split: option.splits)

text \<open>Only operations of the tracker write to records; everything else keeps it well-formed.\<close>

definition same_precs :: "store \<Rightarrow> store \<Rightarrow> bool" where
  "same_precs w w' \<longleftrightarrow> (\<forall>q p. mem w q = Some (Prec p) \<longrightarrow> mem w' q = Some (Prec p))"

lemma tracker_ok_cong:
  assumes "tracker_ok w" "ptracker w' = ptracker w" "finite (dom (mem w'))" "same_precs w w'"
  shows "tracker_ok w'"
  using assms unfolding tracker_ok_def same_precs_def by (metis (no_types, lifting))

lemma tracker_ok_put:
  assumes "tracker_ok w" "mem w s = None \<or> mem w s = Some x" "\<And>p. x \<noteq> Prec p"
  shows "tracker_ok (put_obj s y w)"
proof (rule tracker_ok_cong [OF assms(1)])
  show "same_precs w (put_obj s y w)" using assms(2,3) by (auto simp: same_precs_def)
qed (use tracker_okD(2) [OF assms(1)] in simp_all)

lemma tracker_ok_prec:
  assumes "tracker_ok w" "mem w q = Some (Prec p)" "pr_ptr p' = pr_ptr p"
  shows "tracker_ok (put_obj q (Prec p') w)"
proof -
  have "pr_ptr p' = ptr" if "hashmap_get (ptracker w) ptr = Some q" for ptr
    using tracker_okD(4) [OF assms(1) that] assms(2,3) by auto
  then show ?thesis using assms(1) unfolding tracker_ok_def by auto
qed

lemma prec_new_tracks:
  assumes ok: "tracker_ok w" and E: "allocator (e_malloc E)" "card (dom (mem w)) < 2 ^ 63"
    and room: "hb_size (ptracker w) \<le> table_limit" and ptr: "ptr \<noteq> null" "prec_get w ptr = null"
  obtains q t where "prec_new E ptr w =
      Inr (q, (put_obj q (Prec \<lparr>pr_ptr = ptr, pr_context = None, pr_refcount = 0\<rparr>) w)\<lparr>ptracker := t\<rparr>)"
    "q \<noteq> null" "mem w q = None" "hm_inv t" "hashmap_get t = (hashmap_get (ptracker w))(ptr \<mapsto> q)"
    "hb_size t = Suc (hb_size (ptracker w))"
    "tracker_ok ((put_obj q (Prec \<lparr>pr_ptr = ptr, pr_context = None, pr_refcount = 0\<rparr>) w)\<lparr>ptracker := t\<rparr>)"
proof -
  let ?q = "e_malloc E (mem w)" and ?p = "Prec \<lparr>pr_ptr = ptr, pr_context = None, pr_refcount = 0\<rparr>"
  have q: "?q \<noteq> null" "mem w ?q = None"
    using allocator.malloc_fresh [OF E(1)] tracker_okD(2) [OF ok] E(2) by blast+
  have none: "hashmap_get (ptracker w) ptr = None" using ptr(2) prec_get_untracked [OF ok] by simp
  obtain t where t: "hashmap_insert (ptracker w) ptr ?q = Inr (1, t)" "hm_inv t"
    "hashmap_get t = (hashmap_get (ptracker w))(ptr \<mapsto> ?q)"
    using hm.upsert [OF tracker_okD(1) [OF ok] room, of ptr ?q] none by auto
  have size: "hb_size t = Suc (hb_size (ptracker w))"
    using hm.count [OF t(2)] hm.count [OF tracker_okD(1) [OF ok]] hm.finite_dom [OF tracker_okD(1) [OF ok]]
      t(3) none by (simp add: domIff)
  let ?w = "(put_obj ?q ?p w)\<lparr>ptracker := t\<rparr>"
  have "tracker_ok ?w"
    unfolding tracker_ok_def
  proof (intro conjI allI impI)
    show "hm_inv (ptracker ?w)" "finite (dom (mem ?w))" using t(2) tracker_okD(2) [OF ok] by simp_all
    show "hashmap_get (ptracker ?w) null = None" using t(3) ptr(1) tracker_okD(3) [OF ok] by simp
    fix a q' assume a: "hashmap_get (ptracker ?w) a = Some q'"
    show "q' \<noteq> null" "\<exists>p. mem ?w q' = Some (Prec p) \<and> pr_ptr p = a"
      using a t(3) q tracker_okD(4) [OF ok, of a q'] by (auto split: if_splits)
  qed
  moreover have "prec_new E ptr w = Inr (?q, ?w)"
    using ptr q(1) t(1) by (simp add: prec_new_def new_obj_def)
  ultimately show thesis using that q t size by blast
qed

end
