(* ===== verification/Rpc_Struct.thy ===== *)
theory Rpc_Struct
  imports Ptracker
begin

text \<open>
  The struct of \<open>rpc_struct.c\<close>: creation, its ID, elements by key, and the callbacks through which the
  tracker counts and releases the objects that structs hold. The callbacks, the removal of an element and
  the release of an object call each other: they take the callbacks in force as an argument, and
  \<open>rpc_struct_default_prec_cbs\<close> ties the knot for releases nested at most \<open>n\<close> deep.
\<close>

section \<open>Creation and the ID\<close>

definition RPC_STRUCT_ID_SIZE :: nat where "RPC_STRUCT_ID_SIZE = 65"

definition ID_alphabet :: string where "ID_alphabet = ''abcdefghijklmnopqrstuvwxyz0123456789''"

text \<open>A zero byte is drawn again until it is not zero. The random bytes may run out.\<close>

fun redraw :: "byte \<Rightarrow> byte list \<Rightarrow> (byte \<times> byte list) run" where
  "redraw b [] = (if b \<noteq> 0 then Inr (b, []) else Inl No_Fuel)"
| "redraw b (c # rnd) = (if b \<noteq> 0 then Inr (b, c # rnd) else redraw c rnd)"

text \<open>The character is sign-extended to \<open>size_t\<close> before the remainder is taken.\<close>

definition ID_char :: "byte \<Rightarrow> char" where
  "ID_char b = ID_alphabet ! unat ((scast b :: size_t) mod 36)"

fun make_ID :: "byte list \<Rightarrow> byte list \<Rightarrow> (string \<times> byte list) run" where
  "make_ID [] rnd = Inr ([], rnd)"
| "make_ID (b # bs) rnd =
     andthen (redraw b rnd) (\<lambda>(b', rnd').
     andthen (make_ID bs rnd') (\<lambda>(cs, rnd''). Inr (ID_char b' # cs, rnd'')))"

definition rpc_struct_create :: "env \<Rightarrow> store \<Rightarrow> (addr \<times> store) run" where
  "rpc_struct_create E w =
     (let len = RPC_STRUCT_ID_SIZE - 1 in
      if length (entropy w) < len then Inl No_Fuel
      else andthen (make_ID (take len (entropy w)) (drop len (entropy w))) (\<lambda>(ID, rnd).
        new_obj E (Struct \<lparr>rs_map = string_map, rs_ID = ID @ [CHR 0x00], rs_copyof = null, rs_destructor = null\<rparr>)
          (w\<lparr>entropy := rnd\<rparr>)))"

definition rpc_struct_add_destructor :: "addr \<Rightarrow> addr \<Rightarrow> store \<Rightarrow> store run" where
  "rpc_struct_add_destructor s manual_destructor w =
     (if s = null then Inr w
      else andthen (the_struct w s) (\<lambda>rs. Inr (put_obj s (Struct (rs\<lparr>rs_destructor := manual_destructor\<rparr>)) w)))"

text \<open>The string at an array of characters ends at its first NUL.\<close>

definition c_string :: "string \<Rightarrow> string run" where
  "c_string cs = (if CHR 0x00 \<in> set cs then Inr (takeWhile (\<lambda>c. c \<noteq> CHR 0x00) cs) else Inl Out_Of_Bounds)"

definition rpc_struct_id_get :: "addr \<Rightarrow> store \<Rightarrow> string run" where
  "rpc_struct_id_get s w = andthen (the_struct w s) (\<lambda>rs. c_string (rs_ID rs))"

text \<open>The terminating NUL is not copied; a longer ID runs over the end of the array.\<close>

definition rpc_struct_id_set :: "addr \<Rightarrow> string \<Rightarrow> store \<Rightarrow> store run" where
  "rpc_struct_id_set s ID w =
     andthen (the_struct w s) (\<lambda>rs.
       if length ID > length (rs_ID rs) then Inl Out_Of_Bounds
       else Inr (put_obj s (Struct (rs\<lparr>rs_ID := ID @ drop (length ID) (rs_ID rs)\<rparr>)) w))"

section \<open>Callbacks on changes of a count\<close>

record prec_rpc_udata =
  ud_origin :: addr
  ud_name :: "string option"
  ud_free :: "freefn option"

type_synonym rpc_callbacks = "prec_rpc_udata option prec_callbacks"

definition prec_ptr_ctx_create_or_get :: "addr \<Rightarrow> prec_rpc_udata \<Rightarrow> store \<Rightarrow> (prec_ptr_ctx \<times> store) run" where
  "prec_ptr_ctx_create_or_get prec udat w =
     andthen (prec_context_get w prec) (\<lambda>ctx.
       case ctx of
         Some ptr_ctx \<Rightarrow> Inr (ptr_ctx, w)
       | None \<Rightarrow>
           let ptr_ctx = \<lparr>pc_keys = string_map, pc_free = ud_free udat\<rparr> in
           andthen (prec_context_set prec (Some ptr_ctx) w) (\<lambda>w1. Inr (ptr_ctx, w1)))"

text \<open>Finding the origins of a name, with a new table of origins for a new name. The result of
  \<open>hashmap_put\<close> is not looked at.\<close>

definition origins_of_name ::
    "env \<Rightarrow> (string, prec_ctx) hashmap_base \<Rightarrow> string \<Rightarrow> (prec_ctx \<times> (string, prec_ctx) hashmap_base) run" where
  "origins_of_name E keys name =
     (case hashmap_get keys name of
        Some ctx \<Rightarrow> Inr (ctx, keys)
      | None \<Rightarrow>
          andthen (hashmap_put keys name (ctx_create (e_junk E))) (\<lambda>(r, keys1). Inr (ctx_create (e_junk E), keys1)))"

definition rpc_struct_increment_cb :: "env \<Rightarrow> addr \<Rightarrow> prec_rpc_udata option \<Rightarrow> store \<Rightarrow> store run" where
  "rpc_struct_increment_cb E prec udata w =
     (case udata of
        None \<Rightarrow> Inr w
      | Some udat \<Rightarrow>
          andthen (prec_ptr_ctx_create_or_get prec udat w) (\<lambda>(ptr_ctx, w1).
            case ud_name udat of
              None \<Rightarrow> Inr w1
            | Some name \<Rightarrow>
                if ud_origin udat = null then Inr w1
                else andthen (the_struct w1 (ud_origin udat)) (\<lambda>_.
                  andthen (origins_of_name E (pc_keys ptr_ctx) name) (\<lambda>(ctx, keys).
                  andthen (ctx_add (e_junk E) ctx (ud_origin udat)) (\<lambda>ctx1.
                    prec_context_set prec (Some (ptr_ctx\<lparr>pc_keys := hashmap_poke keys name ctx1\<rparr>)) w1)))))"

definition rpc_struct_decrement_cb :: "addr \<Rightarrow> prec_rpc_udata option \<Rightarrow> store \<Rightarrow> store run" where
  "rpc_struct_decrement_cb prec udata w =
     (case udata of
        None \<Rightarrow> Inr w
      | Some udat \<Rightarrow>
          andthen (prec_context_get w prec) (\<lambda>c.
            case c of
              None \<Rightarrow> Inr w
            | Some ptr_ctx \<Rightarrow>
                (case ud_name udat of
                   None \<Rightarrow> Inr w
                 | Some name \<Rightarrow>
                     (case hashmap_get (pc_keys ptr_ctx) name of
                        None \<Rightarrow> Inr w
                      | Some ctx \<Rightarrow>
                          andthen (ctx_remove ctx (ud_origin udat)) (\<lambda>ctx1.
                            prec_context_set prec (Some (ptr_ctx\<lparr>pc_keys :=
                              (if o_index ctx1 = 0 then snd (hashmap_remove (pc_keys ptr_ctx) name)
                               else hashmap_poke (pc_keys ptr_ctx) name ctx1)\<rparr>)) w)))))"

section \<open>Removing and releasing\<close>

text \<open>The element's block belongs to its slot: a slot that a nested removal has emptied means that the
  block was released before.\<close>

definition rpc_struct_remove :: "rpc_callbacks \<Rightarrow> addr \<Rightarrow> string option \<Rightarrow> store \<Rightarrow> (int \<times> store) run" where
  "rpc_struct_remove cbs s key w =
     (case key of
        None \<Rightarrow> Inr (1, w)
      | Some k \<Rightarrow>
          if s = null then Inr (1, w)
          else andthen (the_struct w s) (\<lambda>rs.
            case hashmap_get (rs_map rs) k of
              None \<Rightarrow> Inr (1, w)
            | Some element \<Rightarrow>
                andthen
                  (if counted_type (rt_type element)
                   then prec_decrement cbs (prec_get w (ptr_value element))
                          (Some \<lparr>ud_origin = s, ud_name = Some k, ud_free = None\<rparr>) w
                   else if rt_type element = RPC_string then free_obj (ptr_value element) w
                   else Inr w) (\<lambda>w1.
                andthen (the_struct w1 s) (\<lambda>rs1.
                  case hashmap_remove (rs_map rs1) k of
                    (None, m) \<Rightarrow> Inl Use_After_Free
                  | (Some d, m) \<Rightarrow> Inr (0, put_obj s (Struct (rs1\<lparr>rs_map := m\<rparr>)) w1)))))"

text \<open>The loop over the origins of one key, \<open>os\<close> being those not seen yet. Each struct is locked
  before, and unlocked after the removal.\<close>

fun remove_from_origins :: "rpc_callbacks \<Rightarrow> string \<Rightarrow> addr list \<Rightarrow> store \<Rightarrow> store run" where
  "remove_from_origins cbs key [] w = Inr w"
| "remove_from_origins cbs key (s # os) w =
     (if s = null then remove_from_origins cbs key os w
      else andthen (the_struct w s) (\<lambda>_.
        andthen (rpc_struct_remove cbs s (Some key) w) (\<lambda>(r, w1).
        andthen (the_struct w1 s) (\<lambda>_. remove_from_origins cbs key os w1))))"

definition onzero_body :: "rpc_callbacks \<Rightarrow> string \<Rightarrow> prec_ctx \<Rightarrow> store \<Rightarrow> store run" where
  "onzero_body cbs key ctx w =
     (if o_index ctx > length (origins ctx) then Inl Out_Of_Bounds
      else remove_from_origins cbs key (take (o_index ctx) (origins ctx)) w)"

definition rpc_struct_free_internals :: "env \<Rightarrow> rpc_callbacks \<Rightarrow> addr \<Rightarrow> store \<Rightarrow> store run" where
  "rpc_struct_free_internals E cbs s w =
     (if s = null then Inr w
      else andthen (the_struct w s) (\<lambda>rs.
        andthen (if rs_destructor rs \<noteq> null then e_dtor E (rs_destructor rs) s w else Inr w) (\<lambda>w1.
        andthen (the_struct w1 s) (\<lambda>_.
        andthen (hashmap_foreach_key_safe (struct_map s)
            (\<lambda>key w. andthen (rpc_struct_remove cbs s (Some key) w) (\<lambda>(r, w'). Inr w')) w1) (\<lambda>w2.
        andthen (the_struct w2 s) (\<lambda>rs2.
          Inr (put_obj s (Struct (rs2\<lparr>rs_map := snd (hashmap_base_cleanup (rs_map rs2))\<rparr>)) w2)))))))"

definition rpc_struct_free_internal :: "env \<Rightarrow> rpc_callbacks \<Rightarrow> addr \<Rightarrow> store \<Rightarrow> store run" where
  "rpc_struct_free_internal E cbs s w = andthen (rpc_struct_free_internals E cbs s w) (free_obj s)"

definition rpc_struct_free :: "env \<Rightarrow> rpc_callbacks \<Rightarrow> addr \<Rightarrow> store \<Rightarrow> store run" where
  "rpc_struct_free E cbs s w =
     (if s = null then Inr w
      else if prec_get w s \<noteq> null then prec_delete cbs (prec_get w s) w
      else rpc_struct_free_internal E cbs s w)"

definition rpc_sizedbuf_free :: "rpc_callbacks \<Rightarrow> addr \<Rightarrow> store \<Rightarrow> store run" where
  "rpc_sizedbuf_free cbs szbuf w =
     (if szbuf = null then Inr w
      else if prec_get w szbuf \<noteq> null then prec_delete cbs (prec_get w szbuf) w
      else andthen (the_sizedbuf w szbuf) (\<lambda>_. free_obj szbuf w))"

definition rpc_function_free :: "rpc_callbacks \<Rightarrow> addr \<Rightarrow> store \<Rightarrow> store run" where
  "rpc_function_free cbs fn w =
     (if fn = null then Inr w
      else if prec_get w fn \<noteq> null then prec_delete cbs (prec_get w fn) w
      else andthen (the_function w fn) (\<lambda>_. free_obj fn w))"

text \<open>The call of the release function of a tracked pointer.\<close>

fun call_freefn :: "env \<Rightarrow> rpc_callbacks \<Rightarrow> freefn \<Rightarrow> addr \<Rightarrow> store \<Rightarrow> store run" where
  "call_freefn E cbs Free_Struct p = rpc_struct_free_internal E cbs p"
| "call_freefn E cbs Free_Sizedbuf p = rpc_sizedbuf_free cbs p"
| "call_freefn E cbs Free_Function p = rpc_function_free cbs p"

definition rpc_struct_prec_ctx_destroy :: "env \<Rightarrow> rpc_callbacks \<Rightarrow> addr \<Rightarrow> store \<Rightarrow> store run" where
  "rpc_struct_prec_ctx_destroy E cbs prec w =
     andthen (prec_context_get w prec) (\<lambda>c.
       case c of
         None \<Rightarrow> Inr w
       | Some ptr_ctx \<Rightarrow>
           andthen (case pc_free ptr_ctx of
                      None \<Rightarrow> Inr w
                    | Some f \<Rightarrow> andthen (prec_ptr w prec) (\<lambda>p. call_freefn E cbs f p w)) (\<lambda>w1.
           prec_context_set prec None w1))"

definition rpc_struct_onzero_cb :: "env \<Rightarrow> rpc_callbacks \<Rightarrow> addr \<Rightarrow> store \<Rightarrow> store run" where
  "rpc_struct_onzero_cb E cbs prec w =
     andthen (prec_context_get w prec) (\<lambda>c.
     andthen (case c of
                None \<Rightarrow> Inr w
              | Some ptr_ctx \<Rightarrow> hashmap_foreach_all (prec_keys prec) (onzero_body cbs) w)
       (rpc_struct_prec_ctx_destroy E cbs prec))"

primrec rpc_struct_default_prec_cbs :: "env \<Rightarrow> nat \<Rightarrow> rpc_callbacks" where
  "rpc_struct_default_prec_cbs E 0 =
     \<lparr>cb_increment = Some (rpc_struct_increment_cb E), cb_decrement = Some rpc_struct_decrement_cb,
      cb_zero = Some (\<lambda>prec w. Inl No_Fuel)\<rparr>"
| "rpc_struct_default_prec_cbs E (Suc n) =
     \<lparr>cb_increment = Some (rpc_struct_increment_cb E), cb_decrement = Some rpc_struct_decrement_cb,
      cb_zero = Some (rpc_struct_onzero_cb E (rpc_struct_default_prec_cbs E n))\<rparr>"

definition rpc_struct_decrement_refcount :: "rpc_callbacks \<Rightarrow> addr \<Rightarrow> store \<Rightarrow> store run" where
  "rpc_struct_decrement_refcount cbs ptr w = prec_decrement cbs (prec_get w ptr) None w"

end
