(* ===== verification/Rpc_Elements.thy ===== *)
theory Rpc_Elements
  imports Rpc_Struct
begin

text \<open>
  The elements of a struct by key: setting, getting and listing them, the typed macros of
  \<open>rpc_struct.h\<close>, hashing, and copies of whole structs. Element blocks are copied in and out by value.
\<close>

section \<open>Setting\<close>

definition duplicate_string :: "env \<Rightarrow> rpc_type_t \<Rightarrow> store \<Rightarrow> (rpc_type_t \<times> store) run" where
  "duplicate_string E element w =
     (if rt_type element = RPC_string
      then andthen (the_cstring w (ptr_value element)) (\<lambda>str.
           andthen (new_obj E (Cstring str) w) (\<lambda>(p, w1).
             Inr ((set_ptr_value p element)\<lparr>rt_length := length str + 1\<rparr>, w1)))
      else Inr (element, w))"

definition count_element :: "env \<Rightarrow> rpc_callbacks \<Rightarrow> addr \<Rightarrow> string \<Rightarrow> rpc_type_t \<Rightarrow> store \<Rightarrow> store run" where
  "count_element E cbs s key element w =
     (if counted_type (rt_type element)
      then andthen (if prec_get w (ptr_value element) = null then prec_new E (ptr_value element) w
                    else Inr (prec_get w (ptr_value element), w)) (\<lambda>(prec, w1).
           prec_increment cbs prec
             (Some \<lparr>ud_origin = s, ud_name = Some key, ud_free = rpc_freefn_of (rt_type element)\<rparr>) w1)
      else Inr w)"

text \<open>A NULL key is found in no table and ends in a failed assertion.\<close>

definition rpc_struct_set_internal ::
    "env \<Rightarrow> rpc_callbacks \<Rightarrow> addr \<Rightarrow> string option \<Rightarrow> rpc_type_t \<Rightarrow> store \<Rightarrow> (int \<times> store) run" where
  "rpc_struct_set_internal E cbs s key element w =
     (if rpc_is_pointer (rt_type element) \<and> ptr_value element \<noteq> null \<or> \<not> rpc_is_pointer (rt_type element)
      then andthen (the_struct w s) (\<lambda>rs.
        case key of
          None \<Rightarrow> Inl Assert_Failed
        | Some k \<Rightarrow>
            if hashmap_get (rs_map rs) k \<noteq> None then Inr (1, w)
            else andthen (duplicate_string E element w) (\<lambda>(element1, w1).
                 andthen (count_element E cbs s k element1 w1) (\<lambda>w2.
                 andthen (the_struct w2 s) (\<lambda>rs2.
                 andthen (hashmap_put (rs_map rs2) k element1) (\<lambda>(r, m).
                 andthen (check (r = 0)) (\<lambda>_. Inr (0, put_obj s (Struct (rs2\<lparr>rs_map := m\<rparr>)) w2)))))))
      else Inr (1, w))"

section \<open>Getting\<close>

text \<open>The element returned when there is none is all zero.\<close>

definition rpc_struct_get_internal :: "addr \<Rightarrow> string option \<Rightarrow> store \<Rightarrow> rpc_type_t run" where
  "rpc_struct_get_internal s key w =
     (if s = null then Inr none_element
      else andthen (the_struct w s) (\<lambda>rs.
        case key of
          None \<Rightarrow> Inr none_element
        | Some k \<Rightarrow> Inr (case hashmap_get (rs_map rs) k of None \<Rightarrow> none_element | Some e \<Rightarrow> e)))"

definition rpc_struct_typeof :: "addr \<Rightarrow> string option \<Rightarrow> store \<Rightarrow> rpc_types run" where
  "rpc_struct_typeof s key w =
     andthen (check (s \<noteq> null)) (\<lambda>_.
     andthen (rpc_struct_get_internal s key w) (\<lambda>element. Inr (rt_type element)))"

definition rpc_struct_exists :: "addr \<Rightarrow> string option \<Rightarrow> store \<Rightarrow> int run" where
  "rpc_struct_exists s key w =
     andthen (rpc_struct_get_internal s key w) (\<lambda>element. Inr (if rt_type element = RPC_none then 0 else 1))"

definition rpc_struct_length :: "addr \<Rightarrow> store \<Rightarrow> nat run" where
  "rpc_struct_length s w =
     andthen (check (s \<noteq> null)) (\<lambda>_. andthen (the_struct w s) (\<lambda>rs. Inr (hb_size (rs_map rs))))"

text \<open>The keys in the order of the loop; the loop body only fills the array.\<close>

definition rpc_struct_keys :: "addr \<Rightarrow> store \<Rightarrow> string list run" where
  "rpc_struct_keys s w =
     andthen (check (s \<noteq> null)) (\<lambda>_.
     andthen (the_struct w s) (\<lambda>rs.
       hashmap_foreach_key_safe (\<lambda>_. rs_map rs)
         (\<lambda>key keys. if length keys < hb_size (rs_map rs) then Inr (keys @ [key]) else Inl Out_Of_Bounds) []))"

definition rpc_struct_whose_copy :: "addr \<Rightarrow> store \<Rightarrow> (addr \<times> store) run" where
  "rpc_struct_whose_copy s w =
     andthen (the_struct w s) (\<lambda>rs.
       if rs_copyof rs \<noteq> null \<and> prec_get w (rs_copyof rs) = null
       then Inr (null, put_obj s (Struct (rs\<lparr>rs_copyof := null\<rparr>)) w)
       else Inr (rs_copyof rs, w))"

definition rpc_struct_is_refcounted :: "addr \<Rightarrow> store \<Rightarrow> int" where
  "rpc_struct_is_refcounted ptr w = (if prec_get w ptr = null then 0 else 1)"

section \<open>The typed macros\<close>

text \<open>\<open>input\<close> are the bytes of an argument of C type \<open>t\<close>; \<open>junk\<close> what the new element held before.\<close>

definition rpc_struct_set ::
    "env \<Rightarrow> rpc_callbacks \<Rightarrow> byte list \<Rightarrow> addr \<Rightarrow> string \<Rightarrow> ctype \<Rightarrow> 64 word \<Rightarrow> store \<Rightarrow> (int \<times> store) run" where
  "rpc_struct_set E cbs junk s key t input w =
     andthen (rpc_struct_exists s (Some key) w) (\<lambda>ex.
       if ex = 0 then rpc_struct_set_internal E cbs s (Some key) (c_to_rpc junk t input) w else Inr (1, w))"

definition rpc_struct_get :: "addr \<Rightarrow> string \<Rightarrow> ctype \<Rightarrow> byte list \<Rightarrow> store \<Rightarrow> (int \<times> byte list) run" where
  "rpc_struct_get s key t out w =
     andthen (rpc_struct_get_internal s (Some key) w) (\<lambda>element. Inr (rpc_get_element t out element))"

definition rpc_struct_get_unsafe :: "addr \<Rightarrow> string \<Rightarrow> ctype \<Rightarrow> byte list \<Rightarrow> store \<Rightarrow> (int \<times> byte list) run" where
  "rpc_struct_get_unsafe s key t out w =
     andthen (rpc_struct_get_internal s (Some key) w) (\<lambda>element. Inr (rpc_get_element_unsafe t out element))"

text \<open>The argument of \<open>rpc_is_pointer\<close> in this macro is the value of a conjunction, 0 or 1.\<close>

definition rpc_struct_increment_refcount ::
    "env \<Rightarrow> rpc_callbacks \<Rightarrow> ctype \<Rightarrow> addr \<Rightarrow> store \<Rightarrow> store run" where
  "rpc_struct_increment_refcount E cbs t ptr w =
     (let conj = (ctype_to_rpc t \<noteq> RPC_none \<and> ctype_to_rpc t \<noteq> RPC_string \<and> ctype_to_rpc t \<noteq> RPC_unknown) in
      if rpc_is_pointer (all_types ! (if conj then 1 else 0))
      then andthen (prec_new E ptr w) (\<lambda>(prec, w1).
             prec_increment cbs prec
               (Some \<lparr>ud_origin = null, ud_name = None, ud_free = rpc_freefn_of (ctype_to_rpc t)\<rparr>) w1)
      else Inr w)"

section \<open>Hashing\<close>

definition bytes_of_string :: "string \<Rightarrow> byte list" where
  "bytes_of_string s = map (\<lambda>c. word_of_nat (of_char c)) s @ [0]"

definition hash_bytes :: "byte list \<Rightarrow> nat \<Rightarrow> 64 word run" where
  "hash_bytes bytes n = (if n > length bytes then Inl Out_Of_Bounds else Inr (murmur bytes (of_nat n)))"

text \<open>The hash of one element, \<open>sub\<close> being the hash of nested structs. For a function and for a raw
  pointer it is that of the first bytes of the object pointed to.\<close>

definition hash_element :: "env \<Rightarrow> (addr \<Rightarrow> 64 word run) \<Rightarrow> store \<Rightarrow> rpc_type_t \<Rightarrow> 64 word run" where
  "hash_element E sub w element =
     (if rpc_is_pointer (rt_type element) then
        (case rt_type element of
           RPC_struct \<Rightarrow> sub (ptr_value element)
         | RPC_sizedbuf \<Rightarrow> andthen (the_sizedbuf w (ptr_value element)) (\<lambda>sb. Inr (rpc_sizedbuf_hash sb))
         | RPC_string \<Rightarrow> andthen (the_cstring w (ptr_value element)) (\<lambda>str.
             hash_bytes (bytes_of_string str) (rt_length element))
         | _ \<Rightarrow> hash_bytes (e_bytes E (ptr_value element)) 8)
      else hash_bytes (data_container element) (rt_length element))"

text \<open>\<open>n\<close> bounds how deep structs are nested; a NULL struct is passed over by the locks only.\<close>

primrec rpc_struct_hash :: "env \<Rightarrow> nat \<Rightarrow> store \<Rightarrow> addr \<Rightarrow> 64 word run" where
  "rpc_struct_hash E 0 w s = Inl No_Fuel"
| "rpc_struct_hash E (Suc n) w s =
     andthen (the_struct w s) (\<lambda>rs.
       hashmap_foreach_data_safe (\<lambda>_. rs_map rs)
         (\<lambda>element h. andthen (hash_element E (rpc_struct_hash E n w) w element)
            (\<lambda>x. Inr (murmur (le_bytes 8 (h + x)) 8))) 0)"

section \<open>Copies\<close>

definition copy_element ::
    "env \<Rightarrow> rpc_callbacks \<Rightarrow> addr \<Rightarrow> string \<Rightarrow> rpc_type_t \<Rightarrow> store \<Rightarrow> store run" where
  "copy_element E cbs cp key element w =
     andthen (if counted_type (rt_type element)
              then prec_increment cbs (prec_get w (ptr_value element))
                     (Some \<lparr>ud_origin = cp, ud_name = Some key, ud_free = rpc_freefn_of (rt_type element)\<rparr>) w
              else Inr w) (\<lambda>w1.
     andthen (rpc_struct_set_internal E cbs cp (Some key) element w1) (\<lambda>(r, w2). Inr w2))"

definition start_copy :: "env \<Rightarrow> addr \<Rightarrow> store \<Rightarrow> (addr \<times> store) run" where
  "start_copy E original w =
     andthen (rpc_struct_create E w) (\<lambda>(cp, w1).
     andthen (rpc_struct_id_get original w1) (\<lambda>ID.
     andthen (rpc_struct_id_set cp ID w1) (\<lambda>w2. Inr (cp, w2))))"

definition finish_copy :: "addr \<Rightarrow> addr \<Rightarrow> store \<Rightarrow> (addr \<times> store) run" where
  "finish_copy original cp w =
     andthen (the_struct w cp) (\<lambda>rs. Inr (cp, put_obj cp (Struct (rs\<lparr>rs_copyof := original\<rparr>)) w))"

definition rpc_struct_copy :: "env \<Rightarrow> rpc_callbacks \<Rightarrow> addr \<Rightarrow> store \<Rightarrow> (addr \<times> store) run" where
  "rpc_struct_copy E cbs original w =
     andthen (start_copy E original w) (\<lambda>(cp, w1).
     andthen (hashmap_foreach_all (struct_map original) (copy_element E cbs cp) w1) (finish_copy original cp))"

text \<open>A deep copy copies each nested object once: \<open>duptrack\<close> maps originals to their copies. The block a
  string is copied to is given to \<open>rpc_struct_set_internal\<close>, which copies it again, and is not released.\<close>

definition deep_copy_string :: "env \<Rightarrow> rpc_type_t \<Rightarrow> store \<Rightarrow> (rpc_type_t \<times> store) run" where
  "deep_copy_string E element w =
     andthen (the_cstring w (ptr_value element)) (\<lambda>str.
       if rt_length element \<noteq> length str + 1 then Inl Out_Of_Bounds
       else andthen (new_obj E (Cstring str) w) (\<lambda>(tmp, w1). Inr (set_ptr_value tmp element, w1)))"

definition copy_object ::
    "env \<Rightarrow> (addr \<Rightarrow> store \<Rightarrow> (addr \<times> store) run) \<Rightarrow> rpc_types \<Rightarrow> addr \<Rightarrow> store \<Rightarrow> (addr \<times> store) run" where
  "copy_object E sub type p w =
     (case type of
        RPC_struct \<Rightarrow> sub p w
      | RPC_sizedbuf \<Rightarrow> andthen (the_sizedbuf w p) (\<lambda>sb.
          andthen (rpc_sizedbuf_copy (Some sb)) (\<lambda>sb'. new_obj E (Sizedbuf sb') w))
      | RPC_function \<Rightarrow> andthen (the_function w p) (\<lambda>f.
          andthen (rpc_function_copy (Some f)) (\<lambda>f'.
            case f' of None \<Rightarrow> Inl Assert_Failed | Some f'' \<Rightarrow> new_obj E (Function f'') w))
      | _ \<Rightarrow> Inr (p, w))"

definition deep_copy_pointer ::
    "env \<Rightarrow> (addr \<Rightarrow> store \<Rightarrow> (addr \<times> store) run) \<Rightarrow> rpc_type_t \<Rightarrow> (addr, addr) hashmap_base \<Rightarrow> store
     \<Rightarrow> (rpc_type_t \<times> (addr, addr) hashmap_base \<times> store) run" where
  "deep_copy_pointer E sub element duptrack w =
     (case hashmap_get duptrack (ptr_value element) of
        Some is_copy \<Rightarrow> Inr (set_ptr_value is_copy element, duptrack, w)
      | None \<Rightarrow>
          andthen (copy_object E sub (rt_type element) (ptr_value element) w) (\<lambda>(p, w1).
          andthen (hashmap_put duptrack (ptr_value element) p) (\<lambda>(r, duptrack1).
            Inr (set_ptr_value p element, duptrack1, w1))))"

definition deep_copy_element ::
    "env \<Rightarrow> rpc_callbacks \<Rightarrow> (addr \<Rightarrow> store \<Rightarrow> (addr \<times> store) run) \<Rightarrow> addr \<Rightarrow> string \<Rightarrow> rpc_type_t
     \<Rightarrow> (addr, addr) hashmap_base \<times> store \<Rightarrow> ((addr, addr) hashmap_base \<times> store) run" where
  "deep_copy_element E cbs sub cp key element s =
     andthen
       (if rt_type element = RPC_string
        then andthen (deep_copy_string E element (snd s)) (\<lambda>(e, w). Inr (e, fst s, w))
        else if counted_type (rt_type element)
        then andthen (deep_copy_pointer E sub element (fst s) (snd s)) (\<lambda>(e, duptrack, w).
             andthen (prec_increment cbs (prec_get w (ptr_value e))
               (Some \<lparr>ud_origin = cp, ud_name = Some key, ud_free = rpc_freefn_of (rt_type e)\<rparr>) w) (\<lambda>w1.
             Inr (e, duptrack, w1)))
        else Inr (element, s)) (\<lambda>(e, duptrack, w).
     andthen (rpc_struct_set_internal E cbs cp (Some key) e w) (\<lambda>(r, w1). Inr (duptrack, w1)))"

primrec rpc_struct_deep_copy :: "env \<Rightarrow> rpc_callbacks \<Rightarrow> nat \<Rightarrow> addr \<Rightarrow> store \<Rightarrow> (addr \<times> store) run" where
  "rpc_struct_deep_copy E cbs 0 original w = Inl No_Fuel"
| "rpc_struct_deep_copy E cbs (Suc n) original w =
     andthen (start_copy E original w) (\<lambda>(cp, w1).
     andthen (hashmap_foreach_all (\<lambda>(duptrack, w). struct_map original w)
         (deep_copy_element E cbs (rpc_struct_deep_copy E cbs n) cp) (pointer_map, w1)) (\<lambda>(duptrack, w2).
       finish_copy original cp w2))"

section \<open>Keys that share a pointer\<close>

record rpc_struct_duplicate_info =
  di_type :: rpc_types
  di_original_name :: string
  di_duplicates :: "string list"

text \<open>The array of results, with how often it has moved; the table holds pointers into the array, as the
  move they were taken after and an index. A pointer taken before a move is stale.\<close>

record duplicates_state =
  ds_ptr_map :: "(addr, nat \<times> nat) hashmap_base"
  ds_infos :: "rpc_struct_duplicate_info list"
  ds_capacity :: nat
  ds_moves :: nat
  ds_i :: nat

definition grow_duplicates :: "env \<Rightarrow> duplicates_state \<Rightarrow> duplicates_state" where
  "grow_duplicates E d =
     (if length (ds_infos d) = ds_capacity d
      then d\<lparr>ds_capacity := ds_capacity d * 2, ds_moves := (if e_realloc_moves E then ds_moves d + 1 else ds_moves d)\<rparr>
      else d)"

definition duplicates_body :: "env \<Rightarrow> string list \<Rightarrow> rpc_type_t \<Rightarrow> duplicates_state \<Rightarrow> duplicates_state run" where
  "duplicates_body E keys element d =
     andthen
       (if counted_type (rt_type element) then
          if ds_i d \<ge> length keys then Inl Out_Of_Bounds
          else (case hashmap_get (ds_ptr_map d) (ptr_value element) of
            None \<Rightarrow>
              let d1 = grow_duplicates E d;
                  info = \<lparr>di_type = rt_type element, di_original_name = keys ! ds_i d, di_duplicates = []\<rparr> in
              andthen (hashmap_put (ds_ptr_map d1) (ptr_value element) (ds_moves d1, length (ds_infos d1)))
                (\<lambda>(r, m). Inr (d1\<lparr>ds_infos := ds_infos d1 @ [info], ds_ptr_map := m\<rparr>))
          | Some (moves, j) \<Rightarrow>
              if moves \<noteq> ds_moves d then Inl Use_After_Free
              else let info = ds_infos d ! j in
                Inr (d\<lparr>ds_infos := (ds_infos d)[j := info\<lparr>di_duplicates := di_duplicates info @ [keys ! ds_i d]\<rparr>]\<rparr>))
        else Inr d)
       (\<lambda>d1. Inr (d1\<lparr>ds_i := ds_i d1 + 1\<rparr>))"

definition rpc_struct_found_duplicates :: "env \<Rightarrow> addr \<Rightarrow> store \<Rightarrow> rpc_struct_duplicate_info list run" where
  "rpc_struct_found_duplicates E s w =
     andthen (check (s \<noteq> null)) (\<lambda>_.
     andthen (rpc_struct_keys s w) (\<lambda>keys.
     andthen (the_struct w s) (\<lambda>rs.
     andthen (hashmap_foreach_data_safe (\<lambda>_. rs_map rs) (duplicates_body E keys)
        \<lparr>ds_ptr_map = pointer_map, ds_infos = [], ds_capacity = 16, ds_moves = 0, ds_i = 0\<rparr>) (\<lambda>d.
       Inr (ds_infos d)))))"

end
