(* ===== verification/Struct_Inv.thy ===== *)
theory Struct_Inv
  imports Rpc_Elements
begin

text \<open>
  The invariant of a store: every element that refers to a counted object is known to the tracker, which
  counts at least as many references as there are elements and knows exactly the structs that hold the
  object under each key; every string element owns its string. Elements that an operation is about to take
  out, a set \<open>X\<close> of structs and keys, are left out of the account.
\<close>

section \<open>Elements of a store\<close>

definition entry :: "store \<Rightarrow> addr \<Rightarrow> string \<Rightarrow> rpc_type_t option" where
  "entry w s k = (case mem w s of Some (Struct rs) \<Rightarrow> hashmap_get (rs_map rs) k | _ \<Rightarrow> None)"

definition visible :: "(addr \<times> string) set \<Rightarrow> store \<Rightarrow> addr \<Rightarrow> string \<Rightarrow> rpc_type_t option" where
  "visible X w s k = (if (s, k) \<in> X then None else entry w s k)"

definition holders_of :: "(addr \<times> string) set \<Rightarrow> store \<Rightarrow> addr \<Rightarrow> (addr \<times> string) set" where
  "holders_of X w p = {(s, k). \<exists>e. visible X w s k = Some e \<and> counted_type (rt_type e) \<and> ptr_value e = p}"

fun obj_type :: "obj \<Rightarrow> rpc_types" where
  "obj_type (Struct rs) = RPC_struct"
| "obj_type (Sizedbuf sb) = RPC_sizedbuf"
| "obj_type (Function f) = RPC_function"
| "obj_type (Cstring s) = RPC_string"
| "obj_type (Prec p) = RPC_none"
| "obj_type (Ffi_Types ts) = RPC_unknown"
| "obj_type (Closure c) = RPC_unknown"

definition otype :: "store \<Rightarrow> addr \<Rightarrow> rpc_types option" where
  "otype w p = map_option obj_type (mem w p)"

definition origin_set :: "prec \<Rightarrow> string \<Rightarrow> addr set" where
  "origin_set pr k =
     (case pr_context pr of
        None \<Rightarrow> {}
      | Some c \<Rightarrow> (case hashmap_get (pc_keys c) k of None \<Rightarrow> {} | Some ctx \<Rightarrow> set (holders ctx)))"

section \<open>The invariant\<close>

definition ptr_ctx_ok :: "prec_ptr_ctx \<Rightarrow> rpc_types \<Rightarrow> bool" where
  "ptr_ctx_ok c t \<longleftrightarrow>
     hm_inv (pc_keys c) \<and> pc_free c = rpc_freefn_of t \<and>
     (\<forall>k ctx. hashmap_get (pc_keys c) k = Some ctx \<longrightarrow> ctx_inv ctx)"

definition record_ok :: "(addr \<times> string) set \<Rightarrow> store \<Rightarrow> addr \<Rightarrow> prec \<Rightarrow> bool" where
  "record_ok X w ptr pr \<longleftrightarrow>
     int (card (holders_of X w ptr)) \<le> pr_refcount pr \<and>
     (\<forall>k. origin_set pr k = {s. (s, k) \<in> holders_of X w ptr}) \<and>
     (\<exists>t. otype w ptr = Some t \<and> counted_type t \<and> (\<forall>c. pr_context pr = Some c \<longrightarrow> ptr_ctx_ok c t))"

definition structs_ok :: "store \<Rightarrow> bool" where
  "structs_ok w \<longleftrightarrow>
     mem w null = None \<and>
     (\<forall>s rs. mem w s = Some (Struct rs) \<longrightarrow> hm_inv (rs_map rs) \<and> rs_destructor rs = null)"

definition elements_ok :: "(addr \<times> string) set \<Rightarrow> store \<Rightarrow> bool" where
  "elements_ok X w \<longleftrightarrow>
     (\<forall>s k e. visible X w s k = Some e \<longrightarrow>
        (counted_type (rt_type e) \<longrightarrow> hashmap_get (ptracker w) (ptr_value e) \<noteq> None) \<and>
        (counted_type (rt_type e) \<or> rt_type e = RPC_string \<longrightarrow> otype w (ptr_value e) = Some (rt_type e)))"

definition strings_owned :: "(addr \<times> string) set \<Rightarrow> store \<Rightarrow> bool" where
  "strings_owned X w \<longleftrightarrow>
     (\<forall>s k e s' k' e'. visible X w s k = Some e \<longrightarrow> visible X w s' k' = Some e' \<longrightarrow>
        rt_type e = RPC_string \<longrightarrow> rt_type e' = RPC_string \<longrightarrow> ptr_value e = ptr_value e' \<longrightarrow> s = s' \<and> k = k')"

definition records_ok :: "(addr \<times> string) set \<Rightarrow> store \<Rightarrow> bool" where
  "records_ok X w \<longleftrightarrow>
     (\<forall>ptr q pr. hashmap_get (ptracker w) ptr = Some q \<longrightarrow> mem w q = Some (Prec pr) \<longrightarrow> record_ok X w ptr pr)"

definition store_inv :: "(addr \<times> string) set \<Rightarrow> store \<Rightarrow> bool" where
  "store_inv X w \<longleftrightarrow> tracker_ok w \<and> structs_ok w \<and> elements_ok X w \<and> strings_owned X w \<and> records_ok X w"

lemma store_invD:
  assumes "store_inv X w"
  shows "tracker_ok w" "structs_ok w" "elements_ok X w" "strings_owned X w" "records_ok X w"
  using assms unfolding store_inv_def by blast+

lemma store_inv_struct:
  assumes "store_inv X w" "mem w s = Some (Struct rs)"
  shows "hm_inv (rs_map rs)" "rs_destructor rs = null" "s \<noteq> null"
  using assms by (auto simp: store_inv_def structs_ok_def)

lemma store_inv_null: "store_inv X w \<Longrightarrow> mem w null = None"
  by (auto simp: store_inv_def structs_ok_def)

lemma store_inv_counted:
  assumes "store_inv X w" "visible X w s k = Some e" "counted_type (rt_type e)"
  obtains q pr where "hashmap_get (ptracker w) (ptr_value e) = Some q" "mem w q = Some (Prec pr)" "q \<noteq> null"
    "pr_ptr pr = ptr_value e" "record_ok X w (ptr_value e) pr" "otype w (ptr_value e) = Some (rt_type e)"
    "prec_get w (ptr_value e) = q"
proof -
  obtain q where q: "hashmap_get (ptracker w) (ptr_value e) = Some q"
    using store_invD(3) [OF assms(1)] assms(2,3) unfolding elements_ok_def by blast
  then obtain pr where pr: "mem w q = Some (Prec pr)" "pr_ptr pr = ptr_value e" "q \<noteq> null"
    using tracker_okD(4) [OF store_invD(1) [OF assms(1)]] by blast
  moreover have "record_ok X w (ptr_value e) pr"
    using store_invD(5) [OF assms(1)] q pr(1) unfolding records_ok_def by blast
  moreover have "otype w (ptr_value e) = Some (rt_type e)"
    using store_invD(3) [OF assms(1)] assms(2,3) unfolding elements_ok_def by blast
  moreover have "prec_get w (ptr_value e) = q"
    using q by (simp add: prec_get_eq [OF store_invD(1) [OF assms(1)]])
  ultimately show thesis using that q by blast
qed

lemma obj_type_eq:
  "obj_type x = RPC_struct \<longleftrightarrow> (\<exists>rs. x = Struct rs)" "obj_type x = RPC_sizedbuf \<longleftrightarrow> (\<exists>sb. x = Sizedbuf sb)"
  "obj_type x = RPC_function \<longleftrightarrow> (\<exists>f. x = Function f)" "obj_type x = RPC_string \<longleftrightarrow> (\<exists>str. x = Cstring str)"
  by (cases x; simp)+

lemma otype_Some: "otype w p = Some t \<longleftrightarrow> (\<exists>x. mem w p = Some x \<and> obj_type x = t)"
  by (auto simp: otype_def)

lemma otype_put [simp]: "otype (put_obj p x w) = (otype w)(p \<mapsto> obj_type x)"
  by (rule ext) (simp add: otype_def)

lemma store_inv_string:
  assumes "store_inv X w" "visible X w s k = Some e" "rt_type e = RPC_string"
  obtains str where "mem w (ptr_value e) = Some (Cstring str)"
  using store_invD(3) [OF assms(1)] assms(2,3) unfolding elements_ok_def
  by (auto simp: otype_Some obj_type_eq) metis

lemma counted_not_string [simp]: "counted_type RPC_string = False" "counted_type RPC_none = False"
  by (simp_all add: counted_type_def rpc_is_pointer_def)

section \<open>Finiteness\<close>

lemma entry_struct: "entry w s k = Some e \<Longrightarrow> \<exists>rs. mem w s = Some (Struct rs) \<and> hashmap_get (rs_map rs) k = Some e"
  by (auto simp: entry_def split: option.splits obj.splits)

lemma visible_entry: "visible X w s k = Some e \<longleftrightarrow> (s, k) \<notin> X \<and> entry w s k = Some e"
  by (simp add: visible_def)

lemma entries_finite:
  assumes "finite (dom (mem w))" "structs_ok w"
  shows "finite {(s, k). entry w s k \<noteq> None}"
proof -
  let ?keys = "\<lambda>s. {k. entry w s k \<noteq> None}"
  have "finite (?keys s)" for s
  proof (cases "\<exists>rs. mem w s = Some (Struct rs)")
    case True
    then obtain rs where rs: "mem w s = Some (Struct rs)" by blast
    then have "hm_inv (rs_map rs)" using assms(2) by (auto simp: structs_ok_def)
    from hm.finite_dom [OF this] show ?thesis using rs by (simp add: entry_def dom_def)
  next
    case False
    then have "entry w s k = None" for k using entry_struct [of w s k] by (cases "entry w s k") auto
    then show ?thesis by simp
  qed
  moreover have "{(s, k). entry w s k \<noteq> None} \<subseteq> (SIGMA s:dom (mem w). ?keys s)"
    by (auto dest: entry_struct)
  ultimately show ?thesis using assms(1) by (meson finite_SigmaI finite_subset)
qed

lemma holders_finite:
  assumes "store_inv X w" shows "finite (holders_of Y w p)"
proof (rule finite_subset)
  show "finite {(s, k). entry w s k \<noteq> None}"
    using entries_finite tracker_okD(2) store_invD(1,2) assms by blast
  show "holders_of Y w p \<subseteq> {(s, k). entry w s k \<noteq> None}"
    by (auto simp: holders_of_def visible_def split: if_splits)
qed

section \<open>Changes that the account does not see\<close>

lemma store_inv_cong:
  assumes inv: "store_inv X w" and vis: "\<And>s k. visible Y w' s k = visible X w s k"
    and tr: "ptracker w' = ptracker w" "tracker_ok w'" "structs_ok w'"
    and elem: "\<And>s k e. visible X w s k = Some e \<Longrightarrow> counted_type (rt_type e) \<or> rt_type e = RPC_string \<Longrightarrow>
        otype w' (ptr_value e) = otype w (ptr_value e)"
    and rec: "\<And>ptr q. hashmap_get (ptracker w) ptr = Some q \<Longrightarrow> mem w' q = mem w q \<and> otype w' ptr = otype w ptr"
  shows "store_inv Y w'"
proof -
  have holders: "holders_of Y w' p = holders_of X w p" for p by (simp add: holders_of_def vis)
  note D = store_invD [OF inv]
  have "elements_ok Y w'"
    unfolding elements_ok_def vis
  proof (intro allI impI)
    fix s k e assume e: "visible X w s k = Some e"
    show "(counted_type (rt_type e) \<longrightarrow> hashmap_get (ptracker w') (ptr_value e) \<noteq> None) \<and>
      (counted_type (rt_type e) \<or> rt_type e = RPC_string \<longrightarrow> otype w' (ptr_value e) = Some (rt_type e))"
      using D(3) e elem [OF e] tr(1) unfolding elements_ok_def by simp
  qed
  moreover have "strings_owned Y w'" using D(4) unfolding strings_owned_def vis .
  moreover have "records_ok Y w'"
    unfolding records_ok_def tr(1)
  proof (intro allI impI)
    fix ptr q pr assume q: "hashmap_get (ptracker w) ptr = Some q" "mem w' q = Some (Prec pr)"
    then have "record_ok X w ptr pr" using D(5) rec [OF q(1)] unfolding records_ok_def by simp
    then show "record_ok Y w' ptr pr" using rec [OF q(1)] by (simp add: record_ok_def holders)
  qed
  ultimately show ?thesis using tr by (simp add: store_inv_def)
qed

text \<open>Taking out the entry that was exempt.\<close>

lemma entry_put_struct: "entry (put_obj s (Struct rs) w) t k = (if t = s then hashmap_get (rs_map rs) k else entry w t k)"
  by (simp add: entry_def)

lemma remove_exempt_entry:
  assumes inv: "store_inv (insert (s, k) X) w" and s: "mem w s = Some (Struct rs)" and new: "(s, k) \<notin> X"
    and rem: "hashmap_remove (rs_map rs) k = (d, m)"
  shows "store_inv X (put_obj s (Struct (rs\<lparr>rs_map := m\<rparr>)) w)"
proof -
  note D = hm.delete_result [OF store_inv_struct(1) [OF inv s] rem]
  note I = store_invD [OF inv]
  show ?thesis
  proof (rule store_inv_cong [OF inv])
    show "visible X (put_obj s (Struct (rs\<lparr>rs_map := m\<rparr>)) w) t j = visible (insert (s, k) X) w t j" for t j
      using s new D(3) by (auto simp: visible_def entry_put_struct) (simp_all add: entry_def)
    show "tracker_ok (put_obj s (Struct (rs\<lparr>rs_map := m\<rparr>)) w)"
      using s by (intro tracker_ok_put [OF I(1)]) auto
    show "structs_ok (put_obj s (Struct (rs\<lparr>rs_map := m\<rparr>)) w)"
      using I(2) s D(1) by (auto simp: structs_ok_def)
    show "otype (put_obj s (Struct (rs\<lparr>rs_map := m\<rparr>)) w) p = otype w p" for p
      using s by (simp add: otype_def)
    then show "mem (put_obj s (Struct (rs\<lparr>rs_map := m\<rparr>)) w) q = mem w q \<and>
        otype (put_obj s (Struct (rs\<lparr>rs_map := m\<rparr>)) w) ptr = otype w ptr"
      if "hashmap_get (ptracker w) ptr = Some q" for ptr q
      using tracker_okD(4) [OF I(1) that] s by auto
  qed simp
qed

text \<open>Releasing an object that nothing refers to.\<close>

lemma release_unreferenced:
  assumes inv: "store_inv X w" and p: "mem w p \<noteq> None" "hashmap_get (ptracker w) p = None"
    and none: "\<And>s k e. visible X w s k = Some e \<Longrightarrow> counted_type (rt_type e) \<or> rt_type e = RPC_string \<Longrightarrow> ptr_value e \<noteq> p"
    and empty: "\<And>k. visible X w p k = None"
    and not_rec: "\<And>a. hashmap_get (ptracker w) a \<noteq> Some p"
  shows "free_obj p w = Inr (w\<lparr>mem := (mem w)(p := None)\<rparr>)" "store_inv X (w\<lparr>mem := (mem w)(p := None)\<rparr>)"
proof -
  let ?w = "w\<lparr>mem := (mem w)(p := None)\<rparr>"
  note I = store_invD [OF inv]
  have "p \<noteq> null" using p(1) store_inv_null [OF inv] by auto
  then show "free_obj p w = Inr ?w" using p(1) by (auto simp: free_obj_def)
  have q: "mem ?w q = mem w q" if "hashmap_get (ptracker w) ptr = Some q" for ptr q
    using that not_rec [of ptr] by auto
  show "store_inv X ?w"
  proof (rule store_inv_cong [OF inv])
    show "visible X ?w t j = visible X w t j" for t j
      using empty [of j] by (auto simp: visible_def entry_def)
    show "tracker_ok ?w"
      unfolding tracker_ok_def using tracker_okD [OF I(1)] q by simp
    show "structs_ok ?w" using I(2) by (auto simp: structs_ok_def)
    show "otype ?w (ptr_value e) = otype w (ptr_value e)"
      if "visible X w s k = Some e" "counted_type (rt_type e) \<or> rt_type e = RPC_string" for s k e
      using none [OF that] by (simp add: otype_def)
    show "mem ?w q = mem w q \<and> otype ?w ptr = otype w ptr" if "hashmap_get (ptracker w) ptr = Some q" for ptr q
      using q [OF that] that p(2) by (auto simp: otype_def)
  qed simp
qed

end
