(* ===== verification/Struct_Release.thy ===== *)
theory Struct_Release
  imports Struct_Inv
begin

text \<open>
  Releasing in a store whose structs are nested without cycles: removing an element takes out that element
  and everything that only it kept alive, and touches no memory that was released before. The nesting is
  given by a rank that decreases from a struct to the objects it holds; the proof is by induction on the
  fuel of the callbacks, which bounds the rank.
\<close>

section \<open>What a release may change\<close>

text \<open>Structs in \<open>K\<close> and records that are no longer tracked stay as they are; nothing is added.\<close>

definition frame :: "addr set \<Rightarrow> store \<Rightarrow> store \<Rightarrow> bool" where
  "frame K w w' \<longleftrightarrow>
     (\<forall>t rs. t \<in> K \<longrightarrow> mem w t = Some (Struct rs) \<longrightarrow> mem w' t = mem w t) \<and>
     (\<forall>q p. mem w q = Some (Prec p) \<longrightarrow> (\<forall>a. hashmap_get (ptracker w) a \<noteq> Some q) \<longrightarrow> mem w' q = mem w q) \<and>
     (\<forall>a q. hashmap_get (ptracker w') a = Some q \<longrightarrow> hashmap_get (ptracker w) a = Some q) \<and>
     (\<forall>t k e. entry w' t k = Some e \<longrightarrow> entry w t k = Some e) \<and>
     dom (mem w') \<subseteq> dom (mem w) \<and> entropy w' = entropy w"

lemma frameD:
  assumes "frame K w w'"
  shows "t \<in> K \<Longrightarrow> mem w t = Some (Struct rs) \<Longrightarrow> mem w' t = Some (Struct rs)"
    "mem w q = Some (Prec p) \<Longrightarrow> (\<And>a. hashmap_get (ptracker w) a \<noteq> Some q) \<Longrightarrow> mem w' q = Some (Prec p)"
    "hashmap_get (ptracker w') a = Some q' \<Longrightarrow> hashmap_get (ptracker w) a = Some q'"
    "hashmap_get (ptracker w) a = None \<Longrightarrow> hashmap_get (ptracker w') a = None"
    "entry w' t k = Some e \<Longrightarrow> entry w t k = Some e"
    "dom (mem w') \<subseteq> dom (mem w)" "entropy w' = entropy w"
proof -
  note F = assms [unfolded frame_def]
  show "t \<in> K \<Longrightarrow> mem w t = Some (Struct rs) \<Longrightarrow> mem w' t = Some (Struct rs)" using F by fastforce
  show "mem w' q = Some (Prec p)" if "mem w q = Some (Prec p)" "\<And>a. hashmap_get (ptracker w) a \<noteq> Some q"
    using F that by simp
  show "hashmap_get (ptracker w') a = Some q' \<Longrightarrow> hashmap_get (ptracker w) a = Some q'" using F by blast
  then show "hashmap_get (ptracker w) a = None \<Longrightarrow> hashmap_get (ptracker w') a = None"
    using F by (cases "hashmap_get (ptracker w') a") auto
  show "entry w' t k = Some e \<Longrightarrow> entry w t k = Some e" using F by blast
  show "dom (mem w') \<subseteq> dom (mem w)" "entropy w' = entropy w" using F by blast+
qed

lemma frameI:
  assumes "\<And>t rs. t \<in> K \<Longrightarrow> mem w t = Some (Struct rs) \<Longrightarrow> mem w' t = mem w t"
    "\<And>q p. mem w q = Some (Prec p) \<Longrightarrow> (\<And>a. hashmap_get (ptracker w) a \<noteq> Some q) \<Longrightarrow> mem w' q = mem w q"
    "\<And>a q. hashmap_get (ptracker w') a = Some q \<Longrightarrow> hashmap_get (ptracker w) a = Some q"
    "\<And>t k e. entry w' t k = Some e \<Longrightarrow> entry w t k = Some e"
    "dom (mem w') \<subseteq> dom (mem w)" "entropy w' = entropy w"
  shows "frame K w w'"
  using assms unfolding frame_def by blast

lemma frame_refl [simp]: "frame K w w"
  by (simp add: frame_def)

lemma frame_trans:
  assumes "frame K w w1" "frame K w1 w2" shows "frame K w w2"
proof (rule frameI)
  show "mem w2 t = mem w t" if "t \<in> K" "mem w t = Some (Struct rs)" for t rs
    using frameD(1) [OF assms(1) that] frameD(1) [OF assms(2) that(1)] that(2) by simp
  show "mem w2 q = mem w q" if "mem w q = Some (Prec p)" "\<And>a. hashmap_get (ptracker w) a \<noteq> Some q" for q p
    using frameD(2) [OF assms(1) that] frameD(2) [OF assms(2), of q p] frameD(3) [OF assms(1)] that by metis
  show "dom (mem w2) \<subseteq> dom (mem w)" using frameD(6) [OF assms(1)] frameD(6) [OF assms(2)] by (rule subset_trans [rotated])
  show "entropy w2 = entropy w" using frameD(7) [OF assms(1)] frameD(7) [OF assms(2)] by simp
qed (use frameD(3,5) [OF assms(1)] frameD(3,5) [OF assms(2)] in blast)+

lemma frame_subset: "frame K w w' \<Longrightarrow> K' \<subseteq> K \<Longrightarrow> frame K' w w'"
  unfolding frame_def by blast

lemma frame_visible: "frame K w w' \<Longrightarrow> visible X w' s k = Some e \<Longrightarrow> visible X w s k = Some e"
  by (auto simp: visible_entry dest: frameD(5))

lemma frame_holders: "frame K w w' \<Longrightarrow> holders_of X w' p \<subseteq> holders_of X w p"
  unfolding holders_of_def by (auto dest: frame_visible)

definition ranked :: "(addr \<Rightarrow> nat) \<Rightarrow> (addr \<times> string) set \<Rightarrow> store \<Rightarrow> bool" where
  "ranked r X w \<longleftrightarrow> (\<forall>s k e. visible X w s k = Some e \<longrightarrow> counted_type (rt_type e) \<longrightarrow> r (ptr_value e) < r s)"

lemma ranked_frame: "ranked r X w \<Longrightarrow> frame K w w' \<Longrightarrow> ranked r X w'"
  unfolding ranked_def by (blast dest: frame_visible)

lemma visible_insert: "visible (insert y X) w s k = Some e \<Longrightarrow> visible X w s k = Some e"
  by (auto simp: visible_def split: if_splits)

lemma ranked_insert: "ranked r X w \<Longrightarrow> ranked r (insert y X) w"
  unfolding ranked_def by (blast dest: visible_insert)

section \<open>Counting one reference less\<close>

lemma entry_put_prec: "mem w q = Some (Prec p) \<Longrightarrow> entry (put_obj q (Prec p') w) = entry w"
  by (rule ext)+ (simp add: entry_def)

lemma visible_put_prec: "mem w q = Some (Prec p) \<Longrightarrow> visible X (put_obj q (Prec p') w) = visible X w"
  by (rule ext)+ (simp add: visible_def entry_put_prec)

lemma holders_insert:
  assumes "visible X w s k = Some e" "counted_type (rt_type e)"
  shows "holders_of (insert (s, k) X) w a = (if a = ptr_value e then holders_of X w a - {(s, k)} else holders_of X w a)"
    "(s, k) \<in> holders_of X w (ptr_value e)"
  using assms by (auto simp: holders_of_def visible_def split: if_splits)

lemma origin_context:
  assumes "s \<in> origin_set pr k"
  obtains c ctx where "pr_context pr = Some c" "hashmap_get (pc_keys c) k = Some ctx" "s \<in> set (holders ctx)"
  using assms by (auto simp: origin_set_def split: option.splits)

lemma holders_o_index: "o_index ctx = 0 \<Longrightarrow> holders ctx = []"
  by (simp add: holders_def)

text \<open>The effect of the decrement callback for a struct that holds the object.\<close>

lemma decrement_cb_effect:
  assumes pr: "mem w q = Some (Prec pr)" "q \<noteq> null" and c: "pr_context pr = Some c" "ptr_ctx_ok c t"
    and ctx: "hashmap_get (pc_keys c) k = Some ctx" and s: "s \<noteq> null"
  obtains c1 where
    "rpc_struct_decrement_cb q (Some \<lparr>ud_origin = s, ud_name = Some k, ud_free = None\<rparr>) w =
       Inr (put_obj q (Prec (pr\<lparr>pr_context := Some c1\<rparr>)) w)"
    "ptr_ctx_ok c1 t"
    "\<And>n j. origin_set (pr\<lparr>pr_refcount := n, pr_context := Some c1\<rparr>) j =
       (if j = k then origin_set pr j - {s} else origin_set pr j)"
proof -
  have K: "hm_inv (pc_keys c)" "pc_free c = rpc_freefn_of t"
    "\<And>j cx. hashmap_get (pc_keys c) j = Some cx \<Longrightarrow> ctx_inv cx"
    using c(2) unfolding ptr_ctx_ok_def by blast+
  obtain ctx1 where r: "ctx_remove ctx s = Inr ctx1" "ctx_inv ctx1" "holders ctx1 = filter (\<lambda>x. x \<noteq> s) (holders ctx)"
    using ctx_remove_correct [OF K(3) [OF ctx] s] by metis
  obtain d m where rem: "hashmap_remove (pc_keys c) k = (d, m)" by fastforce
  note M = hm.delete_result [OF K(1) rem]
  note P = hashmap_poke_map [OF K(1) ctx, of ctx1]
  define keys1 where "keys1 = (if o_index ctx1 = 0 then m else hashmap_poke (pc_keys c) k ctx1)"
  have keys1: "hm_inv keys1" "\<And>j cx. hashmap_get keys1 j = Some cx \<Longrightarrow> ctx_inv cx"
    using M(1,3) P(1,2) K(3) r(2) by (auto simp: keys1_def split: if_splits)
  show thesis
  proof (rule that [of "c\<lparr>pc_keys := keys1\<rparr>"])
    show "rpc_struct_decrement_cb q (Some \<lparr>ud_origin = s, ud_name = Some k, ud_free = None\<rparr>) w =
        Inr (put_obj q (Prec (pr\<lparr>pr_context := Some (c\<lparr>pc_keys := keys1\<rparr>)\<rparr>)) w)"
      using pr c(1) ctx r(1) rem
      by (simp add: rpc_struct_decrement_cb_def prec_context_get_def prec_context_set_def the_prec_def keys1_def)
    show "ptr_ctx_ok (c\<lparr>pc_keys := keys1\<rparr>) t" using keys1 K(2) by (simp add: ptr_ctx_ok_def)
    show "origin_set (pr\<lparr>pr_refcount := n, pr_context := Some (c\<lparr>pc_keys := keys1\<rparr>)\<rparr>) j =
        (if j = k then origin_set pr j - {s} else origin_set pr j)" for n j
      using M(3) P(2) r(3) c(1) ctx holders_o_index [of ctx1]
      by (auto simp: origin_set_def keys1_def filter_empty_conv split: option.splits)
  qed
qed

text \<open>Its effect through \<open>prec_decrement\<close>, for an element that counts.\<close>

definition dec_udata :: "addr \<Rightarrow> string \<Rightarrow> prec_rpc_udata option" where
  "dec_udata s k = Some \<lparr>ud_origin = s, ud_name = Some k, ud_free = None\<rparr>"

lemma decrement_effect:
  assumes inv: "store_inv X w" and vis: "visible X w s k = Some e" and cnt: "counted_type (rt_type e)"
  obtains q pr pr1 c1 where "prec_get w (ptr_value e) = q" "q \<noteq> null" "hashmap_get (ptracker w) (ptr_value e) = Some q"
    "mem w q = Some (Prec pr)" "pr_ptr pr = ptr_value e" "pr_ptr pr1 = ptr_value e"
    "\<And>cbs. cb_decrement cbs = Some rpc_struct_decrement_cb \<Longrightarrow> prec_decrement cbs q (dec_udata s k) w =
       (if pr_refcount pr1 = 0 then prec_delete cbs q (put_obj q (Prec pr1) w) else Inr (put_obj q (Prec pr1) w))"
    "pr_refcount pr1 = pr_refcount pr - 1" "0 \<le> pr_refcount pr1"
    "int (card (holders_of (insert (s, k) X) w (ptr_value e))) \<le> pr_refcount pr1"
    "\<And>j. origin_set pr1 j = {t. (t, j) \<in> holders_of (insert (s, k) X) w (ptr_value e)}"
    "pr_context pr1 = Some c1" "ptr_ctx_ok c1 (rt_type e)"
proof -
  let ?p = "ptr_value e"
  obtain q pr where Q: "hashmap_get (ptracker w) ?p = Some q" "mem w q = Some (Prec pr)" "q \<noteq> null"
    "pr_ptr pr = ?p" "record_ok X w ?p pr" "otype w ?p = Some (rt_type e)" "prec_get w ?p = q"
    by (rule store_inv_counted [OF inv vis cnt])
  note H = holders_insert [OF vis cnt]
  have R: "int (card (holders_of X w ?p)) \<le> pr_refcount pr"
    "\<And>j. origin_set pr j = {t. (t, j) \<in> holders_of X w ?p}"
    "\<And>c. pr_context pr = Some c \<Longrightarrow> ptr_ctx_ok c (rt_type e)"
    using Q(5,6) unfolding record_ok_def by auto
  have pos: "0 < pr_refcount pr"
    using R(1) card_Suc_Diff1 [OF holders_finite [OF inv] H(2)] by linarith
  have s: "s \<noteq> null" using vis store_inv_null [OF inv] by (auto simp: visible_entry entry_def)
  have "s \<in> origin_set pr k" using R(2) H(2) by simp
  then obtain c ctx where c: "pr_context pr = Some c" "hashmap_get (pc_keys c) k = Some ctx"
    by (rule origin_context)
  let ?prd = "pr\<lparr>pr_refcount := pr_refcount pr - 1\<rparr>" and ?w = "put_obj q (Prec (pr\<lparr>pr_refcount := pr_refcount pr - 1\<rparr>)) w"
  obtain c1 where C: "rpc_struct_decrement_cb q (Some \<lparr>ud_origin = s, ud_name = Some k, ud_free = None\<rparr>) ?w =
       Inr (put_obj q (Prec (?prd\<lparr>pr_context := Some c1\<rparr>)) ?w)" "ptr_ctx_ok c1 (rt_type e)"
    "\<And>n j. origin_set (?prd\<lparr>pr_refcount := n, pr_context := Some c1\<rparr>) j =
       (if j = k then origin_set ?prd j - {s} else origin_set ?prd j)"
    by (rule decrement_cb_effect [of ?w q ?prd c "rt_type e" k ctx s]) (use Q(3) c R(3) s in auto)
  define pr1 where "pr1 = pr\<lparr>pr_refcount := pr_refcount pr - 1, pr_context := Some c1\<rparr>"
  have same: "origin_set (pr\<lparr>pr_refcount := n\<rparr>) j = origin_set pr j" for n j by (simp add: origin_set_def)
  show thesis
  proof (rule that [OF Q(7,3,1,2,4)])
    show "prec_decrement cbs q (dec_udata s k) w =
        (if pr_refcount pr1 = 0 then prec_delete cbs q (put_obj q (Prec pr1) w) else Inr (put_obj q (Prec pr1) w))"
      if "cb_decrement cbs = Some rpc_struct_decrement_cb" for cbs
      using that Q(2,3) pos C(1) by (simp add: prec_decrement_def the_prec_def dec_udata_def pr1_def)
    show "int (card (holders_of (insert (s, k) X) w ?p)) \<le> pr_refcount pr1"
      using R(1) H(1) card_Suc_Diff1 [OF holders_finite [OF inv] H(2)] by (simp add: pr1_def)
    show "origin_set pr1 j = {t. (t, j) \<in> holders_of (insert (s, k) X) w ?p}" for j
      using C(3) [of "pr_refcount pr - 1" j] R(2) [of j] H by (auto simp: pr1_def same)
  qed (use Q(4) pos C(2) in \<open>simp_all add: pr1_def\<close>)
qed

lemma tracked_not_self:
  assumes inv: "store_inv X w" and q: "hashmap_get (ptracker w) p = Some q"
  shows "hashmap_get (ptracker w) q = None" "a \<noteq> p \<Longrightarrow> hashmap_get (ptracker w) a \<noteq> Some q"
proof -
  obtain pr where pr: "mem w q = Some (Prec pr)" "pr_ptr pr = p"
    using tracker_okD(4) [OF store_invD(1) [OF inv] q] by blast
  show "hashmap_get (ptracker w) q = None"
  proof (rule ccontr)
    assume "hashmap_get (ptracker w) q \<noteq> None"
    then obtain q' pr' where "hashmap_get (ptracker w) q = Some q'" "mem w q' = Some (Prec pr')"
      using tracker_okD(4) [OF store_invD(1) [OF inv]] by blast
    then have "record_ok X w q pr'" using store_invD(5) [OF inv] unfolding records_ok_def by blast
    then show False using pr(1) by (auto simp: record_ok_def otype_def)
  qed
  show "a \<noteq> p \<Longrightarrow> hashmap_get (ptracker w) a \<noteq> Some q"
    using tracker_okD(4) [OF store_invD(1) [OF inv], of a q] pr by auto
qed

lemma visible_not_prec:
  assumes "store_inv X w" "visible X w s k = Some e" "counted_type (rt_type e) \<or> rt_type e = RPC_string" "mem w q = Some (Prec pr)"
  shows "ptr_value e \<noteq> q"
proof -
  have "otype w (ptr_value e) = Some (rt_type e)"
    using store_invD(3) [OF assms(1)] assms(2,3) unfolding elements_ok_def by blast
  then show ?thesis using assms(3,4) by (auto simp: otype_def)
qed

text \<open>The account after the record of \<open>p\<close> was rewritten, with \<open>p\<close> still tracked or not.\<close>

lemma rewrite_record:
  assumes inv: "store_inv X w" and vis: "visible X w s k = Some e" and cnt: "counted_type (rt_type e)"
    and q: "hashmap_get (ptracker w) (ptr_value e) = Some q" "mem w q = Some (Prec pr)" "pr_ptr pr1 = ptr_value e"
    and t: "hm_inv t" "hashmap_get t = hashmap_get (ptracker w) \<and> record_ok (insert (s, k) X) w (ptr_value e) pr1 \<or>
        hashmap_get t = (hashmap_get (ptracker w))(ptr_value e := None) \<and> holders_of (insert (s, k) X) w (ptr_value e) = {}"
  shows "store_inv (insert (s, k) X) ((put_obj q (Prec pr1) w)\<lparr>ptracker := t\<rparr>)"
proof -
  let ?p = "ptr_value e" and ?X = "insert (s, k) X" and ?w = "(put_obj q (Prec pr1) w)\<lparr>ptracker := t\<rparr>"
  note I = store_invD [OF inv] and H = holders_insert [OF vis cnt]
  have sub: "hashmap_get (ptracker w) a = Some q'" if "hashmap_get t a = Some q'" for a q'
    using that t(2) by (auto split: if_splits)
  have vis': "visible Y ?w = visible Y w" for Y
    by (rule ext)+ (use q(2) in \<open>simp add: visible_def entry_def\<close>)
  have hold': "holders_of Y ?w = holders_of Y w" for Y by (rule ext) (simp add: holders_of_def vis')
  have ot: "otype ?w a = otype w a" for a using q(2) by (simp add: otype_def)
  have "tracker_ok ?w"
    unfolding tracker_ok_def
  proof (intro conjI allI impI)
    show "hm_inv (ptracker ?w)" "finite (dom (mem ?w))" using t(1) tracker_okD(2) [OF I(1)] by simp_all
    show "hashmap_get (ptracker ?w) null = None"
      using sub [of null] tracker_okD(3) [OF I(1)] by (cases "hashmap_get t null") auto
    fix a q' assume "hashmap_get (ptracker ?w) a = Some q'"
    then have a: "hashmap_get (ptracker w) a = Some q'" using sub by simp
    then show "q' \<noteq> null" using tracker_okD(4) [OF I(1)] by blast
    show "\<exists>p. mem ?w q' = Some (Prec p) \<and> pr_ptr p = a"
      using tracker_okD(4) [OF I(1) a] q(2,3) tracked_not_self(2) [OF inv q(1), of a] a by (cases "a = ?p") auto
  qed
  moreover have "structs_ok ?w" using I(2) q(2) by (auto simp: structs_ok_def)
  moreover have "elements_ok ?X ?w"
    unfolding elements_ok_def vis' ot
  proof (intro allI impI)
    fix s' k' e' assume v: "visible ?X w s' k' = Some e'"
    have "hashmap_get t (ptr_value e') \<noteq> None" if c: "counted_type (rt_type e')"
    proof -
      have "hashmap_get (ptracker w) (ptr_value e') \<noteq> None"
        using I(3) visible_insert [OF v] c unfolding elements_ok_def by blast
      moreover have "(s', k') \<in> holders_of ?X w (ptr_value e')" using v c by (auto simp: holders_of_def)
      ultimately show ?thesis using t(2) by (auto split: if_splits)
    qed
    then show "(counted_type (rt_type e') \<longrightarrow> hashmap_get (ptracker ?w) (ptr_value e') \<noteq> None) \<and>
        (counted_type (rt_type e') \<or> rt_type e' = RPC_string \<longrightarrow> otype w (ptr_value e') = Some (rt_type e'))"
      using I(3) visible_insert [OF v] unfolding elements_ok_def by simp
  qed
  moreover have "strings_owned ?X ?w"
    using I(4) unfolding strings_owned_def vis' by (meson visible_insert)
  moreover have "records_ok ?X ?w"
    unfolding records_ok_def
  proof (intro allI impI)
    fix a q' pr' assume a: "hashmap_get (ptracker ?w) a = Some q'" "mem ?w q' = Some (Prec pr')"
    then have aw: "hashmap_get (ptracker w) a = Some q'" using sub by simp
    show "record_ok ?X ?w a pr'"
    proof (cases "a = ?p")
      case True
      then have "record_ok ?X w ?p pr1" "pr' = pr1" using a aw t(2) q(1) by auto
      then show ?thesis using True by (simp add: record_ok_def hold' ot)
    next
      case False
      then have "q' \<noteq> q" using tracked_not_self(2) [OF inv q(1)] aw by blast
      then have "record_ok X w a pr'" using I(5) a(2) aw unfolding records_ok_def by simp
      then show ?thesis using False H(1) by (simp add: record_ok_def hold' ot)
    qed
  qed
  ultimately show ?thesis by (simp add: store_inv_def)
qed

section \<open>Releasing a struct\<close>

abbreviation cbs :: "env \<Rightarrow> nat \<Rightarrow> rpc_callbacks" where
  "cbs \<equiv> rpc_struct_default_prec_cbs"

lemma cbs_simps [simp]:
  "cb_decrement (cbs E n) = Some rpc_struct_decrement_cb" "cb_increment (cbs E n) = Some (rpc_struct_increment_cb E)"
  by (cases n; simp)+

text \<open>The object an element refers to goes with its last reference, and stays otherwise.\<close>

definition last_or_kept :: "store \<Rightarrow> rpc_type_t \<Rightarrow> store \<Rightarrow> bool" where
  "last_or_kept w e w' \<longleftrightarrow>
     (counted_type (rt_type e) \<longrightarrow>
        mem w' (ptr_value e) =
          (if prec_refcount w (prec_get w (ptr_value e)) = Inr 1 then None else mem w (ptr_value e)))"

text \<open>The structs that the removal of an element does not touch: all but the one it refers to and what has a
  lower rank.\<close>

definition spared :: "(addr \<Rightarrow> nat) \<Rightarrow> rpc_type_t \<Rightarrow> addr set" where
  "spared r e = {t. counted_type (rt_type e) \<longrightarrow> t \<noteq> ptr_value e \<and> r (ptr_value e) \<le> r t}"

lemma ranked_spared:
  assumes "ranked r X w" "visible X w s k = Some e" shows "{t. r s \<le> r t} \<subseteq> spared r e"
proof -
  have "r (ptr_value e) < r s" if "counted_type (rt_type e)" using assms that unfolding ranked_def by blast
  then show ?thesis by (auto simp: spared_def)
qed

text \<open>What is shown of removals with fuel \<open>n\<close>.\<close>

definition removes :: "env \<Rightarrow> (addr \<Rightarrow> nat) \<Rightarrow> nat \<Rightarrow> bool" where
  "removes E r n \<longleftrightarrow>
     (\<forall>X w s k e rs. store_inv X w \<longrightarrow> ranked r X w \<longrightarrow> mem w s = Some (Struct rs) \<longrightarrow>
        hashmap_get (rs_map rs) k = Some e \<longrightarrow> (s, k) \<notin> X \<longrightarrow> (\<forall>(t, j)\<in>X. r s \<le> r t) \<longrightarrow> r s \<le> n \<longrightarrow>
        (\<exists>w'. rpc_struct_remove (cbs E n) s (Some k) w = Inr (0, w') \<and> store_inv X w' \<and>
           mem w' s = Some (Struct (rs\<lparr>rs_map := snd (hashmap_remove (rs_map rs) k)\<rparr>)) \<and>
           frame (spared r e - {s}) w w' \<and> last_or_kept w e w'))"

lemma fold_removing:
  assumes step: "\<And>k v w. I w \<Longrightarrow> hashmap_get (T w) k = Some v \<Longrightarrow>
      \<exists>w'. body k v w = Inr w' \<and> I w' \<and> hashmap_get (T w') = (hashmap_get (T w))(k := None)"
    and "I w" "distinct (map fst es)" "hashmap_get (T w) = map_of es"
  shows "\<exists>w'. fold_run body es w = Inr w' \<and> I w' \<and> hashmap_get (T w') = Map.empty"
  using assms(2-)
proof (induction es arbitrary: w)
  case (Cons x es)
  obtain k v where [simp]: "x = (k, v)" by fastforce
  have "hashmap_get (T w) k = Some v" using Cons.prems(3) by simp
  then obtain w1 where w1: "body k v w = Inr w1" "I w1" "hashmap_get (T w1) = (hashmap_get (T w))(k := None)"
    using step [OF Cons.prems(1)] by blast
  have "map_of es k = None" using Cons.prems(2) by (simp add: map_of_eq_None_iff)
  then have "hashmap_get (T w1) = map_of es" using w1(3) Cons.prems(3) by (auto simp: fun_upd_idem)
  then show ?case using Cons.IH [OF w1(2)] Cons.prems(2) w1(1) by simp
qed simp

text \<open>A loop over the elements of a struct whose body takes out the element it is given.\<close>

lemma emptying_loop:
  assumes I0: "I w" and hmI: "\<And>w1. I w1 \<Longrightarrow> hm_inv (struct_map p w1)"
    and step: "\<And>k v w1. I w1 \<Longrightarrow> hashmap_get (struct_map p w1) k = Some v \<Longrightarrow>
      \<exists>w2. body k v w1 = Inr w2 \<and> I w2 \<and> struct_map p w2 = snd (hashmap_remove (struct_map p w1) k)"
  obtains w2 where "hashmap_foreach_all (struct_map p) body w = Inr w2" "I w2" "hashmap_get (struct_map p w2) = Map.empty"
proof -
  note hm0 = hmI [OF I0]
  obtain es where es: "mset es = mset (hm_entries (struct_map p w))"
    "hashmap_foreach_all (struct_map p) body w = fold_run body es w"
  proof (rule foreach_all_removing [where table_of = "struct_map p" and s = w and I = I and body = body, OF hm0 I0])
    fix k v w1 w2 assume a: "I w1" "hm_inv (struct_map p w1)" "hm_map (struct_map p w1) k = Some v" "body k v w1 = Inr w2"
    have "hashmap_get (struct_map p w1) k = Some v" using a(3) by (simp only: hashmap_get_map [OF a(2)])
    then obtain w' where "body k v w1 = Inr w'" "I w' \<and> struct_map p w' = snd (hashmap_remove (struct_map p w1) k)"
      using step [OF a(1)] by blast
    then show "I w2 \<and> struct_map p w2 = snd (hashmap_remove (struct_map p w1) k)" using a(4) by simp
  qed blast
  have d: "distinct (map fst es)"
    using hm_inv_distinct [OF hm0] es(1) by (metis mset_eq_imp_distinct_iff mset_map)
  then have "hashmap_get (struct_map p w) = map_of es"
    using map_of_same [OF es(1)] by (simp only: hashmap_get_map [OF hm0] hm_map_def)
  then have "\<exists>w2. fold_run body es w = Inr w2 \<and> I w2 \<and> hashmap_get (struct_map p w2) = Map.empty"
  proof (intro fold_removing [where I = I and T = "struct_map p", OF _ I0 d])
    fix k v w1 assume a: "I w1" "hashmap_get (struct_map p w1) k = Some v"
    from hm.delete [OF hmI [OF a(1)], of k]
    have "hashmap_get (snd (hashmap_remove (struct_map p w1) k)) = (hashmap_get (struct_map p w1))(k := None)"
      by auto
    then show "\<exists>w'. body k v w1 = Inr w' \<and> I w' \<and> hashmap_get (struct_map p w') = (hashmap_get (struct_map p w1))(k := None)"
      using step [OF a] by auto
  qed
  then show thesis using that es(2) by auto
qed

lemma visible_no_entry: "hashmap_get (struct_map p w) = Map.empty \<Longrightarrow> visible X w p k = None"
  by (auto simp: visible_def entry_def struct_map_def split: option.splits obj.splits)

lemma unreferenced:
  assumes "store_inv X w" "holders_of X w p = {}" "otype w p \<noteq> Some RPC_string"
    "visible X w s k = Some e" "counted_type (rt_type e) \<or> rt_type e = RPC_string"
  shows "ptr_value e \<noteq> p"
proof (cases "counted_type (rt_type e)")
  case True
  then have "(s, k) \<in> holders_of X w (ptr_value e)" using assms(4) by (auto simp: holders_of_def)
  then show ?thesis using assms(2) by auto
next
  case False
  then have "rt_type e = RPC_string" using assms(5) by simp
  then have "otype w (ptr_value e) = Some RPC_string"
    using store_invD(3) [OF assms(1)] assms(4) unfolding elements_ok_def by auto
  then show ?thesis using assms(3) by auto
qed

text \<open>Taking an object out of memory that is not one of the structs or records a frame keeps.\<close>

lemma frame_drop:
  assumes "frame K w w'" "p \<notin> K \<or> (\<forall>rs. mem w p \<noteq> Some (Struct rs))" "(\<forall>pr. mem w p \<noteq> Some (Prec pr)) \<or> (\<exists>a. hashmap_get (ptracker w) a = Some p)"
  shows "frame K w (w'\<lparr>mem := (mem w')(p := None)\<rparr>)"
proof (rule frameI)
  show "mem (w'\<lparr>mem := (mem w')(p := None)\<rparr>) t = mem w t" if "t \<in> K" "mem w t = Some (Struct rs)" for t rs
    using frameD(1) [OF assms(1) that] that assms(2) by auto
  show "mem (w'\<lparr>mem := (mem w')(p := None)\<rparr>) q = mem w q"
    if "mem w q = Some (Prec pr)" "\<And>a. hashmap_get (ptracker w) a \<noteq> Some q" for q pr
    using frameD(2) [OF assms(1) that] that assms(3) by auto
  show "hashmap_get (ptracker w) a = Some q" if "hashmap_get (ptracker (w'\<lparr>mem := (mem w')(p := None)\<rparr>)) a = Some q" for a q
    using frameD(3) [OF assms(1)] that by simp
  show "entry w t k = Some e" if "entry (w'\<lparr>mem := (mem w')(p := None)\<rparr>) t k = Some e" for t k e
    using that by (intro frameD(5) [OF assms(1)]) (simp add: entry_def split: if_splits)
qed (use frameD(6,7) [OF assms(1)] in auto)

lemma release_struct:
  assumes rem: "removes E r m" and inv: "store_inv X w" and rk: "ranked r X w" and p: "mem w p = Some (Struct rs)"
    and untr: "hashmap_get (ptracker w) p = None" and none: "holders_of X w p = {}"
    and X: "\<forall>(t, j)\<in>X. r p < r t" and m: "r p \<le> m"
  obtains w' where "rpc_struct_free_internal E (cbs E m) p w = Inr w'" "store_inv X w'" "mem w' p = None"
    "frame {t. t \<noteq> p \<and> r p \<le> r t} w w'"
proof -
  define K where "K = {t. t \<noteq> p \<and> r p \<le> r t}"
  define I where "I = (\<lambda>w1. store_inv X w1 \<and> (\<exists>mp. mem w1 p = Some (Struct (rs\<lparr>rs_map := mp\<rparr>))) \<and> frame K w w1)"
  define body where "body = (\<lambda>key (v :: rpc_type_t) w1.
      andthen (rpc_struct_remove (cbs E m) p (Some key) w1) (\<lambda>(r, w'). Inr w'))"
  have pX: "(p, k) \<notin> X" for k using X by auto
  have step: "\<exists>w2. body k v w1 = Inr w2 \<and> I w2 \<and> struct_map p w2 = snd (hashmap_remove (struct_map p w1) k)"
    if I1: "I w1" and k: "hashmap_get (struct_map p w1) k = Some v" for w1 k v
  proof -
    obtain mp where w1: "store_inv X w1" "mem w1 p = Some (Struct (rs\<lparr>rs_map := mp\<rparr>))" "frame K w w1"
      using I1 unfolding I_def by blast
    have "hashmap_get (rs_map (rs\<lparr>rs_map := mp\<rparr>)) k = Some v" using k w1(2) by (simp add: struct_map_def)
    moreover have "\<forall>(t, j)\<in>X. r p \<le> r t" using X by fastforce
    ultimately obtain w2 where w2: "rpc_struct_remove (cbs E m) p (Some k) w1 = Inr (0, w2)" "store_inv X w2"
      "mem w2 p = Some (Struct (rs\<lparr>rs_map := snd (hashmap_remove mp k)\<rparr>))" "frame (spared r v - {p}) w1 w2"
      using rem [unfolded removes_def, rule_format, OF w1(1) ranked_frame [OF rk w1(3)] w1(2) _ pX _ m, of k v]
      by auto
    have "visible X w1 p k = Some v" using k pX w1(2) by (simp add: visible_def entry_def struct_map_def)
    then have "K \<subseteq> spared r v - {p}" using ranked_spared [OF ranked_frame [OF rk w1(3)]] unfolding K_def by blast
    note w2 = w2(1-3) frame_subset [OF w2(4) this]
    show ?thesis
      using w2 frame_trans [OF w1(3) w2(4)] w1(2) by (auto simp: body_def I_def struct_map_def)
  qed
  have I0: "I w" using inv p by (auto simp: I_def intro!: exI [of _ "rs_map rs"])
  have hmI: "hm_inv (struct_map p w1)" if "I w1" for w1
    using that by (auto simp: I_def struct_map_def dest!: store_inv_struct(1))
  obtain w2 where loop: "hashmap_foreach_all (struct_map p) body w = Inr w2" "I w2" "hashmap_get (struct_map p w2) = Map.empty"
    using emptying_loop [of I w p body, OF I0 hmI step] by blast
  then obtain mp where w2: "store_inv X w2" "frame K w w2" "mem w2 p = Some (Struct (rs\<lparr>rs_map := mp\<rparr>))"
    unfolding I_def by blast
  let ?w = "w2\<lparr>mem := (mem w2)(p := None)\<rparr>"
  have p0: "p \<noteq> null" using store_inv_struct(3) [OF inv p] .
  have "rpc_struct_free_internals E (cbs E m) p w =
      Inr (put_obj p (Struct (rs\<lparr>rs_map := snd (hashmap_base_cleanup mp)\<rparr>)) w2)"
    using p p0 w2(3) loop(1) store_inv_struct(2) [OF inv p]
    by (simp add: rpc_struct_free_internals_def the_struct_def hashmap_foreach_key_safe_def body_def)
  then have free: "rpc_struct_free_internal E (cbs E m) p w = Inr ?w"
    using p0 by (simp add: rpc_struct_free_internal_def free_obj_def put_obj_def)
  have h2: "holders_of X w2 p = {}" using frame_holders [OF w2(2), of X p] none by simp
  have nrec: "hashmap_get (ptracker w2) a \<noteq> Some p" for a
    using tracker_okD(4) [OF store_invD(1) [OF w2(1)], of a p] w2(3) by auto
  have "store_inv X ?w"
  proof (rule release_unreferenced(2) [OF w2(1)])
    show "ptr_value e \<noteq> p" if "visible X w2 s k = Some e" "counted_type (rt_type e) \<or> rt_type e = RPC_string" for s k e
      using unreferenced [OF w2(1) h2 _ that] w2(3) by (simp add: otype_def)
  qed (use w2(3) loop(3) nrec frameD(4) [OF w2(2) untr] visible_no_entry in auto)
  moreover have "frame K w ?w" using p by (intro frame_drop [OF w2(2)]) (auto simp: K_def)
  ultimately show thesis using that [OF free] by (simp add: K_def)
qed

section \<open>Releasing a tracked object that nothing holds any more\<close>

lemma remove_from_null_origins: "set os \<subseteq> {null} \<Longrightarrow> remove_from_origins cb key os w = Inr w"
  by (induction os) auto

lemma onzero_body_idle:
  assumes "ctx_inv ctx" "holders ctx = []" shows "onzero_body cb key ctx w = Inr w"
proof -
  have "set (take (o_index ctx) (origins ctx)) \<subseteq> {null}"
    using assms(2) by (auto simp: holders_def filter_empty_conv)
  then show ?thesis using ctx_invD(1,2) [OF assms(1)] by (simp add: onzero_body_def remove_from_null_origins)
qed

lemma fold_idle: "(\<And>k v. (k, v) \<in> set es \<Longrightarrow> body k v s = Inr s) \<Longrightarrow> fold_run body es s = Inr s"
proof (induction es)
  case (Cons e es)
  then show ?case by (cases e) simp
qed simp

lemma onzero_loop_idle:
  assumes q: "mem w q = Some (Prec pr)" "pr_context pr = Some c" and c: "ptr_ctx_ok c t"
    and none: "\<And>k. origin_set pr k = {}"
  shows "hashmap_foreach_all (prec_keys q) (onzero_body cb) w = Inr w"
proof -
  have K: "hm_inv (pc_keys c)" "\<And>j cx. hashmap_get (pc_keys c) j = Some cx \<Longrightarrow> ctx_inv cx"
    using c unfolding ptr_ctx_ok_def by blast+
  have keys: "prec_keys q w = pc_keys c" using q by (simp add: prec_keys_def)
  have idle: "onzero_body cb k cx w = Inr w" if "(k, cx) \<in> set (hm_entries (pc_keys c))" for k cx
  proof -
    have "hashmap_get (pc_keys c) k = Some cx"
      using that hm_inv_distinct [OF K(1)] by (simp add: hashmap_get_map [OF K(1)] hm_map_def)
    moreover from this have "holders cx = []" using none [of k] q(2) by (simp add: origin_set_def)
    ultimately show ?thesis using onzero_body_idle K(2) by blast
  qed
  have "hashmap_foreach_all (prec_keys q) (onzero_body cb) w = fold_run (onzero_body cb) (hm_entries (prec_keys q w)) w"
    by (rule foreach_all_pure [where I = "\<lambda>w1. w1 = w"]) (use K(1) idle keys in auto)
  also have "\<dots> = Inr w" using idle keys by (intro fold_idle) simp
  finally show ?thesis .
qed

text \<open>The call of the release function: \<open>p\<close> is no longer tracked.\<close>

lemma freefn_releases:
  assumes rem: "removes E r m" and inv: "store_inv X w" and rk: "ranked r X w"
    and p: "otype w p = Some t" "counted_type t" "hashmap_get (ptracker w) p = None" "holders_of X w p = {}"
    and X: "\<forall>(s, j)\<in>X. r p < r s" and m: "r p \<le> m"
  obtains f w' where "rpc_freefn_of t = Some f" "call_freefn E (cbs E m) f p w = Inr w'" "store_inv X w'" "mem w' p = None"
    "frame {s. s \<noteq> p \<and> r p \<le> r s} w w'"
proof (cases "t = RPC_struct")
  case True
  then obtain rs where rs: "mem w p = Some (Struct rs)" using p(1) by (auto simp: otype_Some obj_type_eq)
  obtain w' where "rpc_struct_free_internal E (cbs E m) p w = Inr w'" "store_inv X w'" "mem w' p = None"
    "frame {s. s \<noteq> p \<and> r p \<le> r s} w w'"
    using release_struct [OF rem inv rk rs p(3,4) X m] .
  then show thesis using that [of Free_Struct] True by (simp add: rpc_freefn_of_def rpc_is_pointer_def)
next
  case False
  then have t: "t = RPC_sizedbuf \<or> t = RPC_function" using p(2) by (cases t) (simp_all add: counted_type_def rpc_is_pointer_def)
  let ?w = "w\<lparr>mem := (mem w)(p := None)\<rparr>"
  have p0: "p \<noteq> null" using p(1) store_inv_null [OF inv] by (auto simp: otype_def)
  have pg: "prec_get w p = null" using p(3) prec_get_untracked [OF store_invD(1) [OF inv]] by simp
  obtain x where x: "mem w p = Some x" "obj_type x = t" using p(1) by (auto simp: otype_Some)
  have nrec: "hashmap_get (ptracker w) a \<noteq> Some p" for a
    using tracker_okD(4) [OF store_invD(1) [OF inv], of a p] x p(2) by auto
  have vis: "visible X w p k = None" for k
    using x t by (auto simp: visible_def entry_def split: obj.splits)
  have "store_inv X ?w"
  proof (rule release_unreferenced(2) [OF inv])
    show "ptr_value e \<noteq> p" if "visible X w s k = Some e" "counted_type (rt_type e) \<or> rt_type e = RPC_string" for s k e
      using unreferenced [OF inv p(4) _ that] p(1,2) False t by auto
  qed (use x p(3) vis nrec in simp_all)
  moreover have "frame {s. s \<noteq> p \<and> r p \<le> r s} w ?w"
    using x t by (intro frame_drop [OF frame_refl]) auto
  moreover obtain f where "rpc_freefn_of t = Some f" "call_freefn E (cbs E m) f p w = Inr ?w"
    using t x p0 pg
    by (auto simp: rpc_freefn_of_def rpc_is_pointer_def rpc_sizedbuf_free_def rpc_function_free_def the_sizedbuf_def
        the_function_def free_obj_def obj_type_eq)
  ultimately show thesis using that by simp
qed

lemma delete_releases:
  assumes rem: "removes E r m" and q: "mem w q = Some (Prec pr)" "q \<noteq> null" "hashmap_get (ptracker w) p = Some q" "pr_ptr pr = p"
    and t: "hm_inv t" "hashmap_get t = (hashmap_get (ptracker w))(p := None)" "snd (hashmap_remove (ptracker w) p) = t"
    and inv: "store_inv X (w\<lparr>ptracker := t\<rparr>)" and rk: "ranked r X w"
    and p: "otype w p = Some ty" "counted_type ty" "holders_of X w p = {}"
    and c: "pr_context pr = Some c" "ptr_ctx_ok c ty" "\<And>k. origin_set pr k = {}"
    and X: "\<forall>(s, j)\<in>X. r p < r s" and m: "r p \<le> m"
  obtains w' where "prec_delete (cbs E (Suc m)) q w = Inr w'" "store_inv X w'" "mem w' p = None" "mem w' q = None"
    "frame {s. s \<noteq> p \<and> r p \<le> r s} w w'"
proof -
  define K where "K = {s. s \<noteq> p \<and> r p \<le> r s}"
  let ?w = "w\<lparr>ptracker := t\<rparr>"
  have same: "otype ?w a = otype w a" "holders_of X ?w a = holders_of X w a" "entry ?w = entry w" for a
    by (auto simp: otype_def holders_of_def visible_def entry_def fun_eq_iff split: option.splits obj.splits)
  have rk': "ranked r X ?w" using rk unfolding ranked_def visible_def same .
  have untr: "hashmap_get (ptracker ?w) p = None" using t(2) by simp
  have hold: "holders_of X ?w p = {}" and ot: "otype ?w p = Some ty" using p same by simp_all
  obtain f w1 where F: "rpc_freefn_of ty = Some f" "call_freefn E (cbs E m) f p ?w = Inr w1" "store_inv X w1" "mem w1 p = None"
    "frame K ?w w1"
    unfolding K_def by (rule freefn_releases [OF rem inv rk' ot p(2) untr hold X m])
  have nq: "hashmap_get (ptracker ?w) a \<noteq> Some q" for a
    using tracker_okD(4) [OF store_invD(1) [OF inv], of a q] t(2) q by auto
  have q1: "mem w1 q = Some (Prec pr)" using frameD(2) [OF F(5), of q pr] q(1) nq by simp
  have nq1: "hashmap_get (ptracker w1) a \<noteq> Some q" for a using frameD(3) [OF F(5), of a q] nq by blast
  have qn: "hashmap_get (ptracker w1) q = None"
  proof (rule ccontr)
    assume "hashmap_get (ptracker w1) q \<noteq> None"
    then obtain q' pr' where "hashmap_get (ptracker w1) q = Some q'" "mem w1 q' = Some (Prec pr')"
      using tracker_okD(4) [OF store_invD(1) [OF F(3)]] by blast
    then have "record_ok X w1 q pr'" using store_invD(5) [OF F(3)] unfolding records_ok_def by blast
    then show False using q1 by (auto simp: record_ok_def otype_def)
  qed
  let ?e = "w1\<lparr>mem := (mem w1)(q := None)\<rparr>"
  have "store_inv X ?e"
  proof (rule release_unreferenced(2) [OF F(3)])
    show "ptr_value e \<noteq> q" if "visible X w1 s k = Some e" "counted_type (rt_type e) \<or> rt_type e = RPC_string" for s k e
      using visible_not_prec [OF F(3) that q1] .
    show "visible X w1 q k = None" for k using q1 by (simp add: visible_def entry_def)
  qed (use q1 qn nq1 in simp_all)
  moreover have "prec_delete (cbs E (Suc m)) q w = Inr ?e"
    using q(1,2,4) t(3) c(1) F(1,2) q1 c(2)
    by (simp add: prec_delete_def the_prec_def rpc_struct_onzero_cb_def prec_context_get_def
        onzero_loop_idle [of ?w q pr c ty, OF _ c] rpc_struct_prec_ctx_destroy_def ptr_ctx_ok_def prec_ptr_def
        prec_context_set_def free_obj_def put_obj_def)
  moreover have "frame K w w1"
  proof (rule frameI)
    show "mem w1 s = mem w s" if "s \<in> K" "mem w s = Some (Struct rs)" for s rs
      using frameD(1) [OF F(5), of s rs] that by simp
    show "mem w1 q' = mem w q'" if "mem w q' = Some (Prec p')" "\<And>a. hashmap_get (ptracker w) a \<noteq> Some q'" for q' p'
      using frameD(2) [OF F(5), of q' p'] that t(2) by auto
    show "hashmap_get (ptracker w) a = Some q'" if "hashmap_get (ptracker w1) a = Some q'" for a q'
      using frameD(3) [OF F(5) that] t(2) by (auto split: if_splits)
    show "entry w s k = Some e" if "entry w1 s k = Some e" for s k e
      using frameD(5) [OF F(5) that] same(3) by simp
  qed (use frameD(6,7) [OF F(5)] in simp_all)
  then have "frame K w ?e" by (rule frame_drop) (use q in auto)
  moreover have "mem ?e p = None" "mem ?e q = None" using F(4) by simp_all
  ultimately show thesis using that by (simp add: K_def)
qed

section \<open>Removing an element\<close>

lemma exempt_uncounted:
  assumes inv: "store_inv X w" and vis: "visible X w s k = Some e" and cnt: "\<not> counted_type (rt_type e)"
  shows "store_inv (insert (s, k) X) w"
proof -
  note I = store_invD [OF inv]
  have "holders_of (insert (s, k) X) w a = holders_of X w a" for a
    using vis cnt by (auto simp: holders_of_def visible_def split: if_splits)
  then have "record_ok (insert (s, k) X) w = record_ok X w" by (simp add: record_ok_def fun_eq_iff)
  moreover have "elements_ok (insert (s, k) X) w"
    using I(3) unfolding elements_ok_def by (blast dest: visible_insert)
  moreover have "strings_owned (insert (s, k) X) w"
    using I(4) unfolding strings_owned_def by (meson visible_insert)
  ultimately show ?thesis using I by (simp add: store_inv_def records_ok_def)
qed

lemma release_string:
  assumes inv: "store_inv X w" and vis: "visible X w s k = Some e" and str: "rt_type e = RPC_string"
  obtains w' where "free_obj (ptr_value e) w = Inr w'" "store_inv (insert (s, k) X) w'" "frame UNIV w w'"
proof -
  let ?p = "ptr_value e"
  obtain str0 where str0: "mem w ?p = Some (Cstring str0)" by (rule store_inv_string [OF inv vis str])
  have inv': "store_inv (insert (s, k) X) w" using exempt_uncounted [OF inv vis] str by simp
  note I = store_invD [OF inv']
  have nrec: "hashmap_get (ptracker w) a \<noteq> Some ?p" for a
    using tracker_okD(4) [OF I(1), of a ?p] str0 by auto
  have untr: "hashmap_get (ptracker w) ?p = None"
  proof (rule ccontr)
    assume "hashmap_get (ptracker w) ?p \<noteq> None"
    then obtain q pr where "hashmap_get (ptracker w) ?p = Some q" "mem w q = Some (Prec pr)"
      using tracker_okD(4) [OF I(1)] by blast
    then have "record_ok (insert (s, k) X) w ?p pr" using I(5) unfolding records_ok_def by blast
    then show False using str0 by (auto simp: record_ok_def otype_def)
  qed
  have none: "ptr_value e' \<noteq> ?p"
    if v: "visible (insert (s, k) X) w s' k' = Some e'" and t: "counted_type (rt_type e') \<or> rt_type e' = RPC_string" for s' k' e'
  proof
    assume eq: "ptr_value e' = ?p"
    have "otype w (ptr_value e') = Some (rt_type e')"
      using I(3) v t unfolding elements_ok_def by blast
    then have "rt_type e' = RPC_string" using eq str0 by (simp add: otype_def)
    then have "s = s' \<and> k = k'"
      using store_invD(4) [OF inv] vis visible_insert [OF v] str eq unfolding strings_owned_def by metis
    then show False using v by (simp add: visible_def)
  qed
  note R = release_unreferenced [OF inv' _ untr none _ nrec]
  have "visible (insert (s, k) X) w ?p j = None" for j using str0 by (simp add: visible_def entry_def)
  moreover have "frame UNIV w (w\<lparr>mem := (mem w)(?p := None)\<rparr>)" using str0 by (intro frame_drop) auto
  ultimately show thesis using that R str0 by simp
qed

lemma release_counted:
  assumes IH: "\<And>m. n = Suc m \<Longrightarrow> removes E r m" and inv: "store_inv X w" and rk: "ranked r X w"
    and vis: "visible X w s k = Some e" and cnt: "counted_type (rt_type e)"
    and X: "\<forall>(t, j)\<in>X. r s \<le> r t" and n: "r s \<le> n"
  obtains w' where "prec_decrement (cbs E n) (prec_get w (ptr_value e)) (dec_udata s k) w = Inr w'"
    "store_inv (insert (s, k) X) w'" "frame (spared r e) w w'" "last_or_kept w e w'"
proof -
  let ?p = "ptr_value e" and ?X = "insert (s, k) X"
  obtain q pr pr1 c1 where D: "prec_get w ?p = q" "q \<noteq> null" "hashmap_get (ptracker w) ?p = Some q"
    "mem w q = Some (Prec pr)" "pr_ptr pr = ?p" "pr_ptr pr1 = ?p"
    "\<And>cb. cb_decrement cb = Some rpc_struct_decrement_cb \<Longrightarrow> prec_decrement cb q (dec_udata s k) w =
       (if pr_refcount pr1 = 0 then prec_delete cb q (put_obj q (Prec pr1) w) else Inr (put_obj q (Prec pr1) w))"
    "pr_refcount pr1 = pr_refcount pr - 1" "0 \<le> pr_refcount pr1"
    "int (card (holders_of ?X w ?p)) \<le> pr_refcount pr1"
    "\<And>j. origin_set pr1 j = {t. (t, j) \<in> holders_of ?X w ?p}"
    "pr_context pr1 = Some c1" "ptr_ctx_ok c1 (rt_type e)"
    by (rule decrement_effect [OF inv vis cnt]) blast
  have ot: "otype w ?p = Some (rt_type e)"
    using store_invD(3) [OF inv] vis cnt unfolding elements_ok_def by blast
  have rank: "r ?p < r s" using rk vis cnt unfolding ranked_def by blast
  note hm = tracker_okD(1) [OF store_invD(1) [OF inv]]
  have nq: "q \<noteq> a" if "mem w a = Some (Struct rs)" for a rs using that D(4) by auto
  have qp: "q \<noteq> ?p" using ot cnt D(4) by (auto simp: otype_def)
  have count: "prec_refcount w (prec_get w ?p) = Inr (pr_refcount pr)"
    using D(1,2,4) by (simp add: prec_refcount_def the_prec_def)
  let ?w = "put_obj q (Prec pr1) w"
  have frame1: "frame UNIV w ?w"
  proof (rule frameI)
    show "mem ?w q' = mem w q'" if "\<And>a. hashmap_get (ptracker w) a \<noteq> Some q'" for q' using that [of ?p] D(3) by auto
  qed (use nq D(4) entry_put_prec [OF D(4)] in auto)
  show thesis
  proof (cases "pr_refcount pr1 = 0")
    case False
    then have "record_ok ?X w ?p pr1"
      using D(9,10,11,12,13) ot cnt by (simp add: record_ok_def)
    then have "store_inv ?X (?w\<lparr>ptracker := ptracker w\<rparr>)"
      using rewrite_record [OF inv vis cnt D(3,4,6) hm] by blast
    moreover have "?w\<lparr>ptracker := ptracker w\<rparr> = ?w" by (simp add: put_obj_def)
    ultimately show thesis
      using that [of ?w] D(1,7,8) False frame_subset [OF frame1, of "spared r e"] qp count
      by (simp add: last_or_kept_def)
  next
    case True
    obtain m where m: "n = Suc m" using rank n by (cases n) auto
    obtain d t where rem: "hashmap_remove (ptracker w) ?p = (d, t)" by fastforce
    note M = hm.delete_result [OF hm rem]
    have fin: "finite (holders_of ?X w ?p)" by (rule holders_finite [OF inv])
    then have none: "holders_of ?X w ?p = {}" using D(10) True by simp
    have inv': "store_inv ?X (?w\<lparr>ptracker := t\<rparr>)"
      using rewrite_record [OF inv vis cnt D(3,4,6) M(1)] M(3) none by blast
    have rk': "ranked r ?X ?w"
      using ranked_insert [OF ranked_frame [OF rk frame1]] .
    have none': "holders_of ?X ?w ?p = {}" using frame_holders [OF frame1, of ?X ?p] none by simp
    have ot': "otype ?w ?p = Some (rt_type e)" using ot D(4) by (auto simp: otype_def)
    obtain w' where W: "prec_delete (cbs E (Suc m)) q ?w = Inr w'" "store_inv ?X w'" "mem w' ?p = None" "mem w' q = None"
      "frame {t. t \<noteq> ?p \<and> r ?p \<le> r t} ?w w'"
    proof (rule delete_releases [OF IH [OF m] _ D(2) _ D(6) M(1) _ _ inv' rk' ot' cnt none' D(12,13)])
      show "mem ?w q = Some (Prec pr1)" by simp
      show "hashmap_get (ptracker ?w) ?p = Some q" "hashmap_get t = (hashmap_get (ptracker ?w))(?p := None)"
        "snd (hashmap_remove (ptracker ?w) ?p) = t"
        using D(3) M(3) rem by simp_all
      show "origin_set pr1 j = {}" for j using D(11) none by simp
      show "\<forall>(t, j)\<in>?X. r ?p < r t" using X rank by fastforce
      show "r ?p \<le> m" using rank n m by simp
    qed
    have "frame (spared r e) ?w w'" using cnt by (intro frame_subset [OF W(5)]) (auto simp: spared_def)
    then have "frame (spared r e) w w'" using frame_trans frame_subset [OF frame1] by blast
    then show thesis using that [of w'] W(1,2,3) D(1,7,8) True m count by (simp add: last_or_kept_def)
  qed
qed

lemma removal_step:
  assumes IH: "\<And>m. n = Suc m \<Longrightarrow> removes E r m" shows "removes E r n"
  unfolding removes_def
proof (intro allI impI)
  fix X w s k e rs
  assume inv: "store_inv X w" and rk: "ranked r X w" and s: "mem w s = Some (Struct rs)"
    and e: "hashmap_get (rs_map rs) k = Some e" and X: "(s, k) \<notin> X" "\<forall>(t, j)\<in>X. r s \<le> r t" and n: "r s \<le> n"
  have vis: "visible X w s k = Some e" using s e X(1) by (simp add: visible_def entry_def)
  let ?dec = "if counted_type (rt_type e)
      then prec_decrement (cbs E n) (prec_get w (ptr_value e)) (Some \<lparr>ud_origin = s, ud_name = Some k, ud_free = None\<rparr>) w
      else if rt_type e = RPC_string then free_obj (ptr_value e) w else Inr w"
  obtain w1 where w1: "?dec = Inr w1" "store_inv (insert (s, k) X) w1" "frame (spared r e) w w1" "last_or_kept w e w1"
  proof (cases "counted_type (rt_type e)")
    case True
    then show thesis
      using release_counted [OF IH inv rk vis True X(2) n] that by (simp add: dec_udata_def) blast
  next
    case False
    then have "last_or_kept w e w2" for w2 by (simp add: last_or_kept_def)
    note that = that [OF _ _ _ this]
    show thesis
    proof (cases "rt_type e = RPC_string")
      case True
      then show thesis
        using release_string [OF inv vis True] that False by simp (metis frame_subset subset_UNIV)
    qed (use exempt_uncounted [OF inv vis False] that False in simp)
  qed
  have s1: "mem w1 s = Some (Struct rs)" using frameD(1) [OF w1(3) _ s] ranked_spared [OF rk vis] by blast
  have s0: "s \<noteq> null" using store_inv_struct(3) [OF inv s] .
  have hm: "hm_inv (rs_map rs)" using store_inv_struct(1) [OF inv s] .
  obtain m where rem: "hashmap_remove (rs_map rs) k = (Some e, m)" using hm.delete [OF hm, of k] e by auto
  let ?w = "put_obj s (Struct (rs\<lparr>rs_map := m\<rparr>)) w1"
  have "rpc_struct_remove (cbs E n) s (Some k) w = Inr (0, ?w)"
    using s s0 e w1(1) s1 rem by (simp add: rpc_struct_remove_def the_struct_def)
  moreover have "store_inv X ?w" by (rule remove_exempt_entry [OF w1(2) s1 X(1) rem])
  moreover have "frame (spared r e - {s}) w1 ?w"
  proof (rule frameI)
    show "mem ?w q = mem w1 q" if "mem w1 q = Some (Prec p)" for q p using that s1 by auto
    show "entry w1 t j = Some a" if "entry ?w t j = Some a" for t j a
      using that s1 hm.delete_result(3) [OF hm rem] by (auto simp: entry_put_struct split: if_splits) (simp add: entry_def)
  qed (use s1 in auto)
  then have "frame (spared r e - {s}) w ?w"
    using frame_trans frame_subset [OF w1(3), of "spared r e - {s}"] by blast
  moreover have "last_or_kept w e ?w"
  proof (cases "counted_type (rt_type e)")
    case True
    then have "ptr_value e \<noteq> s" using rk vis unfolding ranked_def by blast
    then show ?thesis using w1(4) by (simp add: last_or_kept_def)
  qed (simp add: last_or_kept_def)
  ultimately show "\<exists>w'. rpc_struct_remove (cbs E n) s (Some k) w = Inr (0, w') \<and> store_inv X w' \<and>
      mem w' s = Some (Struct (rs\<lparr>rs_map := snd (hashmap_remove (rs_map rs) k)\<rparr>)) \<and>
      frame (spared r e - {s}) w w' \<and> last_or_kept w e w'"
    using rem by auto
qed

lemma all_removes: "removes E r n"
proof (induction n)
  case 0
  show ?case by (rule removal_step) simp
next
  case (Suc n)
  show ?case by (rule removal_step) (use Suc in simp)
qed

text \<open>Counted elements refer to objects of lower rank, so that no struct contains itself.\<close>

definition nested :: "(addr \<Rightarrow> nat) \<Rightarrow> store \<Rightarrow> bool" where
  "nested r w \<longleftrightarrow> (\<forall>s k e. entry w s k = Some e \<longrightarrow> counted_type (rt_type e) \<longrightarrow> r (ptr_value e) < r s)"

lemma nested_ranked: "nested r w \<longleftrightarrow> ranked r {} w"
  by (simp add: nested_def ranked_def visible_def)

lemma remove_nested:
  assumes "store_inv {} w" "nested r w" "mem w s = Some (Struct rs)" "hashmap_get (rs_map rs) k = Some e" "r s \<le> n"
  obtains w' where "rpc_struct_remove (rpc_struct_default_prec_cbs E n) s (Some k) w = Inr (0, w')" "store_inv {} w'"
    "mem w' s = Some (Struct (rs\<lparr>rs_map := snd (hashmap_remove (rs_map rs) k)\<rparr>))"
    "frame (spared r e - {s}) w w'" "last_or_kept w e w'"
    "hashmap_get (snd (hashmap_remove (rs_map rs) k)) = (hashmap_get (rs_map rs))(k := None)"
proof -
  have rk: "ranked r {} w" using assms(2) by (simp add: nested_ranked)
  have "hashmap_get (snd (hashmap_remove (rs_map rs) k)) = (hashmap_get (rs_map rs))(k := None)"
    using hm.delete [OF store_inv_struct(1) [OF assms(1,3)], of k] by auto
  then show thesis
    using that all_removes [of E r n, unfolded removes_def, rule_format, OF assms(1) rk assms(3,4) _ _ assms(5)] by auto
qed

end
