(* ===== verification/Struct_Build.thy ===== *)
theory Struct_Build
  imports Struct_Inv
begin

text \<open>
  Building stores: new objects, new records of the tracker and new elements keep the invariant. An
  allocator that returns fresh addresses and room in the tables are what these operations need.
\<close>

section \<open>New objects\<close>

lemma untracked_if_absent:
  assumes inv: "store_inv X w" and p: "mem w p = None"
  shows "hashmap_get (ptracker w) p = None" "hashmap_get (ptracker w) a \<noteq> Some p"
    "visible X w s k = Some e \<Longrightarrow> counted_type (rt_type e) \<or> rt_type e = RPC_string \<Longrightarrow> ptr_value e \<noteq> p"
proof -
  note I = store_invD [OF inv]
  show "hashmap_get (ptracker w) p = None"
  proof (rule ccontr)
    assume "hashmap_get (ptracker w) p \<noteq> None"
    then obtain q pr where "hashmap_get (ptracker w) p = Some q" "mem w q = Some (Prec pr)"
      using tracker_okD(4) [OF I(1)] by blast
    then have "record_ok X w p pr" using I(5) unfolding records_ok_def by blast
    then show False using p by (auto simp: record_ok_def otype_def)
  qed
  show "hashmap_get (ptracker w) a \<noteq> Some p" using tracker_okD(4) [OF I(1), of a p] p by auto
  show "ptr_value e \<noteq> p" if "visible X w s k = Some e" "counted_type (rt_type e) \<or> rt_type e = RPC_string"
  proof -
    have "otype w (ptr_value e) = Some (rt_type e)"
      using I(3) that unfolding elements_ok_def by blast
    then show ?thesis using p by (auto simp: otype_def)
  qed
qed

lemma add_object:
  assumes inv: "store_inv X w" and p: "mem w p = None" "p \<noteq> null"
    and x: "\<And>rs. x = Struct rs \<Longrightarrow> hm_inv (rs_map rs) \<and> hashmap_get (rs_map rs) = Map.empty \<and> rs_destructor rs = null"
      "\<And>pr. x \<noteq> Prec pr"
  shows "store_inv X (put_obj p x w)"
proof -
  note I = store_invD [OF inv] and U = untracked_if_absent [OF inv p(1)]
  show ?thesis
  proof (rule store_inv_cong [OF inv])
    show "visible X (put_obj p x w) s k = visible X w s k" for s k
      using p x(1) by (cases x) (auto simp: visible_def entry_def)
    show "tracker_ok (put_obj p x w)" using p x(2) by (intro tracker_ok_put [OF I(1)]) auto
    show "structs_ok (put_obj p x w)" using I(2) p x(1) by (auto simp: structs_ok_def)
    show "otype (put_obj p x w) (ptr_value e) = otype w (ptr_value e)"
      if "visible X w s k = Some e" "counted_type (rt_type e) \<or> rt_type e = RPC_string" for s k e
      using U(3) [OF that] by simp
    show "mem (put_obj p x w) q = mem w q \<and> otype (put_obj p x w) ptr = otype w ptr"
      if "hashmap_get (ptracker w) ptr = Some q" for ptr q
      using U(1,2) that by auto
  qed simp
qed

lemma new_obj_fresh:
  assumes "allocator (e_malloc E)" "store_inv X w" "card (dom (mem w)) < 2 ^ 63"
  obtains p where "new_obj E x w = Inr (p, put_obj p x w)" "mem w p = None" "p \<noteq> null" "p = e_malloc E (mem w)"
  using allocator.malloc_fresh [OF assms(1) tracker_okD(2) [OF store_invD(1) [OF assms(2)]] assms(3)]
  by (intro that [of "e_malloc E (mem w)"]) (simp_all add: new_obj_def)

lemma store_inv_entropy: "store_inv X w \<Longrightarrow> store_inv X (w\<lparr>entropy := rnd\<rparr>)"
proof -
  have "otype (w\<lparr>entropy := rnd\<rparr>) = otype w" by (rule ext) (simp add: otype_def)
  moreover have "visible Y (w\<lparr>entropy := rnd\<rparr>) = visible Y w" for Y
    by (rule ext)+ (simp add: visible_def entry_def)
  ultimately show "store_inv X w \<Longrightarrow> store_inv X (w\<lparr>entropy := rnd\<rparr>)"
    by (simp add: store_inv_def tracker_ok_def structs_ok_def elements_ok_def strings_owned_def records_ok_def
        record_ok_def holders_of_def)
qed

section \<open>IDs\<close>

lemma make_ID_chars: "make_ID bs rnd = Inr (cs, rnd') \<Longrightarrow> length cs = length bs \<and> set cs \<subseteq> set ID_alphabet"
proof (induction bs arbitrary: rnd cs)
  case (Cons b bs)
  obtain b' r1 cs' where c: "make_ID bs r1 = Inr (cs', rnd')" "cs = ID_char b' # cs'"
    using Cons.prems by (auto simp: andthen_eq_Inr)
  have "unat ((scast b' :: size_t) mod 36) < 36"
    by (simp add: unat_mod)
  then have "ID_char b' \<in> set ID_alphabet" unfolding ID_char_def by (intro nth_mem) (simp add: ID_alphabet_def)
  then show ?case using Cons.IH [OF c(1)] c(2) by simp
qed simp

lemma alphabet_no_NUL: "CHR 0x00 \<notin> set ID_alphabet"
  by (simp add: ID_alphabet_def)

lemma c_string_terminated: "CHR 0x00 \<notin> set cs \<Longrightarrow> c_string (cs @ [CHR 0x00]) = Inr cs"
proof -
  assume "CHR 0x00 \<notin> set cs"
  then have "takeWhile (\<lambda>c. c \<noteq> CHR 0x00) (cs @ [CHR 0x00]) = cs" by (induction cs) auto
  then show "c_string (cs @ [CHR 0x00]) = Inr cs" by (simp add: c_string_def)
qed

lemma make_ID_enough:
  assumes "\<And>b. b \<in> set bs \<Longrightarrow> b \<noteq> 0" shows "\<exists>cs. make_ID bs rnd = Inr (cs, rnd)"
  using assms
proof (induction bs)
  case (Cons b bs)
  then obtain cs where "make_ID bs rnd = Inr (cs, rnd)" by auto
  then show ?case using Cons.prems [of b] by (cases rnd) simp_all
qed simp

lemma create_effect:
  assumes E: "allocator (e_malloc E)" and inv: "store_inv X w" and room: "card (dom (mem w)) < 2 ^ 63"
    and run: "rpc_struct_create E w = Inr (s, w')"
  obtains ID rnd where "length ID = 64" "set ID \<subseteq> set ID_alphabet"
    "w' = put_obj s (Struct \<lparr>rs_map = string_map, rs_ID = ID @ [CHR 0x00], rs_copyof = null, rs_destructor = null\<rparr>)
      (w\<lparr>entropy := rnd\<rparr>)"
    "mem w s = None" "s \<noteq> null" "store_inv X w'"
proof -
  let ?x = "\<lambda>ID. Struct \<lparr>rs_map = string_map, rs_ID = ID @ [CHR 0x00], rs_copyof = null, rs_destructor = null\<rparr>"
  have len: "\<not> length (entropy w) < 64"
    using run by (auto simp: rpc_struct_create_def RPC_STRUCT_ID_SIZE_def split: if_splits)
  then obtain ID rnd where ID: "make_ID (take 64 (entropy w)) (drop 64 (entropy w)) = Inr (ID, rnd)"
    "new_obj E (?x ID) (w\<lparr>entropy := rnd\<rparr>) = Inr (s, w')"
    using run by (auto simp: rpc_struct_create_def RPC_STRUCT_ID_SIZE_def Let_def andthen_eq_Inr)
  have inv': "store_inv X (w\<lparr>entropy := rnd\<rparr>)" by (rule store_inv_entropy [OF inv])
  have "card (dom (mem (w\<lparr>entropy := rnd\<rparr>))) < 2 ^ 63" using room by simp
  then obtain p where p: "new_obj E (?x ID) (w\<lparr>entropy := rnd\<rparr>) = Inr (p, put_obj p (?x ID) (w\<lparr>entropy := rnd\<rparr>))"
    "mem (w\<lparr>entropy := rnd\<rparr>) p = None" "p \<noteq> null"
    using new_obj_fresh [OF E inv'] by metis
  then have s: "s = p" "w' = put_obj s (?x ID) (w\<lparr>entropy := rnd\<rparr>)" using ID(2) by simp_all
  have "store_inv X w'"
    unfolding s(2) using p s(1) string_map_ok by (intro add_object [OF inv']) auto
  then show thesis
    using that [OF _ _ s(2)] make_ID_chars [OF ID(1)] len p(2,3) s(1) by simp
qed

section \<open>New records\<close>

lemma holders_untracked:
  assumes "store_inv X w" "hashmap_get (ptracker w) p = None" shows "holders_of X w p = {}"
  using store_invD(3) [OF assms(1)] assms(2) unfolding elements_ok_def holders_of_def by blast

lemma new_record:
  assumes inv: "store_inv X w" and p: "otype w p = Some t" "counted_type t" "hashmap_get (ptracker w) p = None" "p \<noteq> null"
    and q: "mem w q = None" "q \<noteq> null" and tab: "hm_inv tab" "hashmap_get tab = (hashmap_get (ptracker w))(p \<mapsto> q)"
    and ok: "tracker_ok ((put_obj q (Prec \<lparr>pr_ptr = p, pr_context = None, pr_refcount = 0\<rparr>) w)\<lparr>ptracker := tab\<rparr>)"
  shows "store_inv X ((put_obj q (Prec \<lparr>pr_ptr = p, pr_context = None, pr_refcount = 0\<rparr>) w)\<lparr>ptracker := tab\<rparr>)"
proof -
  let ?pr = "\<lparr>pr_ptr = p, pr_context = None, pr_refcount = 0\<rparr>"
  let ?w = "(put_obj q (Prec \<lparr>pr_ptr = p, pr_context = None, pr_refcount = 0\<rparr>) w)\<lparr>ptracker := tab\<rparr>"
  note I = store_invD [OF inv] and U = untracked_if_absent [OF inv q(1)]
  have vis: "visible X ?w = visible X w" by (rule ext)+ (simp add: visible_def entry_def q(1))
  have hold: "holders_of X ?w = holders_of X w" by (rule ext) (simp add: holders_of_def vis)
  have ot: "otype ?w a = (if a = q then Some RPC_none else otype w a)" for a by (simp add: otype_def)
  have pq: "p \<noteq> q" using p(1) q(1) by (auto simp: otype_def)
  have "structs_ok ?w" using I(2) q by (auto simp: structs_ok_def)
  moreover have "elements_ok X ?w"
    unfolding elements_ok_def vis
  proof (intro allI impI)
    fix s k e assume v: "visible X w s k = Some e"
    show "(counted_type (rt_type e) \<longrightarrow> hashmap_get (ptracker ?w) (ptr_value e) \<noteq> None) \<and>
        (counted_type (rt_type e) \<or> rt_type e = RPC_string \<longrightarrow> otype ?w (ptr_value e) = Some (rt_type e))"
      using I(3) v U(3) [OF v] tab(2) unfolding elements_ok_def by (auto simp: ot)
  qed
  moreover have "strings_owned X ?w" using I(4) unfolding strings_owned_def vis .
  moreover have "records_ok X ?w"
    unfolding records_ok_def
  proof (intro allI impI)
    fix a q' pr' assume a: "hashmap_get (ptracker ?w) a = Some q'" "mem ?w q' = Some (Prec pr')"
    show "record_ok X ?w a pr'"
    proof (cases "a = p")
      case True
      then have "pr' = ?pr" using a tab(2) by simp
      then show ?thesis
        using True p holders_untracked [OF inv p(3)] pq by (simp add: record_ok_def hold ot origin_set_def)
    next
      case False
      then have aw: "hashmap_get (ptracker w) a = Some q'" using a tab(2) by simp
      then have "q' \<noteq> q" "a \<noteq> q" using U(1,2) by auto
      then have "record_ok X w a pr'" using I(5) a(2) aw unfolding records_ok_def by simp
      then show ?thesis using \<open>a \<noteq> q\<close> by (simp add: record_ok_def hold ot)
    qed
  qed
  ultimately show ?thesis using ok by (simp add: store_inv_def)
qed

section \<open>New elements\<close>

lemma visible_put_entry:
  assumes "mem w s = Some (Struct rs)" "hashmap_get m = (hashmap_get (rs_map rs))(k \<mapsto> e)" "(s, k) \<notin> X"
  shows "visible X (put_obj s (Struct (rs\<lparr>rs_map := m\<rparr>)) w) t j = (if t = s \<and> j = k then Some e else visible X w t j)"
  using assms by (auto simp: visible_def entry_put_struct) (simp add: entry_def)

text \<open>A value, a raw pointer, or a string that no element has.\<close>

lemma add_uncounted:
  assumes inv: "store_inv X w" and s: "mem w s = Some (Struct rs)" and new: "entry w s k = None" "(s, k) \<notin> X"
    and m: "hm_inv m" "hashmap_get m = (hashmap_get (rs_map rs))(k \<mapsto> e)" and e: "\<not> counted_type (rt_type e)"
    and str: "rt_type e = RPC_string \<Longrightarrow> otype w (ptr_value e) = Some RPC_string \<and>
      (\<forall>t j f. visible X w t j = Some f \<longrightarrow> rt_type f = RPC_string \<longrightarrow> ptr_value f \<noteq> ptr_value e)"
  shows "store_inv X (put_obj s (Struct (rs\<lparr>rs_map := m\<rparr>)) w)"
proof -
  let ?w = "put_obj s (Struct (rs\<lparr>rs_map := m\<rparr>)) w"
  note I = store_invD [OF inv] and V = visible_put_entry [OF s m(2) new(2)]
  have none: "visible X w s k = None" using new by (simp add: visible_def)
  have ot: "otype ?w a = otype w a" for a using s by (simp add: otype_def)
  have hold: "holders_of X ?w = holders_of X w"
    by (rule ext) (use none e in \<open>auto simp: holders_of_def V\<close>)
  have "tracker_ok ?w" using s by (intro tracker_ok_put [OF I(1)]) auto
  moreover have "structs_ok ?w" using I(2) s m(1) by (auto simp: structs_ok_def)
  moreover have "elements_ok X ?w"
    using I(3) e str unfolding elements_ok_def V ot by (simp split: if_splits)
  moreover have "strings_owned X ?w"
    unfolding strings_owned_def V
  proof (intro allI impI)
    fix t j f t' j' f'
    assume "(if t = s \<and> j = k then Some e else visible X w t j) = Some f"
      "(if t' = s \<and> j' = k then Some e else visible X w t' j') = Some f'"
      "rt_type f = RPC_string" "rt_type f' = RPC_string" "ptr_value f = ptr_value f'"
    then show "t = t' \<and> j = j'"
      using I(4) str unfolding strings_owned_def by (auto split: if_splits; metis)
  qed
  moreover have "records_ok X ?w"
    unfolding records_ok_def
  proof (intro allI impI)
    fix a q pr assume a: "hashmap_get (ptracker ?w) a = Some q" "mem ?w q = Some (Prec pr)"
    then have "mem w q = Some (Prec pr)" by (auto split: if_splits)
    then have "record_ok X w a pr" using I(5) a(1) unfolding records_ok_def by simp
    then show "record_ok X ?w a pr" by (simp add: record_ok_def hold ot del: otype_put)
  qed
  ultimately show ?thesis by (simp add: store_inv_def)
qed

text \<open>A reference to a tracked object, together with the record that counts it.\<close>

lemma add_counted:
  assumes inv: "store_inv X w" and s: "mem w s = Some (Struct rs)" and new: "entry w s k = None" "(s, k) \<notin> X"
    and m: "hm_inv m" "hashmap_get m = (hashmap_get (rs_map rs))(k \<mapsto> e)"
    and e: "counted_type (rt_type e)" "otype w (ptr_value e) = Some (rt_type e)"
    and q: "hashmap_get (ptracker w) (ptr_value e) = Some q" "mem w q = Some (Prec pr)"
    and pr: "pr_ptr pr1 = ptr_value e" "pr_refcount pr1 = pr_refcount pr + 1"
      "\<And>j. origin_set pr1 j = (if j = k then insert s (origin_set pr j) else origin_set pr j)"
      "\<And>c. pr_context pr1 = Some c \<Longrightarrow> ptr_ctx_ok c (rt_type e)"
  shows "store_inv X (put_obj s (Struct (rs\<lparr>rs_map := m\<rparr>)) (put_obj q (Prec pr1) w))"
proof -
  let ?w1 = "put_obj q (Prec pr1) w" and ?w = "put_obj s (Struct (rs\<lparr>rs_map := m\<rparr>)) (put_obj q (Prec pr1) w)"
  note I = store_invD [OF inv]
  have sq: "s \<noteq> q" using s q(2) by auto
  then have s1: "mem ?w1 s = Some (Struct rs)" using s by simp
  have V: "visible X ?w t j = (if t = s \<and> j = k then Some e else visible X w t j)" for t j
    using visible_put_entry [OF s1 m(2) new(2)] q(2) by (simp add: visible_def entry_def)
  have none: "visible X w s k = None" using new by (simp add: visible_def)
  have ot: "otype ?w a = otype w a" for a using s q(2) by (simp add: otype_def)
  have hold: "holders_of X ?w a = (if a = ptr_value e then insert (s, k) (holders_of X w a) else holders_of X w a)" for a
    using none e(1) by (auto simp: holders_of_def V split: if_splits)
  have sk: "(s, k) \<notin> holders_of X w (ptr_value e)" using none by (simp add: holders_of_def)
  have ppr: "pr_ptr pr = ptr_value e" using tracker_okD(4) [OF I(1) q(1)] q(2) by auto
  have "tracker_ok ?w1" by (rule tracker_ok_prec [OF I(1) q(2)]) (simp add: pr(1) ppr)
  then have "tracker_ok ?w" by (rule tracker_ok_put [where x = "Struct rs"]) (simp_all add: s sq)
  moreover have "structs_ok ?w" using I(2) s m(1) q(2) by (auto simp: structs_ok_def)
  moreover have "elements_ok X ?w"
    using I(3) e q(1) unfolding elements_ok_def V ot by (simp split: if_splits)
  moreover have "strings_owned X ?w"
    using I(4) e(1) unfolding strings_owned_def V by (auto split: if_splits)
  moreover have "records_ok X ?w"
    unfolding records_ok_def
  proof (intro allI impI)
    fix a q' pr' assume a: "hashmap_get (ptracker ?w) a = Some q'" "mem ?w q' = Some (Prec pr')"
    then have aw: "hashmap_get (ptracker w) a = Some q'" by simp
    show "record_ok X ?w a pr'"
    proof (cases "a = ptr_value e")
      case True
      then have p': "pr' = pr1" using a aw q(1) sq by auto
      have R: "record_ok X w a pr" using I(5) q True unfolding records_ok_def by blast
      then have "int (card (insert (s, k) (holders_of X w a))) \<le> pr_refcount pr1"
        using sk True pr(2) card_insert_disjoint [OF holders_finite [OF inv]] by (simp add: record_ok_def)
      moreover have "origin_set pr1 j = {t. (t, j) \<in> insert (s, k) (holders_of X w a)}" for j
        using R pr(3) [of j] by (auto simp: record_ok_def)
      ultimately show ?thesis
        using True p' pr(4) e by (simp add: record_ok_def hold ot del: otype_put)
    next
      case False
      have "q' \<noteq> q" using tracker_okD(4) [OF I(1) aw] q(2) ppr False by auto
      then have "mem w q' = Some (Prec pr')" using a(2) by (auto split: if_splits)
      then have "record_ok X w a pr'" using I(5) aw unfolding records_ok_def by blast
      then show ?thesis using False by (simp add: record_ok_def hold ot del: otype_put)
    qed
  qed
  ultimately show ?thesis by (simp add: store_inv_def)
qed

text \<open>The effect of the increment callback for a struct and a key.\<close>

definition inc_udata :: "addr \<Rightarrow> string \<Rightarrow> rpc_types \<Rightarrow> prec_rpc_udata option" where
  "inc_udata s k t = Some \<lparr>ud_origin = s, ud_name = Some k, ud_free = rpc_freefn_of t\<rparr>"

definition context_room :: "prec \<Rightarrow> string \<Rightarrow> bool" where
  "context_room pr k \<longleftrightarrow>
     (\<forall>c. pr_context pr = Some c \<longrightarrow>
        hb_size (pc_keys c) \<le> table_limit \<and>
        (\<forall>ctx. hashmap_get (pc_keys c) k = Some ctx \<longrightarrow> o_size ctx < 2 ^ 31 - 16))"

text \<open>Room for \<open>n\<close> more keys and holders in a record.\<close>

definition record_room :: "nat \<Rightarrow> prec \<Rightarrow> bool" where
  "record_room n pr \<longleftrightarrow>
     (\<forall>c. pr_context pr = Some c \<longrightarrow>
        hb_size (pc_keys c) + n \<le> table_limit \<and>
        (\<forall>k ctx. hashmap_get (pc_keys c) k = Some ctx \<longrightarrow> o_size ctx + 16 * n < 2 ^ 31 - 16))"

lemma record_room_context: "record_room n pr \<Longrightarrow> context_room pr k"
  by (fastforce simp: record_room_def context_room_def)

lemma origins_of_name_effect:
  assumes keys: "hm_inv keys" "hb_size keys \<le> table_limit"
    and ctxs: "\<And>j cx. hashmap_get keys j = Some cx \<Longrightarrow> ctx_inv cx"
    and room: "\<And>ctx. hashmap_get keys k = Some ctx \<Longrightarrow> o_size ctx < 2 ^ 31 - 16" and s: "s \<noteq> null"
  obtains ctx keys1 ctx1 where "origins_of_name E keys k = Inr (ctx, keys1)" "ctx_add (e_junk E) ctx s = Inr ctx1"
    "ctx_inv ctx1" "hm_inv (hashmap_poke keys1 k ctx1)" "hashmap_get (hashmap_poke keys1 k ctx1) = (hashmap_get keys)(k \<mapsto> ctx1)"
    "set (holders ctx1) = insert s (case hashmap_get keys k of None \<Rightarrow> {} | Some cx \<Rightarrow> set (holders cx))"
    "o_size ctx1 \<le> (case hashmap_get keys k of None \<Rightarrow> 16 | Some cx \<Rightarrow> o_size cx) + 16"
proof -
  obtain ctx keys1 where O: "origins_of_name E keys k = Inr (ctx, keys1)" "hm_inv keys1" "ctx_inv ctx" "o_size ctx < 2 ^ 31 - 16"
    "hashmap_get keys1 = (hashmap_get keys)(k \<mapsto> ctx)"
    "set (holders ctx) = (case hashmap_get keys k of None \<Rightarrow> {} | Some cx \<Rightarrow> set (holders cx))"
    "o_size ctx = (case hashmap_get keys k of None \<Rightarrow> 16 | Some cx \<Rightarrow> o_size cx)"
  proof (cases "hashmap_get keys k")
    case None
    obtain t where "hashmap_put keys k (ctx_create (e_junk E)) = Inr (0, t)" "hm_inv t"
      "hashmap_get t = (hashmap_get keys)(k \<mapsto> ctx_create (e_junk E))"
      using hm.add_fresh [OF keys None] by blast
    moreover have "o_size (ctx_create (e_junk E)) = 16" by (simp add: ctx_create_def ORIGINS_DEFAULT_SIZE_def)
    ultimately show thesis
      using None ctx_create_inv [of "e_junk E"]
      by (intro that [of "ctx_create (e_junk E)" t]) (simp_all add: origins_of_name_def)
  next
    case (Some ctx)
    then show thesis
      using keys(1) ctxs [OF Some] room [OF Some] by (intro that [of ctx keys]) (simp_all add: origins_of_name_def fun_upd_idem)
  qed
  obtain ctx1 where A: "ctx_add (e_junk E) ctx s = Inr ctx1" "ctx_inv ctx1" "mset (holders ctx1) = add_mset s (mset (holders ctx))"
    using ctx_add_correct [OF O(3,4) s] by metis
  have "hashmap_get keys1 k = Some ctx" using O(5) by simp
  note P = hashmap_poke_map [OF O(2) this, of ctx1]
  have "set (holders ctx1) = insert s (set (holders ctx))" using mset_eq_setD [of "holders ctx1" "s # holders ctx"] A(3) by simp
  moreover have "o_size ctx1 \<le> (case hashmap_get keys k of None \<Rightarrow> 16 | Some cx \<Rightarrow> o_size cx) + 16"
    using ctx_add_size [OF A(1)] unfolding O(7) .
  ultimately show thesis using that [OF O(1) A(1,2) P(1)] P(2) O(5,6) by simp
qed

lemma increment_effect:
  assumes q: "mem w q = Some (Prec pr)" "q \<noteq> null" and s: "mem w s = Some (Struct rs)" "s \<noteq> null"
    and c: "\<And>c. pr_context pr = Some c \<Longrightarrow> ptr_ctx_ok c t" and room: "context_room pr k"
    and cb: "cb_increment cb = Some (rpc_struct_increment_cb E)"
  obtains c1 where
    "prec_increment cb q (inc_udata s k t) w =
       Inr (put_obj q (Prec (pr\<lparr>pr_refcount := pr_refcount pr + 1, pr_context := Some c1\<rparr>)) w)"
    "ptr_ctx_ok c1 t"
    "\<And>n j. origin_set (pr\<lparr>pr_refcount := n, pr_context := Some c1\<rparr>) j =
       (if j = k then insert s (origin_set pr j) else origin_set pr j)"
    "\<And>n m. n < 1000 \<Longrightarrow> record_room (Suc n) pr \<Longrightarrow> record_room n (pr\<lparr>pr_refcount := m, pr_context := Some c1\<rparr>)"
proof -
  define c0 where "c0 = (case pr_context pr of Some c \<Rightarrow> c | None \<Rightarrow> \<lparr>pc_keys = string_map, pc_free = rpc_freefn_of t\<rparr>)"
  have c0: "ptr_ctx_ok c0 t" "hb_size (pc_keys c0) \<le> table_limit"
    "\<And>ctx. hashmap_get (pc_keys c0) k = Some ctx \<Longrightarrow> o_size ctx < 2 ^ 31 - 16"
    "\<And>j. origin_set pr j = (case hashmap_get (pc_keys c0) j of None \<Rightarrow> {} | Some cx \<Rightarrow> set (holders cx))"
    using c room
    by (auto simp: c0_def context_room_def ptr_ctx_ok_def origin_set_def table_limit_def string_map_ok split: option.splits)
  have K: "hm_inv (pc_keys c0)" "pc_free c0 = rpc_freefn_of t" "\<And>j cx. hashmap_get (pc_keys c0) j = Some cx \<Longrightarrow> ctx_inv cx"
    using c0(1) unfolding ptr_ctx_ok_def by blast+
  obtain ctx keys1 ctx1 where O: "origins_of_name E (pc_keys c0) k = Inr (ctx, keys1)" "ctx_add (e_junk E) ctx s = Inr ctx1"
    "ctx_inv ctx1" "hm_inv (hashmap_poke keys1 k ctx1)"
    "hashmap_get (hashmap_poke keys1 k ctx1) = (hashmap_get (pc_keys c0))(k \<mapsto> ctx1)"
    "set (holders ctx1) = insert s (case hashmap_get (pc_keys c0) k of None \<Rightarrow> {} | Some cx \<Rightarrow> set (holders cx))"
    "o_size ctx1 \<le> (case hashmap_get (pc_keys c0) k of None \<Rightarrow> 16 | Some cx \<Rightarrow> o_size cx) + 16"
    by (rule origins_of_name_effect [OF K(1) c0(2) K(3) c0(3) s(2)])
  let ?c1 = "c0\<lparr>pc_keys := hashmap_poke keys1 k ctx1\<rparr>"
  have sq: "s \<noteq> q" using q s by auto
  show thesis
  proof (rule that [of ?c1])
    show "prec_increment cb q (inc_udata s k t) w =
        Inr (put_obj q (Prec (pr\<lparr>pr_refcount := pr_refcount pr + 1, pr_context := Some ?c1\<rparr>)) w)"
      using q s cb O(1,2) sq
      by (cases "pr_context pr")
        (auto simp: prec_increment_def inc_udata_def the_prec_def rpc_struct_increment_cb_def prec_ptr_ctx_create_or_get_def
          prec_context_get_def prec_context_set_def the_struct_def c0_def Let_def)
    show "ptr_ctx_ok ?c1 t" using O(3-5) K by (auto simp: ptr_ctx_ok_def split: if_splits)
    show "origin_set (pr\<lparr>pr_refcount := n, pr_context := Some ?c1\<rparr>) j =
        (if j = k then insert s (origin_set pr j) else origin_set pr j)" for n j
      using O(5,6) c0(4) by (simp add: origin_set_def)
    show "record_room n (pr\<lparr>pr_refcount := m, pr_context := Some ?c1\<rparr>)" if n: "n < 1000" "record_room (Suc n) pr" for n m
    proof -
      have r0: "hb_size (pc_keys c0) + Suc n \<le> table_limit"
        "\<And>j cx. hashmap_get (pc_keys c0) j = Some cx \<Longrightarrow> o_size cx + 16 * Suc n < 2 ^ 31 - 16"
        using n by (auto simp: c0_def record_room_def string_map_ok table_limit_def split: option.splits)
      have "hb_size (hashmap_poke keys1 k ctx1) \<le> Suc (hb_size (pc_keys c0))"
        using hm.finite_dom [OF K(1)] by (simp add: hm.count O(4,5) K(1) card_insert_if)
      moreover have "o_size ctx1 + 16 * n < 2 ^ 31 - 16"
        using O(7) n(1) r0(2) [of k] by (cases "hashmap_get (pc_keys c0) k") auto
      ultimately show ?thesis
        using r0 O(5) by (fastforce simp: record_room_def split: if_splits)
    qed
  qed
qed

section \<open>Setting an element\<close>

definition struct_room :: "store \<Rightarrow> addr \<Rightarrow> bool" where
  "struct_room w s \<longleftrightarrow> card (dom (mem w)) < 2 ^ 63 \<and> hb_size (struct_map s w) \<le> table_limit"

definition set_room :: "store \<Rightarrow> addr \<Rightarrow> string \<Rightarrow> rpc_type_t \<Rightarrow> bool" where
  "set_room w s k e \<longleftrightarrow>
     struct_room w s \<and> hb_size (ptracker w) \<le> table_limit \<and>
     (\<forall>q pr. hashmap_get (ptracker w) (ptr_value e) = Some q \<longrightarrow> mem w q = Some (Prec pr) \<longrightarrow> context_room pr k)"

text \<open>What an element must refer to for its type.\<close>

definition element_valid :: "store \<Rightarrow> rpc_type_t \<Rightarrow> bool" where
  "element_valid w e \<longleftrightarrow>
     (counted_type (rt_type e) \<or> rt_type e = RPC_string \<longrightarrow> otype w (ptr_value e) = Some (rt_type e)) \<and>
     (rt_type e = RPC_unknown \<longrightarrow> ptr_value e \<noteq> null)"

lemma element_valid_pointer:
  assumes "store_inv X w" "element_valid w e"
  shows "rpc_is_pointer (rt_type e) \<and> ptr_value e \<noteq> null \<or> \<not> rpc_is_pointer (rt_type e)"
  using assms store_inv_null [OF assms(1)]
  by (auto simp: element_valid_def counted_type_def otype_def)

lemma entry_put_new:
  assumes "mem w s = Some (Struct rs)" "hashmap_get m = (hashmap_get (rs_map rs))(k \<mapsto> e)"
  shows "entry (put_obj s (Struct (rs\<lparr>rs_map := m\<rparr>)) w) t j = (if t = s \<and> j = k then Some e else entry w t j)"
  using visible_put_entry [OF assms, of "{}"] by (simp add: visible_def)

lemma set_plain:
  assumes inv: "store_inv {} w" and s: "mem w s = Some (Struct rs)" and new: "entry w s k = None"
    and room: "struct_room w s" and e: "element_valid w e" "\<not> counted_type (rt_type e)" "rt_type e \<noteq> RPC_string"
  obtains m where "rpc_struct_set_internal E cb s (Some k) e w = Inr (0, put_obj s (Struct (rs\<lparr>rs_map := m\<rparr>)) w)"
    "hashmap_get m = (hashmap_get (rs_map rs))(k \<mapsto> e)" "store_inv {} (put_obj s (Struct (rs\<lparr>rs_map := m\<rparr>)) w)"
proof -
  note hm = store_inv_struct(1,3) [OF inv s]
  have none: "hashmap_get (rs_map rs) k = None" using new s by (simp add: entry_def)
  have "hb_size (rs_map rs) \<le> table_limit" using room s by (simp add: struct_room_def struct_map_def)
  then obtain m where m: "hashmap_put (rs_map rs) k e = Inr (0, m)" "hm_inv m" "hashmap_get m = (hashmap_get (rs_map rs))(k \<mapsto> e)"
    using hm.add_fresh [OF hm(1) _ none] by blast
  moreover have "rpc_struct_set_internal E cb s (Some k) e w = Inr (0, put_obj s (Struct (rs\<lparr>rs_map := m\<rparr>)) w)"
    using element_valid_pointer [OF inv e(1)] e(2,3) s hm(2) none m(1)
    by (simp add: rpc_struct_set_internal_def the_struct_def duplicate_string_def count_element_def)
  ultimately show thesis using that add_uncounted [OF inv s new _ m(2,3) e(2)] e(3) by simp
qed

lemma set_string:
  assumes E: "allocator (e_malloc E)" and inv: "store_inv {} w" and s: "mem w s = Some (Struct rs)" and new: "entry w s k = None"
    and room: "struct_room w s" and e: "rt_type e = RPC_string" "mem w (ptr_value e) = Some (Cstring str)"
  obtains p m e' where "e' = (set_ptr_value p e)\<lparr>rt_length := length str + 1\<rparr>" "mem w p = None" "p \<noteq> null" "p \<noteq> s"
    "rpc_struct_set_internal E cb s (Some k) e w = Inr (0, put_obj s (Struct (rs\<lparr>rs_map := m\<rparr>)) (put_obj p (Cstring str) w))"
    "hashmap_get m = (hashmap_get (rs_map rs))(k \<mapsto> e')"
    "store_inv {} (put_obj s (Struct (rs\<lparr>rs_map := m\<rparr>)) (put_obj p (Cstring str) w))"
proof -
  note hm = store_inv_struct(1,3) [OF inv s]
  have none: "hashmap_get (rs_map rs) k = None" using new s by (simp add: entry_def)
  have c: "card (dom (mem w)) < 2 ^ 63" using room by (simp add: struct_room_def)
  obtain p where p: "new_obj E (Cstring str) w = Inr (p, put_obj p (Cstring str) w)" "mem w p = None" "p \<noteq> null"
    using new_obj_fresh [OF E inv c] by metis
  let ?w = "put_obj p (Cstring str) w"
  define e' where "e' = (set_ptr_value p e)\<lparr>rt_length := length str + 1\<rparr>"
  have inv': "store_inv {} ?w" using p by (intro add_object [OF inv]) auto
  have ps: "p \<noteq> s" using p(2) s by auto
  then have s': "mem ?w s = Some (Struct rs)" using s by simp
  have new': "entry ?w s k = None" using new s s' by (simp add: entry_def)
  have "hb_size (rs_map rs) \<le> table_limit" using room s by (simp add: struct_room_def struct_map_def)
  then obtain m where m: "hashmap_put (rs_map rs) k e' = Inr (0, m)" "hm_inv m" "hashmap_get m = (hashmap_get (rs_map rs))(k \<mapsto> e')"
    using hm.add_fresh [OF hm(1) _ none] by blast
  have e0: "ptr_value e \<noteq> null" using e(2) store_inv_null [OF inv] by auto
  have e'_fields: "rt_type e' = RPC_string" "ptr_value e' = p"
    using e(1) by (simp_all add: e'_def ptr_value_def set_ptr_value_def)
  have "store_inv {} (put_obj s (Struct (rs\<lparr>rs_map := m\<rparr>)) ?w)"
  proof (rule add_uncounted [OF inv' s' new' _ m(2,3)])
    have "ptr_value f \<noteq> p" if "visible {} ?w t j = Some f" "rt_type f = RPC_string" for t j f
    proof -
      have "visible {} w t j = Some f"
        using that(1) p(2) by (auto simp: visible_def entry_def split: if_splits option.splits)
      then show ?thesis using untracked_if_absent(3) [OF inv p(2)] that(2) by blast
    qed
    then show "otype ?w (ptr_value e') = Some RPC_string \<and>
        (\<forall>t j f. visible {} ?w t j = Some f \<longrightarrow> rt_type f = RPC_string \<longrightarrow> ptr_value f \<noteq> ptr_value e')"
      by (simp add: e'_fields)
  qed (simp_all add: e'_fields)
  moreover have "rpc_struct_set_internal E cb s (Some k) e w = Inr (0, put_obj s (Struct (rs\<lparr>rs_map := m\<rparr>)) ?w)"
    using e e0 s hm(2) none m(1) [unfolded e'_def] p(1) s' ps
    by (simp add: rpc_struct_set_internal_def the_struct_def duplicate_string_def count_element_def the_cstring_def
        rpc_is_pointer_def)
  ultimately show thesis using that [OF e'_def p(2,3) ps] m(3) by blast
qed

lemma count_element_effect:
  assumes E: "allocator (e_malloc E)" and inv: "store_inv {} w" and s: "mem w s = Some (Struct rs)"
    and room: "set_room w s k e" and e: "counted_type (rt_type e)" "otype w (ptr_value e) = Some (rt_type e)"
    and cb: "cb_increment cb = Some (rpc_struct_increment_cb E)"
  obtains w1 q pr pr1 where "count_element E cb s k e w = Inr (put_obj q (Prec pr1) w1)" "store_inv {} w1"
    "hashmap_get (ptracker w1) (ptr_value e) = Some q" "mem w1 q = Some (Prec pr)" "pr_ptr pr1 = ptr_value e"
    "pr_refcount pr1 = pr_refcount pr + 1" "prec_refcount w (prec_get w (ptr_value e)) = Inr (pr_refcount pr)"
    "\<And>j. origin_set pr1 j = (if j = k then insert s (origin_set pr j) else origin_set pr j)"
    "\<And>c. pr_context pr1 = Some c \<Longrightarrow> ptr_ctx_ok c (rt_type e)"
    "\<And>a. a \<noteq> q \<Longrightarrow> mem w1 a = mem w a" "mem w q = None \<or> (\<exists>p. mem w q = Some (Prec p))"
    "\<forall>a. a \<noteq> ptr_value e \<longrightarrow> hashmap_get (ptracker w1) a = hashmap_get (ptracker w) a"
    "hb_size (ptracker w1) \<le> Suc (hb_size (ptracker w))"
    "\<forall>n<1000. (\<forall>p. mem w q = Some (Prec p) \<longrightarrow> record_room (Suc n) p) \<longrightarrow> record_room n pr1"
proof -
  let ?p = "ptr_value e"
  note I = store_invD [OF inv]
  have p0: "?p \<noteq> null" using e(2) store_inv_null [OF inv] by (auto simp: otype_def)
  obtain q w1 pr where W: "(if prec_get w ?p = null then prec_new E ?p w else Inr (prec_get w ?p, w)) = Inr (q, w1)"
    "store_inv {} w1" "hashmap_get (ptracker w1) ?p = Some q" "mem w1 q = Some (Prec pr)" "q \<noteq> null" "context_room pr k"
    "prec_refcount w (prec_get w ?p) = Inr (pr_refcount pr)"
    "\<And>a. a \<noteq> q \<Longrightarrow> mem w1 a = mem w a" "mem w q = None \<or> (\<exists>p. mem w q = Some (Prec p))"
    "\<forall>a. a \<noteq> ?p \<longrightarrow> hashmap_get (ptracker w1) a = hashmap_get (ptracker w) a"
    "hb_size (ptracker w1) \<le> Suc (hb_size (ptracker w))" "pr_context pr = None \<or> mem w q = Some (Prec pr)"
  proof (cases "hashmap_get (ptracker w) ?p")
    case None
    then have none: "prec_get w ?p = null" using prec_get_untracked [OF I(1)] by simp
    let ?pr = "\<lparr>pr_ptr = ?p, pr_context = None, pr_refcount = 0\<rparr>"
    have c: "card (dom (mem w)) < 2 ^ 63" "hb_size (ptracker w) \<le> table_limit" using room by (simp_all add: set_room_def struct_room_def)
    obtain q t where N: "prec_new E ?p w = Inr (q, (put_obj q (Prec ?pr) w)\<lparr>ptracker := t\<rparr>)"
      "q \<noteq> null" "mem w q = None" "hm_inv t" "hashmap_get t = (hashmap_get (ptracker w))(?p \<mapsto> q)"
      "hb_size t = Suc (hb_size (ptracker w))" "tracker_ok ((put_obj q (Prec ?pr) w)\<lparr>ptracker := t\<rparr>)"
      by (rule prec_new_tracks [OF I(1) E c p0 none])
    have "store_inv {} ((put_obj q (Prec ?pr) w)\<lparr>ptracker := t\<rparr>)"
      by (rule new_record [OF inv e(2,1) None p0 N(3,2,4,5,7)])
    then show thesis
      using that [of q "(put_obj q (Prec ?pr) w)\<lparr>ptracker := t\<rparr>" ?pr] N none
      by (simp add: context_room_def prec_refcount_def)
  next
    case (Some q)
    then obtain pr where pr: "mem w q = Some (Prec pr)" "q \<noteq> null"
      using tracker_okD(4) [OF I(1)] by blast
    have "prec_get w ?p = q" using Some by (simp add: prec_get_eq [OF I(1)])
    moreover have "context_room pr k" using room Some pr(1) by (simp add: set_room_def)
    ultimately show thesis
      using that [of q w pr] pr inv Some by (simp add: prec_refcount_def the_prec_def)
  qed
  have s1: "mem w1 s = Some (Struct rs)" using W(8) [of s] W(4,9) s by (cases "s = q") auto
  have s0: "s \<noteq> null" using store_inv_struct(3) [OF inv s] .
  have c: "ptr_ctx_ok c (rt_type e)" if "pr_context pr = Some c" for c
  proof -
    have "record_ok {} w1 ?p pr" using store_invD(5) [OF W(2)] W(3,4) unfolding records_ok_def by blast
    moreover have "?p \<noteq> q"
      using calculation W(4) by (auto simp: record_ok_def otype_def)
    then have "otype w1 ?p = Some (rt_type e)" using W(8) [of ?p] e(2) by (simp add: otype_def)
    ultimately show ?thesis using that by (simp add: record_ok_def)
  qed
  obtain c1 where C: "prec_increment cb q (inc_udata s k (rt_type e)) w1 =
       Inr (put_obj q (Prec (pr\<lparr>pr_refcount := pr_refcount pr + 1, pr_context := Some c1\<rparr>)) w1)"
    "ptr_ctx_ok c1 (rt_type e)"
    "\<And>n j. origin_set (pr\<lparr>pr_refcount := n, pr_context := Some c1\<rparr>) j =
       (if j = k then insert s (origin_set pr j) else origin_set pr j)"
    "\<And>n m. n < 1000 \<Longrightarrow> record_room (Suc n) pr \<Longrightarrow> record_room n (pr\<lparr>pr_refcount := m, pr_context := Some c1\<rparr>)"
    using increment_effect [OF W(4,5) s1 s0 c W(6) cb] by (metis (no_types))
  let ?pr1 = "pr\<lparr>pr_refcount := pr_refcount pr + 1, pr_context := Some c1\<rparr>"
  have "pr_ptr pr = ?p" using tracker_okD(4) [OF store_invD(1) [OF W(2)] W(3)] W(4) by auto
  moreover have "count_element E cb s k e w = Inr (put_obj q (Prec ?pr1) w1)"
    using e(1) W(1) C(1) by (simp add: count_element_def inc_udata_def)
  moreover have "\<forall>n<1000. (\<forall>p. mem w q = Some (Prec p) \<longrightarrow> record_room (Suc n) p) \<longrightarrow> record_room n ?pr1"
  proof (intro allI impI)
    fix n assume n: "n < (1000 :: nat)" "\<forall>p. mem w q = Some (Prec p) \<longrightarrow> record_room (Suc n) p"
    have "record_room (Suc n) pr" using W(12) n(2) by (auto simp: record_room_def)
    then show "record_room n ?pr1" by (rule C(4) [OF n(1)])
  qed
  ultimately show thesis using that [of q ?pr1 w1 pr] W C(1-3) by simp
qed

lemma set_counted_frame:
  assumes E: "allocator (e_malloc E)" and inv: "store_inv {} w" and s: "mem w s = Some (Struct rs)" and new: "entry w s k = None"
    and room: "set_room w s k e" and e: "counted_type (rt_type e)" "otype w (ptr_value e) = Some (rt_type e)"
    and cb: "cb_increment cb = Some (rpc_struct_increment_cb E)"
  obtains w' n where "rpc_struct_set_internal E cb s (Some k) e w = Inr (0, w')" "store_inv {} w'"
    "\<forall>t j. entry w' t j = (if t = s \<and> j = k then Some e else entry w t j)"
    "prec_refcount w (prec_get w (ptr_value e)) = Inr n" "prec_refcount w' (prec_get w' (ptr_value e)) = Inr (n + 1)"
    "\<forall>a. a \<noteq> ptr_value e \<longrightarrow> hashmap_get (ptracker w') a = hashmap_get (ptracker w) a"
    "\<exists>m. mem w' s = Some (Struct (rs\<lparr>rs_map := m\<rparr>))" "hb_size (ptracker w') \<le> Suc (hb_size (ptracker w))"
    "\<exists>q pr1. (mem w q = None \<or> (\<exists>p. mem w q = Some (Prec p))) \<and> mem w' q = Some (Prec pr1) \<and>
       (\<forall>a. a \<noteq> q \<longrightarrow> a \<noteq> s \<longrightarrow> mem w' a = mem w a) \<and>
       (\<forall>n<1000. (\<forall>p. mem w q = Some (Prec p) \<longrightarrow> record_room (Suc n) p) \<longrightarrow> record_room n pr1)"
proof -
  note hm = store_inv_struct(1,3) [OF inv s]
  obtain w1 q pr pr1 where C: "count_element E cb s k e w = Inr (put_obj q (Prec pr1) w1)" "store_inv {} w1"
    "hashmap_get (ptracker w1) (ptr_value e) = Some q" "mem w1 q = Some (Prec pr)" "pr_ptr pr1 = ptr_value e"
    "pr_refcount pr1 = pr_refcount pr + 1" "prec_refcount w (prec_get w (ptr_value e)) = Inr (pr_refcount pr)"
    "\<And>j. origin_set pr1 j = (if j = k then insert s (origin_set pr j) else origin_set pr j)"
    "\<And>c. pr_context pr1 = Some c \<Longrightarrow> ptr_ctx_ok c (rt_type e)"
    "\<And>a. a \<noteq> q \<Longrightarrow> mem w1 a = mem w a" "mem w q = None \<or> (\<exists>p. mem w q = Some (Prec p))"
    "\<forall>a. a \<noteq> ptr_value e \<longrightarrow> hashmap_get (ptracker w1) a = hashmap_get (ptracker w) a"
    "hb_size (ptracker w1) \<le> Suc (hb_size (ptracker w))"
    "\<forall>n<1000. (\<forall>p. mem w q = Some (Prec p) \<longrightarrow> record_room (Suc n) p) \<longrightarrow> record_room n pr1"
    by (rule count_element_effect [OF E inv s room e cb]) blast
  have sq: "s \<noteq> q" using C(11) s by auto
  have s1: "mem w1 s = Some (Struct rs)" using C(10) [OF sq] s by simp
  have none: "hashmap_get (rs_map rs) k = None" using new s by (simp add: entry_def)
  have "hb_size (rs_map rs) \<le> table_limit" using room s by (simp add: set_room_def struct_room_def struct_map_def)
  then obtain m where m: "hashmap_put (rs_map rs) k e = Inr (0, m)" "hm_inv m" "hashmap_get m = (hashmap_get (rs_map rs))(k \<mapsto> e)"
    using hm.add_fresh [OF hm(1) _ none] by blast
  let ?w = "put_obj s (Struct (rs\<lparr>rs_map := m\<rparr>)) (put_obj q (Prec pr1) w1)"
  have e0: "ptr_value e \<noteq> null" using e(2) store_inv_null [OF inv] by (auto simp: otype_def)
  have run: "rpc_struct_set_internal E cb s (Some k) e w = Inr (0, ?w)"
    using e0 e(1) s hm(2) none m(1) C(1) s1 sq
    by (auto simp: rpc_struct_set_internal_def the_struct_def duplicate_string_def counted_type_def)
  have pq: "ptr_value e \<noteq> q" using e C(11) by (auto simp: otype_def)
  have ot: "otype w1 (ptr_value e) = Some (rt_type e)" using e(2) C(10) [OF pq] by (simp add: otype_def)
  have new1: "entry w1 s k = None" using new s s1 by (simp add: entry_def)
  have inv': "store_inv {} ?w"
    by (rule add_counted [OF C(2) s1 new1 _ m(2,3) e(1) ot C(3,4,5,6,8,9)]) simp_all
  have ent: "entry ?w t j = (if t = s \<and> j = k then Some e else entry w t j)" for t j
  proof -
    have "entry ?w t j = (if t = s \<and> j = k then Some e else entry (put_obj q (Prec pr1) w1) t j)"
      using s1 sq by (intro entry_put_new [OF _ m(3)]) simp
    moreover have "entry (put_obj q (Prec pr1) w1) t j = entry w t j"
      using C(4,10,11) by (cases "t = q") (auto simp: entry_def)
    ultimately show ?thesis by simp
  qed
  have "prec_get ?w (ptr_value e) = q" using C(3) by (simp add: prec_get_eq [OF store_invD(1) [OF inv']])
  moreover have "q \<noteq> null" using C(4) store_inv_null [OF C(2)] by auto
  ultimately have "prec_refcount ?w (prec_get ?w (ptr_value e)) = Inr (pr_refcount pr + 1)"
    using sq C(6) by (simp add: prec_refcount_def the_prec_def)
  moreover have "\<forall>t j. entry ?w t j = (if t = s \<and> j = k then Some e else entry w t j)" using ent by simp
  moreover have "\<exists>q pr1. (mem w q = None \<or> (\<exists>p. mem w q = Some (Prec p))) \<and> mem ?w q = Some (Prec pr1) \<and>
       (\<forall>a. a \<noteq> q \<longrightarrow> a \<noteq> s \<longrightarrow> mem ?w a = mem w a) \<and>
       (\<forall>n<1000. (\<forall>p. mem w q = Some (Prec p) \<longrightarrow> record_room (Suc n) p) \<longrightarrow> record_room n pr1)"
    using C(10,11,14) sq by (intro exI [of _ q] exI [of _ pr1]) auto
  moreover have "\<exists>m'. mem ?w s = Some (Struct (rs\<lparr>rs_map := m'\<rparr>))" by (intro exI [of _ m]) simp
  moreover have "\<forall>a. a \<noteq> ptr_value e \<longrightarrow> hashmap_get (ptracker ?w) a = hashmap_get (ptracker w) a" using C(12) by simp
  moreover have "hb_size (ptracker ?w) \<le> Suc (hb_size (ptracker w))" using C(13) by simp
  ultimately show thesis using run inv' C(7) by (intro that) assumption+
qed

lemma set_counted:
  assumes "allocator (e_malloc E)" "store_inv {} w" "mem w s = Some (Struct rs)" "entry w s k = None"
    "set_room w s k e" "counted_type (rt_type e)" "otype w (ptr_value e) = Some (rt_type e)"
    "cb_increment cb = Some (rpc_struct_increment_cb E)"
  obtains w' n where "rpc_struct_set_internal E cb s (Some k) e w = Inr (0, w')" "store_inv {} w'"
    "\<forall>t j. entry w' t j = (if t = s \<and> j = k then Some e else entry w t j)"
    "prec_refcount w (prec_get w (ptr_value e)) = Inr n" "prec_refcount w' (prec_get w' (ptr_value e)) = Inr (n + 1)"
    "\<forall>a. a \<noteq> ptr_value e \<longrightarrow> hashmap_get (ptracker w') a = hashmap_get (ptracker w) a"
  by (rule set_counted_frame [OF assms]) (rule that)

end
