(* ===== verification/Struct_Examples.thy ===== *)
theory Struct_Examples
  imports Struct_Release Struct_Build
begin

text \<open>
  Small stores at which the properties of structs are applied: an empty struct, a struct beside a sized
  buffer, a struct that holds a sized buffer, and a struct that holds itself.
\<close>

section \<open>Example stores\<close>

definition plain_env :: env where
  "plain_env = \<lparr>e_malloc = first_free, e_dtor = \<lambda>f s w. Inr w, e_junk = 0, e_bytes = \<lambda>p. [], e_realloc_moves = False\<rparr>"

lemma plain_env_allocates: "allocator (e_malloc plain_env)"
  by (simp add: plain_env_def ff.allocator_axioms)

definition empty_store :: store where
  "empty_store = \<lparr>mem = Map.empty, ptracker = ptracker_init, entropy = replicate 64 1\<rparr>"

lemma ptracker_init_map: "ptracker_init = pointer_map"
  by (simp add: ptracker_init_def pointer_map_def)

lemma empty_store_inv: "store_inv {} empty_store"
  by (simp add: store_inv_def tracker_ok_def structs_ok_def elements_ok_def strings_owned_def records_ok_def
      empty_store_def ptracker_init_map pointer_map_ok visible_def entry_def)

lemma small_memory:
  assumes "dom (mem w) \<subseteq> set ps" "length ps < 2 ^ 63" shows "card (dom (mem w)) < 2 ^ 63"
  using card_mono [OF _ assms(1)] card_length [of ps] assms(2) by simp

text \<open>A store with one empty struct.\<close>

lemma create_runs:
  assumes "allocator (e_malloc E)" "store_inv X w" "card (dom (mem w)) < 2 ^ 63" "entropy w = replicate 64 1"
  obtains s w' where "rpc_struct_create E w = Inr (s, w')"
proof -
  have "\<exists>cs. make_ID (replicate 64 1) [] = Inr (cs, [])" by (rule make_ID_enough) auto
  then obtain cs where cs: "make_ID (replicate 64 1) [] = Inr (cs, [])" by blast
  have "store_inv X (w\<lparr>entropy := []\<rparr>)" by (rule store_inv_entropy [OF assms(2)])
  moreover have "card (dom (mem (w\<lparr>entropy := []\<rparr>))) < 2 ^ 63" using assms(3) by simp
  ultimately obtain p where "\<And>x. new_obj E x (w\<lparr>entropy := []\<rparr>) = Inr (p, put_obj p x (w\<lparr>entropy := []\<rparr>))"
    using new_obj_fresh [OF assms(1)] by metis
  then show thesis using that cs assms(4) by (simp add: rpc_struct_create_def RPC_STRUCT_ID_SIZE_def Let_def)
qed

lemma one_named_struct:
  obtains s w rs ID where "rpc_struct_create plain_env empty_store = Inr (s, w)" "store_inv {} w" "mem w = [s \<mapsto> Struct rs]"
    "hashmap_get (rs_map rs) = Map.empty" "hb_size (rs_map rs) = 0" "ptracker w = pointer_map" "s \<noteq> null"
    "rs_ID rs = ID @ [CHR 0x00]" "length ID = 64" "set ID \<subseteq> set ID_alphabet"
proof -
  have room: "card (dom (mem empty_store)) < 2 ^ 63" by (simp add: empty_store_def)
  obtain s w where run: "rpc_struct_create plain_env empty_store = Inr (s, w)"
    by (rule create_runs [OF plain_env_allocates empty_store_inv room]) (simp_all add: empty_store_def)
  let ?rs = "\<lambda>ID. \<lparr>rs_map = string_map, rs_ID = ID @ [CHR 0x00], rs_copyof = null, rs_destructor = null\<rparr>"
  obtain ID rnd where C: "length ID = 64" "set ID \<subseteq> set ID_alphabet" "w = put_obj s (Struct (?rs ID)) (empty_store\<lparr>entropy := rnd\<rparr>)"
    "s \<noteq> null" "store_inv {} w"
    by (rule create_effect [OF plain_env_allocates empty_store_inv room run]) (rule that)
  then show thesis
    using that [OF run, of "?rs ID" ID] by (simp add: empty_store_def ptracker_init_map string_map_ok)
qed

lemma one_struct_store:
  obtains s w rs where "rpc_struct_create plain_env empty_store = Inr (s, w)" "store_inv {} w" "mem w = [s \<mapsto> Struct rs]"
    "hashmap_get (rs_map rs) = Map.empty" "hb_size (rs_map rs) = 0" "ptracker w = pointer_map" "s \<noteq> null"
  by (rule one_named_struct) (rule that)

text \<open>A struct and a sized buffer that no element refers to.\<close>

lemma struct_and_buffer:
  obtains s b w rs where "store_inv {} w" "mem w = [s \<mapsto> Struct rs, b \<mapsto> Sizedbuf \<lparr>sb_buf = [7], sb_length = 1\<rparr>]" "s \<noteq> b"
    "hashmap_get (rs_map rs) = Map.empty" "hb_size (rs_map rs) = 0" "ptracker w = pointer_map"
proof -
  obtain s w rs where w: "store_inv {} w" "mem w = [s \<mapsto> Struct rs]" "hashmap_get (rs_map rs) = Map.empty"
    "hb_size (rs_map rs) = 0" "ptracker w = pointer_map" "s \<noteq> null"
    by (rule one_struct_store)
  have "card (dom (mem w)) < 2 ^ 63" using w(2) by simp
  then obtain b where b: "mem w b = None" "b \<noteq> null" using new_obj_fresh [OF plain_env_allocates w(1)] by metis
  let ?x = "Sizedbuf \<lparr>sb_buf = [7], sb_length = 1\<rparr>"
  have "store_inv {} (put_obj b ?x w)" by (rule add_object [OF w(1) b]) auto
  then show thesis using that [of "put_obj b ?x w" s rs b] w b by (auto split: if_splits)
qed

definition element_of :: "rpc_types \<Rightarrow> addr \<Rightarrow> rpc_type_t" where
  "element_of t p = set_ptr_value p \<lparr>data_container = [], rt_length = 0, rt_type = t\<rparr>"

lemma element_of_fields [simp]: "rt_type (element_of t p) = t" "ptr_value (element_of t p) = p"
  by (simp_all add: element_of_def)

lemma empty_struct_room:
  "mem w s = Some (Struct rs) \<Longrightarrow> hb_size (rs_map rs) = 0 \<Longrightarrow> card (dom (mem w)) < 2 ^ 63 \<Longrightarrow> struct_room w s"
  by (simp add: struct_room_def struct_map_def)

lemma empty_tracker_room:
  assumes "ptracker w = pointer_map" "card (dom (mem w)) < 2 ^ 63" "mem w s = Some (Struct rs)" "hb_size (rs_map rs) = 0"
  shows "set_room w s k e"
  using assms by (simp add: set_room_def struct_room_def struct_map_def table_limit_def pointer_map_ok)

text \<open>A struct that holds the only reference to a sized buffer, and one that holds itself.\<close>

lemma struct_holds_buffer:
  obtains s b w rs e where "store_inv {} w" "mem w s = Some (Struct rs)" "hashmap_get (rs_map rs) = [''data'' \<mapsto> e]"
    "rt_type e = RPC_sizedbuf" "ptr_value e = b" "s \<noteq> b" "prec_refcount w (prec_get w b) = Inr 1"
    "\<forall>t j. entry w t j = (if t = s \<and> j = ''data'' then Some e else None)" "prec_get w s = null"
proof -
  obtain s b w rs where w: "store_inv {} w" "mem w = [s \<mapsto> Struct rs, b \<mapsto> Sizedbuf \<lparr>sb_buf = [7], sb_length = 1\<rparr>]" "s \<noteq> b"
    "hashmap_get (rs_map rs) = Map.empty" "hb_size (rs_map rs) = 0" "ptracker w = pointer_map"
    by (rule struct_and_buffer)
  let ?e = "element_of RPC_sizedbuf b"
  have none: "entry w t j = None" for t j using w(2,4) by (simp add: entry_def)
  have s: "mem w s = Some (Struct rs)" using w(2,3) by simp
  have room: "set_room w s ''data'' ?e"
    by (rule empty_tracker_room [OF w(6) _ s w(5)], rule small_memory [of w "[b, s]"]) (use w(2) in auto)
  have e: "counted_type (rt_type ?e)" "otype w (ptr_value ?e) = Some (rt_type ?e)"
    using w(2) by (simp_all add: counted_type_def rpc_is_pointer_def otype_def)
  obtain w' n where w': "rpc_struct_set_internal plain_env (cbs plain_env 0) s (Some ''data'') ?e w = Inr (0, w')" "store_inv {} w'"
    "\<forall>t j. entry w' t j = (if t = s \<and> j = ''data'' then Some ?e else entry w t j)"
    "prec_refcount w (prec_get w (ptr_value ?e)) = Inr n" "prec_refcount w' (prec_get w' (ptr_value ?e)) = Inr (n + 1)"
    "\<forall>a. a \<noteq> ptr_value ?e \<longrightarrow> hashmap_get (ptracker w') a = hashmap_get (ptracker w) a"
    by (rule set_counted [OF plain_env_allocates w(1) s none room e cbs_simps(2) [of plain_env 0]])
  have "hashmap_get (ptracker w) b = None" using w(6) by (simp add: pointer_map_ok)
  then have "n = 0"
    using w'(4) prec_get_untracked [OF store_invD(1) [OF w(1)], of b] by (simp add: prec_refcount_def)
  moreover obtain rs' where rs': "mem w' s = Some (Struct rs')" using entry_struct [of w' s "''data''" ?e] w'(3) by auto
  moreover have "hashmap_get (rs_map rs') j = entry w' s j" for j using rs' by (simp add: entry_def)
  then have "hashmap_get (rs_map rs') = [''data'' \<mapsto> ?e]"
    by (intro ext) (use w'(3) none in simp)
  moreover have "prec_get w' s = null"
    using w'(6) w(3,6) prec_get_untracked [OF store_invD(1) [OF w'(2)], of s] by (simp add: pointer_map_ok)
  ultimately show thesis using that [OF w'(2) rs', of ?e] w'(3,5) none w(3) by simp
qed

lemma struct_holds_itself:
  obtains s w rs e where "store_inv {} w" "mem w s = Some (Struct rs)" "hashmap_get (rs_map rs) = [''self'' \<mapsto> e]"
    "rt_type e = RPC_struct" "ptr_value e = s" "prec_refcount w (prec_get w s) = Inr 1"
proof -
  obtain s w rs where w: "store_inv {} w" "mem w = [s \<mapsto> Struct rs]" "hashmap_get (rs_map rs) = Map.empty"
    "hb_size (rs_map rs) = 0" "ptracker w = pointer_map" "s \<noteq> null"
    by (rule one_struct_store)
  let ?e = "element_of RPC_struct s"
  have none: "entry w t j = None" for t j using w(2,3) by (simp add: entry_def)
  have s: "mem w s = Some (Struct rs)" using w(2) by simp
  have room: "set_room w s ''self'' ?e"
    by (rule empty_tracker_room [OF w(5) _ s w(4)]) (simp add: w(2))
  have e: "counted_type (rt_type ?e)" "otype w (ptr_value ?e) = Some (rt_type ?e)"
    using w(2) by (simp_all add: counted_type_def rpc_is_pointer_def otype_def)
  obtain w' n where w': "rpc_struct_set_internal plain_env (cbs plain_env 0) s (Some ''self'') ?e w = Inr (0, w')" "store_inv {} w'"
    "\<forall>t j. entry w' t j = (if t = s \<and> j = ''self'' then Some ?e else entry w t j)"
    "prec_refcount w (prec_get w (ptr_value ?e)) = Inr n" "prec_refcount w' (prec_get w' (ptr_value ?e)) = Inr (n + 1)"
    "\<forall>a. a \<noteq> ptr_value ?e \<longrightarrow> hashmap_get (ptracker w') a = hashmap_get (ptracker w) a"
    by (rule set_counted [OF plain_env_allocates w(1) s none room e cbs_simps(2) [of plain_env 0]])
  have "hashmap_get (ptracker w) s = None" using w(5) by (simp add: pointer_map_ok)
  then have "n = 0"
    using w'(4) prec_get_untracked [OF store_invD(1) [OF w(1)], of s] by (simp add: prec_refcount_def)
  moreover obtain rs' where rs': "mem w' s = Some (Struct rs')" using entry_struct [of w' s "''self''" ?e] w'(3) by auto
  moreover have "hashmap_get (rs_map rs') j = entry w' s j" for j using rs' by (simp add: entry_def)
  then have "hashmap_get (rs_map rs') = [''self'' \<mapsto> ?e]"
    by (intro ext) (use w'(3) none in simp)
  ultimately show thesis using that [OF w'(2) rs', of ?e] w'(5) by simp
qed

end
