(* ===== verification/Struct_Claims.thy ===== *)
theory Struct_Claims
  imports Struct_Examples
begin

text \<open>
  What structs promise: elements read back as they were set, strings are copied, references are counted,
  and releasing a store without cycles never touches memory that was released before; with a cycle it does.
\<close>

section \<open>Removing and releasing\<close>

text \<open>C15: In a store whose structs are nested without cycles, removing an element returns 0 and keeps the
  invariant, so that no remaining element refers to released memory; the element and nothing else leaves
  its struct, of the other structs only the one the element referred to and those of lower rank can
  change, and the object the element referred to is released exactly when that was its last reference. No
  memory is used after its release on the way.\<close>

theorem remove_in_acyclic_store:
  assumes "store_inv {} w" "nested r w" "mem w s = Some (Struct rs)" "hashmap_get (rs_map rs) k = Some e" "r s \<le> n"
  shows "\<exists>w'. rpc_struct_remove (rpc_struct_default_prec_cbs E n) s (Some k) w = Inr (0, w') \<and> store_inv {} w' \<and>
    (\<exists>rs'. mem w' s = Some (Struct rs') \<and> hashmap_get (rs_map rs') = (hashmap_get (rs_map rs))(k := None)) \<and>
    (\<forall>t rt. t \<noteq> s \<longrightarrow> t \<in> spared r e \<longrightarrow> mem w t = Some (Struct rt) \<longrightarrow> mem w' t = Some (Struct rt)) \<and>
    (counted_type (rt_type e) \<longrightarrow> mem w' (ptr_value e) =
       (if prec_refcount w (prec_get w (ptr_value e)) = Inr 1 then None else mem w (ptr_value e)))"
proof -
  obtain w' where w': "rpc_struct_remove (rpc_struct_default_prec_cbs E n) s (Some k) w = Inr (0, w')" "store_inv {} w'"
    "mem w' s = Some (Struct (rs\<lparr>rs_map := snd (hashmap_remove (rs_map rs) k)\<rparr>))"
    "frame (spared r e - {s}) w w'" "last_or_kept w e w'"
    "hashmap_get (snd (hashmap_remove (rs_map rs) k)) = (hashmap_get (rs_map rs))(k := None)"
    by (rule remove_nested [OF assms])
  then show ?thesis using frameD(1) [OF w'(4)] by (auto simp: last_or_kept_def)
qed

theorem remove_in_acyclic_store_witness:
  "\<exists>s b w e. entry w s ''data'' = Some e \<and> ptr_value e = b \<and> store_inv {} w \<and>
    (\<exists>w'. rpc_struct_remove (rpc_struct_default_prec_cbs plain_env 1) s (Some ''data'') w = Inr (0, w') \<and>
       store_inv {} w' \<and> mem w' b = None)"
proof -
  obtain s b w rs e where w: "store_inv {} w" "mem w s = Some (Struct rs)" "hashmap_get (rs_map rs) = [''data'' \<mapsto> e]"
    "rt_type e = RPC_sizedbuf" "ptr_value e = b" "s \<noteq> b" "prec_refcount w (prec_get w b) = Inr 1"
    "\<forall>t j. entry w t j = (if t = s \<and> j = ''data'' then Some e else None)" "prec_get w s = null"
    by (rule struct_holds_buffer)
  let ?r = "\<lambda>p. if p = s then 1 else 0 :: nat"
  have nested: "nested ?r w" using w(5,6,8) by (simp add: nested_def)
  have e: "hashmap_get (rs_map rs) ''data'' = Some e" "?r s \<le> 1" using w(3) by simp_all
  have "counted_type (rt_type e)" using w(4) by (simp add: counted_type_def rpc_is_pointer_def)
  then obtain w' where "rpc_struct_remove (cbs plain_env 1) s (Some ''data'') w = Inr (0, w')" "store_inv {} w'"
    "mem w' (ptr_value e) = (if prec_refcount w (prec_get w (ptr_value e)) = Inr 1 then None else mem w (ptr_value e))"
    using remove_in_acyclic_store [OF w(1) nested w(2) e, of plain_env] by blast
  then have "mem w' b = None" using w(5,7) by simp
  moreover have "entry w s ''data'' = Some e" using w(8) by simp
  ultimately show ?thesis using w(1,5) \<open>store_inv {} w'\<close>
    \<open>rpc_struct_remove (cbs plain_env 1) s (Some ''data'') w = Inr (0, w')\<close> by blast
qed



section \<open>Cycles\<close>

lemma self_reference_faults:
  assumes inv: "store_inv {} w" and s: "mem w s = Some (Struct rs)" and only: "hashmap_get (rs_map rs) = [k \<mapsto> e]"
    and e: "rt_type e = RPC_struct" "ptr_value e = s" and one: "prec_refcount w (prec_get w s) = Inr 1"
  shows "rpc_struct_remove (cbs E (Suc m)) s (Some k) w = Inl Use_After_Free"
proof -
  have vis: "visible {} w s k = Some e" using s only by (simp add: visible_def entry_def)
  have cnt: "counted_type (rt_type e)" using e by (simp add: counted_type_def rpc_is_pointer_def)
  let ?X = "{(s, k)}"
  obtain q pr pr1 c1 where D: "prec_get w (ptr_value e) = q" "q \<noteq> null" "hashmap_get (ptracker w) (ptr_value e) = Some q"
    "mem w q = Some (Prec pr)" "pr_ptr pr = ptr_value e" "pr_ptr pr1 = ptr_value e"
    "\<And>cb. cb_decrement cb = Some rpc_struct_decrement_cb \<Longrightarrow> prec_decrement cb q (dec_udata s k) w =
       (if pr_refcount pr1 = 0 then prec_delete cb q (put_obj q (Prec pr1) w) else Inr (put_obj q (Prec pr1) w))"
    "pr_refcount pr1 = pr_refcount pr - 1" "0 \<le> pr_refcount pr1"
    "int (card (holders_of (insert (s, k) {}) w (ptr_value e))) \<le> pr_refcount pr1"
    "\<And>j. origin_set pr1 j = {t. (t, j) \<in> holders_of (insert (s, k) {}) w (ptr_value e)}"
    "pr_context pr1 = Some c1" "ptr_ctx_ok c1 (rt_type e)"
    by (rule decrement_effect [OF inv vis cnt]) blast
  have zero: "pr_refcount pr1 = 0" using one D(1,2,4,8) e(2) by (simp add: prec_refcount_def the_prec_def)
  have none: "holders_of ?X w s = {}"
    using D(10) zero e(2) holders_finite [OF inv, of ?X s] by simp
  then have idle: "origin_set pr1 j = {}" for j using D(11) [of j] e(2) by simp
  note tr = tracker_okD(1) [OF store_invD(1) [OF inv]]
  obtain d t where rem: "hashmap_remove (ptracker w) s = (d, t)" by fastforce
  note M = hm.delete_result [OF tr rem]
  define w1 where "w1 = (put_obj q (Prec pr1) w)\<lparr>ptracker := t\<rparr>"
  have sq: "s \<noteq> q" using s D(4) by auto
  have w1: "mem w1 q = Some (Prec pr1)" "mem w1 s = Some (Struct rs)" using sq s by (simp_all add: w1_def)
  have s0: "s \<noteq> null" using store_inv_struct(3) [OF inv s] .
  have gone: "prec_get w1 s = null"
    using fun_cong [OF M(3), of s] s0 by (simp add: prec_get_def w1_def hashmap_get_def)
  note hms = store_inv_struct(1,2) [OF inv s]
  obtain mp where rm: "hashmap_remove (rs_map rs) k = (Some e, mp)" using hm.delete [OF hms(1), of k] only by auto
  define w2 where "w2 = put_obj s (Struct (rs\<lparr>rs_map := mp\<rparr>)) w1"
  have inner: "rpc_struct_remove (cbs E m) s (Some k) w1 = Inr (0, w2)"
    using w1(2) s0 only cnt e(2) gone rm
    by (simp add: rpc_struct_remove_def the_struct_def prec_decrement_def w2_def)
  have hm1: "hm_inv (struct_map s w1)" using w1(2) hms(1) by (simp add: struct_map_def)
  let ?body = "\<lambda>key (v :: rpc_type_t) w. andthen (rpc_struct_remove (cbs E m) s (Some key) w) (\<lambda>(r, w'). Inr w')"
  obtain es where es: "mset es = mset (hm_entries (struct_map s w1))"
    "hashmap_foreach_all (struct_map s) ?body w1 = fold_run ?body es w1"
  proof (rule foreach_all_removing [where table_of = "struct_map s" and s = w1 and I = "\<lambda>w. w = w1 \<or> w = w2" and body = ?body, OF hm1])
    fix j v a b assume a: "a = w1 \<or> a = w2" "hm_inv (struct_map s a)" "hm_map (struct_map s a) j = Some v" "?body j v a = Inr b"
    have "hashmap_get (struct_map s w2) = Map.empty"
      using hm.delete_result(3) [OF hms(1) rm] only by (simp add: struct_map_def w2_def)
    then have aw: "a = w1" using a(1,3) hashmap_get_map [OF a(2)] by auto
    then have "hashmap_get (rs_map rs) j = Some v"
      using a(3) w1(2) hashmap_get_map [OF hm1] by (simp add: struct_map_def)
    then have "j = k" using only by (simp split: if_splits)
    moreover from this have "b = w2" using aw a(4) inner by simp
    ultimately show "(b = w1 \<or> b = w2) \<and> struct_map s b = snd (hashmap_remove (struct_map s a) j)"
      using aw rm w1(2) by (simp add: struct_map_def w2_def)
  qed simp
  have "map_of (hm_entries (struct_map s w1)) = [k \<mapsto> e]"
    using only w1(2) hashmap_get_map [OF hm1] by (simp add: struct_map_def hm_map_def)
  then have "dom (map_of (hm_entries (struct_map s w1))) = {k}" "distinct (map fst (hm_entries (struct_map s w1)))"
    using hm_inv_distinct [OF hm1] by auto
  then have "size (mset es) = 1" "map_of es = [k \<mapsto> e]"
    using es(1) hm_map_card(2) [OF hm1] hm_inv_size [OF hm1] map_of_same(1) [OF es(1) [symmetric]]
      \<open>map_of (hm_entries (struct_map s w1)) = [k \<mapsto> e]\<close> by (simp_all add: hm_map_def)
  then obtain x where "es = [x]" by (auto simp: length_Suc_conv)
  then have es1: "es = [(k, e)]" using \<open>map_of es = [k \<mapsto> e]\<close> by (cases x) (auto simp: fun_eq_iff split: if_splits)
  have "rpc_struct_free_internal E (cbs E m) s w1 = Inr (w2\<lparr>mem := (mem w2)(s := None)\<rparr>)"
    using w1(2) s0 hms(2) es(2) inner
    by (simp add: rpc_struct_free_internal_def rpc_struct_free_internals_def the_struct_def hashmap_foreach_key_safe_def es1
        free_obj_def w2_def put_obj_def)
  moreover have "rpc_freefn_of RPC_struct = Some Free_Struct" by (simp add: rpc_freefn_of_def rpc_is_pointer_def)
  ultimately have del: "prec_delete (cbs E (Suc m)) q (put_obj q (Prec pr1) w) =
      Inr (w2\<lparr>mem := (mem w2)(s := None, q := None)\<rparr>)"
    using D(2,6,12,13) e rem sq w1 onzero_loop_idle [OF w1(1) D(12,13) idle]
    by (simp add: prec_delete_def the_prec_def rpc_struct_onzero_cb_def prec_context_get_def w1_def [symmetric]
        rpc_struct_prec_ctx_destroy_def ptr_ctx_ok_def prec_ptr_def prec_context_set_def free_obj_def)
      (simp add: w2_def put_obj_def free_obj_def fun_upd_twist)
  show ?thesis
    using s s0 only cnt e(2) D(1) D(7) [of "cbs E (Suc m)"] zero del
    by (simp add: rpc_struct_remove_def the_struct_def dec_udata_def)
qed

text \<open>C36: A struct that holds the only reference to itself cannot be emptied: removing that element
  releases the struct while the removal is still working on it, and the removal then uses released memory,
  whatever the fuel.\<close>

theorem cyclic_remove_uses_freed_memory:
  assumes "store_inv {} w" "mem w s = Some (Struct rs)" "hashmap_get (rs_map rs) = [k \<mapsto> e]"
    "rt_type e = RPC_struct" "ptr_value e = s" "prec_refcount w (prec_get w s) = Inr 1"
  shows "rpc_struct_remove (rpc_struct_default_prec_cbs E (Suc m)) s (Some k) w = Inl Use_After_Free"
  by (rule self_reference_faults [OF assms])

theorem cyclic_remove_uses_freed_memory_witness:
  "\<exists>s w. store_inv {} w \<and>
    rpc_struct_remove (rpc_struct_default_prec_cbs plain_env (Suc 5)) s (Some ''self'') w = Inl Use_After_Free"
proof -
  obtain s w rs e where w: "store_inv {} w" "mem w s = Some (Struct rs)" "hashmap_get (rs_map rs) = [''self'' \<mapsto> e]"
    "rt_type e = RPC_struct" "ptr_value e = s" "prec_refcount w (prec_get w s) = Inr 1"
    by (rule struct_holds_itself)
  then show ?thesis using cyclic_remove_uses_freed_memory [OF w, of plain_env 5] by blast
qed

section \<open>Setting and getting\<close>

lemma get_internal_entry:
  assumes "store_inv X w" "mem w s = Some (Struct rs)"
  shows "rpc_struct_get_internal s (Some k) w = Inr (case entry w s k of None \<Rightarrow> none_element | Some e \<Rightarrow> e)"
  using assms store_inv_struct(3) [OF assms]
  by (simp add: rpc_struct_get_internal_def the_struct_def entry_def)

lemma none_element_type [simp]: "rt_type none_element = RPC_none"
  by (simp add: none_element_def)

lemma exists_entry:
  assumes "store_inv X w" "mem w s = Some (Struct rs)"
  shows "rpc_struct_exists s (Some k) w =
    Inr (case entry w s k of None \<Rightarrow> 0 | Some e \<Rightarrow> if rt_type e = RPC_none then 0 else 1)"
  by (simp add: rpc_struct_exists_def get_internal_entry [OF assms] split: option.splits)

text \<open>A number set under a new key is read back unchanged through a variable of its type; the
  invariant is kept, no other element changes, and setting that key again, whatever the value, returns 1
  and changes nothing.\<close>

theorem set_number_then_get:
  assumes "store_inv {} w" "mem w s = Some (Struct rs)" "entry w s k = None" "\<not> rpc_is_pointer (ctype_to_rpc t)"
    "length junk = 8" "length out = c_sizeof t" "struct_room w s"
  shows "\<exists>w'. rpc_struct_set E cb junk s k t v w = Inr (0, w') \<and> store_inv {} w' \<and>
    rpc_struct_get s k t out w' = Inr (0, le_bytes (c_sizeof t) v) \<and>
    (\<forall>a j. \<not> (a = s \<and> j = k) \<longrightarrow> entry w' a j = entry w a j) \<and>
    (\<forall>junk' t' v'. rpc_struct_set E cb junk' s k t' v' w' = Inr (1, w'))"
proof -
  let ?e = "c_to_rpc junk t v"
  have e: "rt_type ?e = ctype_to_rpc t" by (simp add: c_to_rpc_fields)
  have plain: "element_valid w ?e" "\<not> counted_type (rt_type ?e)" "rt_type ?e \<noteq> RPC_string"
    using assms(4) by (auto simp: element_valid_def e counted_type_def rpc_is_pointer_def)
  obtain m where m: "rpc_struct_set_internal E cb s (Some k) ?e w = Inr (0, put_obj s (Struct (rs\<lparr>rs_map := m\<rparr>)) w)"
    "hashmap_get m = (hashmap_get (rs_map rs))(k \<mapsto> ?e)" "store_inv {} (put_obj s (Struct (rs\<lparr>rs_map := m\<rparr>)) w)"
    by (rule set_plain [OF assms(1,2,3,7) plain])
  let ?w = "put_obj s (Struct (rs\<lparr>rs_map := m\<rparr>)) w"
  have ent: "entry ?w a j = (if a = s \<and> j = k then Some ?e else entry w a j)" for a j
    by (rule entry_put_new [OF assms(2) m(2)])
  have s': "mem ?w s = Some (Struct (rs\<lparr>rs_map := m\<rparr>))" by simp
  have "rpc_struct_set E cb junk s k t v w = Inr (0, ?w)"
    using assms(3) m(1) by (simp add: rpc_struct_set_def exists_entry [OF assms(1,2)])
  moreover have "rpc_struct_get s k t out ?w = Inr (0, le_bytes (c_sizeof t) v)"
    using get_c_to_rpc [of t t junk out v] assms(5,6)
    by (simp add: rpc_struct_get_def get_internal_entry [OF m(3) s'] ent)
  moreover have "rpc_struct_set E cb junk' s k t' v' ?w = Inr (1, ?w)" for junk' t' v'
    by (simp add: rpc_struct_set_def exists_entry [OF m(3) s'] ent e)
  ultimately show ?thesis using m(3) ent by auto
qed

theorem set_number_then_get_witness:
  "\<exists>s w w'. store_inv {} w \<and>
    rpc_struct_set plain_env (rpc_struct_default_prec_cbs plain_env 0) (replicate 8 0) s ''n'' C_uint16 0x1234 w = Inr (0, w') \<and>
    rpc_struct_get s ''n'' C_uint16 [0, 0] w' = Inr (0, le_bytes 2 0x1234)"
proof -
  obtain s w rs where w: "store_inv {} w" "mem w = [s \<mapsto> Struct rs]" "hashmap_get (rs_map rs) = Map.empty"
    "hb_size (rs_map rs) = 0" "ptracker w = pointer_map" "s \<noteq> null"
    by (rule one_struct_store)
  have s: "mem w s = Some (Struct rs)" using w(2) by simp
  have none: "entry w s ''n'' = None" using w(3) s by (simp add: entry_def)
  have np: "\<not> rpc_is_pointer (ctype_to_rpc C_uint16)" by (simp add: rpc_is_pointer_def)
  have room: "struct_room w s" using w(2,4) by (simp add: empty_struct_room [OF s])
  have lens: "length (replicate 8 (0 :: byte)) = 8" "length [0 :: byte, 0] = c_sizeof C_uint16" by simp_all
  show ?thesis
    using set_number_then_get [OF w(1) s none np lens room, of plain_env "cbs plain_env 0" "0x1234"] w(1) by auto
qed



text \<open>C30: Setting a string stores a copy at an address that was not in use: the element refers to the copy,
  its length counts the terminating NUL, the original string is left alone and may be released.\<close>

theorem set_copies_string:
  assumes "allocator (e_malloc E)" "store_inv {} w" "mem w s = Some (Struct rs)" "entry w s k = None" "struct_room w s"
    "rt_type e = RPC_string" "mem w (ptr_value e) = Some (Cstring str)"
  shows "\<exists>w' p. rpc_struct_set_internal E cb s (Some k) e w = Inr (0, w') \<and> store_inv {} w' \<and> mem w p = None \<and>
    mem w' p = Some (Cstring str) \<and> mem w' (ptr_value e) = Some (Cstring str) \<and>
    (\<exists>e'. entry w' s k = Some e' \<and> rt_type e' = RPC_string \<and> ptr_value e' = p \<and> rt_length e' = length str + 1)"
proof -
  obtain p m e' where P: "e' = (set_ptr_value p e)\<lparr>rt_length := length str + 1\<rparr>" "mem w p = None" "p \<noteq> null" "p \<noteq> s"
    "rpc_struct_set_internal E cb s (Some k) e w = Inr (0, put_obj s (Struct (rs\<lparr>rs_map := m\<rparr>)) (put_obj p (Cstring str) w))"
    "hashmap_get m = (hashmap_get (rs_map rs))(k \<mapsto> e')"
    "store_inv {} (put_obj s (Struct (rs\<lparr>rs_map := m\<rparr>)) (put_obj p (Cstring str) w))"
    by (rule set_string [OF assms])
  have "rt_type e' = RPC_string" "ptr_value e' = p" "rt_length e' = length str + 1"
    using assms(6) by (simp_all add: P(1) ptr_value_def set_ptr_value_def)
  moreover have "ptr_value e \<noteq> p" "ptr_value e \<noteq> s" using assms(3,7) P(2) by auto
  ultimately show ?thesis using P(2,4-7) assms(7) by (auto simp: entry_def)
qed

theorem set_copies_string_witness:
  "\<exists>s p w w' q. store_inv {} w \<and> mem w p = Some (Cstring ''abc'') \<and>
    rpc_struct_set_internal plain_env (rpc_struct_default_prec_cbs plain_env 0) s (Some ''name'') (element_of RPC_string p) w = Inr (0, w') \<and>
    mem w q = None \<and> mem w' q = Some (Cstring ''abc'')"
proof -
  obtain s w0 rs where w0: "store_inv {} w0" "mem w0 = [s \<mapsto> Struct rs]" "hashmap_get (rs_map rs) = Map.empty"
    "hb_size (rs_map rs) = 0" "ptracker w0 = pointer_map" "s \<noteq> null"
    by (rule one_struct_store)
  have "card (dom (mem w0)) < 2 ^ 63" using w0(2) by simp
  then obtain p where p: "mem w0 p = None" "p \<noteq> null" using new_obj_fresh [OF plain_env_allocates w0(1)] by metis
  define w where "w = put_obj p (Cstring ''abc'') w0"
  have w: "store_inv {} w" unfolding w_def by (rule add_object [OF w0(1) p]) auto
  have s: "mem w s = Some (Struct rs)" "mem w p = Some (Cstring ''abc'')" using w0(2) p by (auto simp: w_def)
  have none: "entry w s ''name'' = None" using w0(3) s by (simp add: entry_def)
  have "card (dom (mem w)) < 2 ^ 63"
    by (rule small_memory [of w "[p, s]"]) (use w0(2) in \<open>auto simp: w_def split: if_splits\<close>)
  then have room: "struct_room w s" using w0(4) by (simp add: empty_struct_room [OF s(1)])
  obtain w' q where "rpc_struct_set_internal plain_env (cbs plain_env 0) s (Some ''name'') (element_of RPC_string p) w = Inr (0, w')"
    "mem w q = None" "mem w' q = Some (Cstring ''abc'')"
    using set_copies_string [OF plain_env_allocates w s(1) none room, of "element_of RPC_string p" "''abc''" "cbs plain_env 0"] s(2) by auto
  then show ?thesis using w s(2) by blast
qed

section \<open>IDs\<close>

text \<open>A new struct has an ID of 64 letters and digits. Setting an ID of at most 64 characters
  overwrites only as many characters: an ID of 64 is read back as it was set, a shorter one is followed by
  the end of the old ID.\<close>

theorem struct_id_roundtrip:
  assumes "allocator (e_malloc E)" "store_inv {} w" "card (dom (mem w)) < 2 ^ 63" "rpc_struct_create E w = Inr (s, w1)"
    "CHR 0x00 \<notin> set ID" "length ID \<le> 64"
  shows "\<exists>old w2. rpc_struct_id_get s w1 = Inr old \<and> length old = 64 \<and> set old \<subseteq> set ID_alphabet \<and>
    rpc_struct_id_set s ID w1 = Inr w2 \<and> rpc_struct_id_get s w2 = Inr (ID @ drop (length ID) old) \<and> store_inv {} w2"
proof -
  obtain old rnd where C: "length old = 64" "set old \<subseteq> set ID_alphabet"
    "w1 = put_obj s (Struct \<lparr>rs_map = string_map, rs_ID = old @ [CHR 0x00], rs_copyof = null, rs_destructor = null\<rparr>)
      (w\<lparr>entropy := rnd\<rparr>)"
    "mem w s = None" "s \<noteq> null" "store_inv {} w1"
    by (rule create_effect [OF assms(1,2,3,4)])
  let ?rs = "\<lparr>rs_map = string_map, rs_ID = ID @ drop (length ID) old @ [CHR 0x00], rs_copyof = null, rs_destructor = null\<rparr>"
  have "CHR 0x00 \<notin> set old" using C(2) alphabet_no_NUL by blast
  then have nul: "CHR 0x00 \<notin> set (ID @ drop (length ID) old)" using assms(5) by (auto dest: in_set_dropD)
  have get1: "rpc_struct_id_get s w1 = Inr old"
    using C(3,5) \<open>CHR 0x00 \<notin> set old\<close> by (simp add: rpc_struct_id_get_def the_struct_def c_string_terminated)
  have set1: "rpc_struct_id_set s ID w1 = Inr (put_obj s (Struct ?rs) (w\<lparr>entropy := rnd\<rparr>))"
    using C(1,3,5) assms(6) by (simp add: rpc_struct_id_set_def the_struct_def)
  have "rpc_struct_id_get s (put_obj s (Struct ?rs) (w\<lparr>entropy := rnd\<rparr>)) = Inr (ID @ drop (length ID) old)"
    using C(5) c_string_terminated [OF nul] by (simp add: rpc_struct_id_get_def the_struct_def)
  moreover have "store_inv {} (put_obj s (Struct ?rs) (w\<lparr>entropy := rnd\<rparr>))"
    using C(4,5) by (intro add_object [OF store_inv_entropy [OF assms(2)]]) (auto simp: string_map_ok)
  ultimately show ?thesis using get1 set1 C(1,2) by blast
qed

theorem struct_id_roundtrip_witness:
  "\<exists>s w1 w2 old. rpc_struct_create plain_env empty_store = Inr (s, w1) \<and> rpc_struct_id_set s ''ab'' w1 = Inr w2 \<and>
    rpc_struct_id_get s w2 = Inr (''ab'' @ drop 2 old) \<and> length old = 64"
proof -
  obtain s w1 where c: "rpc_struct_create plain_env empty_store = Inr (s, w1)" using one_struct_store by metis
  have small: "card (dom (mem empty_store)) < 2 ^ 63" by (simp add: empty_store_def)
  obtain old w2 where "rpc_struct_id_get s w1 = Inr old" "length old = 64" "rpc_struct_id_set s ''ab'' w1 = Inr w2"
    "rpc_struct_id_get s w2 = Inr (''ab'' @ drop (length ''ab'') old)"
    using struct_id_roundtrip [OF plain_env_allocates empty_store_inv small c, of "''ab''"] by auto
  moreover have "length ''ab'' = 2" by simp
  ultimately show ?thesis using c by metis
qed

text \<open>The public macro for keeping an object alive applies the test for pointer types to a truth value.\<close>

lemma increment_refcount_never_counts: "rpc_struct_increment_refcount E cb t ptr w = Inr w"
  by (cases t) (simp_all add: rpc_struct_increment_refcount_def all_types_def rpc_is_pointer_def)

text \<open>An ID longer than its array, as a JSON text may contain, runs over the end of it.\<close>

lemma long_id_overflows:
  "mem w s = Some (Struct rs) \<Longrightarrow> s \<noteq> null \<Longrightarrow> length (rs_ID rs) = 65 \<Longrightarrow> 65 < length ID \<Longrightarrow>
    rpc_struct_id_set s ID w = Inl Out_Of_Bounds"
  by (simp add: rpc_struct_id_set_def the_struct_def)

end
