(* ===== verification/Rpc_Json.thy ===== *)
theory Rpc_Json
  imports Rpc_Elements
begin

text \<open>
  The JSON form of a struct (\<open>rpc_struct.c\<close>): elements under their keys, nested objects in place, keys that
  share an object named separately. Raw pointers have no JSON form. The fuel bounds how deep structs and
  arrays are nested.
\<close>

section \<open>Numbers in text and in memory\<close>

text \<open>\<open>sprintf\<close> with \<^verbatim>\<open>%d\<close> or \<^verbatim>\<open>%zu\<close> of a number that is not negative.\<close>

definition digit :: "nat \<Rightarrow> char" where "digit d = char_of (48 + d)"

fun decimal :: "nat \<Rightarrow> string" where
  "decimal n = (if n < 10 then [digit n] else decimal (n div 10) @ [digit (n mod 10)])"

text \<open>The conversion from \<open>float\<close> to \<open>double\<close>, on the bits of IEEE 754 numbers.\<close>

definition float_to_double :: "64 word \<Rightarrow> 64 word" where
  "float_to_double x =
     (let e = take_bit 8 (drop_bit 23 x); f = take_bit 23 x; n = bit_length (unat f) in
      push_bit 63 (take_bit 1 (drop_bit 31 x)) OR
      (if e = 255 then push_bit 52 2047 OR push_bit 29 f OR (if f = 0 then 0 else push_bit 51 1)
       else if e = 0 then
         (if f = 0 then 0 else push_bit 52 (of_nat (873 + n)) OR take_bit 52 (push_bit (53 - n) f))
       else push_bit 52 (e + 896) OR push_bit 29 f))"

text \<open>The switches over the length of an element.\<close>

definition json_int_of :: "rpc_type_t \<Rightarrow> int" where
  "json_int_of e =
     (if rt_length e \<in> {1, 2, 4, 8} then sint (of_le_bytes (take (rt_length e) (data_container e))) else 0)"

definition json_double_of :: "rpc_type_t \<Rightarrow> 64 word" where
  "json_double_of e =
     (if rt_length e = 4 then float_to_double (of_le_bytes (take 4 (data_container e)))
      else if rt_length e = 8 then of_le_bytes (data_container e) else 0)"

section \<open>Serialisation\<close>

definition serialize_item ::
    "'j jansson \<Rightarrow> (addr \<Rightarrow> store \<Rightarrow> ('j \<times> store) run) \<Rightarrow> rpc_type_t \<Rightarrow> store \<Rightarrow> ('j option \<times> store) run" where
  "serialize_item J sub el w =
     (case rt_type el of
        RPC_struct \<Rightarrow> andthen (sub (ptr_value el) w) (\<lambda>(j, w'). Inr (Some j, w'))
      | RPC_function \<Rightarrow> andthen (the_function w (ptr_value el)) (\<lambda>f.
          andthen (rpc_function_serialize J f) (\<lambda>j. Inr (Some j, w)))
      | RPC_sizedbuf \<Rightarrow> andthen (the_sizedbuf w (ptr_value el)) (\<lambda>sb.
          andthen (rpc_sizedbuf_serialize J sb) (\<lambda>j. Inr (Some j, w)))
      | RPC_number \<Rightarrow> Inr (Some (j_integer J (json_int_of el)), w)
      | RPC_real \<Rightarrow> Inr (j_real J (json_double_of el), w)
      | RPC_string \<Rightarrow> andthen (the_cstring w (ptr_value el)) (\<lambda>str. Inr (j_string J str, w))
      | _ \<Rightarrow> Inr (None, w))"

definition remove_unknown :: "rpc_callbacks \<Rightarrow> addr \<Rightarrow> string \<Rightarrow> rpc_type_t \<Rightarrow> store \<Rightarrow> store run" where
  "remove_unknown cb s key el w =
     (if rt_type el = RPC_unknown then andthen (rpc_struct_remove cb s (Some key) w) (\<lambda>(r, w'). Inr w') else Inr w)"

fun remove_keys :: "rpc_callbacks \<Rightarrow> addr \<Rightarrow> string list \<Rightarrow> store \<Rightarrow> store run" where
  "remove_keys cb s [] w = Inr w"
| "remove_keys cb s (k # ks) w = andthen (rpc_struct_remove cb s (Some k) w) (\<lambda>(r, w'). remove_keys cb s ks w')"

definition serialize_elements ::
    "'j jansson \<Rightarrow> (addr \<Rightarrow> store \<Rightarrow> ('j \<times> store) run) \<Rightarrow> addr \<Rightarrow> store \<Rightarrow> ('j \<times> store) run" where
  "serialize_elements J sub s w =
     hashmap_foreach_all (\<lambda>(j, w). struct_map s w)
       (\<lambda>key el (j, w). andthen (serialize_item J sub el w) (\<lambda>(item, w'). Inr (json_object_set_new J j key item, w')))
       (j_object J, w)"

definition duplicate_names :: "rpc_struct_duplicate_info list \<Rightarrow> (string \<times> string) list" where
  "duplicate_names dups = concat (map (\<lambda>d. map (\<lambda>k. (k, di_original_name d)) (di_duplicates d)) dups)"

definition serialize_duplicates :: "'j jansson \<Rightarrow> rpc_struct_duplicate_info list \<Rightarrow> 'j" where
  "serialize_duplicates J dups =
     foldl (\<lambda>j (k, original). json_object_set_new J j k (j_string J original)) (j_object J) (duplicate_names dups)"

text \<open>The elements are taken from a copy without raw pointers and without the keys of shared objects but
  the first; the copy is released before the object of duplicates is built.\<close>

primrec rpc_struct_serialize ::
    "env \<Rightarrow> rpc_callbacks \<Rightarrow> 'j jansson \<Rightarrow> nat \<Rightarrow> addr \<Rightarrow> store \<Rightarrow> ('j \<times> store) run" where
  "rpc_struct_serialize E cb J 0 s w = Inl No_Fuel"
| "rpc_struct_serialize E cb J (Suc n) s w =
     andthen (the_struct w s) (\<lambda>_.
     andthen (rpc_struct_copy E cb s w) (\<lambda>(dupless, w1).
     andthen (rpc_struct_found_duplicates E s w1) (\<lambda>dups.
     andthen (hashmap_foreach_all (struct_map dupless) (remove_unknown cb dupless) w1) (\<lambda>w2.
     andthen (remove_keys cb dupless (concat (map di_duplicates dups)) w2) (\<lambda>w3.
     andthen (rpc_struct_id_get s w3) (\<lambda>ID.
     andthen (serialize_elements J (rpc_struct_serialize E cb J n) dupless w3) (\<lambda>(serialised, w4).
     andthen (rpc_struct_free E cb dupless w4) (\<lambda>w5.
     andthen (the_struct w5 s) (\<lambda>_.
       let root = json_object_set_new J (j_object J) ''ID'' (j_string J ID);
           root = json_object_set_new J root ''type'' (j_string J ''RPC_struct'');
           root = json_object_set_new J root ''serialised'' (Some serialised);
           root = json_object_set_new J root ''duplicates'' (Some (serialize_duplicates J dups))
       in Inr (root, w5))))))))))"

section \<open>Deserialisation\<close>

text \<open>\<open>rpc_struct_set\<close> with an argument that makes the object: it is evaluated only when the key is free.\<close>

definition rpc_struct_set_made ::
    "env \<Rightarrow> rpc_callbacks \<Rightarrow> byte list \<Rightarrow> addr \<Rightarrow> string \<Rightarrow> ctype \<Rightarrow> (store \<Rightarrow> (addr \<times> store) run) \<Rightarrow> store
     \<Rightarrow> (int \<times> store) run" where
  "rpc_struct_set_made E cb junk s key t mk w =
     andthen (rpc_struct_exists s (Some key) w) (\<lambda>ex.
       if ex = 0
       then andthen (mk w) (\<lambda>(p, w1). rpc_struct_set_internal E cb s (Some key) (c_to_rpc junk t p) w1)
       else Inr (1, w))"

text \<open>A text of the JSON library at an address of its own for the time of the call.\<close>

definition set_json_string ::
    "env \<Rightarrow> rpc_callbacks \<Rightarrow> byte list \<Rightarrow> addr \<Rightarrow> string \<Rightarrow> string \<Rightarrow> store \<Rightarrow> store run" where
  "set_json_string E cb junk s key str w =
     andthen (new_obj E (Cstring str) w) (\<lambda>(p, w1).
     andthen (rpc_struct_set E cb junk s key C_char_ptr p w1) (\<lambda>(r, w2). free_obj p w2))"

definition made_function :: "env \<Rightarrow> 'j jansson \<Rightarrow> 'j \<Rightarrow> store \<Rightarrow> (addr \<times> store) run" where
  "made_function E J item w =
     (case rpc_function_deserialize J item of None \<Rightarrow> Inr (null, w) | Some f \<Rightarrow> new_obj E (Function f) w)"

definition made_sizedbuf :: "env \<Rightarrow> 'j jansson \<Rightarrow> 'j \<Rightarrow> store \<Rightarrow> (addr \<times> store) run" where
  "made_sizedbuf E J item w =
     andthen (rpc_sizedbuf_deserialize J item) (\<lambda>r.
       case r of None \<Rightarrow> Inr (null, w) | Some sb \<Rightarrow> new_obj E (Sizedbuf sb) w)"

fun numbered :: "nat \<Rightarrow> 'j list \<Rightarrow> (string \<times> 'j) list" where
  "numbered i [] = []"
| "numbered i (x # xs) = (decimal i, x) # numbered (Suc i) xs"

text \<open>\<open>duplicates\<close>: each name in it becomes a second key of the element it names.\<close>

definition parse_duplicate ::
    "env \<Rightarrow> rpc_callbacks \<Rightarrow> 'j jansson \<Rightarrow> addr \<Rightarrow> string \<Rightarrow> 'j \<Rightarrow> store \<Rightarrow> store run" where
  "parse_duplicate E cb J new key item w =
     andthen (rpc_struct_get_internal new (j_string_value J item) w) (\<lambda>element.
     andthen (rpc_struct_set_internal E cb new (Some key) element w) (\<lambda>(r, w'). Inr w'))"

definition bad_exit :: "env \<Rightarrow> rpc_callbacks \<Rightarrow> addr \<Rightarrow> store \<Rightarrow> (addr \<times> store) run" where
  "bad_exit E cb new w = andthen (rpc_struct_free E cb new w) (\<lambda>w'. Inr (null, w'))"

text \<open>A text that is missing where the code compares or copies one is a NULL pointer.\<close>

fun item_parse ::
    "env \<Rightarrow> rpc_callbacks \<Rightarrow> 'j jansson \<Rightarrow> byte list \<Rightarrow> nat \<Rightarrow> addr \<Rightarrow> string \<Rightarrow> 'j \<Rightarrow> store \<Rightarrow> store run"
  and rpc_struct_deserialize ::
    "env \<Rightarrow> rpc_callbacks \<Rightarrow> 'j jansson \<Rightarrow> byte list \<Rightarrow> nat \<Rightarrow> 'j option \<Rightarrow> store \<Rightarrow> (addr \<times> store) run" where
  "item_parse E cb J junk 0 s key item w = Inl No_Fuel"
| "item_parse E cb J junk (Suc n) s key item w =
     (case j_typeof J item of
        JSON_INTEGER \<Rightarrow>
          andthen (rpc_struct_set E cb junk s key C_uint64 (word_of_int (j_integer_value J item)) w) (\<lambda>(r, w'). Inr w')
      | JSON_REAL \<Rightarrow>
          andthen (rpc_struct_set E cb junk s key C_double (j_real_value J item) w) (\<lambda>(r, w'). Inr w')
      | JSON_STRING \<Rightarrow>
          (case j_string_value J item of
             None \<Rightarrow> Inl Null_Deref
           | Some str \<Rightarrow> set_json_string E cb junk s key str w)
      | JSON_OBJECT \<Rightarrow>
          (case Option.bind (j_get J item ''type'') (j_string_value J) of
             None \<Rightarrow> Inl Null_Deref
           | Some item_type \<Rightarrow>
               if item_type = ''RPC_struct'' then
                 andthen (rpc_struct_set_made E cb junk s key C_rpc_struct
                            (\<lambda>w. rpc_struct_deserialize E cb J junk n (Some item) w) w) (\<lambda>(r, w'). Inr w')
               else if item_type = ''RPC_function'' then
                 andthen (rpc_struct_set_made E cb junk s key C_rpc_function (made_function E J item) w) (\<lambda>(r, w'). Inr w')
               else if item_type = ''RPC_sizedbuf'' then
                 andthen (rpc_struct_set_made E cb junk s key C_rpc_sizedbuf (made_sizedbuf E J item) w) (\<lambda>(r, w'). Inr w')
               else Inr w)
      | JSON_ARRAY \<Rightarrow>
          andthen (rpc_struct_create E w) (\<lambda>(arr_s, w1).
          andthen (rpc_struct_set E cb junk s key C_rpc_struct arr_s w1) (\<lambda>(r, w2).
            fold_run (\<lambda>arr_key array_item w. item_parse E cb J junk n arr_s arr_key array_item w)
              (numbered 0 (j_elems J item)) w2))
      | _ \<Rightarrow> Inr w)"
| "rpc_struct_deserialize E cb J junk 0 json w = Inl No_Fuel"
| "rpc_struct_deserialize E cb J junk (Suc n) json w =
     (case json of
        None \<Rightarrow> Inr (null, w)
      | Some root \<Rightarrow>
          andthen (rpc_struct_create E w) (\<lambda>(new, w1).
          andthen (case j_get J root ''ID'' of
                     None \<Rightarrow> Inr w1
                   | Some ID \<Rightarrow> (case j_string_value J ID of
                                 None \<Rightarrow> Inl Null_Deref
                               | Some str \<Rightarrow> rpc_struct_id_set new str w1)) (\<lambda>w2.
            case j_get J root ''type'' of
              None \<Rightarrow> bad_exit E cb new w2
            | Some type \<Rightarrow>
                (case j_string_value J type of
                   None \<Rightarrow> Inl Null_Deref
                 | Some str \<Rightarrow>
                     if str \<noteq> ''RPC_struct'' then bad_exit E cb new w2
                     else case j_get J root ''serialised'' of
                       None \<Rightarrow> bad_exit E cb new w2
                     | Some data \<Rightarrow>
                         andthen (fold_run (\<lambda>key item w. item_parse E cb J junk n new key item w) (j_pairs J data) w2) (\<lambda>w3.
                         andthen (case j_get J root ''duplicates'' of
                                    None \<Rightarrow> Inr w3
                                  | Some duplicates \<Rightarrow> fold_run (parse_duplicate E cb J new) (j_pairs J duplicates) w3) (\<lambda>w4.
                           Inr (new, w4)))))))"

end
