(* ===== verification/Json_Flat.thy ===== *)
theory Json_Flat
  imports Rpc_Json Struct_Examples
begin

text \<open>
  Structs whose elements are numbers, reals and strings. \<open>flat_build\<close> describes a struct that is filled
  with such elements, or emptied again, while the rest of the store stays as it was: what copying,
  serialising and deserialising do to a flat struct are instances of it.
\<close>

section \<open>Flat elements\<close>

datatype flat = Flat_Number "64 word" | Flat_Real "64 word" | Flat_String string

definition flat_value :: "store \<Rightarrow> rpc_type_t \<Rightarrow> flat option" where
  "flat_value w e =
     (case rt_type e of
        RPC_number \<Rightarrow> if rt_length e \<in> {1, 2, 4, 8} then Some (Flat_Number (word_of_int (json_int_of e))) else None
      | RPC_real \<Rightarrow> if rt_length e \<in> {4, 8} then Some (Flat_Real (json_double_of e)) else None
      | RPC_string \<Rightarrow> (case mem w (ptr_value e) of Some (Cstring str) \<Rightarrow> Some (Flat_String str) | _ \<Rightarrow> None)
      | _ \<Rightarrow> None)"

lemma flat_types: "flat_value w e = Some v \<Longrightarrow> rt_type e \<in> {RPC_number, RPC_real, RPC_string}"
  by (auto simp: flat_value_def split: rpc_types.splits)

lemma flat_not_counted: "flat_value w e = Some v \<Longrightarrow> \<not> counted_type (rt_type e)"
  by (auto simp: counted_type_def rpc_is_pointer_def dest: flat_types)

lemma flat_string: "flat_value w e = Some v \<Longrightarrow> rt_type e = RPC_string \<Longrightarrow>
    \<exists>str. v = Flat_String str \<and> mem w (ptr_value e) = Some (Cstring str)"
  by (auto simp: flat_value_def split: option.splits obj.splits)

lemma flat_value_string [simp]:
  "rt_type e = RPC_string \<Longrightarrow> mem w (ptr_value e) = Some (Cstring str) \<Longrightarrow> flat_value w e = Some (Flat_String str)"
  by (simp add: flat_value_def)

lemma flat_value_mem: "(rt_type e = RPC_string \<Longrightarrow> mem w' (ptr_value e) = mem w (ptr_value e)) \<Longrightarrow> flat_value w' e = flat_value w e"
  by (auto simp: flat_value_def split: rpc_types.splits)

definition flat_view :: "store \<Rightarrow> addr \<Rightarrow> string \<rightharpoonup> flat" where
  "flat_view w s = (\<lambda>k. Option.bind (entry w s k) (flat_value w))"

definition flat_struct :: "store \<Rightarrow> addr \<Rightarrow> bool" where
  "flat_struct w s \<longleftrightarrow> (\<forall>k e. entry w s k = Some e \<longrightarrow> flat_value w e \<noteq> None)"

section \<open>Building\<close>

text \<open>Relative to a store \<open>w0\<close> where \<open>t\<close> has no elements: \<open>t\<close> has the elements \<open>M\<close>, its strings are its own
  and new, and nothing else has changed.\<close>

definition flat_elements :: "store \<Rightarrow> addr \<Rightarrow> (string \<rightharpoonup> flat) \<Rightarrow> store \<Rightarrow> bool" where
  "flat_elements w0 t M w \<longleftrightarrow>
     (\<forall>k. entry w t k = None \<longleftrightarrow> M k = None) \<and>
     (\<forall>k e. entry w t k = Some e \<longrightarrow>
        flat_value w e = M k \<and> (rt_type e = RPC_string \<longrightarrow> mem w0 (ptr_value e) = None))"

definition flat_rest :: "store \<Rightarrow> addr \<Rightarrow> store \<Rightarrow> bool" where
  "flat_rest w0 t w \<longleftrightarrow>
     (\<forall>a. a \<noteq> t \<longrightarrow> mem w0 a \<noteq> None \<longrightarrow> mem w a = mem w0 a) \<and>
     (\<forall>a. mem w a \<noteq> None \<longrightarrow> mem w0 a \<noteq> None \<or> (\<exists>k e. entry w t k = Some e \<and> rt_type e = RPC_string \<and> ptr_value e = a)) \<and>
     ptracker w = ptracker w0 \<and> entropy w = entropy w0"

definition flat_build :: "store \<Rightarrow> addr \<Rightarrow> (string \<rightharpoonup> flat) \<Rightarrow> store \<Rightarrow> bool" where
  "flat_build w0 t M w \<longleftrightarrow>
     store_inv {} w \<and> (\<exists>rs0 rs. mem w0 t = Some (Struct rs0) \<and> mem w t = Some (Struct rs) \<and> rs_ID rs = rs_ID rs0) \<and>
     flat_elements w0 t M w \<and> flat_rest w0 t w"

lemma flat_buildD:
  assumes "flat_build w0 t M w"
  shows "store_inv {} w" "entry w t k = None \<longleftrightarrow> M k = None" "entry w t k = Some e \<Longrightarrow> flat_value w e = M k"
    "entry w t k = Some e \<Longrightarrow> rt_type e = RPC_string \<Longrightarrow> mem w0 (ptr_value e) = None"
    "a \<noteq> t \<Longrightarrow> mem w0 a \<noteq> None \<Longrightarrow> mem w a = mem w0 a"
    "mem w a \<noteq> None \<Longrightarrow> mem w0 a \<noteq> None \<or> (\<exists>k e. entry w t k = Some e \<and> rt_type e = RPC_string \<and> ptr_value e = a)"
    "ptracker w = ptracker w0" "entropy w = entropy w0"
  using assms unfolding flat_build_def flat_elements_def flat_rest_def by blast+

lemma flat_build_struct:
  assumes "flat_build w0 t M w"
  obtains rs0 rs where "mem w0 t = Some (Struct rs0)" "mem w t = Some (Struct rs)" "rs_ID rs = rs_ID rs0"
  using assms unfolding flat_build_def by blast

lemma flat_build_view: "flat_build w0 t M w \<Longrightarrow> flat_view w t = M"
proof
  fix k assume B: "flat_build w0 t M w"
  show "flat_view w t k = M k"
    using flat_buildD(2,3) [OF B, of k] by (cases "entry w t k") (auto simp: flat_view_def)
qed

lemma flat_build_start:
  assumes "store_inv {} w" "mem w t = Some (Struct rs)" "hashmap_get (rs_map rs) = Map.empty"
  shows "flat_build w t Map.empty w"
proof -
  have "entry w t k = None" for k using assms(2,3) by (simp add: entry_def)
  then show ?thesis using assms by (auto simp: flat_build_def flat_elements_def flat_rest_def)
qed

lemma flat_build_table:
  assumes "flat_build w0 t M w"
  obtains rs where "mem w0 t \<noteq> None" "mem w t = Some (Struct rs)" "hm_inv (rs_map rs)"
    "dom (hashmap_get (rs_map rs)) = dom M" "rs_destructor rs = null" "t \<noteq> null"
proof -
  obtain rs0 rs where t: "mem w0 t = Some (Struct rs0)" "mem w t = Some (Struct rs)"
    by (rule flat_build_struct [OF assms]) (rule that)
  have "hashmap_get (rs_map rs) k = None \<longleftrightarrow> M k = None" for k
    using flat_buildD(2) [OF assms, of k] t(2) by (simp add: entry_def)
  then have "dom (hashmap_get (rs_map rs)) = dom M" unfolding dom_def by simp
  then show thesis using that [OF _ t(2)] t(1) store_inv_struct [OF flat_buildD(1) [OF assms] t(2)] by simp
qed

text \<open>How much memory the build takes.\<close>

lemma flat_build_card:
  assumes B: "flat_build w0 t M w" and fin: "finite (dom (mem w0))"
  shows "card (dom (mem w)) \<le> card (dom (mem w0)) + card (dom M)" "finite (dom M)"
proof -
  obtain rs :: rstruct where "hm_inv (rs_map rs)" "dom (hashmap_get (rs_map rs)) = dom M"
    by (rule flat_build_table [OF B]) (rule that)
  then show M: "finite (dom M)" using hm.finite_dom by metis
  let ?f = "\<lambda>k. ptr_value (the (entry w t k))"
  have "dom (mem w) \<subseteq> dom (mem w0) \<union> ?f ` dom M"
  proof
    fix a assume "a \<in> dom (mem w)"
    then have "mem w0 a \<noteq> None \<or> (\<exists>k e. entry w t k = Some e \<and> rt_type e = RPC_string \<and> ptr_value e = a)"
      using flat_buildD(6) [OF B] by blast
    then show "a \<in> dom (mem w0) \<union> ?f ` dom M"
    proof (elim disjE exE conjE)
      fix k e assume e: "entry w t k = Some e" "ptr_value e = a"
      then have "k \<in> dom M" using flat_buildD(2) [OF B, of k] by (cases "M k") auto
      then show ?thesis using e by (intro UnI2 image_eqI [of _ _ k]) simp_all
    qed auto
  qed
  then have "card (dom (mem w)) \<le> card (dom (mem w0) \<union> ?f ` dom M)"
    using fin M by (intro card_mono) auto
  also have "\<dots> \<le> card (dom (mem w0)) + card (?f ` dom M)" by (rule card_Un_le)
  also have "\<dots> \<le> card (dom (mem w0)) + card (dom M)" using card_image_le [OF M] by (intro add_left_mono) simp
  finally show "card (dom (mem w)) \<le> card (dom (mem w0)) + card (dom M)" .
qed

lemma flat_build_size:
  assumes B: "flat_build w0 t M w" shows "hb_size (struct_map t w) = card (dom M)"
proof -
  obtain rs where "mem w t = Some (Struct rs)" "hm_inv (rs_map rs)" "dom (hashmap_get (rs_map rs)) = dom M"
    by (rule flat_build_table [OF B]) (rule that)
  then show ?thesis using hm.count [of "rs_map rs"] by (simp add: struct_map_def)
qed

text \<open>The room a build of \<open>n\<close> elements needs.\<close>

definition flat_room :: "store \<Rightarrow> nat \<Rightarrow> bool" where
  "flat_room w n \<longleftrightarrow> card (dom (mem w)) + n < 2 ^ 63 \<and> n \<le> table_limit"

lemma flat_build_room:
  assumes "flat_build w0 t M w" "store_inv X w0" "flat_room w0 n" "card (dom M) < n"
  shows "struct_room w t"
proof -
  have "finite (dom (mem w0))" using tracker_okD(2) [OF store_invD(1) [OF assms(2)]] .
  then show ?thesis
    using flat_build_card [OF assms(1)] flat_build_size [OF assms(1)] assms(3,4)
    by (simp add: struct_room_def flat_room_def)
qed

section \<open>One element more\<close>

text \<open>The invariant after an element \<open>e'\<close> was put under a new key of \<open>t\<close>, with the memory of its string.\<close>

lemma flat_build_extend:
  assumes B: "flat_build w0 t M w" and new: "M k = None" and t: "mem w t = Some (Struct rs)"
    and m: "hashmap_get m = (hashmap_get (rs_map rs))(k \<mapsto> e)"
    and w1: "\<And>a. mem w a \<noteq> None \<Longrightarrow> mem w1 a = mem w a"
      "\<And>a. mem w a = None \<Longrightarrow> mem w1 a \<noteq> None \<Longrightarrow> rt_type e = RPC_string \<and> ptr_value e = a"
      "ptracker w1 = ptracker w" "entropy w1 = entropy w"
    and str: "rt_type e = RPC_string \<Longrightarrow> mem w (ptr_value e) = None" and val: "flat_value w1 e = Some v"
    and inv: "store_inv {} (put_obj t (Struct (rs\<lparr>rs_map := m\<rparr>)) w1)"
  shows "flat_build w0 t (M(k \<mapsto> v)) (put_obj t (Struct (rs\<lparr>rs_map := m\<rparr>)) w1)"
proof -
  let ?w = "put_obj t (Struct (rs\<lparr>rs_map := m\<rparr>)) w1"
  obtain rs0 where t0: "mem w0 t = Some (Struct rs0)" "rs_ID rs = rs_ID rs0"
    using flat_build_struct [OF B] t by auto
  have t1: "mem w1 t = Some (Struct rs)" using w1(1) [of t] t by simp
  have ent: "entry ?w t j = (if j = k then Some e else entry w t j)" for j
    using t by (simp add: entry_def m)
  have same: "flat_value ?w f = flat_value w1 f" for f using t1 by (simp add: flat_value_def split: rpc_types.split)
  have w0w: "mem w0 a \<noteq> None \<Longrightarrow> mem w a \<noteq> None" for a
    using flat_buildD(5) [OF B, of a] t by (cases "a = t") auto
  have old: "flat_value w1 f = flat_value w f" if "entry w t j = Some f" for j f
  proof (rule flat_value_mem)
    assume "rt_type f = RPC_string"
    moreover have "visible {} w t j = Some f" using that by (simp add: visible_def)
    ultimately obtain str where "mem w (ptr_value f) = Some (Cstring str)"
      using store_inv_string [OF flat_buildD(1) [OF B]] by metis
    then show "mem w1 (ptr_value f) = mem w (ptr_value f)" using w1(1) by simp
  qed
  have str0: "mem w0 (ptr_value e) = None" if "rt_type e = RPC_string"
    using str [OF that] w0w [of "ptr_value e"] by (cases "mem w0 (ptr_value e)") auto
  have "flat_elements w0 t (M(k \<mapsto> v)) ?w"
    unfolding flat_elements_def ent same
    using flat_buildD(2,3,4) [OF B] old val str0 by (auto split: if_splits)
  moreover have "flat_rest w0 t ?w"
    unfolding flat_rest_def ent
  proof (intro conjI allI impI)
    fix a assume "a \<noteq> t" "mem w0 a \<noteq> None"
    then show "mem ?w a = mem w0 a" using flat_buildD(5) [OF B] w1(1) [of a] by simp
  next
    fix a assume a: "mem ?w a \<noteq> None"
    show "mem w0 a \<noteq> None \<or> (\<exists>j f. (if j = k then Some e else entry w t j) = Some f \<and> rt_type f = RPC_string \<and> ptr_value f = a)"
    proof (cases "mem w a")
      case None
      then have "a \<noteq> t" using t by auto
      then have "rt_type e = RPC_string \<and> ptr_value e = a" using w1(2) [OF None] a by simp
      then show ?thesis by auto
    next
      case (Some x)
      then consider "mem w0 a \<noteq> None" | j f where "entry w t j = Some f" "rt_type f = RPC_string" "ptr_value f = a"
        using flat_buildD(6) [OF B, of a] by auto
      then show ?thesis
      proof cases
        case (2 j f)
        then have "j \<noteq> k" using flat_buildD(2) [OF B, of k] new by auto
        then show ?thesis using 2 by auto
      qed simp
    qed
  qed (use flat_buildD(7,8) [OF B] w1(3,4) in simp_all)
  ultimately show ?thesis using inv t0 by (auto simp: flat_build_def)
qed

lemma flat_set:
  assumes E: "allocator (e_malloc E)" and B: "flat_build w0 t M w" and inv0: "store_inv X w0"
    and room: "flat_room w0 n" "card (dom M) < n" and new: "M k = None" and e: "flat_value w e = Some v"
  obtains w' where "rpc_struct_set_internal E cb t (Some k) e w = Inr (0, w')" "flat_build w0 t (M(k \<mapsto> v)) w'"
proof -
  note inv = flat_buildD(1) [OF B]
  obtain rs where t: "mem w t = Some (Struct rs)" using flat_build_struct [OF B] by metis
  have none: "entry w t k = None" using flat_buildD(2) [OF B] new by simp
  have r: "struct_room w t" by (rule flat_build_room [OF B inv0 room])
  have w0w: "mem w0 a \<noteq> None \<Longrightarrow> mem w a \<noteq> None" for a
    using flat_buildD(5) [OF B, of a] t by (cases "a = t") auto
  show thesis
  proof (cases "rt_type e = RPC_string")
    case True
    obtain str where str: "v = Flat_String str" "mem w (ptr_value e) = Some (Cstring str)"
      using flat_string [OF e True] by blast
    obtain p m e' where S: "e' = (set_ptr_value p e)\<lparr>rt_length := length str + 1\<rparr>" "mem w p = None" "p \<noteq> null" "p \<noteq> t"
      "rpc_struct_set_internal E cb t (Some k) e w = Inr (0, put_obj t (Struct (rs\<lparr>rs_map := m\<rparr>)) (put_obj p (Cstring str) w))"
      "hashmap_get m = (hashmap_get (rs_map rs))(k \<mapsto> e')"
      "store_inv {} (put_obj t (Struct (rs\<lparr>rs_map := m\<rparr>)) (put_obj p (Cstring str) w))"
      by (rule set_string [OF E inv t none r True str(2)])
    have e': "rt_type e' = RPC_string" "ptr_value e' = p"
      using True by (simp_all add: S(1) ptr_value_def set_ptr_value_def)
    have "flat_build w0 t (M(k \<mapsto> v)) (put_obj t (Struct (rs\<lparr>rs_map := m\<rparr>)) (put_obj p (Cstring str) w))"
      by (rule flat_build_extend [OF B new t S(6) _ _ _ _ _ _ S(7)])
        (use S(2) e' str(1) in \<open>auto split: if_splits\<close>)
    then show thesis using that S(5) by blast
  next
    case False
    have u: "rt_type e \<noteq> RPC_unknown" "\<not> counted_type (rt_type e)" using flat_types [OF e] flat_not_counted [OF e] by auto
    then have "element_valid w e" using False by (simp add: element_valid_def)
    then obtain m where S: "rpc_struct_set_internal E cb t (Some k) e w = Inr (0, put_obj t (Struct (rs\<lparr>rs_map := m\<rparr>)) w)"
      "hashmap_get m = (hashmap_get (rs_map rs))(k \<mapsto> e)" "store_inv {} (put_obj t (Struct (rs\<lparr>rs_map := m\<rparr>)) w)"
      using set_plain [OF inv t none r _ u(2) False] by blast
    have "flat_build w0 t (M(k \<mapsto> v)) (put_obj t (Struct (rs\<lparr>rs_map := m\<rparr>)) w)"
      by (rule flat_build_extend [OF B new t S(2) _ _ _ _ _ _ S(3)]) (use False e in auto)
    then show thesis using that S(1) by blast
  qed
qed

end
