(* ===== verification/Json_Copy.thy ===== *)
theory Json_Copy
  imports Json_Flat
begin

text \<open>
  Emptying and releasing a flat struct leaves no trace of it; copying one makes a flat struct with the same
  elements.
\<close>

section \<open>One element less\<close>

text \<open>The memory after the string of an element, if it has one, was released.\<close>

lemma flat_release_value:
  assumes B: "flat_build w0 t M w" and e: "entry w t k = Some e"
  obtains w1 where
    "(if counted_type (rt_type e)
      then prec_decrement cb (prec_get w (ptr_value e)) (Some \<lparr>ud_origin = t, ud_name = Some k, ud_free = None\<rparr>) w
      else if rt_type e = RPC_string then free_obj (ptr_value e) w else Inr w) = Inr w1"
    "store_inv {(t, k)} w1" "ptracker w1 = ptracker w" "entropy w1 = entropy w"
    "\<forall>a. mem w1 a = (if rt_type e = RPC_string \<and> a = ptr_value e then None else mem w a)"
proof -
  note inv = flat_buildD(1) [OF B]
  have v: "visible {} w t k = Some e" using e by (simp add: visible_def)
  obtain v where val: "flat_value w e = Some v"
    using flat_buildD(2,3) [OF B, of k] e by (cases "M k") auto
  note cnt = flat_not_counted [OF val]
  show thesis
  proof (cases "rt_type e = RPC_string")
    case True
    obtain str where str: "mem w (ptr_value e) = Some (Cstring str)" using flat_string [OF val True] by blast
    have p0: "ptr_value e \<noteq> null" using str store_inv_null [OF inv] by auto
    obtain w1 where w1: "free_obj (ptr_value e) w = Inr w1" "store_inv {(t, k)} w1"
      by (rule release_string [OF inv v True])
    have "w1 = w\<lparr>mem := (mem w)(ptr_value e := None)\<rparr>" using w1(1) str p0 by (simp add: free_obj_def)
    then show thesis using that [of w1] w1 cnt True by simp
  next
    case False
    have "store_inv {(t, k)} w" using exempt_uncounted [OF inv v cnt] by simp
    then show thesis using that [of w] cnt False by simp
  qed
qed

lemma flat_remove:
  assumes B: "flat_build w0 t M w" and k: "M k \<noteq> None"
  obtains w' where "rpc_struct_remove cb t (Some k) w = Inr (0, w')" "flat_build w0 t (M(k := None)) w'"
    "struct_map t w' = snd (hashmap_remove (struct_map t w) k)"
proof -
  note inv = flat_buildD(1) [OF B]
  obtain rs where t: "mem w0 t \<noteq> None" "mem w t = Some (Struct rs)" "hm_inv (rs_map rs)"
    "dom (hashmap_get (rs_map rs)) = dom M" "rs_destructor rs = null" "t \<noteq> null"
    by (rule flat_build_table [OF B])
  obtain e where e: "entry w t k = Some e" using flat_buildD(2) [OF B, of k] k by (cases "entry w t k") auto
  have me: "hashmap_get (rs_map rs) k = Some e" using e t(2) by (simp add: entry_def)
  obtain w1 where w1: "(if counted_type (rt_type e)
      then prec_decrement cb (prec_get w (ptr_value e)) (Some \<lparr>ud_origin = t, ud_name = Some k, ud_free = None\<rparr>) w
      else if rt_type e = RPC_string then free_obj (ptr_value e) w else Inr w) = Inr w1"
    "store_inv {(t, k)} w1" "ptracker w1 = ptracker w" "entropy w1 = entropy w"
    "\<forall>a. mem w1 a = (if rt_type e = RPC_string \<and> a = ptr_value e then None else mem w a)"
    by (rule flat_release_value [OF B e])
  have pt: "ptr_value e \<noteq> t" if "rt_type e = RPC_string"
    using flat_buildD(4) [OF B e that] t(1) by auto
  have t1: "mem w1 t = Some (Struct rs)" using w1(5) t(2) pt by auto
  obtain m' where rem: "hashmap_remove (rs_map rs) k = (Some e, m')" using hm.delete [OF t(3), of k] me by auto
  note D = hm.delete_result(3) [OF t(3) rem]
  let ?w = "put_obj t (Struct (rs\<lparr>rs_map := m'\<rparr>)) w1"
  have run: "rpc_struct_remove cb t (Some k) w = Inr (0, ?w)"
    using t(2,6) me w1(1) t1 rem by (simp add: rpc_struct_remove_def the_struct_def)
  have ent: "entry ?w t j = (if j = k then None else entry w t j)" for j
    using t(2) D by (simp add: entry_def)
  have other: "rt_type f = RPC_string \<Longrightarrow> ptr_value f \<noteq> t \<and> \<not> (rt_type e = RPC_string \<and> ptr_value f = ptr_value e)"
    if "entry w t j = Some f" "j \<noteq> k" for j f
  proof
    assume f: "rt_type f = RPC_string"
    show "ptr_value f \<noteq> t" using flat_buildD(4) [OF B that(1) f] t(1) by auto
    have "visible {} w t j = Some f" "visible {} w t k = Some e" using that(1) e by (simp_all add: visible_def)
    then show "\<not> (rt_type e = RPC_string \<and> ptr_value f = ptr_value e)"
      using store_invD(4) [OF inv] f that(2) unfolding strings_owned_def by blast
  qed
  have same: "flat_value ?w f = flat_value w f" if "entry w t j = Some f" "j \<noteq> k" for j f
    by (rule flat_value_mem) (use other [OF that] w1(5) in auto)
  have "flat_elements w0 t (M(k := None)) ?w"
    unfolding flat_elements_def ent using flat_buildD(2,3,4) [OF B] same by auto
  moreover have "flat_rest w0 t ?w"
    unfolding flat_rest_def ent
  proof (intro conjI allI impI)
    fix a assume "a \<noteq> t" "mem w0 a \<noteq> None"
    then show "mem ?w a = mem w0 a" using flat_buildD(5) [OF B] w1(5) flat_buildD(4) [OF B e] by auto
  next
    fix a assume "mem ?w a \<noteq> None"
    then have a: "mem w a \<noteq> None" "rt_type e = RPC_string \<longrightarrow> a \<noteq> ptr_value e \<or> a = t"
      using w1(5) t(2) by (auto split: if_splits)
    consider "mem w0 a \<noteq> None" | j f where "entry w t j = Some f" "rt_type f = RPC_string" "ptr_value f = a"
      using flat_buildD(6) [OF B a(1)] by blast
    then show "mem w0 a \<noteq> None \<or> (\<exists>j f. (if j = k then None else entry w t j) = Some f \<and> rt_type f = RPC_string \<and> ptr_value f = a)"
    proof cases
      case (2 j f)
      then show ?thesis using a(2) e t(1) by (cases "j = k") auto
    qed simp
  qed (use flat_buildD(7,8) [OF B] w1(3,4) in simp_all)
  moreover have "store_inv {} ?w"
    using remove_exempt_entry [OF w1(2) t1, of "Some e" m'] rem by simp
  moreover obtain rs0 where "mem w0 t = Some (Struct rs0)" "rs_ID rs = rs_ID rs0"
    using flat_build_struct [OF B] t(2) by auto
  ultimately have "flat_build w0 t (M(k := None)) ?w" by (auto simp: flat_build_def)
  then show thesis using that [OF run] rem t(2) by (simp add: struct_map_def)
qed

section \<open>Releasing\<close>

lemma flat_free_internals:
  assumes B: "flat_build w0 t M w"
  obtains w2 rs where "rpc_struct_free_internals E cb t w = Inr w2" "mem w2 t = Some (Struct rs)"
    "\<forall>a. a \<noteq> t \<longrightarrow> mem w2 a = mem w0 a" "ptracker w2 = ptracker w0" "entropy w2 = entropy w0"
proof -
  define I where "I = (\<lambda>w1. \<exists>M. flat_build w0 t M w1)"
  define body where "body = (\<lambda>key (v :: rpc_type_t) w1.
      andthen (rpc_struct_remove cb t (Some key) w1) (\<lambda>(r, w'). Inr w'))"
  obtain rs where t: "mem w0 t \<noteq> None" "mem w t = Some (Struct rs)" "hm_inv (rs_map rs)"
    "dom (hashmap_get (rs_map rs)) = dom M" "rs_destructor rs = null" "t \<noteq> null"
    by (rule flat_build_table [OF B])
  have hmt: "hm_inv (struct_map t w1)" "dom (hashmap_get (struct_map t w1)) = dom M1" if "flat_build w0 t M1 w1" for w1 M1
    by (rule flat_build_table [OF that], simp add: struct_map_def)+
  have step: "\<exists>w2. body k v w1 = Inr w2 \<and> I w2 \<and> struct_map t w2 = snd (hashmap_remove (struct_map t w1) k)"
    if I1: "I w1" and k: "hashmap_get (struct_map t w1) k = Some v" for w1 k v
  proof -
    obtain M1 where M1: "flat_build w0 t M1 w1" using I1 by (auto simp: I_def)
    have "M1 k \<noteq> None" using hmt(2) [OF M1] k by blast
    then obtain w2 where "rpc_struct_remove cb t (Some k) w1 = Inr (0, w2)" "flat_build w0 t (M1(k := None)) w2"
      "struct_map t w2 = snd (hashmap_remove (struct_map t w1) k)"
      by (rule flat_remove [OF M1])
    then show ?thesis by (auto simp: body_def I_def)
  qed
  have I0: "I w" using B by (auto simp: I_def)
  have hmI: "hm_inv (struct_map t w1)" if "I w1" for w1 using that hmt(1) by (auto simp: I_def)
  obtain w2 where loop: "hashmap_foreach_all (struct_map t) body w = Inr w2" "I w2" "hashmap_get (struct_map t w2) = Map.empty"
    using emptying_loop [of I w t body, OF I0 hmI step] by blast
  then obtain M2 where w2: "flat_build w0 t M2 w2" unfolding I_def by blast
  obtain rs2 where t2: "mem w2 t = Some (Struct rs2)" by (rule flat_build_struct [OF w2]) (rule that)
  have none: "entry w2 t k = None" for k using loop(3) t2 by (simp add: struct_map_def entry_def)
  have keep: "mem w2 a = mem w0 a" if "a \<noteq> t" for a
    using flat_buildD(5,6) [OF w2, of a] that none by (cases "mem w0 a"; cases "mem w2 a") auto
  have "rpc_struct_free_internals E cb t w = Inr (put_obj t (Struct (rs2\<lparr>rs_map := snd (hashmap_base_cleanup (rs_map rs2))\<rparr>)) w2)"
    using t(2,5,6) t2 loop(1)
    by (simp add: rpc_struct_free_internals_def the_struct_def hashmap_foreach_key_safe_def body_def)
  then show thesis using that keep flat_buildD(7,8) [OF w2] by simp
qed

lemma flat_free:
  assumes B: "flat_build w0 t M w" and untr: "prec_get w t = null"
  obtains w' where "rpc_struct_free E cb t w = Inr w'" "mem w' = (mem w0)(t := None)" "ptracker w' = ptracker w0"
    "entropy w' = entropy w0"
proof -
  obtain w2 rs where w2: "rpc_struct_free_internals E cb t w = Inr w2" "mem w2 t = Some (Struct rs)"
    "\<forall>a. a \<noteq> t \<longrightarrow> mem w2 a = mem w0 a" "ptracker w2 = ptracker w0" "entropy w2 = entropy w0"
    by (rule flat_free_internals [OF B])
  have t0: "t \<noteq> null" by (rule flat_build_table [OF B])
  have "rpc_struct_free E cb t w = Inr (w2\<lparr>mem := (mem w2)(t := None)\<rparr>)"
    using untr w2(1,2) t0 by (simp add: rpc_struct_free_def rpc_struct_free_internal_def free_obj_def)
  moreover have "(mem w2)(t := None) = (mem w0)(t := None)" using w2(3) by (intro ext) simp
  ultimately show thesis using that [of "w2\<lparr>mem := (mem w2)(t := None)\<rparr>"] w2(4,5) by simp
qed

section \<open>Filling\<close>

text \<open>A loop that adds elements of \<open>V\<close> to \<open>t\<close> until it has them all.\<close>

definition fills :: "store \<Rightarrow> addr \<Rightarrow> (string \<rightharpoonup> flat) \<Rightarrow> (string \<Rightarrow> 'x \<Rightarrow> store \<Rightarrow> store run) \<Rightarrow> string \<Rightarrow> 'x \<Rightarrow> bool" where
  "fills w0 t V body k x \<longleftrightarrow>
     (\<forall>M w. flat_build w0 t M w \<longrightarrow> M \<subseteq>\<^sub>m V \<longrightarrow>
        (\<exists>M' w'. body k x w = Inr w' \<and> flat_build w0 t M' w' \<and> M \<subseteq>\<^sub>m M' \<and> M' \<subseteq>\<^sub>m V \<and> M' k \<noteq> None))"

lemma flat_fill:
  assumes "\<And>k x. (k, x) \<in> set es \<Longrightarrow> fills w0 t V body k x" "flat_build w0 t M w" "M \<subseteq>\<^sub>m V"
  shows "\<exists>M' w'. fold_run body es w = Inr w' \<and> flat_build w0 t M' w' \<and> M \<subseteq>\<^sub>m M' \<and> M' \<subseteq>\<^sub>m V \<and> fst ` set es \<subseteq> dom M'"
  using assms
proof (induction es arbitrary: M w)
  case Nil
  then show ?case by (auto intro!: exI [of _ M])
next
  case (Cons y es)
  obtain k x where y [simp]: "y = (k, x)" by fastforce
  have "fills w0 t V body k x" using Cons.prems(1) by simp
  then obtain M1 w1 where 1: "body k x w = Inr w1" "flat_build w0 t M1 w1" "M \<subseteq>\<^sub>m M1" "M1 \<subseteq>\<^sub>m V" "M1 k \<noteq> None"
    using Cons.prems(2,3) unfolding fills_def by blast
  obtain M2 w2 where 2: "fold_run body es w1 = Inr w2" "flat_build w0 t M2 w2" "M1 \<subseteq>\<^sub>m M2" "M2 \<subseteq>\<^sub>m V" "fst ` set es \<subseteq> dom M2"
    using Cons.IH [OF _ 1(2,4)] Cons.prems(1) by auto
  have "M2 k \<noteq> None" using 1(5) 2(3) by (auto simp: map_le_def dom_def)
  then have "fst ` set (y # es) \<subseteq> dom M2" using 2(5) by auto
  then show ?case using 1(1) 2(1,2,4) map_le_trans [OF 1(3) 2(3)] by auto
qed

lemma set_taken:
  assumes "mem w t = Some (Struct rs)" "t \<noteq> null" "hashmap_get (rs_map rs) k \<noteq> None"
  shows "rpc_struct_set_internal E cb t (Some k) e w = Inr (1, w)"
  using assms by (auto simp: rpc_struct_set_internal_def the_struct_def)

text \<open>One more element of \<open>V\<close>, or one that is already there.\<close>

lemma flat_set_once:
  assumes E: "allocator (e_malloc E)" and B: "flat_build w0 t M w" and inv0: "store_inv X w0"
    and M: "M \<subseteq>\<^sub>m V" "finite (dom V)" and room: "flat_room w0 (card (dom V))"
    and e: "flat_value w e = V k" "V k \<noteq> None"
  shows "\<exists>M' w' r. rpc_struct_set_internal E cb t (Some k) e w = Inr (r, w') \<and> flat_build w0 t M' w' \<and> M \<subseteq>\<^sub>m M' \<and>
    M' \<subseteq>\<^sub>m V \<and> M' k \<noteq> None"
proof (cases "M k")
  case None
  obtain v where v: "V k = Some v" using e(2) by auto
  have "dom M \<subset> dom V" using map_le_implies_dom_le [OF M(1)] None v domIff [of k M] domI [of V k v] by blast
  then have "card (dom M) < card (dom V)" using M(2) by (rule psubset_card_mono [rotated])
  moreover have "flat_value w e = Some v" using e(1) v by simp
  ultimately obtain w' where "rpc_struct_set_internal E cb t (Some k) e w = Inr (0, w')" "flat_build w0 t (M(k \<mapsto> v)) w'"
    using flat_set [OF E B inv0 room _ None] by blast
  moreover have "M \<subseteq>\<^sub>m M(k \<mapsto> v)" "M(k \<mapsto> v) \<subseteq>\<^sub>m V" using M(1) None v by (auto simp: map_le_def)
  ultimately show ?thesis by (intro exI [of _ "M(k \<mapsto> v)"]) auto
next
  case (Some v)
  obtain rs where t: "mem w t = Some (Struct rs)" "t \<noteq> null" "dom (hashmap_get (rs_map rs)) = dom M"
    by (rule flat_build_table [OF B]) (rule that)
  have "hashmap_get (rs_map rs) k \<noteq> None" using t(3) Some by blast
  from set_taken [OF t(1,2) this] show ?thesis using B M(1) Some by (intro exI [of _ M]) auto
qed

section \<open>Copying\<close>

lemma store_inv_same_map:
  assumes inv: "store_inv X w" and s: "mem w s = Some (Struct rs)" and rs': "rs_map rs' = rs_map rs" "rs_destructor rs' = null"
  shows "store_inv X (put_obj s (Struct rs') w)"
proof -
  note I = store_invD [OF inv]
  show ?thesis
  proof (rule store_inv_cong [OF inv])
    show "visible X (put_obj s (Struct rs') w) t j = visible X w t j" for t j
      using s rs'(1) by (simp add: visible_def entry_def)
    show "tracker_ok (put_obj s (Struct rs') w)" using s by (intro tracker_ok_put [OF I(1)]) auto
    show "structs_ok (put_obj s (Struct rs') w)" using I(2) s rs' by (auto simp: structs_ok_def)
    show "otype (put_obj s (Struct rs') w) p = otype w p" for p using s by (simp add: otype_def)
    then show "mem (put_obj s (Struct rs') w) q = mem w q \<and> otype (put_obj s (Struct rs') w) ptr = otype w ptr"
      if "hashmap_get (ptracker w) ptr = Some q" for ptr q
      using tracker_okD(4) [OF I(1) that] s by auto
  qed simp
qed

lemma flat_build_copyof:
  assumes B: "flat_build w0 t M w" and t: "mem w t = Some (Struct rs)"
  shows "flat_build w0 t M (put_obj t (Struct (rs\<lparr>rs_copyof := original\<rparr>)) w)"
proof -
  let ?w = "put_obj t (Struct (rs\<lparr>rs_copyof := original\<rparr>)) w"
  have "store_inv {} ?w"
    using store_inv_same_map [OF flat_buildD(1) [OF B] t] store_inv_struct(2) [OF flat_buildD(1) [OF B] t] by simp
  moreover have ent: "entry ?w t k = entry w t k" for k using t by (simp add: entry_def)
  have val: "flat_value ?w e = flat_value w e" for e using t by (simp add: flat_value_def split: rpc_types.split)
  have "flat_elements w0 t M ?w" using flat_buildD(2,3,4) [OF B] by (simp add: flat_elements_def ent val)
  moreover have "flat_rest w0 t ?w"
    unfolding flat_rest_def ent using flat_buildD(5,6,7,8) [OF B] t by auto
  moreover obtain rs0 where "mem w0 t = Some (Struct rs0)" "rs_ID rs = rs_ID rs0"
    using flat_build_struct [OF B] t by auto
  ultimately show ?thesis by (simp add: flat_build_def)
qed

lemma flat_view_Some: "flat_view w s k = Some v \<longleftrightarrow> (\<exists>e. entry w s k = Some e \<and> flat_value w e = Some v)"
  by (auto simp: flat_view_def bind_eq_Some_conv)

lemma flat_view_dom:
  assumes "flat_struct w s" "mem w s = Some (Struct rs)" "hm_inv (rs_map rs)"
  shows "dom (flat_view w s) = dom (hashmap_get (rs_map rs))" "finite (dom (flat_view w s))"
    "card (dom (flat_view w s)) = hb_size (rs_map rs)"
proof -
  have "flat_view w s k = None \<longleftrightarrow> hashmap_get (rs_map rs) k = None" for k
    using assms(1,2) by (cases "hashmap_get (rs_map rs) k") (auto simp: flat_view_def flat_struct_def entry_def)
  then show "dom (flat_view w s) = dom (hashmap_get (rs_map rs))" unfolding dom_def by simp
  then show "finite (dom (flat_view w s))" "card (dom (flat_view w s)) = hb_size (rs_map rs)"
    using hm.finite_dom [OF assms(3)] hm.count [OF assms(3)] by simp_all
qed

lemma entries_view:
  assumes "flat_struct w s" "mem w s = Some (Struct rs)" "hm_inv (rs_map rs)" "(k, e) \<in> set (hm_entries (rs_map rs))"
  obtains v where "entry w s k = Some e" "flat_value w e = Some v" "flat_view w s k = Some v"
proof -
  have "hm_map (rs_map rs) k = Some e"
    using assms(4) hm_inv_distinct [OF assms(3)] by (simp add: hm_map_def)
  then have e: "entry w s k = Some e" using assms(2) by (simp add: entry_def hashmap_get_map [OF assms(3)])
  then obtain v where "flat_value w e = Some v" using assms(1) unfolding flat_struct_def by blast
  then show thesis using that e by (simp add: flat_view_Some)
qed

lemma flat_copy_loop:
  assumes E: "allocator (e_malloc E)" and B0: "flat_build w0 cp Map.empty w0" and s: "mem w0 s = Some (Struct rs)" "s \<noteq> cp"
    and flat: "flat_struct w0 s" and room: "flat_room w0 (hb_size (rs_map rs))"
  obtains w' where "hashmap_foreach_all (struct_map s) (copy_element E cb cp) w0 = Inr w'"
    "flat_build w0 cp (flat_view w0 s) w'"
proof -
  note inv0 = flat_buildD(1) [OF B0]
  note hms = store_inv_struct(1) [OF inv0 s(1)]
  note V = flat_view_dom [OF flat s(1) hms]
  have map0: "struct_map s w0 = rs_map rs" using s(1) by (simp add: struct_map_def)
  have fills: "fills w0 cp (flat_view w0 s) (copy_element E cb cp) k e" if ke: "(k, e) \<in> set (hm_entries (rs_map rs))" for k e
    unfolding fills_def
  proof (intro allI impI)
    fix M w assume B: "flat_build w0 cp M w" "M \<subseteq>\<^sub>m flat_view w0 s"
    obtain v where v: "entry w0 s k = Some e" "flat_value w0 e = Some v" "flat_view w0 s k = Some v"
      by (rule entries_view [OF flat s(1) hms ke])
    have "flat_value w e = flat_value w0 e"
    proof (rule flat_value_mem)
      assume "rt_type e = RPC_string"
      then have a: "mem w0 (ptr_value e) \<noteq> None" "mem w0 (ptr_value e) \<noteq> mem w0 cp"
        using flat_string [OF v(2)] flat_build_struct [OF B0] by (metis obj.distinct(5) option.distinct(1) option.inject)+
      then show "mem w (ptr_value e) = mem w0 (ptr_value e)" using flat_buildD(5) [OF B(1)] by metis
    qed
    then have "flat_value w e = flat_view w0 s k" "flat_view w0 s k \<noteq> None" using v by simp_all
    from flat_set_once [OF E B(1) inv0 B(2) V(2) _ this] obtain M' w' r where
      "rpc_struct_set_internal E cb cp (Some k) e w = Inr (r, w')" "flat_build w0 cp M' w'" "M \<subseteq>\<^sub>m M'" "M' \<subseteq>\<^sub>m flat_view w0 s" "M' k \<noteq> None"
      using room V(3) by metis
    then show "\<exists>M' w'. copy_element E cb cp k e w = Inr w' \<and> flat_build w0 cp M' w' \<and> M \<subseteq>\<^sub>m M' \<and> M' \<subseteq>\<^sub>m flat_view w0 s \<and> M' k \<noteq> None"
      using flat_not_counted [OF v(2)] by (auto simp: copy_element_def)
  qed
  have loop: "hashmap_foreach_all (struct_map s) (copy_element E cb cp) w0 = fold_run (copy_element E cb cp) (hm_entries (rs_map rs)) w0"
    unfolding map0 [symmetric]
  proof (rule foreach_all_pure [where I = "\<lambda>w. \<exists>M. flat_build w0 cp M w \<and> M \<subseteq>\<^sub>m flat_view w0 s"])
    show "hm_inv (struct_map s w0)" using hms by (simp add: map0)
    show "\<exists>M. flat_build w0 cp M w0 \<and> M \<subseteq>\<^sub>m flat_view w0 s" using B0 by auto
    fix k e w w' assume a: "(k, e) \<in> set (hm_entries (struct_map s w0))" "\<exists>M. flat_build w0 cp M w \<and> M \<subseteq>\<^sub>m flat_view w0 s"
      "copy_element E cb cp k e w = Inr w'"
    then obtain M' where M': "flat_build w0 cp M' w'" "M' \<subseteq>\<^sub>m flat_view w0 s"
      using fills [of k e] unfolding map0 fills_def by fastforce
    moreover have "mem w' s = mem w0 s" using flat_buildD(5) [OF M'(1)] s by auto
    ultimately show "(\<exists>M. flat_build w0 cp M w' \<and> M \<subseteq>\<^sub>m flat_view w0 s) \<and> struct_map s w' = struct_map s w0"
      by (auto simp: struct_map_def)
  qed
  obtain M' w' where F: "fold_run (copy_element E cb cp) (hm_entries (rs_map rs)) w0 = Inr w'" "flat_build w0 cp M' w'"
    "M' \<subseteq>\<^sub>m flat_view w0 s" "fst ` set (hm_entries (rs_map rs)) \<subseteq> dom M'"
    using flat_fill [of "hm_entries (rs_map rs)", OF fills B0] by auto
  have "dom (flat_view w0 s) = fst ` set (hm_entries (rs_map rs))"
    using V(1) dom_hm_map [of "rs_map rs"] by (simp add: hashmap_get_map [OF hms])
  then have "M' = flat_view w0 s" using F(3,4) by (intro map_le_antisym) (auto simp: map_le_def subset_iff)
  then show thesis using that F(1,2) loop by simp
qed

lemma flat_create:
  assumes E: "allocator (e_malloc E)" and inv: "store_inv {} w" and create: "rpc_struct_create E w = Inr (t, w1)"
    and room: "card (dom (mem w)) < 2 ^ 63" and ID: "length ID \<le> 64"
  obtains w0 old rs0 where "rpc_struct_id_set t ID w1 = Inr w0" "flat_build w0 t Map.empty w0" "mem w t = None" "t \<noteq> null"
    "\<forall>a. a \<noteq> t \<longrightarrow> mem w1 a = mem w a \<and> mem w0 a = mem w a" "ptracker w0 = ptracker w" "mem w0 t = Some (Struct rs0)"
    "rs_ID rs0 = ID @ drop (length ID) old @ [CHR 0x00]" "length old = 64" "card (dom (mem w0)) = Suc (card (dom (mem w)))"
proof -
  obtain old rnd where C: "length old = 64" "set old \<subseteq> set ID_alphabet"
    "w1 = put_obj t (Struct \<lparr>rs_map = string_map, rs_ID = old @ [CHR 0x00], rs_copyof = null, rs_destructor = null\<rparr>)
      (w\<lparr>entropy := rnd\<rparr>)" "mem w t = None" "t \<noteq> null" "store_inv {} w1"
    by (rule create_effect [OF E inv room create]) (rule that)
  let ?rc = "\<lparr>rs_map = string_map, rs_ID = ID @ drop (length ID) old @ [CHR 0x00], rs_copyof = null, rs_destructor = null\<rparr>"
  let ?w0 = "put_obj t (Struct ?rc) w1"
  have set: "rpc_struct_id_set t ID w1 = Inr ?w0"
    using C(1,3,5) ID by (simp add: rpc_struct_id_set_def the_struct_def)
  have "mem w1 t = Some (Struct \<lparr>rs_map = string_map, rs_ID = old @ [CHR 0x00], rs_copyof = null, rs_destructor = null\<rparr>)"
    by (simp add: C(3))
  from store_inv_same_map [OF C(6) this, of ?rc] have inv0: "store_inv {} ?w0" by simp
  have B0: "flat_build ?w0 t Map.empty ?w0"
    by (rule flat_build_start [OF inv0, of _ ?rc]) (simp_all add: string_map_ok)
  have "mem ?w0 = (mem w)(t \<mapsto> Struct ?rc)" by (simp add: C(3))
  moreover have "finite (dom (mem w))" using tracker_okD(2) [OF store_invD(1) [OF inv]] .
  ultimately have "card (dom (mem ?w0)) = Suc (card (dom (mem w)))"
    using C(4) by (simp add: dom_fun_upd card_insert_if domIff)
  moreover have "\<forall>a. a \<noteq> t \<longrightarrow> mem w1 a = mem w a \<and> mem ?w0 a = mem w a" "ptracker ?w0 = ptracker w" by (simp_all add: C(3))
  ultimately show thesis using that [OF set B0 C(4,5) _ _ _ _ C(1), of ?rc] by simp
qed

lemma flat_same_values:
  assumes "\<forall>a. a \<noteq> t \<longrightarrow> mem w0 a = mem w a" "mem w t = None" "mem w0 t = Some (Struct rs0)"
  shows "flat_value w0 = flat_value w"
proof
  show "flat_value w0 e = flat_value w e" for e
    using assms by (cases "ptr_value e = t") (simp_all add: flat_value_def split: rpc_types.split)
qed

lemma flat_rpc_copy:
  assumes E: "allocator (e_malloc E)" and inv: "store_inv {} w" and s: "mem w s = Some (Struct rs)" and flat: "flat_struct w s"
    and ID: "c_string (rs_ID rs) = Inr ID" "length ID \<le> 64" and create: "rpc_struct_create E w = Inr (cp, w1)"
    and room: "flat_room w (hb_size (rs_map rs) + 1)"
  obtains w0 w' where "rpc_struct_copy E cb s w = Inr (cp, w')" "flat_build w0 cp (flat_view w s) w'" "mem w cp = None"
    "\<forall>a. a \<noteq> cp \<longrightarrow> mem w0 a = mem w a" "ptracker w0 = ptracker w"
proof -
  have "card (dom (mem w)) < 2 ^ 63" using room by (simp add: flat_room_def)
  then obtain w0 rs0 where C: "rpc_struct_id_set cp ID w1 = Inr w0" "flat_build w0 cp Map.empty w0" "mem w cp = None" "cp \<noteq> null"
    "\<forall>a. a \<noteq> cp \<longrightarrow> mem w1 a = mem w a \<and> mem w0 a = mem w a" "ptracker w0 = ptracker w" "mem w0 cp = Some (Struct rs0)"
    "card (dom (mem w0)) = Suc (card (dom (mem w)))"
    by (rule flat_create [OF E inv create _ ID(2)]) (rule that)
  have sc: "s \<noteq> cp" using s C(3) by auto
  have s': "mem w1 s = Some (Struct rs)" "mem w0 s = Some (Struct rs)" using C(5) s sc by simp_all
  have start: "start_copy E s w = Inr (cp, w0)"
    using create C(1) ID(1) s' store_inv_struct(3) [OF inv s]
    by (simp add: start_copy_def rpc_struct_id_get_def the_struct_def)
  have mem0: "\<forall>a. a \<noteq> cp \<longrightarrow> mem w0 a = mem w a" using C(5) by blast
  have ent: "entry w0 s k = entry w s k" for k using s s'(2) by (simp add: entry_def)
  have val: "flat_value w0 = flat_value w" by (rule flat_same_values [OF mem0 C(3,7)])
  have view: "flat_view w0 s = flat_view w s" by (simp add: flat_view_def ent val fun_eq_iff)
  have flat0: "flat_struct w0 s" using flat by (simp add: flat_struct_def ent val)
  have room0: "flat_room w0 (hb_size (rs_map rs))" using room C(8) by (simp add: flat_room_def)
  obtain w2 where w2: "hashmap_foreach_all (struct_map s) (copy_element E cb cp) w0 = Inr w2"
    "flat_build w0 cp (flat_view w0 s) w2"
    by (rule flat_copy_loop [OF E C(2) s'(2) sc flat0 room0])
  obtain rs2 where rs2: "mem w2 cp = Some (Struct rs2)" by (rule flat_build_struct [OF w2(2)]) (rule that)
  have "rpc_struct_copy E cb s w = Inr (cp, put_obj cp (Struct (rs2\<lparr>rs_copyof := s\<rparr>)) w2)"
    using start w2(1) rs2 C(4) by (simp add: rpc_struct_copy_def finish_copy_def the_struct_def)
  moreover have "flat_build w0 cp (flat_view w s) (put_obj cp (Struct (rs2\<lparr>rs_copyof := s\<rparr>)) w2)"
    using flat_build_copyof [OF w2(2) rs2, of s] by (simp only: view)
  ultimately show thesis using that C(3,6) mem0 by blast
qed

end
