(* ===== verification/Json_Serialize.thy ===== *)
theory Json_Serialize
  imports Json_Copy
begin

text \<open>
  Serialising a flat struct: the JSON object has its elements, and the memory is afterwards as it was.
\<close>

section \<open>JSON forms of flat elements\<close>

fun json_flat :: "'j jansson \<Rightarrow> 'j \<Rightarrow> flat \<Rightarrow> bool" where
  "json_flat J x (Flat_Number n) \<longleftrightarrow> j_typeof J x = JSON_INTEGER \<and> j_integer_value J x = sint n"
| "json_flat J x (Flat_Real r) \<longleftrightarrow> j_typeof J x = JSON_REAL \<and> j_real_value J x = r"
| "json_flat J x (Flat_String str) \<longleftrightarrow> j_typeof J x = JSON_STRING \<and> j_string_value J x = Some str"

definition json_elements :: "'j jansson \<Rightarrow> 'j \<Rightarrow> (string \<rightharpoonup> flat) \<Rightarrow> bool" where
  "json_elements J j M \<longleftrightarrow> j_typeof J j = JSON_OBJECT \<and> (\<forall>k. rel_option (json_flat J) (j_get J j k) (M k))"

text \<open>What JSON can express: texts in ASCII (any UTF-8 would do) and finite numbers.\<close>

fun value_in_json :: "flat \<Rightarrow> bool" where
  "value_in_json (Flat_Number n) = True"
| "value_in_json (Flat_Real r) = finite_double r"
| "value_in_json (Flat_String str) = ascii str"

definition in_json :: "(string \<rightharpoonup> flat) \<Rightarrow> bool" where
  "in_json M \<longleftrightarrow> (\<forall>k v. M k = Some v \<longrightarrow> ascii k \<and> value_in_json v)"

lemma serialize_flat_item:
  assumes J: "jansson_ok J" and inv: "store_inv X w" and e: "flat_value w e = Some v" "value_in_json v"
  obtains x where "serialize_item J sub e w = Inr (Some x, w)" "json_flat J x v"
proof -
  consider "rt_type e = RPC_number" | "rt_type e = RPC_real" | "rt_type e = RPC_string"
    using flat_types [OF e(1)] by blast
  then show thesis
  proof cases
    case 1
    let ?i = "json_int_of e"
    have i: "- (2 ^ 63) \<le> ?i" "?i < 2 ^ 63" "sint (word_of_int ?i :: 64 word) = ?i"
      using sint_ge [of "of_le_bytes (take (rt_length e) (data_container e))"]
        sint_lt [of "of_le_bytes (take (rt_length e) (data_container e))"]
      by (simp_all add: json_int_of_def)
    have "v = Flat_Number (word_of_int ?i)" using e(1) 1 by (simp add: flat_value_def split: if_splits)
    then show thesis
      using that [of "j_integer J ?i"] 1 i jansson_okD(7,8) [OF J i(1,2)] by (simp add: serialize_item_def)
  next
    case 2
    have v: "v = Flat_Real (json_double_of e)" using e(1) 2 by (simp add: flat_value_def split: if_splits)
    obtain x where "j_real J (json_double_of e) = Some x" "j_real_value J x = json_double_of e" "j_typeof J x = JSON_REAL"
      using jansson_real [OF J, of "json_double_of e"] e(2) v by auto
    then show thesis using that [of x] 2 v by (simp add: serialize_item_def)
  next
    case 3
    obtain str where str: "v = Flat_String str" "mem w (ptr_value e) = Some (Cstring str)"
      using flat_string [OF e(1) 3] by blast
    obtain x where "j_string J str = Some x" "j_string_value J x = Some str" "j_typeof J x = JSON_STRING"
      using jansson_string [OF J, of str] e(2) str(1) by auto
    moreover have "ptr_value e \<noteq> null" using str(2) store_inv_null [OF inv] by auto
    ultimately show thesis using that [of x] 3 str by (simp add: serialize_item_def the_cstring_def)
  qed
qed

section \<open>The loops\<close>

lemma struct_loop_pure:
  assumes "store_inv X w" "mem w s = Some (Struct rs)"
  shows "hashmap_foreach_all (\<lambda>_. rs_map rs) body a = fold_run body (hm_entries (rs_map rs)) a"
  by (rule foreach_all_pure [where I = "\<lambda>_. True"]) (use store_inv_struct(1) [OF assms] in auto)

lemma keys_run:
  assumes inv: "store_inv X w" and s: "mem w s = Some (Struct rs)"
  shows "rpc_struct_keys s w = Inr (map fst (hm_entries (rs_map rs)))"
proof -
  let ?n = "hb_size (rs_map rs)"
  let ?body = "\<lambda>key (v :: rpc_type_t) keys. if length keys < ?n then Inr (keys @ [key]) else Inl Out_Of_Bounds"
  have run: "fold_run ?body es keys = Inr (keys @ map fst es)" if "length keys + length es \<le> ?n" for es keys
    using that by (induction es arbitrary: keys) auto
  have "?n = length (hm_entries (rs_map rs))" using hm_inv_size [OF store_inv_struct(1) [OF inv s]] .
  then have "fold_run ?body (hm_entries (rs_map rs)) [] = Inr (map fst (hm_entries (rs_map rs)))"
    using run [of "[]" "hm_entries (rs_map rs)"] by simp
  then show ?thesis
    using s store_inv_struct(3) [OF inv s]
    by (simp add: rpc_struct_keys_def the_struct_def hashmap_foreach_key_safe_def struct_loop_pure [OF inv s])
qed

text \<open>Without counted objects there are no duplicates.\<close>

lemma no_duplicates:
  assumes inv: "store_inv X w" and s: "mem w s = Some (Struct rs)"
    and none: "\<And>k e. (k, e) \<in> set (hm_entries (rs_map rs)) \<Longrightarrow> \<not> counted_type (rt_type e)"
  shows "rpc_struct_found_duplicates E s w = Inr []"
proof -
  let ?keys = "map fst (hm_entries (rs_map rs))"
  let ?body = "\<lambda>k e. duplicates_body E ?keys e"
  have "fold_run ?body es d = Inr (d\<lparr>ds_i := ds_i d + length es\<rparr>)"
    if "set es \<subseteq> set (hm_entries (rs_map rs))" for es d
    using that
  proof (induction es arbitrary: d)
    case (Cons y es)
    obtain k e where [simp]: "y = (k, e)" by fastforce
    then have "\<not> counted_type (rt_type e)" using none [of k e] Cons.prems by auto
    then show ?case using Cons by (simp add: duplicates_body_def)
  qed simp
  then show ?thesis
    using keys_run [OF inv s] s store_inv_struct(3) [OF inv s]
    by (simp add: rpc_struct_found_duplicates_def the_struct_def hashmap_foreach_data_safe_def struct_loop_pure [OF inv s])
qed

lemma json_elements_set:
  assumes J: "jansson_ok J" and j: "json_elements J j M" and x: "json_flat J x v" "ascii k"
  shows "json_elements J (j_set J j k x) (M(k \<mapsto> v))"
proof -
  have o: "j_typeof J j = JSON_OBJECT" using j by (simp add: json_elements_def)
  show ?thesis
    using j x jansson_okD(3) [OF J o] jansson_okD(4) [OF J o x(2)] by (auto simp: json_elements_def)
qed

text \<open>The values of a list of elements.\<close>

definition flat_list :: "store \<Rightarrow> (string \<times> rpc_type_t) list \<Rightarrow> string \<rightharpoonup> flat" where
  "flat_list w es = map_of (map (\<lambda>(k, e). (k, the (flat_value w e))) es)"

lemma dom_flat_list: "dom (flat_list w es) = fst ` set es"
  by (simp add: flat_list_def dom_map_of_conv_image_fst image_image case_prod_unfold)

lemma serialize_flat_fold:
  assumes J: "jansson_ok J" and inv: "store_inv X w"
    and es: "\<And>k e. (k, e) \<in> set es \<Longrightarrow> ascii k \<and> (\<exists>v. flat_value w e = Some v \<and> value_in_json v)"
    and d: "distinct (map fst es)" and j: "json_elements J j M"
  shows "\<exists>j'. fold_run (\<lambda>key el (j, w). andthen (serialize_item J sub el w) (\<lambda>(item, w'). Inr (json_object_set_new J j key item, w'))) es (j, w) =
    Inr (j', w) \<and> json_elements J j' (M ++ flat_list w es)"
  using es d j
proof (induction es arbitrary: j M)
  case Nil
  then show ?case by (simp add: flat_list_def)
next
  case (Cons y es)
  obtain k e where y [simp]: "y = (k, e)" by fastforce
  obtain v where v: "ascii k" "flat_value w e = Some v" "value_in_json v" using Cons.prems(1) [of k e] by auto
  obtain x where x: "serialize_item J sub e w = Inr (Some x, w)" "json_flat J x v"
    by (rule serialize_flat_item [OF J inv v(2,3)])
  have step: "json_elements J (j_set J j k x) (M(k \<mapsto> v))" by (rule json_elements_set [OF J Cons.prems(3) x(2) v(1)])
  have rest: "ascii k' \<and> (\<exists>v'. flat_value w e' = Some v' \<and> value_in_json v')" if "(k', e') \<in> set es" for k' e'
    using Cons.prems(1) [of k' e'] that by simp
  have d: "distinct (map fst es)" using Cons.prems(2) by simp
  then obtain j' where "fold_run (\<lambda>key el (j, w). andthen (serialize_item J sub el w)
      (\<lambda>(item, w'). Inr (json_object_set_new J j key item, w'))) es (j_set J j k x, w) = Inr (j', w)"
    "json_elements J j' (M(k \<mapsto> v) ++ flat_list w es)"
    using Cons.IH [OF rest d step] by blast
  moreover have "k \<notin> dom (flat_list w es)"
    using Cons.prems(2) by (simp add: dom_flat_list)
  then have "M(k \<mapsto> v) ++ flat_list w es = M ++ flat_list w (y # es)"
    using v(2) by (simp add: map_add_upd_left) (simp add: flat_list_def)
  ultimately show ?case using x(1) by simp
qed

lemma flat_list_view:
  assumes flat: "flat_struct w s" and s: "mem w s = Some (Struct rs)" and hm: "hm_inv (rs_map rs)"
  shows "flat_list w (hm_entries (rs_map rs)) = flat_view w s"
proof
  fix k
  have d: "distinct (map fst (hm_entries (rs_map rs)))" by (rule hm_inv_distinct [OF hm])
  have m: "hashmap_get (rs_map rs) k = map_of (hm_entries (rs_map rs)) k"
    by (simp only: hashmap_get_map [OF hm] hm_map_def)
  have l: "flat_list w es k = map_option (\<lambda>e. the (flat_value w e)) (map_of es k)" for es
    by (induction es) (auto simp: flat_list_def)
  show "flat_list w (hm_entries (rs_map rs)) k = flat_view w s k"
  proof (cases "map_of (hm_entries (rs_map rs)) k")
    case (Some e)
    then have e: "entry w s k = Some e" using s m by (simp add: entry_def)
    then obtain v where "flat_value w e = Some v" using flat unfolding flat_struct_def by blast
    then show ?thesis using Some e by (simp add: l flat_view_def)
  qed (use s m in \<open>simp add: l flat_view_def entry_def\<close>)
qed

lemma serialize_flat_elements:
  assumes J: "jansson_ok J" and inv: "store_inv X w" and s: "mem w s = Some (Struct rs)" and flat: "flat_struct w s"
    and j: "in_json (flat_view w s)"
  obtains j' where "serialize_elements J sub s w = Inr (j', w)" "json_elements J j' (flat_view w s)"
proof -
  let ?body = "\<lambda>key el (j, w). andthen (serialize_item J sub el w) (\<lambda>(item, w'). Inr (json_object_set_new J j key item, w'))"
  note hm = store_inv_struct(1) [OF inv s]
  have ke: "ascii k \<and> (\<exists>v. flat_value w e = Some v \<and> value_in_json v)" if "(k, e) \<in> set (hm_entries (rs_map rs))" for k e
    using entries_view [OF flat s hm that] j unfolding in_json_def by metis
  have j0: "json_elements J (j_object J) Map.empty"
    using jansson_okD(1,2) [OF J] by (simp add: json_elements_def)
  obtain j' where j': "fold_run ?body (hm_entries (rs_map rs)) (j_object J, w) = Inr (j', w)" "json_elements J j' (flat_view w s)"
    using serialize_flat_fold [OF J inv ke hm_inv_distinct [OF hm] j0, of sub] flat_list_view [OF flat s hm] by auto
  have map: "struct_map s w = rs_map rs" using s by (simp add: struct_map_def)
  have "hashmap_foreach_all (\<lambda>(j, w). struct_map s w) ?body (j_object J, w) =
      fold_run ?body (hm_entries ((\<lambda>(j, w). struct_map s w) (j_object J, w))) (j_object J, w)"
  proof (rule foreach_all_pure [where I = "\<lambda>(j, w'). w' = w"])
    fix k e s1 s' assume a: "(k, e) \<in> set (hm_entries ((\<lambda>(j, w). struct_map s w) (j_object J, w)))"
      "(\<lambda>(j, w'). w' = w) s1" "?body k e s1 = Inr s'"
    then have "\<exists>v. flat_value w e = Some v \<and> value_in_json v" using ke [of k e] by (simp add: map)
    then obtain x where "serialize_item J sub e w = Inr (Some x, w)" using serialize_flat_item [OF J inv] by metis
    then show "(\<lambda>(j, w'). w' = w) s' \<and> (\<lambda>(j, w). struct_map s w) s' = (\<lambda>(j, w). struct_map s w) (j_object J, w)"
      using a(2,3) by auto
  qed (simp_all add: map hm)
  then show thesis using that j' by (simp add: serialize_elements_def map)
qed

section \<open>Structs\<close>

text \<open>The JSON form of a struct with this ID and these elements.\<close>

definition json_struct :: "'j jansson \<Rightarrow> 'j \<Rightarrow> string \<Rightarrow> (string \<rightharpoonup> flat) \<Rightarrow> bool" where
  "json_struct J root ID M \<longleftrightarrow>
     j_typeof J root = JSON_OBJECT \<and>
     Option.bind (j_get J root ''ID'') (j_string_value J) = Some ID \<and>
     Option.bind (j_get J root ''type'') (j_string_value J) = Some ''RPC_struct'' \<and>
     (\<exists>d. j_get J root ''serialised'' = Some d \<and> json_elements J d M) \<and>
     (\<exists>d. j_get J root ''duplicates'' = Some d \<and> j_pairs J d = [])"

lemma json_struct_root:
  assumes J: "jansson_ok J" and ID: "ascii ID" and d: "json_elements J d M"
  shows "json_struct J
    (json_object_set_new J (json_object_set_new J (json_object_set_new J (json_object_set_new J (j_object J)
      ''ID'' (j_string J ID)) ''type'' (j_string J ''RPC_struct'')) ''serialised'' (Some d)) ''duplicates'' (Some (j_object J))) ID M"
proof -
  obtain i where i: "j_string J ID = Some i" "j_string_value J i = Some ID" using jansson_string [OF J ID] by metis
  obtain t where t: "j_string J ''RPC_struct'' = Some t" "j_string_value J t = Some ''RPC_struct''"
    using jansson_string [OF J, of "''RPC_struct''"] by auto
  have "map_of (j_pairs J (j_object J)) = Map.empty"
    using jansson_okD(2,6) [OF J] by (simp add: fun_eq_iff)
  then have "j_pairs J (j_object J) = []" by simp
  then show ?thesis using d by (simp add: json_struct_def i t jansson_okD(1-4) [OF J])
qed

lemma serialize_flat:
  assumes J: "jansson_ok J" and E: "allocator (e_malloc E)" and inv: "store_inv {} w" and s: "mem w s = Some (Struct rs)"
    and flat: "flat_struct w s" and j: "in_json (flat_view w s)"
    and ID: "c_string (rs_ID rs) = Inr ID" "length ID \<le> 64" "ascii ID"
    and create: "rpc_struct_create E w = Inr (cp, w1)" and room: "flat_room w (hb_size (rs_map rs) + 1)"
  obtains root w' where "rpc_struct_serialize E cb J (Suc n) s w = Inr (root, w')" "json_struct J root ID (flat_view w s)"
    "mem w' = mem w" "ptracker w' = ptracker w"
proof -
  obtain w0 w2 where C: "rpc_struct_copy E cb s w = Inr (cp, w2)" "flat_build w0 cp (flat_view w s) w2" "mem w cp = None"
    "\<forall>a. a \<noteq> cp \<longrightarrow> mem w0 a = mem w a" "ptracker w0 = ptracker w"
    by (rule flat_rpc_copy [OF E inv s flat ID(1,2) create room])
  note inv2 = flat_buildD(1) [OF C(2)] and s0 = store_inv_struct(3) [OF inv s]
  have sc: "s \<noteq> cp" using s C(3) by auto
  have s2: "mem w2 s = Some (Struct rs)" using flat_buildD(5) [OF C(2) sc] C(4) s sc by simp
  obtain rc where cp: "mem w2 cp = Some (Struct rc)" by (rule flat_build_struct [OF C(2)]) (rule that)
  have flat2: "flat_struct w2 cp" unfolding flat_struct_def
    using flat_buildD(2,3) [OF C(2)] by (metis option.distinct(1))
  have view: "flat_view w2 cp = flat_view w s" by (rule flat_build_view [OF C(2)])
  have "\<not> counted_type (rt_type e)" if "(k, e) \<in> set (hm_entries (rs_map rs))" for k e
    using entries_view [OF flat s store_inv_struct(1) [OF inv s] that] flat_not_counted by metis
  then have dups: "rpc_struct_found_duplicates E s w2 = Inr []" by (rule no_duplicates [OF inv2 s2])
  have idle: "remove_unknown cb cp k e w2 = Inr w2" if ke: "(k, e) \<in> set (hm_entries (rs_map rc))" for k e
  proof -
    obtain v where "flat_value w2 e = Some v"
      by (rule entries_view [OF flat2 cp store_inv_struct(1) [OF inv2 cp] ke]) (rule that)
    then show ?thesis by (auto simp: remove_unknown_def dest: flat_types)
  qed
  have map: "struct_map cp w2 = rs_map rc" using cp by (simp add: struct_map_def)
  have "hashmap_foreach_all (struct_map cp) (remove_unknown cb cp) w2 = fold_run (remove_unknown cb cp) (hm_entries (struct_map cp w2)) w2"
    by (rule foreach_all_pure [where I = "\<lambda>w. w = w2"]) (use idle store_inv_struct(1) [OF inv2 cp] in \<open>simp_all add: map\<close>)
  then have unknown: "hashmap_foreach_all (struct_map cp) (remove_unknown cb cp) w2 = Inr w2"
    using fold_idle [of "hm_entries (rs_map rc)" "remove_unknown cb cp" w2, OF idle] by (simp add: map)
  obtain d where d: "serialize_elements J (rpc_struct_serialize E cb J n) cp w2 = Inr (d, w2)" "json_elements J d (flat_view w2 cp)"
    using serialize_flat_elements [OF J inv2 cp flat2] j view by metis
  have "hashmap_get (ptracker w2) cp = None"
    using untracked_if_absent(1) [OF inv C(3)] flat_buildD(7) [OF C(2)] C(5) by simp
  then have "prec_get w2 cp = null" using prec_get_untracked [OF store_invD(1) [OF inv2]] by simp
  then obtain w' where w': "rpc_struct_free E cb cp w2 = Inr w'" "mem w' = (mem w0)(cp := None)" "ptracker w' = ptracker w0"
    using flat_free [OF C(2)] by metis
  have mem': "mem w' = mem w" using w'(2) C(3,4) by (auto simp: fun_eq_iff)
  have "rpc_struct_serialize E cb J (Suc n) s w = Inr (json_object_set_new J (json_object_set_new J (json_object_set_new J
      (json_object_set_new J (j_object J) ''ID'' (j_string J ID)) ''type'' (j_string J ''RPC_struct'')) ''serialised'' (Some d))
      ''duplicates'' (Some (j_object J)), w')"
    using s s0 C(1) dups unknown d(1) s2 ID(1) w'(1) mem'
    by (simp add: the_struct_def rpc_struct_id_get_def serialize_duplicates_def duplicate_names_def)
  then show thesis using that json_struct_root [OF J ID(3) d(2)] mem' w'(3) C(5) view by simp
qed

end
