(* ===== verification/Json_Parse.thy ===== *)
theory Json_Parse
  imports Json_Serialize
begin

text \<open>
  Parsing the JSON form of a flat struct: a new struct with the ID and the elements of the form.
\<close>

section \<open>A string beside the build\<close>

lemma flat_build_beside:
  assumes B: "flat_build w0 t M w" and p: "mem w p = None" "p \<noteq> null"
  shows "flat_build (put_obj p (Cstring str) w0) t M (put_obj p (Cstring str) w)"
proof -
  let ?base = "put_obj p (Cstring str) w0" and ?w = "put_obj p (Cstring str) w"
  note inv = flat_buildD(1) [OF B]
  obtain rs0 rs where t: "mem w0 t = Some (Struct rs0)" "mem w t = Some (Struct rs)" "rs_ID rs = rs_ID rs0"
    by (rule flat_build_struct [OF B])
  have pt: "p \<noteq> t" using t(2) p(1) by auto
  have ent: "entry ?w t k = entry w t k" for k using pt by (simp add: entry_def)
  have str: "mem w (ptr_value e) \<noteq> None" if "entry w t k = Some e" "rt_type e = RPC_string" for k e
    using store_inv_string [OF inv, of t k e] that by (auto simp: visible_def)
  have val: "flat_value ?w e = flat_value w e" if "entry w t k = Some e" for k e
  proof (rule flat_value_mem)
    assume "rt_type e = RPC_string"
    then have "ptr_value e \<noteq> p" using str [OF that] p(1) by metis
    then show "mem ?w (ptr_value e) = mem w (ptr_value e)" by simp
  qed
  have new: "mem ?base (ptr_value e) = None" if e: "entry w t k = Some e" "rt_type e = RPC_string" for k e
  proof -
    have "ptr_value e \<noteq> p" using str [OF e] p(1) by metis
    then show ?thesis using flat_buildD(4) [OF B e] by simp
  qed
  have "store_inv {} ?w" by (rule add_object [OF inv p]) auto
  moreover have "flat_elements ?base t M ?w"
    unfolding flat_elements_def ent using flat_buildD(2,3) [OF B] val new by auto
  moreover have "flat_rest ?base t ?w"
    unfolding flat_rest_def ent using flat_buildD(5,6,7,8) [OF B] by (simp split: if_splits)
  ultimately show ?thesis using t pt by (simp add: flat_build_def)
qed

lemma flat_build_drop:
  assumes B: "flat_build (put_obj p (Cstring str) w0) t M w" and inv0: "store_inv {} w0" and p: "mem w0 p = None" "p \<noteq> t"
  obtains w' where "free_obj p w = Inr w'" "flat_build w0 t M w'"
proof -
  let ?w = "w\<lparr>mem := (mem w)(p := None)\<rparr>"
  note inv = flat_buildD(1) [OF B] and U = untracked_if_absent [OF inv0 p(1)]
  obtain rs0 rs where t: "mem w0 t = Some (Struct rs0)" "mem w t = Some (Struct rs)" "rs_ID rs = rs_ID rs0"
    using flat_build_struct [OF B] p(2) by auto
  have mp: "mem w p = Some (Cstring str)" using flat_buildD(5) [OF B p(2)] by simp
  have tr: "ptracker w = ptracker w0" using flat_buildD(7) [OF B] by simp
  have other: "ptr_value e \<noteq> p" if v: "visible {} w a k = Some e" and c: "counted_type (rt_type e) \<or> rt_type e = RPC_string" for a k e
  proof (cases "a = t")
    case True
    then have e: "entry w t k = Some e" using v by (simp add: visible_def)
    have "flat_value w e \<noteq> None" using flat_buildD(2,3) [OF B, of k] e by (cases "M k") auto
    then have "rt_type e = RPC_string" using c flat_not_counted by blast
    then show ?thesis using flat_buildD(4) [OF B e] by auto
  next
    case False
    have e: "entry w a k = Some e" using v by (simp add: visible_def)
    obtain ra where ra: "mem w a = Some (Struct ra)" using entry_struct [OF e] by blast
    have "\<not> (\<exists>k f. entry w t k = Some f \<and> rt_type f = RPC_string \<and> ptr_value f = a)"
    proof clarify
      fix j f assume f: "entry w t j = Some f" "rt_type f = RPC_string" "a = ptr_value f"
      have "visible {} w t j = Some f" using f(1) by (simp add: visible_def)
      then obtain s where "mem w (ptr_value f) = Some (Cstring s)" using store_inv_string [OF inv _ f(2)] by metis
      then show False using ra f(3) by simp
    qed
    then have "mem (put_obj p (Cstring str) w0) a \<noteq> None" using flat_buildD(6) [OF B, of a] ra by auto
    then have "mem w0 a = Some (Struct ra)" using flat_buildD(5) [OF B False] ra by (auto split: if_splits)
    then have "visible {} w0 a k = Some e" using e ra by (simp add: visible_def entry_def)
    then show ?thesis using U(3) c by blast
  qed
  have R: "free_obj p w = Inr ?w"
  proof (rule release_unreferenced(1) [OF inv _ _ other])
    show "hashmap_get (ptracker w) a \<noteq> Some p" for a using U(2) tr by simp
  qed (use U(1) mp in \<open>auto simp: tr visible_def entry_def\<close>)
  have R2: "store_inv {} ?w"
  proof (rule release_unreferenced(2) [OF inv _ _ other])
    show "hashmap_get (ptracker w) a \<noteq> Some p" for a using U(2) tr by simp
  qed (use U(1) mp in \<open>auto simp: tr visible_def entry_def\<close>)
  have ent: "entry ?w t k = entry w t k" for k using p(2) by (simp add: entry_def)
  have str: "ptr_value e \<noteq> p" if "entry w t k = Some e" "rt_type e = RPC_string" for k e
    using flat_buildD(4) [OF B that] by auto
  have val: "flat_value ?w e = flat_value w e" if "entry w t k = Some e" for k e
    by (rule flat_value_mem) (use str [OF that] in auto)
  have new: "mem w0 (ptr_value e) = None" if "entry w t k = Some e" "rt_type e = RPC_string" for k e
    using flat_buildD(4) [OF B that] str [OF that] by simp
  have "flat_elements w0 t M ?w"
    unfolding flat_elements_def ent using flat_buildD(2,3) [OF B] val new by auto
  moreover have "flat_rest w0 t ?w"
    unfolding flat_rest_def ent
    using flat_buildD(5,6,7,8) [OF B] p(1) by (simp split: if_splits) (metis option.distinct(1))
  ultimately show thesis using that R R2 t p(2) by (simp add: flat_build_def)
qed

section \<open>One item\<close>

text \<open>What the typed macro stores.\<close>

lemma stored_values:
  "flat_value w (c_to_rpc junk C_uint64 n) = Some (Flat_Number n)"
  "length junk = 8 \<Longrightarrow> flat_value w (c_to_rpc junk C_double r) = Some (Flat_Real r)"
  "mem w p = Some (Cstring str) \<Longrightarrow> flat_value w (c_to_rpc junk C_char_ptr p) = Some (Flat_String str)"
  by (simp_all add: flat_value_def c_to_rpc_def rpc_is_pointer_def memcpy_def json_int_of_def json_double_of_def ptr_value_def)

lemma flat_exists:
  assumes B: "flat_build w0 t M w" shows "rpc_struct_exists t (Some k) w = Inr (if M k = None then 0 else 1)"
proof -
  obtain rs where t: "mem w t = Some (Struct rs)" "t \<noteq> null" by (rule flat_build_table [OF B]) (rule that)
  have "rt_type e \<noteq> RPC_none" if "entry w t k = Some e" for e
    using flat_buildD(2,3) [OF B, of k] that flat_types by (cases "M k") fastforce+
  then show ?thesis
    using flat_buildD(2) [OF B, of k] t
    by (cases "hashmap_get (rs_map rs) k")
      (simp_all add: rpc_struct_exists_def rpc_struct_get_internal_def the_struct_def none_element_def entry_def)
qed

lemma flat_set_macro:
  assumes E: "allocator (e_malloc E)" and B: "flat_build w0 t M w" and inv0: "store_inv X w0"
    and M: "M \<subseteq>\<^sub>m V" "finite (dom V)" and room: "flat_room w0 (card (dom V))"
    and e: "flat_value w (c_to_rpc junk ct x) = V k" "V k \<noteq> None"
  shows "\<exists>M' w' r. rpc_struct_set E cb junk t k ct x w = Inr (r, w') \<and> flat_build w0 t M' w' \<and> M \<subseteq>\<^sub>m M' \<and>
    M' \<subseteq>\<^sub>m V \<and> M' k \<noteq> None"
proof (cases "M k")
  case None
  then show ?thesis
    using flat_set_once [OF E B inv0 M room e] flat_exists [OF B, of k] by (simp add: rpc_struct_set_def)
next
  case (Some v)
  then show ?thesis using B M(1) flat_exists [OF B, of k] by (intro exI [of _ M]) (simp add: rpc_struct_set_def)
qed

lemma flat_set_json_string:
  assumes E: "allocator (e_malloc E)" and B: "flat_build w0 t M w" and inv0: "store_inv {} w0"
    and M: "M \<subseteq>\<^sub>m V" "finite (dom V)" and room: "flat_room w0 (card (dom V) + 1)" and v: "V k = Some (Flat_String str)"
  shows "\<exists>M' w'. set_json_string E cb junk t k str w = Inr w' \<and> flat_build w0 t M' w' \<and> M \<subseteq>\<^sub>m M' \<and> M' \<subseteq>\<^sub>m V \<and> M' k \<noteq> None"
proof -
  note inv = flat_buildD(1) [OF B]
  obtain rs where t: "mem w0 t \<noteq> None" "mem w t = Some (Struct rs)" by (rule flat_build_table [OF B]) (rule that)
  have fin: "finite (dom (mem w0))" using tracker_okD(2) [OF store_invD(1) [OF inv0]] .
  have "card (dom M) \<le> card (dom V)" using M by (intro card_mono map_le_implies_dom_le)
  then have "card (dom (mem w)) < 2 ^ 63"
    using flat_build_card(1) [OF B fin] room by (simp add: flat_room_def)
  then obtain p where p: "new_obj E (Cstring str) w = Inr (p, put_obj p (Cstring str) w)" "mem w p = None" "p \<noteq> null"
    using new_obj_fresh [OF E inv] by metis
  have pt: "p \<noteq> t" using t(2) p(2) by auto
  have p0: "mem w0 p = None"
    using flat_buildD(5) [OF B pt] p(2) by metis
  let ?base = "put_obj p (Cstring str) w0" and ?w = "put_obj p (Cstring str) w"
  have B': "flat_build ?base t M ?w" by (rule flat_build_beside [OF B p(2,3)])
  have inv': "store_inv {} ?base" by (rule add_object [OF inv0 p0 p(3)]) auto
  have "card (dom (mem ?base)) = Suc (card (dom (mem w0)))" using fin p0 by (simp add: card_insert_if domIff)
  then have room': "flat_room ?base (card (dom V))" using room by (simp add: flat_room_def)
  have "flat_value ?w (c_to_rpc junk C_char_ptr p) = V k" using stored_values(3) [of ?w p str junk] v by simp
  moreover have "V k \<noteq> None" using v by simp
  ultimately obtain M' w' r where S: "rpc_struct_set E cb junk t k C_char_ptr p ?w = Inr (r, w')" "flat_build ?base t M' w'"
    "M \<subseteq>\<^sub>m M'" "M' \<subseteq>\<^sub>m V" "M' k \<noteq> None"
    using flat_set_macro [OF E B' inv' M room'] by blast
  obtain w2 where "free_obj p w' = Inr w2" "flat_build w0 t M' w2" by (rule flat_build_drop [OF S(2) inv0 p0 pt])
  then show ?thesis using p(1) S by (auto simp: set_json_string_def)
qed

lemma parse_fills:
  assumes E: "allocator (e_malloc E)" and inv0: "store_inv {} w0" and V: "finite (dom V)" "V k = Some v"
    and room: "flat_room w0 (card (dom V) + 1)" and x: "json_flat J x v" and junk: "length junk = 8"
  shows "fills w0 t V (\<lambda>key item w. item_parse E cb J junk (Suc n) t key item w) k x"
  unfolding fills_def
proof (intro allI impI)
  fix M w assume B: "flat_build w0 t M w" and M: "M \<subseteq>\<^sub>m V"
  have room': "flat_room w0 (card (dom V))" using room by (simp add: flat_room_def)
  have k: "V k \<noteq> None" using V(2) by simp
  note set = flat_set_macro [OF E B inv0 M V(1) room' _ k, where junk = junk and cb = cb]
  show "\<exists>M' w'. item_parse E cb J junk (Suc n) t k x w = Inr w' \<and> flat_build w0 t M' w' \<and> M \<subseteq>\<^sub>m M' \<and> M' \<subseteq>\<^sub>m V \<and> M' k \<noteq> None"
  proof (cases v)
    case (Flat_Number m)
    then have "flat_value w (c_to_rpc junk C_uint64 m) = V k" using V(2) by (simp add: stored_values)
    then obtain M' w' r where "rpc_struct_set E cb junk t k C_uint64 m w = Inr (r, w')" "flat_build w0 t M' w'"
      "M \<subseteq>\<^sub>m M'" "M' \<subseteq>\<^sub>m V" "M' k \<noteq> None"
      using set by blast
    then show ?thesis using x Flat_Number by (intro exI [of _ M'] exI [of _ w']) simp
  next
    case (Flat_Real r)
    then have "flat_value w (c_to_rpc junk C_double r) = V k" using V(2) by (simp add: stored_values junk)
    then obtain M' w' r' where "rpc_struct_set E cb junk t k C_double r w = Inr (r', w')" "flat_build w0 t M' w'"
      "M \<subseteq>\<^sub>m M'" "M' \<subseteq>\<^sub>m V" "M' k \<noteq> None"
      using set by blast
    then show ?thesis using x Flat_Real by (intro exI [of _ M'] exI [of _ w']) simp
  next
    case (Flat_String str)
    then have "V k = Some (Flat_String str)" using V(2) by simp
    from flat_set_json_string [OF E B inv0 M V(1) room this] show ?thesis using x Flat_String by simp
  qed
qed

section \<open>Structs\<close>

lemma json_elements_pairs:
  assumes "jansson_ok J" "json_elements J d V"
  shows "finite (dom V)" "fst ` set (j_pairs J d) = dom V"
    "(k, x) \<in> set (j_pairs J d) \<Longrightarrow> \<exists>v. V k = Some v \<and> json_flat J x v"
proof -
  have g: "map_of (j_pairs J d) = j_get J d" "distinct (map fst (j_pairs J d))" using jansson_okD(5,6) [OF assms(1)] by auto
  have r: "rel_option (json_flat J) (j_get J d k) (V k)" for k using assms(2) by (simp add: json_elements_def)
  have "j_get J d k = None \<longleftrightarrow> V k = None" for k using r [of k] by (auto elim: option.rel_cases)
  then have "dom V = dom (j_get J d)" unfolding dom_def by simp
  then show d: "fst ` set (j_pairs J d) = dom V" by (simp add: g(1) [symmetric] dom_map_of_conv_image_fst)
  show "finite (dom V)" by (simp only: d [symmetric]) simp
  show "\<exists>v. V k = Some v \<and> json_flat J x v" if "(k, x) \<in> set (j_pairs J d)"
  proof -
    have "j_get J d k = Some x" using that g by (metis map_of_is_SomeI)
    then show ?thesis using r [of k] by (auto elim: option.rel_cases)
  qed
qed

lemma deserialize_flat:
  assumes J: "jansson_ok J" and E: "allocator (e_malloc E)" and inv: "store_inv {} u" and create: "rpc_struct_create E u = Inr (t, u1)"
    and j: "json_struct J root ID V" and ID: "length ID = 64" "CHR 0x00 \<notin> set ID"
    and room: "flat_room u (card (dom V) + 2)" and junk: "length junk = 8"
  obtains u' where "rpc_struct_deserialize E cb J junk (Suc (Suc n)) (Some root) u = Inr (t, u')" "store_inv {} u'"
    "flat_view u' t = V" "flat_struct u' t" "rpc_struct_id_get t u' = Inr ID" "mem u t = None"
    "\<forall>a. mem u a \<noteq> None \<longrightarrow> mem u' a = mem u a" "ptracker u' = ptracker u"
proof -
  have "card (dom (mem u)) < 2 ^ 63" "length ID \<le> 64" using room ID(1) by (simp_all add: flat_room_def)
  then obtain w0 old rs0 where C: "rpc_struct_id_set t ID u1 = Inr w0" "flat_build w0 t Map.empty w0" "mem u t = None" "t \<noteq> null"
    "\<forall>a. a \<noteq> t \<longrightarrow> mem u1 a = mem u a \<and> mem w0 a = mem u a" "ptracker w0 = ptracker u" "mem w0 t = Some (Struct rs0)"
    "rs_ID rs0 = ID @ drop (length ID) old @ [CHR 0x00]" "length old = 64" "card (dom (mem w0)) = Suc (card (dom (mem u)))"
    by (rule flat_create [OF E inv create])
  note inv0 = flat_buildD(1) [OF C(2)]
  obtain ID' ty d dup where R: "j_get J root ''ID'' = Some ID'" "j_string_value J ID' = Some ID"
    "j_get J root ''type'' = Some ty" "j_string_value J ty = Some ''RPC_struct''"
    "j_get J root ''serialised'' = Some d" "json_elements J d V" "j_get J root ''duplicates'' = Some dup" "j_pairs J dup = []"
    using j by (auto simp: json_struct_def bind_eq_Some_conv)
  note P = json_elements_pairs [OF J R(6)]
  have room0: "flat_room w0 (card (dom V) + 1)" using room C(10) by (simp add: flat_room_def)
  have "fills w0 t V (\<lambda>key item w. item_parse E cb J junk (Suc n) t key item w) k x" if kx: "(k, x) \<in> set (j_pairs J d)" for k x
  proof -
    obtain v where v: "V k = Some v" "json_flat J x v" using P(3) [OF kx] by blast
    show ?thesis by (rule parse_fills [OF E inv0 P(1) v(1) room0 v(2) junk])
  qed
  then obtain M w3 where F: "fold_run (\<lambda>key item w. item_parse E cb J junk (Suc n) t key item w) (j_pairs J d) w0 = Inr w3"
    "flat_build w0 t M w3" "M \<subseteq>\<^sub>m V" "fst ` set (j_pairs J d) \<subseteq> dom M"
    using flat_fill [OF _ C(2), of "j_pairs J d" V "\<lambda>key item w. item_parse E cb J junk (Suc n) t key item w"] by auto
  have "M = V" using F(3,4) P(2) by (intro map_le_antisym) (auto simp: map_le_def subset_iff)
  note B = F(2) [unfolded this]
  obtain rs where rs: "mem w3 t = Some (Struct rs)" "rs_ID rs = rs_ID rs0"
    using flat_build_struct [OF B] C(7) by auto
  have "c_string (ID @ [CHR 0x00]) = Inr ID" by (rule c_string_terminated [OF ID(2)])
  then have "rpc_struct_id_get t w3 = Inr ID"
    using rs C(4,8,9) ID(1) by (simp add: rpc_struct_id_get_def the_struct_def)
  moreover have "rpc_struct_deserialize E cb J junk (Suc (Suc n)) (Some root) u = Inr (t, w3)"
    using create C(1) R F(1) by (simp del: item_parse.simps)
  moreover have "flat_struct w3 t"
    unfolding flat_struct_def using flat_buildD(2,3) [OF B] by (metis option.distinct(1))
  moreover have "mem w3 a = mem u a" if "mem u a \<noteq> None" for a
  proof -
    have "a \<noteq> t" using that C(3) by auto
    then show ?thesis using flat_buildD(5) [OF B, of a] C(5) that by simp
  qed
  moreover have "ptracker w3 = ptracker u" using flat_buildD(7) [OF B] C(6) by simp
  ultimately show thesis using that flat_buildD(1) [OF B] flat_build_view [OF B] C(3) by blast
qed

end
