(* ===== verification/Json_Claims.thy ===== *)
theory Json_Claims
  imports Json_Parse
begin

text \<open>
  What the JSON form of structs promises: a struct of numbers, reals and strings arrives as it was sent and
  sending it leaves no trace in memory; a JSON value that is not a struct is rejected without a trace; and
  what a peer can send that is not rejected.
\<close>

section \<open>An example\<close>

text \<open>A struct with one number.\<close>

lemma one_number_store:
  obtains s w rs e ID where "store_inv {} w" "mem w = [s \<mapsto> Struct rs]" "hashmap_get (rs_map rs) = [''n'' \<mapsto> e]"
    "flat_value w e = Some (Flat_Number 0x1234)" "hb_size (rs_map rs) = 1" "entropy w = replicate 64 1"
    "rs_ID rs = ID @ [CHR 0x00]" "length ID = 64" "set ID \<subseteq> set ID_alphabet"
proof -
  obtain s w rs ID where w: "rpc_struct_create plain_env empty_store = Inr (s, w)" "store_inv {} w" "mem w = [s \<mapsto> Struct rs]"
    "hashmap_get (rs_map rs) = Map.empty" "hb_size (rs_map rs) = 0" "ptracker w = pointer_map" "s \<noteq> null"
    "rs_ID rs = ID @ [CHR 0x00]" "length ID = 64" "set ID \<subseteq> set ID_alphabet"
    by (rule one_named_struct)
  let ?e = "c_to_rpc (replicate 8 0) C_uint64 0x1234"
  have s: "mem w s = Some (Struct rs)" using w(3) by simp
  have "card (dom (mem w)) < 2 ^ 63" using w(3) by simp
  then have room: "struct_room w s" using w(5) empty_struct_room [OF s] by simp
  have none: "entry w s ''n'' = None" using w(4) s by (simp add: entry_def)
  have e: "element_valid w ?e" "\<not> counted_type (rt_type ?e)" "rt_type ?e \<noteq> RPC_string"
    by (simp_all add: element_valid_def c_to_rpc_fields counted_type_def rpc_is_pointer_def)
  obtain m where m: "hashmap_get m = (hashmap_get (rs_map rs))(''n'' \<mapsto> ?e)" "store_inv {} (put_obj s (Struct (rs\<lparr>rs_map := m\<rparr>)) w)"
    using set_plain [OF w(2) s none room e, of plain_env "cbs plain_env 0"] by metis
  let ?w = "put_obj s (Struct (rs\<lparr>rs_map := m\<rparr>)) w\<lparr>entropy := replicate 64 1\<rparr>"
  have inv: "store_inv {} ?w" by (rule store_inv_entropy [OF m(2)])
  have mem: "mem ?w = [s \<mapsto> Struct (rs\<lparr>rs_map := m\<rparr>)]" using w(3) by simp
  have "hm_inv m" using store_inv_struct(1) [OF inv, of s "rs\<lparr>rs_map := m\<rparr>"] mem by simp
  then have size: "hb_size m = 1" using m(1) w(4) by (simp add: hm.count)
  show thesis
    by (rule that [OF inv mem _ _ _ _ _ w(9,10), of ?e]) (simp_all add: m(1) w(4,8) size stored_values)
qed

lemma alphabet_text: "set ID \<subseteq> set ID_alphabet \<Longrightarrow> ascii ID \<and> CHR 0x00 \<notin> set ID"
  using alphabet_no_NUL by (auto simp: ascii_def ID_alphabet_def)

lemma c_string_no_NUL: "c_string cs = Inr ID \<Longrightarrow> CHR 0x00 \<notin> set ID"
  by (auto simp: c_string_def dest: set_takeWhileD split: if_splits)

section \<open>Round trip\<close>



section \<open>Rejection\<close>

text \<open>An ID in the JSON value is set on the new struct before anything is checked.\<close>

definition parse_ID :: "'j jansson \<Rightarrow> 'j \<Rightarrow> addr \<Rightarrow> store \<Rightarrow> store run" where
  "parse_ID J root t w =
     (case j_get J root ''ID'' of
        None \<Rightarrow> Inr w
      | Some ID \<Rightarrow> (case j_string_value J ID of None \<Rightarrow> Inl Null_Deref | Some str \<Rightarrow> rpc_struct_id_set t str w))"

definition ID_fits :: "'j jansson \<Rightarrow> 'j \<Rightarrow> bool" where
  "ID_fits J root \<longleftrightarrow>
     (case j_get J root ''ID'' of
        None \<Rightarrow> True
      | Some ID \<Rightarrow> (case j_string_value J ID of None \<Rightarrow> False | Some str \<Rightarrow> length str \<le> 64))"

lemma id_set_empty: "rpc_struct_id_set t [] w = Inr w0 \<Longrightarrow> w0 = w"
  by (auto simp: rpc_struct_id_set_def andthen_eq_Inr the_struct_eq put_obj_def fun_upd_idem)

lemma parse_ID_build:
  assumes E: "allocator (e_malloc E)" and inv: "store_inv {} u" and create: "rpc_struct_create E u = Inr (t, u1)"
    and room: "card (dom (mem u)) < 2 ^ 63" and ID: "ID_fits J root"
  obtains w0 where "parse_ID J root t u1 = Inr w0" "flat_build w0 t Map.empty w0" "mem u t = None" "t \<noteq> null"
    "\<forall>a. a \<noteq> t \<longrightarrow> mem w0 a = mem u a" "ptracker w0 = ptracker u"
proof -
  define str where "str = (case Option.bind (j_get J root ''ID'') (j_string_value J) of None \<Rightarrow> [] | Some str \<Rightarrow> str)"
  have "length str \<le> 64" using ID by (auto simp: ID_fits_def str_def split: option.splits)
  then obtain w0 rs0 where C: "rpc_struct_id_set t str u1 = Inr w0" "flat_build w0 t Map.empty w0" "mem u t = None" "t \<noteq> null"
    "\<forall>a. a \<noteq> t \<longrightarrow> mem u1 a = mem u a \<and> mem w0 a = mem u a" "ptracker w0 = ptracker u" "mem w0 t = Some (Struct rs0)"
    by (rule flat_create [OF E inv create room]) (rule that)
  have "parse_ID J root t u1 = Inr w0"
  proof (cases "j_get J root ''ID''")
    case None
    then show ?thesis using C(1) id_set_empty [of t u1 w0] by (simp add: parse_ID_def str_def)
  next
    case (Some x)
    then show ?thesis using C(1) ID by (auto simp: parse_ID_def str_def ID_fits_def split: option.splits)
  qed
  then show thesis using that C(2,3,4,5,6) by blast
qed

lemma deserialize_parse_ID:
  "rpc_struct_create E u = Inr (t, u1) \<Longrightarrow>
   rpc_struct_deserialize E cb J junk (Suc n) (Some root) u =
     andthen (parse_ID J root t u1) (\<lambda>w0.
     case j_get J root ''type'' of
        None \<Rightarrow> bad_exit E cb t w0
      | Some type \<Rightarrow> (case j_string_value J type of
          None \<Rightarrow> Inl Null_Deref
        | Some str \<Rightarrow>
            if str \<noteq> ''RPC_struct'' then bad_exit E cb t w0
            else case j_get J root ''serialised'' of
              None \<Rightarrow> bad_exit E cb t w0
            | Some data \<Rightarrow>
                andthen (fold_run (\<lambda>key item w. item_parse E cb J junk n t key item w) (j_pairs J data) w0) (\<lambda>w3.
                andthen (case j_get J root ''duplicates'' of
                           None \<Rightarrow> Inr w3
                         | Some duplicates \<Rightarrow> fold_run (parse_duplicate E cb J t) (j_pairs J duplicates) w3) (\<lambda>w4.
                  Inr (t, w4)))))"
  by (simp add: parse_ID_def)

text \<open>The values that \<open>rpc_struct_deserialize\<close> takes its error exit for.\<close>

definition not_a_struct :: "'j jansson \<Rightarrow> 'j \<Rightarrow> bool" where
  "not_a_struct J root \<longleftrightarrow>
     (case j_get J root ''type'' of
        None \<Rightarrow> True
      | Some type \<Rightarrow> (case j_string_value J type of
          None \<Rightarrow> False
        | Some str \<Rightarrow> str \<noteq> ''RPC_struct'' \<or> j_get J root ''serialised'' = None))"



section \<open>What is not rejected\<close>

text \<open>How parsing the ID and the type goes wrong.\<close>

definition parse_fault :: "'j jansson \<Rightarrow> 'j \<Rightarrow> fault option" where
  "parse_fault J root =
     (case Option.bind (j_get J root ''ID'') (\<lambda>x. Some (j_string_value J x)) of
        Some None \<Rightarrow> Some Null_Deref
      | Some (Some str) \<Rightarrow> if length str > 65 then Some Out_Of_Bounds else None
      | None \<Rightarrow> (case Option.bind (j_get J root ''type'') (\<lambda>x. Some (j_string_value J x)) of
          Some None \<Rightarrow> Some Null_Deref
        | _ \<Rightarrow> None))"



end
