(* ===== verification/Poll_Network.thy ===== *)
theory Poll_Network
  imports Prelude
begin

text \<open>
  The table of connections of \<open>poll_network.c\<close>: an array that is handed to \<open>poll\<close>, with callbacks when a
  connection can be read and when it has ended. What callbacks and system calls do to the rest of the
  program is a state they pass on; the results of \<open>poll\<close> and \<open>accept\<close> are arguments. The steps of the two
  threads are modelled one at a time; a step of one in the middle of a step of the other is in
  \<^theory_text>\<open>Poll_Race\<close>.
\<close>

section \<open>State\<close>

definition POLLIN :: "16 word" where "POLLIN = 0x1"
definition POLLERR :: "16 word" where "POLLERR = 0x8"
definition POLLHUP :: "16 word" where "POLLHUP = 0x10"
definition POLLNVAL :: "16 word" where "POLLNVAL = 0x20"
definition POLLRDHUP :: "16 word" where "POLLRDHUP = 0x2000"

text \<open>\<open>RLIMIT_NOFILE\<close> is not a limit: it is the number of this resource for \<open>getrlimit\<close>.\<close>

definition RLIMIT_NOFILE :: nat where "RLIMIT_NOFILE = 7"

definition MIN_POLLFD :: nat where "MIN_POLLFD = 128"

record pollfd =
  pf_fd :: int
  pf_events :: "16 word"
  pf_revents :: "16 word"

text \<open>The callbacks are NULL or functions on the state of the program, and so are the calls that end a
  connection.\<close>

record 's poll_net_callbacks =
  accept_error_cb :: "('s \<Rightarrow> 's run) option"
  accept_cb :: "(int \<Rightarrow> 's \<Rightarrow> 's run) option"
  disconnect_cb :: "(int \<Rightarrow> 's \<Rightarrow> 's run) option"
  read_cb :: "(int \<Rightarrow> 's \<Rightarrow> 's run) option"

record 's sockets =
  sk_shutdown :: "int \<Rightarrow> 's \<Rightarrow> 's"
  sk_close :: "int \<Rightarrow> 's \<Rightarrow> 's"

record poll_net =
  pn_active :: bool
  pn_fds :: "pollfd list"
  pn_fds_size :: nat
  pn_nfds :: nat
  pn_sockfd :: int

definition call_fd :: "(int \<Rightarrow> 's \<Rightarrow> 's run) option \<Rightarrow> int \<Rightarrow> 's \<Rightarrow> 's run" where
  "call_fd f fd s = (case f of None \<Rightarrow> Inr s | Some g \<Rightarrow> g fd s)"

definition hang_up :: "'s sockets \<Rightarrow> int \<Rightarrow> 's \<Rightarrow> 's" where
  "hang_up K fd s = sk_close K fd (sk_shutdown K fd s)"

section \<open>Operations\<close>

definition zero_pollfd :: pollfd where
  "zero_pollfd = \<lparr>pf_fd = 0, pf_events = 0, pf_revents = 0\<rparr>"

definition poll_net_init :: poll_net where
  "poll_net_init =
     \<lparr>pn_active = True, pn_fds = replicate MIN_POLLFD zero_pollfd, pn_fds_size = MIN_POLLFD, pn_nfds = 0, pn_sockfd = - 1\<rparr>"

text \<open>The cells \<open>realloc\<close> adds hold \<open>junk\<close>.\<close>

definition poll_net_grow :: "pollfd \<Rightarrow> poll_net \<Rightarrow> poll_net" where
  "poll_net_grow junk net =
     (if pn_nfds net = pn_fds_size net - 1
      then net\<lparr>pn_fds_size := pn_fds_size net + MIN_POLLFD, pn_fds := pn_fds net @ replicate MIN_POLLFD junk\<rparr>
      else net)"

definition poll_net_add_fd :: "'s sockets \<Rightarrow> pollfd \<Rightarrow> int \<Rightarrow> poll_net \<Rightarrow> 's \<Rightarrow> (int \<times> poll_net \<times> 's) run" where
  "poll_net_add_fd K junk fd net s =
     andthen (check (0 \<le> fd)) (\<lambda>_.
       if \<not> pn_active net then Inr (1, net, s)
       else let net1 = poll_net_grow junk net; n = pn_nfds net1 in
         if n \<ge> length (pn_fds net1) then Inl Out_Of_Bounds
         else if n + 1 = RLIMIT_NOFILE then Inr (1, net1, hang_up K (pf_fd (pn_fds net1 ! n)) s)
         else Inr (0, net1\<lparr>pn_nfds := n + 1,
                pn_fds := (pn_fds net1)[n := \<lparr>pf_fd = fd, pf_events = POLLIN OR POLLRDHUP, pf_revents = 0\<rparr>]\<rparr>, s))"

text \<open>One turn of the accepting thread after \<open>accept\<close> returned \<open>netfd\<close>; \<open>opt1\<close> and \<open>opt2\<close> tell whether
  setting the timeouts worked. The result tells whether the thread goes on.\<close>

definition accept_thread ::
    "'s poll_net_callbacks \<Rightarrow> 's sockets \<Rightarrow> pollfd \<Rightarrow> int \<Rightarrow> bool \<Rightarrow> bool \<Rightarrow> poll_net \<Rightarrow> 's \<Rightarrow> (bool \<times> poll_net \<times> 's) run" where
  "accept_thread cbs K junk netfd opt1 opt2 net s =
     (if netfd < 0
      then andthen (if accept_error_cb cbs \<noteq> None \<and> pn_active net then the (accept_error_cb cbs) s else Inr s)
             (\<lambda>s1. Inr (False, net, s1))
      else if \<not> opt1 \<or> \<not> opt2 then Inr (True, net, s)
      else andthen (poll_net_add_fd K junk netfd net s) (\<lambda>(r, net1, s1).
           andthen (call_fd (accept_cb cbs) netfd s1) (\<lambda>s2. Inr (True, net1, s2))))"

definition hung_up :: "pollfd \<Rightarrow> bool" where
  "hung_up p \<longleftrightarrow>
     pf_revents p AND POLLHUP \<noteq> 0 \<or> pf_revents p AND POLLERR \<noteq> 0 \<or>
     pf_revents p AND POLLNVAL \<noteq> 0 \<or> pf_revents p AND POLLRDHUP \<noteq> 0"

text \<open>\<open>memmove\<close> over the entry at \<open>i\<close>; the cell of the last entry keeps what it held.\<close>

definition remove_pollfd :: "nat \<Rightarrow> poll_net \<Rightarrow> poll_net" where
  "remove_pollfd i net =
     net\<lparr>pn_fds := take i (pn_fds net) @ take (pn_nfds net - (i + 1)) (drop (i + 1) (pn_fds net)) @ drop (pn_nfds net - 1) (pn_fds net),
         pn_nfds := pn_nfds net - 1\<rparr>"

text \<open>The loop over the results of \<open>poll\<close>. After a removal the index stays: it is counted down, from 0 to
  the largest unsigned number, and up again.\<close>

function poll_scan :: "'s poll_net_callbacks \<Rightarrow> 's sockets \<Rightarrow> nat \<Rightarrow> poll_net \<Rightarrow> 's \<Rightarrow> (poll_net \<times> 's) run" where
  "poll_scan cbs K i net s =
     (if i < pn_nfds net then
        if i \<ge> length (pn_fds net) then Inl Out_Of_Bounds
        else let p = pn_fds net ! i in
          (case (if pf_revents p AND POLLIN \<noteq> 0 then call_fd (read_cb cbs) (pf_fd p) s else Inr s) of
             Inl e \<Rightarrow> Inl e
           | Inr s1 \<Rightarrow>
               if hung_up p then
                 (case call_fd (disconnect_cb cbs) (pf_fd p) s1 of
                    Inl e \<Rightarrow> Inl e
                  | Inr s2 \<Rightarrow> poll_scan cbs K i (remove_pollfd i net) (hang_up K (pf_fd p) s2))
               else poll_scan cbs K (i + 1) net s1)
      else Inr (net, s))"
  by pat_completeness auto

termination
  by (relation "measure (\<lambda>(cbs, K, i, net, s). pn_nfds net - i)") (auto simp: remove_pollfd_def)

text \<open>One turn of the polling thread: \<open>revents\<close> is what \<open>poll\<close> stores for each connection, and its result
  counts those that are not 0.\<close>

definition set_revents :: "(nat \<Rightarrow> 16 word) \<Rightarrow> poll_net \<Rightarrow> poll_net" where
  "set_revents revents net =
     net\<lparr>pn_fds := map (\<lambda>i. if i < pn_nfds net then (pn_fds net ! i)\<lparr>pf_revents := revents i\<rparr> else pn_fds net ! i)
                       [0..<length (pn_fds net)]\<rparr>"

definition poll_thread ::
    "'s poll_net_callbacks \<Rightarrow> 's sockets \<Rightarrow> (nat \<Rightarrow> 16 word) \<Rightarrow> poll_net \<Rightarrow> 's \<Rightarrow> (poll_net \<times> 's) run" where
  "poll_thread cbs K revents net s =
     (let net1 = set_revents revents net in
      if \<exists>i<pn_nfds net. revents i \<noteq> 0 then poll_scan cbs K 0 net1 s else Inr (net1, s))"

text \<open>Both threads have ended when the connections are closed. The callback is not tested for NULL here.\<close>

fun close_all :: "'s poll_net_callbacks \<Rightarrow> 's sockets \<Rightarrow> pollfd list \<Rightarrow> 's \<Rightarrow> 's run" where
  "close_all cbs K [] s = Inr s"
| "close_all cbs K (p # ps) s =
     (case disconnect_cb cbs of
        None \<Rightarrow> Inl Null_Deref
      | Some f \<Rightarrow> andthen (f (pf_fd p) s) (\<lambda>s1. close_all cbs K ps (hang_up K (pf_fd p) s1)))"

definition poll_net_free :: "'s poll_net_callbacks \<Rightarrow> 's sockets \<Rightarrow> poll_net \<Rightarrow> 's \<Rightarrow> 's run" where
  "poll_net_free cbs K net s =
     (let s1 = (if pn_sockfd net \<noteq> - 1 then hang_up K (pn_sockfd net) s else s) in
      if pn_nfds net > length (pn_fds net) then Inl Out_Of_Bounds
      else close_all cbs K (take (pn_nfds net) (pn_fds net)) s1)"

definition poll_net_start_accept :: "int \<Rightarrow> poll_net \<Rightarrow> poll_net" where
  "poll_net_start_accept sockfd net = net\<lparr>pn_sockfd := sockfd\<rparr>"

definition poll_net_stop_accept :: "'s sockets \<Rightarrow> poll_net \<Rightarrow> 's \<Rightarrow> 's" where
  "poll_net_stop_accept K net s = (if pn_sockfd net \<noteq> - 1 then hang_up K (pn_sockfd net) s else s)"

section \<open>A turn of the polling thread\<close>

text \<open>What is done for one connection.\<close>

definition serve :: "'s poll_net_callbacks \<Rightarrow> 's sockets \<Rightarrow> pollfd \<Rightarrow> 's \<Rightarrow> 's run" where
  "serve cbs K p s =
     andthen (if pf_revents p AND POLLIN \<noteq> 0 then call_fd (read_cb cbs) (pf_fd p) s else Inr s) (\<lambda>s1.
       if hung_up p then andthen (call_fd (disconnect_cb cbs) (pf_fd p) s1) (\<lambda>s2. Inr (hang_up K (pf_fd p) s2))
       else Inr s1)"

fun serve_all :: "'s poll_net_callbacks \<Rightarrow> 's sockets \<Rightarrow> pollfd list \<Rightarrow> 's \<Rightarrow> 's run" where
  "serve_all cbs K [] s = Inr s"
| "serve_all cbs K (p # ps) s = andthen (serve cbs K p s) (serve_all cbs K ps)"

definition connections :: "poll_net \<Rightarrow> pollfd list" where
  "connections net = take (pn_nfds net) (pn_fds net)"

definition net_ok :: "poll_net \<Rightarrow> bool" where
  "net_ok net \<longleftrightarrow> pn_nfds net \<le> length (pn_fds net)"

lemma take_whole: "length xs = n \<Longrightarrow> take n (xs @ ys) = xs"
  by simp

lemma remove_pollfd_ok:
  assumes "net_ok net" "i < pn_nfds net"
  shows "net_ok (remove_pollfd i net)" "length (pn_fds (remove_pollfd i net)) = length (pn_fds net)"
    "connections (remove_pollfd i net) = take i (connections net) @ drop (Suc i) (connections net)"
    "pn_nfds (remove_pollfd i net) = pn_nfds net - 1"
    "pn_nfds net \<le> j \<Longrightarrow> pn_fds (remove_pollfd i net) ! j = pn_fds net ! j"
proof -
  have le: "pn_nfds net \<le> length (pn_fds net)" using assms(1) by (simp add: net_ok_def)
  let ?a = "take i (pn_fds net)" and ?b = "take (pn_nfds net - (i + 1)) (drop (i + 1) (pn_fds net))"
    and ?c = "drop (pn_nfds net - 1) (pn_fds net)"
  have lens: "length ?a = i" "length ?b = pn_nfds net - (i + 1)" "length ?c = length (pn_fds net) - (pn_nfds net - 1)"
    using le assms(2) by simp_all
  show len: "length (pn_fds (remove_pollfd i net)) = length (pn_fds net)"
    using lens le assms(2) by (simp add: remove_pollfd_def)
  show n: "pn_nfds (remove_pollfd i net) = pn_nfds net - 1" by (simp add: remove_pollfd_def)
  show "net_ok (remove_pollfd i net)" using len n le by (simp add: net_ok_def)
  have ab: "length (?a @ ?b) = pn_nfds net - 1" using lens assms(2) by simp
  have "take (pn_nfds net - 1) ((?a @ ?b) @ ?c) = ?a @ ?b" by (rule take_whole [OF ab])
  moreover have "?a = take i (connections net)" using assms(2) by (simp add: connections_def min_def)
  moreover have "?b = drop (Suc i) (connections net)" by (simp add: connections_def drop_take)
  moreover have "connections (remove_pollfd i net) = take (pn_nfds net - 1) ((?a @ ?b) @ ?c)"
    by (simp only: connections_def n) (simp add: remove_pollfd_def)
  ultimately show "connections (remove_pollfd i net) = take i (connections net) @ drop (Suc i) (connections net)"
    by (simp only:)
  assume j: "pn_nfds net \<le> j"
  have "((?a @ ?b) @ ?c) ! j = ?c ! (j - (pn_nfds net - 1))" using j ab assms(2) by (subst nth_append) simp
  also have "\<dots> = pn_fds net ! j" using j le assms(2) by (cases "j < length (pn_fds net)") (simp_all add: nth_drop)
  finally show "pn_fds (remove_pollfd i net) ! j = pn_fds net ! j" by (simp add: remove_pollfd_def)
qed

declare poll_scan.simps [simp del]

lemma poll_scan_done: "pn_nfds net \<le> i \<Longrightarrow> poll_scan cbs K i net s = Inr (net, s)"
  by (simp add: poll_scan.simps)

lemma poll_scan_step:
  assumes "i < pn_nfds net" "i < length (pn_fds net)" "pn_fds net ! i = p"
  shows "poll_scan cbs K i net s = andthen (serve cbs K p s)
    (\<lambda>s'. if hung_up p then poll_scan cbs K i (remove_pollfd i net) s' else poll_scan cbs K (i + 1) net s')"
  using assms by (subst poll_scan.simps) (auto simp: serve_def Let_def split: sum.split)

text \<open>The result of the loop from index \<open>i\<close> on, where serving the connections from \<open>i\<close> on gives \<open>r\<close>.\<close>

definition scanned :: "nat \<Rightarrow> poll_net \<Rightarrow> 's run \<Rightarrow> (poll_net \<times> 's) run \<Rightarrow> bool" where
  "scanned i net r t \<longleftrightarrow>
     (case r of
        Inl e \<Rightarrow> t = Inl e
      | Inr s' \<Rightarrow> \<exists>net'. t = Inr (net', s') \<and> net_ok net' \<and>
          connections net' = take i (connections net) @ filter (\<lambda>p. \<not> hung_up p) (drop i (connections net)) \<and>
          length (pn_fds net') = length (pn_fds net) \<and> pn_nfds net' \<le> pn_nfds net \<and> pn_fds_size net' = pn_fds_size net \<and>
          pn_active net' = pn_active net \<and> pn_sockfd net' = pn_sockfd net \<and>
          (\<forall>j\<ge>pn_nfds net. pn_fds net' ! j = pn_fds net ! j))"

lemma poll_scan_serves:
  "net_ok net \<Longrightarrow> i \<le> pn_nfds net \<Longrightarrow>
    scanned i net (serve_all cbs K (drop i (connections net)) s) (poll_scan cbs K i net s)"
proof (induction "pn_nfds net - i" arbitrary: i net s)
  case 0
  then show ?case by (simp add: poll_scan_done scanned_def connections_def)
next
  case (Suc n)
  then have i: "i < pn_nfds net" "i < length (pn_fds net)" by (simp_all add: net_ok_def)
  define p where "p = pn_fds net ! i"
  have cp: "drop i (connections net) = p # drop (Suc i) (connections net)"
    using i by (simp add: connections_def p_def Cons_nth_drop_Suc [symmetric])
  have tk: "take (Suc i) (connections net) = take i (connections net) @ [p]"
    using i by (simp add: connections_def p_def take_Suc_conv_app_nth)
  note step = poll_scan_step [OF i p_def [symmetric]]
  show ?case
  proof (cases "serve cbs K p s")
    case (Inl e)
    then show ?thesis by (simp add: cp step scanned_def)
  next
    case (Inr s1)
    show ?thesis
    proof (cases "hung_up p")
      case True
      note R = remove_pollfd_ok [OF Suc.prems(1) i(1)]
      have dr: "drop i (connections (remove_pollfd i net)) = drop (Suc i) (connections net)"
        "take i (connections (remove_pollfd i net)) = take i (connections net)"
        using R(3) i by (simp_all add: connections_def)
      have "n = pn_nfds (remove_pollfd i net) - i" "i \<le> pn_nfds (remove_pollfd i net)" using Suc.hyps(2) R(4) i by simp_all
      from Suc.hyps(1) [OF this(1) R(1) this(2)]
      have "scanned i (remove_pollfd i net) (serve_all cbs K (drop (Suc i) (connections net)) s1) (poll_scan cbs K i net s)"
        using Inr True by (simp add: dr step)
      moreover have "pn_active (remove_pollfd i net) = pn_active net" "pn_sockfd (remove_pollfd i net) = pn_sockfd net"
        "pn_fds_size (remove_pollfd i net) = pn_fds_size net" by (simp_all add: remove_pollfd_def)
      ultimately show ?thesis
        using Inr True R(2,4,5) by (auto simp: scanned_def cp dr split: sum.splits)
    next
      case False
      have "n = pn_nfds net - Suc i" "Suc i \<le> pn_nfds net" using Suc.hyps(2) i by simp_all
      from Suc.hyps(1) [OF this(1) Suc.prems(1) this(2)]
      have "scanned (Suc i) net (serve_all cbs K (drop (Suc i) (connections net)) s1) (poll_scan cbs K i net s)"
        using Inr False by (simp add: step)
      then show ?thesis using Inr False by (simp add: scanned_def cp tk split: sum.splits)
    qed
  qed
qed

end
