(* ===== verification/Poll_Claims.thy ===== *)
theory Poll_Claims
  imports Poll_Network
begin

text \<open>
  What the table of connections promises: a turn of the polling thread serves each connection once, in
  order, and keeps those that have not ended; and how many connections it can hold.
\<close>

section \<open>Turns of the polling thread\<close>

lemma set_revents_simps [simp]:
  "net_ok (set_revents revents net) = net_ok net" "pn_nfds (set_revents revents net) = pn_nfds net"
  "length (pn_fds (set_revents revents net)) = length (pn_fds net)" "pn_active (set_revents revents net) = pn_active net"
  "pn_fds_size (set_revents revents net) = pn_fds_size net" "pn_sockfd (set_revents revents net) = pn_sockfd net"
  "i < length (pn_fds net) \<Longrightarrow> pn_fds (set_revents revents net) ! i =
    (if i < pn_nfds net then (pn_fds net ! i)\<lparr>pf_revents := revents i\<rparr> else pn_fds net ! i)"
  by (simp_all add: set_revents_def net_ok_def)

lemma quiet_connection: "pf_revents p = 0 \<Longrightarrow> serve cbs K p s = Inr s \<and> \<not> hung_up p"
  by (simp add: serve_def hung_up_def)

lemma serve_quiet: "(\<And>p. p \<in> set ps \<Longrightarrow> pf_revents p = 0) \<Longrightarrow> serve_all cbs K ps s = Inr s \<and> filter (\<lambda>p. \<not> hung_up p) ps = ps"
  by (induction ps) (simp_all add: quiet_connection)

lemma poll_thread_scanned:
  assumes "net_ok net"
  shows "scanned 0 (set_revents revents net) (serve_all cbs K (connections (set_revents revents net)) s) (poll_thread cbs K revents net s)"
proof (cases "\<exists>i<pn_nfds net. revents i \<noteq> 0")
  case True
  then show ?thesis
    using poll_scan_serves [of "set_revents revents net" 0 cbs K s] assms by (simp add: poll_thread_def Let_def)
next
  case False
  have "pf_revents p = 0" if p: "p \<in> set (connections (set_revents revents net))" for p
  proof -
    obtain i where "i < pn_nfds net" "i < length (pn_fds net)" "pn_fds (set_revents revents net) ! i = p"
      using p by (auto simp: connections_def in_set_conv_nth simp del: set_revents_simps(7))
    then show ?thesis using False by auto
  qed
  then have q: "serve_all cbs K (connections (set_revents revents net)) s = Inr s"
    "filter (\<lambda>p. \<not> hung_up p) (connections (set_revents revents net)) = connections (set_revents revents net)"
    by (simp_all add: serve_quiet)
  have "poll_thread cbs K revents net s = Inr (set_revents revents net, s)" using False by (auto simp: poll_thread_def Let_def)
  then show ?thesis using assms by (simp add: scanned_def q)
qed

text \<open>C20: A turn of the polling thread is equivalent to going through the connections once, in order: each
  that can be read is read, each that has ended is reported and closed, and the connections left are
  those that have not ended, in the same order. The loop that removes entries of the array while it
  walks over it neither skips nor repeats one, and ends.\<close>

theorem poll_turn_serves_each_once:
  assumes "net_ok net" "serve_all cbs K (connections (set_revents revents net)) s = Inr s'"
  shows "\<exists>net'. poll_thread cbs K revents net s = Inr (net', s') \<and> net_ok net' \<and>
    connections net' = filter (\<lambda>p. \<not> hung_up p) (connections (set_revents revents net))"
  using poll_thread_scanned [OF assms(1), of revents cbs K s] assms(2) by (auto simp: scanned_def)

text \<open>Callbacks that only note what they are called for.\<close>

definition noting :: "(string \<times> int) list poll_net_callbacks" where
  "noting =
     \<lparr>accept_error_cb = None, accept_cb = Some (\<lambda>fd s. Inr (s @ [(''accept'', fd)])),
      disconnect_cb = Some (\<lambda>fd s. Inr (s @ [(''gone'', fd)])), read_cb = Some (\<lambda>fd s. Inr (s @ [(''read'', fd)]))\<rparr>"

definition noting_sockets :: "(string \<times> int) list sockets" where
  "noting_sockets = \<lparr>sk_shutdown = \<lambda>fd s. s, sk_close = \<lambda>fd s. s @ [(''close'', fd)]\<rparr>"

text \<open>Three connections: the first can be read, the second has ended, the third both.\<close>

definition three_connections :: poll_net where
  "three_connections = poll_net_init\<lparr>pn_nfds := 3,
     pn_fds := [\<lparr>pf_fd = 5, pf_events = 0, pf_revents = 0\<rparr>, \<lparr>pf_fd = 6, pf_events = 0, pf_revents = 0\<rparr>,
       \<lparr>pf_fd = 7, pf_events = 0, pf_revents = 0\<rparr>]\<rparr>"

definition three_revents :: "nat \<Rightarrow> 16 word" where
  "three_revents i = [0x1, 0x10, 0x11] ! i"

lemma three_connections_served:
  "connections (set_revents three_revents three_connections) =
     [\<lparr>pf_fd = 5, pf_events = 0, pf_revents = 0x1\<rparr>, \<lparr>pf_fd = 6, pf_events = 0, pf_revents = 0x10\<rparr>,
      \<lparr>pf_fd = 7, pf_events = 0, pf_revents = 0x11\<rparr>]"
  by (simp add: connections_def set_revents_def three_connections_def three_revents_def numeral_eq_Suc)

lemma event_bits [simp]:
  "(0x1 :: 16 word) AND POLLIN \<noteq> 0" "(0x10 :: 16 word) AND POLLIN = 0" "(0x11 :: 16 word) AND POLLIN \<noteq> 0"
  "pf_revents p = 0x1 \<Longrightarrow> \<not> hung_up p" "pf_revents p = 0x10 \<Longrightarrow> hung_up p" "pf_revents p = 0x11 \<Longrightarrow> hung_up p"
  by (simp_all add: hung_up_def POLLIN_def POLLHUP_def POLLERR_def POLLNVAL_def POLLRDHUP_def)

theorem poll_turn_serves_each_once_witness:
  "\<exists>net'. poll_thread noting noting_sockets three_revents three_connections [] =
      Inr (net', [(''read'', 5), (''gone'', 6), (''close'', 6), (''read'', 7), (''gone'', 7), (''close'', 7)]) \<and>
    map pf_fd (connections net') = [5]"
proof -
  have "net_ok three_connections" by (simp add: net_ok_def three_connections_def)
  moreover have "serve_all noting noting_sockets (connections (set_revents three_revents three_connections)) [] =
      Inr [(''read'', 5), (''gone'', 6), (''close'', 6), (''read'', 7), (''gone'', 7), (''close'', 7)]"
    by (simp add: three_connections_served serve_def noting_def noting_sockets_def call_fd_def hang_up_def)
  ultimately obtain net' where net': "poll_thread noting noting_sockets three_revents three_connections [] =
      Inr (net', [(''read'', 5), (''gone'', 6), (''close'', 6), (''read'', 7), (''gone'', 7), (''close'', 7)])"
    "connections net' = filter (\<lambda>p. \<not> hung_up p) (connections (set_revents three_revents three_connections))"
    using poll_turn_serves_each_once [of three_connections noting noting_sockets three_revents "[]"] by blast
  have "map pf_fd (connections net') = [5]" unfolding net'(2) three_connections_served by simp
  with net'(1) show ?thesis by (intro exI [of _ net'] conjI)
qed

section \<open>How many connections fit\<close>

inductive net_reachable :: "'s poll_net_callbacks \<Rightarrow> 's sockets \<Rightarrow> poll_net \<Rightarrow> bool" for cbs K where
  start: "net_reachable cbs K poll_net_init"
| accept_on: "net_reachable cbs K net \<Longrightarrow> net_reachable cbs K (poll_net_start_accept sockfd net)"
| accepted: "net_reachable cbs K net \<Longrightarrow> accept_thread cbs K junk fd opt1 opt2 net s = Inr (go, net', s') \<Longrightarrow>
    net_reachable cbs K net'"
| added: "net_reachable cbs K net \<Longrightarrow> poll_net_add_fd K junk fd net s = Inr (r, net', s') \<Longrightarrow> net_reachable cbs K net'"
| polled: "net_reachable cbs K net \<Longrightarrow> poll_thread cbs K revents net s = Inr (net', s') \<Longrightarrow> net_reachable cbs K net'"

definition six_at_most :: "poll_net \<Rightarrow> bool" where
  "six_at_most net \<longleftrightarrow>
     pn_active net \<and> pn_fds_size net = 128 \<and> length (pn_fds net) = 128 \<and> pn_nfds net \<le> 6 \<and> pn_fds net ! 6 = zero_pollfd"

lemma six_add:
  assumes "six_at_most net" "0 \<le> fd"
  shows "poll_net_add_fd K junk fd net s =
    (if pn_nfds net = 6 then Inr (1, net, hang_up K 0 s)
     else Inr (0, net\<lparr>pn_nfds := pn_nfds net + 1,
       pn_fds := (pn_fds net)[pn_nfds net := \<lparr>pf_fd = fd, pf_events = POLLIN OR POLLRDHUP, pf_revents = 0\<rparr>]\<rparr>, s))"
  using assms
  by (auto simp: poll_net_add_fd_def poll_net_grow_def six_at_most_def RLIMIT_NOFILE_def zero_pollfd_def Let_def)

lemma six_added:
  assumes "six_at_most net" "poll_net_add_fd K junk fd net s = Inr (r, net', s')" shows "six_at_most net'"
proof -
  have fd: "0 \<le> fd" using assms(2) by (auto simp: poll_net_add_fd_def andthen_eq_Inr)
  show ?thesis
    using assms(1,2) unfolding six_add [OF assms(1) fd] by (auto simp: six_at_most_def split: if_splits)
qed

lemma reachable_six: "net_reachable cbs K net \<Longrightarrow> six_at_most net"
proof (induction rule: net_reachable.induct)
  case start
  show ?case by (simp add: six_at_most_def poll_net_init_def MIN_POLLFD_def)
next
  case (accept_on net sockfd)
  then show ?case by (simp add: six_at_most_def poll_net_start_accept_def)
next
  case (accepted net junk fd opt1 opt2 s go net' s')
  from accepted.hyps(2) accepted.IH show ?case
    by (auto simp: accept_thread_def andthen_eq_Inr split: if_splits elim: six_added)
next
  case (added net junk fd s r net' s')
  from six_added [OF added.IH added.hyps(2)] show ?case .
next
  case (polled net revents s net' s')
  then have "net_ok net" "length (pn_fds net) = 128" "pn_nfds net \<le> 6" "pn_fds net ! 6 = zero_pollfd" "pn_active net" "pn_fds_size net = 128"
    by (simp_all add: six_at_most_def net_ok_def)
  then show ?case
    using poll_thread_scanned [of net revents cbs K s] polled.hyps(2)
    by (auto simp: six_at_most_def scanned_def split: sum.splits)
qed

text \<open>C35: The table holds at most six connections, whatever the system allows: the code compares with
  \<open>RLIMIT_NOFILE\<close>, which is the number of a resource and not a limit. With six connections open, a
  seventh is refused and descriptor 0 of the server is shut down and closed in its place; with fewer it
  is added at the end.\<close>

theorem seventh_connection_closes_stdin:
  assumes "net_reachable cbs K net" "0 \<le> fd"
  shows "\<exists>net'. poll_net_add_fd K junk fd net s =
      (if length (connections net) < 6 then Inr (0, net', s) else Inr (1, net, sk_close K 0 (sk_shutdown K 0 s))) \<and>
    map pf_fd (connections net') = map pf_fd (connections net) @ [fd] \<and> length (connections net) \<le> 6"
proof -
  have six: "six_at_most net" by (rule reachable_six [OF assms(1)])
  let ?p = "\<lparr>pf_fd = fd, pf_events = POLLIN OR POLLRDHUP, pf_revents = 0\<rparr>"
  let ?net = "net\<lparr>pn_nfds := pn_nfds net + 1, pn_fds := (pn_fds net)[pn_nfds net := ?p]\<rparr>"
  have n: "length (connections net) = pn_nfds net" "pn_nfds net \<le> 6" "pn_nfds net < length (pn_fds net)"
    using six by (simp_all add: six_at_most_def connections_def)
  have "take (Suc (pn_nfds net)) ((pn_fds net)[pn_nfds net := ?p]) = take (pn_nfds net) (pn_fds net) @ [?p]"
    using n(3) by (simp add: take_Suc_conv_app_nth)
  then have "map pf_fd (connections ?net) = map pf_fd (connections net) @ [fd]" by (simp add: connections_def)
  then show ?thesis
    using n(1,2) by (intro exI [of _ ?net]) (simp add: six_add [OF six assms(2)] hang_up_def)
qed

text \<open>Seven connections, one after the other.\<close>

fun add_fds :: "'s sockets \<Rightarrow> int list \<Rightarrow> poll_net \<Rightarrow> 's \<Rightarrow> (int list \<times> poll_net \<times> 's) run" where
  "add_fds K [] net s = Inr ([], net, s)"
| "add_fds K (fd # fds) net s =
     andthen (poll_net_add_fd K zero_pollfd fd net s) (\<lambda>(r, net1, s1).
     andthen (add_fds K fds net1 s1) (\<lambda>(rs, net2, s2). Inr (r # rs, net2, s2)))"

lemma add_fds_reachable: "add_fds K fds net s = Inr (rs, net', s') \<Longrightarrow> net_reachable cbs K net \<Longrightarrow> net_reachable cbs K net'"
proof (induction fds arbitrary: net s rs)
  case (Cons fd fds)
  then obtain r net1 s1 rs1 where a: "poll_net_add_fd K zero_pollfd fd net s = Inr (r, net1, s1)" "add_fds K fds net1 s1 = Inr (rs1, net', s')"
    by (auto simp: andthen_eq_Inr)
  show ?case by (rule Cons.IH [OF a(2) net_reachable.added [OF Cons.prems(2) a(1)]])
qed simp

theorem seventh_connection_closes_stdin_witness:
  "\<exists>net. add_fds noting_sockets [5, 6, 7, 8, 9, 10] poll_net_init [] = Inr ([0, 0, 0, 0, 0, 0], net, []) \<and>
    poll_net_add_fd noting_sockets zero_pollfd 11 net [] = Inr (1, net, [(''close'', 0)])"
proof -
  obtain net where net: "add_fds noting_sockets [5, 6, 7, 8, 9, 10] poll_net_init [] = Inr ([0, 0, 0, 0, 0, 0], net, [])" "pn_nfds net = 6"
    by (simp add: poll_net_add_fd_def poll_net_grow_def poll_net_init_def MIN_POLLFD_def RLIMIT_NOFILE_def Let_def)
  have "net_reachable noting noting_sockets net" by (rule add_fds_reachable [OF net(1) net_reachable.start])
  from seventh_connection_closes_stdin [OF this, of 11 zero_pollfd "[]"] reachable_six [OF this]
  have "poll_net_add_fd noting_sockets zero_pollfd 11 net [] = Inr (1, net, [(''close'', 0)])"
    using net(2) by (auto simp: connections_def six_at_most_def noting_sockets_def)
  then show ?thesis using net(1) by blast
qed

end
