(* ===== verification/Poll_Race.thy ===== *)
theory Poll_Race
  imports Poll_Claims
begin

text \<open>
  The two threads of \<open>poll_network.c\<close> at the same time: the accepting thread adds a connection while the
  polling thread removes one. There is no lock, so that both are cut into their accesses to the table, and
  the accesses are interleaved. Run alone, the accesses are the operations of \<^theory_text>\<open>Poll_Network\<close>.
\<close>

section \<open>The accesses\<close>

text \<open>In \<open>poll_net_add_fd\<close>: about to make room; to look at the limit; to take an index; to write the entry; it
  has returned. In the loop of \<open>poll_thread\<close>, for a connection that has been closed: about to move the entries
  after it; to count it out; past it.\<close>

datatype add_pc = A_Grow int | A_Limit int | A_Count int | A_Write int nat | A_Done int

datatype remove_pc = R_Move nat | R_Drop | R_Done

definition add_access :: "'s sockets \<Rightarrow> pollfd \<Rightarrow> add_pc \<Rightarrow> poll_net \<Rightarrow> 's \<Rightarrow> (add_pc \<times> poll_net \<times> 's) run" where
  "add_access K junk a net s =
     (case a of
        A_Grow fd \<Rightarrow>
          if \<not> 0 \<le> fd then Inl Assert_Failed
          else if \<not> pn_active net then Inr (A_Done 1, net, s) else Inr (A_Limit fd, poll_net_grow junk net, s)
      | A_Limit fd \<Rightarrow>
          if pn_nfds net + 1 = RLIMIT_NOFILE
          then if pn_nfds net \<ge> length (pn_fds net) then Inl Out_Of_Bounds
               else Inr (A_Done 1, net, hang_up K (pf_fd (pn_fds net ! pn_nfds net)) s)
          else Inr (A_Count fd, net, s)
      | A_Count fd \<Rightarrow> Inr (A_Write fd (pn_nfds net), net\<lparr>pn_nfds := pn_nfds net + 1\<rparr>, s)
      | A_Write fd i \<Rightarrow>
          if i \<ge> length (pn_fds net) then Inl Out_Of_Bounds
          else Inr (A_Done 0, net\<lparr>pn_fds := (pn_fds net)[i := \<lparr>pf_fd = fd, pf_events = POLLIN OR POLLRDHUP, pf_revents = 0\<rparr>]\<rparr>, s)
      | A_Done r \<Rightarrow> Inr (A_Done r, net, s))"

definition remove_access :: "remove_pc \<Rightarrow> poll_net \<Rightarrow> remove_pc \<times> poll_net" where
  "remove_access r net =
     (case r of
        R_Move i \<Rightarrow> (R_Drop, net\<lparr>pn_fds := take i (pn_fds net) @ take (pn_nfds net - (i + 1)) (drop (i + 1) (pn_fds net)) @
                              drop (pn_nfds net - 1) (pn_fds net)\<rparr>)
      | R_Drop \<Rightarrow> (R_Done, net\<lparr>pn_nfds := pn_nfds net - 1\<rparr>)
      | R_Done \<Rightarrow> (R_Done, net))"

inductive race :: "'s sockets \<Rightarrow> pollfd \<Rightarrow> add_pc \<times> remove_pc \<times> poll_net \<times> 's \<Rightarrow> add_pc \<times> remove_pc \<times> poll_net \<times> 's \<Rightarrow> bool"
  for K junk where
  add: "add_access K junk a net s = Inr (a', net', s') \<Longrightarrow> race K junk (a, r, net, s) (a', r, net', s')"
| remove: "remove_access r net = (r', net') \<Longrightarrow> race K junk (a, r, net, s) (a, r', net', s)"

text \<open>Which thread has the next access: \<open>True\<close> for the accepting thread.\<close>

fun interleave :: "'s sockets \<Rightarrow> pollfd \<Rightarrow> bool list \<Rightarrow> add_pc \<times> remove_pc \<times> poll_net \<times> 's \<Rightarrow> (add_pc \<times> remove_pc \<times> poll_net \<times> 's) run" where
  "interleave K junk [] c = Inr c"
| "interleave K junk (x # xs) (a, r, net, s) =
     (if x then andthen (add_access K junk a net s) (\<lambda>(a', net', s'). interleave K junk xs (a', r, net', s'))
      else case remove_access r net of (r', net') \<Rightarrow> interleave K junk xs (a, r', net', s))"

lemma interleave_race: "interleave K junk xs c = Inr c' \<Longrightarrow> (race K junk)\<^sup>*\<^sup>* c c'"
proof (induction xs arbitrary: c)
  case (Cons x xs)
  obtain a r net s where c: "c = (a, r, net, s)" by (cases c) auto
  have "\<exists>c1. race K junk c c1 \<and> interleave K junk xs c1 = Inr c'"
  proof (cases x)
    case True
    then obtain a' net' s' where "add_access K junk a net s = Inr (a', net', s')" "interleave K junk xs (a', r, net', s') = Inr c'"
      using Cons.prems by (auto simp: c andthen_eq_Inr)
    then show ?thesis unfolding c by (blast intro: race.add)
  next
    case False
    obtain r' net' where "remove_access r net = (r', net')" by (cases "remove_access r net") auto
    moreover from this have "interleave K junk xs (a, r', net', s) = Inr c'" using Cons.prems False by (simp add: c)
    ultimately show ?thesis unfolding c by (blast intro: race.remove)
  qed
  then show ?case using Cons.IH by (meson converse_rtranclp_into_rtranclp)
qed simp

section \<open>Alone\<close>

lemma add_alone:
  assumes "poll_net_add_fd K junk fd net s = Inr (x, net', s')"
  shows "(race K junk)\<^sup>*\<^sup>* (A_Grow fd, r, net, s) (A_Done x, r, net', s')"
proof -
  have "\<exists>xs. interleave K junk xs (A_Grow fd, r, net, s) = Inr (A_Done x, r, net', s')"
  proof (cases "pn_active net")
    case False
    then show ?thesis using assms by (intro exI [of _ "[True]"]) (auto simp: poll_net_add_fd_def add_access_def andthen_eq_Inr)
  next
    case True
    show ?thesis
    proof (cases "pn_nfds (poll_net_grow junk net) + 1 = RLIMIT_NOFILE")
      case limit: True
      then show ?thesis
        using assms True by (intro exI [of _ "[True, True]"])
          (auto simp: poll_net_add_fd_def add_access_def andthen_eq_Inr Let_def split: if_splits)
    next
      case False
      then show ?thesis
        using assms True by (intro exI [of _ "[True, True, True, True]"])
          (auto simp: poll_net_add_fd_def add_access_def andthen_eq_Inr Let_def split: if_splits)
    qed
  qed
  then show ?thesis using interleave_race by blast
qed

lemma remove_alone: "(race K junk)\<^sup>*\<^sup>* (a, R_Move i, net, s) (a, R_Done, remove_pollfd i net, s)"
  by (rule interleave_race [of _ _ "[False, False]"]) (simp add: remove_access_def remove_pollfd_def)

section \<open>At the same time\<close>

text \<open>Room for one more connection.\<close>

definition room :: "poll_net \<Rightarrow> bool" where
  "room net \<longleftrightarrow> pn_active net \<and> pn_nfds net + 1 < pn_fds_size net \<and> pn_fds_size net \<le> length (pn_fds net) \<and>
     pn_nfds net + 1 < RLIMIT_NOFILE"

abbreviation new_entry :: "int \<Rightarrow> pollfd" where
  "new_entry fd \<equiv> \<lparr>pf_fd = fd, pf_events = POLLIN OR POLLRDHUP, pf_revents = 0\<rparr>"

lemma add_in_room:
  assumes "room net" "0 \<le> fd"
  obtains net' where "poll_net_add_fd K junk fd net s = Inr (0, net', s)" "connections net' = connections net @ [new_entry fd]"
    "net_ok net'" "pn_nfds net' = pn_nfds net + 1"
proof -
  let ?net = "net\<lparr>pn_nfds := pn_nfds net + 1, pn_fds := (pn_fds net)[pn_nfds net := new_entry fd]\<rparr>"
  have "poll_net_add_fd K junk fd net s = Inr (0, ?net, s)"
    using assms by (auto simp: room_def poll_net_add_fd_def poll_net_grow_def Let_def)
  moreover have "connections ?net = connections net @ [new_entry fd]" "net_ok ?net"
    using assms(1) by (auto simp: room_def connections_def net_ok_def take_Suc_conv_app_nth)
  ultimately show thesis using that [of ?net] by simp
qed

text \<open>C21: A connection is accepted while the polling thread removes another. One after the other, in either
  order, the two operations leave the others and the new one. There is no lock: when the entries are moved
  before the new connection is counted, and the old one is counted out after it, the new connection is
  behind the end of the table, though it has been added with success, and the last of the old ones is in
  the table again.\<close>

theorem racing_add_loses_connection:
  assumes "room net" "i < pn_nfds net" "0 \<le> fd"
  shows "\<exists>net1 net2 net3.
    poll_net_add_fd K junk fd net s = Inr (0, net1, s) \<and>
    connections (remove_pollfd i net1) = take i (connections net) @ drop (Suc i) (connections net) @ [new_entry fd] \<and>
    poll_net_add_fd K junk fd (remove_pollfd i net) s = Inr (0, net2, s) \<and>
    connections net2 = take i (connections net) @ drop (Suc i) (connections net) @ [new_entry fd] \<and>
    (race K junk)\<^sup>*\<^sup>* (A_Grow fd, R_Move i, net, s) (A_Done 0, R_Done, net3, s) \<and>
    connections net3 = take i (connections net) @ drop (Suc i) (connections net) @ [last (connections net)] \<and>
    pn_fds net3 ! length (connections net3) = new_entry fd"
proof -
  have le: "pn_nfds net < length (pn_fds net)" "net_ok net" using assms(1) by (auto simp: room_def net_ok_def)
  have len: "length (connections net) = pn_nfds net" using le(1) by (simp add: connections_def)
  note gone = remove_pollfd_ok [OF le(2) assms(2)]
  obtain net1 where A: "poll_net_add_fd K junk fd net s = Inr (0, net1, s)" "connections net1 = connections net @ [new_entry fd]"
    "net_ok net1" "pn_nfds net1 = pn_nfds net + 1" by (rule add_in_room [OF assms(1,3)])
  note A(1)
  moreover have "connections (remove_pollfd i net1) = take i (connections net) @ drop (Suc i) (connections net) @ [new_entry fd]"
    using remove_pollfd_ok(3) [OF A(3), of i] A(2,4) assms(2) len by simp
  moreover have "room (remove_pollfd i net)"
  proof -
    have "pn_active (remove_pollfd i net) = pn_active net" "pn_fds_size (remove_pollfd i net) = pn_fds_size net"
      by (simp_all add: remove_pollfd_def)
    then show ?thesis using assms(1) gone(2,4) by (auto simp: room_def)
  qed
  then obtain net2 where "poll_net_add_fd K junk fd (remove_pollfd i net) s = Inr (0, net2, s)"
    "connections net2 = connections (remove_pollfd i net) @ [new_entry fd]" by (rule add_in_room [OF _ assms(3)]) blast
  then have "poll_net_add_fd K junk fd (remove_pollfd i net) s = Inr (0, net2, s)"
    "connections net2 = take i (connections net) @ drop (Suc i) (connections net) @ [new_entry fd]" using gone(3) by simp_all
  moreover
  define M where "M = take i (pn_fds net) @ take (pn_nfds net - (i + 1)) (drop (i + 1) (pn_fds net)) @ drop (pn_nfds net - 1) (pn_fds net)"
  let ?net2 = "net\<lparr>pn_fds := M[pn_nfds net := new_entry fd]\<rparr>"
  have moved: "length M = length (pn_fds net)" using le(1) assms(2) by (simp add: M_def)
  have grow: "add_access K junk (A_Grow fd) net s = Inr (A_Limit fd, net, s)"
    "add_access K junk (A_Limit fd) net s = Inr (A_Count fd, net, s)"
    using assms(1,3) by (auto simp: add_access_def poll_net_grow_def room_def)
  have move: "remove_access (R_Move i) net = (R_Drop, net\<lparr>pn_fds := M\<rparr>)" by (simp add: remove_access_def M_def)
  have rest: "interleave K junk [True, True, False] (A_Count fd, R_Drop, net\<lparr>pn_fds := M\<rparr>, s) = Inr (A_Done 0, R_Done, ?net2, s)"
    using moved le(1) by (simp add: add_access_def remove_access_def)
  have "interleave K junk [True, True, False, True, True, False] (A_Grow fd, R_Move i, net, s) = Inr (A_Done 0, R_Done, ?net2, s)"
    using rest by (simp add: grow move)
  then have "(race K junk)\<^sup>*\<^sup>* (A_Grow fd, R_Move i, net, s) (A_Done 0, R_Done, ?net2, s)" by (rule interleave_race)
  moreover have "connections ?net2 = take i (connections net) @ drop (Suc i) (connections net) @ [last (connections net)]"
  proof -
    have ab: "connections (remove_pollfd i net) = take (pn_nfds net - 1) M"
      by (simp add: connections_def remove_pollfd_def M_def)
    have "M ! (pn_nfds net - 1) = pn_fds net ! (pn_nfds net - 1)"
      using le(1) assms(2) by (simp add: M_def nth_append)
    moreover have "last (connections net) = pn_fds net ! (pn_nfds net - 1)"
      using le(1) assms(2) by (subst last_conv_nth) (auto simp: connections_def)
    moreover have "take (pn_nfds net) M = take (pn_nfds net - 1) M @ [M ! (pn_nfds net - 1)]"
      using take_Suc_conv_app_nth [of "pn_nfds net - 1" M] moved le(1) assms(2) by simp
    ultimately show ?thesis
      using gone(3) ab by (simp add: connections_def)
  qed
  moreover have "pn_fds ?net2 ! length (connections ?net2) = new_entry fd"
    using moved le(1) by (simp add: connections_def)
  ultimately show ?thesis by blast
qed

definition three_and_room :: poll_net where
  "three_and_room = three_connections\<lparr>pn_fds_size := 5, pn_fds := pn_fds three_connections @ [zero_pollfd, zero_pollfd]\<rparr>"

text \<open>The second of three connections has ended when descriptor 9 is accepted.\<close>

theorem racing_add_loses_connection_witness:
  "\<exists>net. map pf_fd (connections net) = [5, 7, 7] \<and>
    (race noting_sockets zero_pollfd)\<^sup>*\<^sup>* (A_Grow 9, R_Move 1, three_and_room, []) (A_Done 0, R_Done, net, [])"
proof -
  have "room three_and_room" "1 < pn_nfds three_and_room" "map pf_fd (connections three_and_room) = [5, 6, 7]"
    by (simp_all add: room_def three_and_room_def three_connections_def poll_net_init_def connections_def RLIMIT_NOFILE_def)
  moreover have "0 \<le> (9 :: int)" by simp
  ultimately obtain net where net: "(race noting_sockets zero_pollfd)\<^sup>*\<^sup>* (A_Grow 9, R_Move 1, three_and_room, []) (A_Done 0, R_Done, net, [])"
    "connections net = take 1 (connections three_and_room) @ drop (Suc 1) (connections three_and_room) @ [last (connections three_and_room)]"
    using racing_add_loses_connection [of three_and_room 1 9 noting_sockets zero_pollfd "[]"] by blast
  have "map pf_fd (connections net) = [5, 7, 7]"
    unfolding net(2) by (simp add: three_and_room_def three_connections_def connections_def)
  with net(1) show ?thesis by (intro exI [of _ net] conjI)
qed

end
