(* ===== verification/Rpc_Object.thy ===== *)
theory Rpc_Object
  imports Rpc_Json
begin

text \<open>
  Objects that a server offers and calls of their functions (\<open>rpc_object.c\<close>). The static variables are a
  record around the store. libffi is a parameter: preparing a call, and the call of a function at an
  address, which may do anything to the state. The stack of one thread is modelled, and there is always
  memory for it; blocks that live only during a call are values. A struct has fewer than \<open>2 ^ 31\<close> elements,
  so that conversions of its length to \<open>int\<close> are exact.
\<close>

section \<open>State\<close>

text \<open>A stack that is not set up yet is \<open>None\<close>.\<close>

record rpc_objects =
  ro_store :: store
  RO_cobject_bname :: addr
  RO_cobject_bid :: addr
  RO_protocache :: addr
  RO_lobjects :: addr
  RO_object_stack :: "addr sc_queue option"

datatype rpc_server_errors =
    ERR_RPC_OK | ERR_RPC_PROTOTYPE_DIFFERENT | ERR_RPC_VARIADIC_NOT_ALLOWED | ERR_RPC_DOESNT_EXIST

record ffi =
  ffi_prep_cif_var :: "int \<Rightarrow> nat \<Rightarrow> ffi_type \<Rightarrow> ffi_type list \<Rightarrow> bool"
  ffi_call :: "addr \<Rightarrow> ffi_type \<Rightarrow> ffi_type list \<Rightarrow> 64 word list \<Rightarrow> rpc_objects \<Rightarrow> (64 word \<times> rpc_objects) run"

definition on_store :: "(store \<Rightarrow> ('a \<times> store) run) \<Rightarrow> rpc_objects \<Rightarrow> ('a \<times> rpc_objects) run" where
  "on_store f g = andthen (f (ro_store g)) (\<lambda>(a, w). Inr (a, g\<lparr>ro_store := w\<rparr>))"

definition on_store_only :: "(store \<Rightarrow> store run) \<Rightarrow> rpc_objects \<Rightarrow> rpc_objects run" where
  "on_store_only f g = andthen (f (ro_store g)) (\<lambda>w. Inr (g\<lparr>ro_store := w\<rparr>))"

text \<open>\<open>rpc_struct_get\<close> into a pointer variable that holds \<open>old\<close>.\<close>

definition get_pointer :: "addr \<Rightarrow> string \<Rightarrow> ctype \<Rightarrow> addr \<Rightarrow> store \<Rightarrow> (int \<times> addr) run" where
  "get_pointer s key t old w =
     andthen (rpc_struct_get s key t (le_bytes 8 old) w) (\<lambda>(r, out). Inr (r, of_le_bytes out))"

definition rpc_object_init :: "env \<Rightarrow> rpc_objects \<Rightarrow> rpc_objects run" where
  "rpc_object_init E g =
     andthen (on_store (rpc_struct_create E) g) (\<lambda>(p, g1).
     andthen (on_store (rpc_struct_create E) (g1\<lparr>RO_cobject_bname := p\<rparr>)) (\<lambda>(p, g2).
     andthen (on_store (rpc_struct_create E) (g2\<lparr>RO_cobject_bid := p\<rparr>)) (\<lambda>(p, g3). Inr (g3\<lparr>RO_protocache := p\<rparr>))))"

section \<open>The registry\<close>

definition rpc_cobject_set ::
    "env \<Rightarrow> rpc_callbacks \<Rightarrow> string \<Rightarrow> addr \<Rightarrow> rpc_objects \<Rightarrow> (int \<times> rpc_objects) run" where
  "rpc_cobject_set E cb cobj_name cobj g =
     andthen (on_store (rpc_struct_set E cb [] (RO_cobject_bname g) cobj_name C_rpc_struct cobj) g) (\<lambda>(ret, g1).
       if ret = 0
       then andthen (rpc_struct_id_get cobj (ro_store g1)) (\<lambda>ID.
            on_store (rpc_struct_set E cb [] (RO_cobject_bid g1) ID C_rpc_struct cobj) g1)
       else Inr (ret, g1))"

definition rpc_cobject_get :: "string \<Rightarrow> rpc_objects \<Rightarrow> addr run" where
  "rpc_cobject_get cobj_name g =
     andthen (get_pointer (RO_cobject_bname g) cobj_name C_rpc_struct null (ro_store g)) (\<lambda>(r, ret).
       if r \<noteq> 0
       then andthen (get_pointer (RO_cobject_bid g) cobj_name C_rpc_struct ret (ro_store g)) (\<lambda>(r', ret'). Inr ret')
       else Inr ret)"

section \<open>The object being called\<close>

definition rpc_object_thread_init :: "rpc_objects \<Rightarrow> rpc_objects" where
  "rpc_object_thread_init g =
     (if RO_object_stack g = None then g\<lparr>RO_object_stack := Some (sc_queue_init True null)\<rparr> else g)"

definition object_stack :: "rpc_objects \<Rightarrow> addr sc_queue" where
  "object_stack g = the (RO_object_stack (rpc_object_thread_init g))"

definition rpc_cobject_push :: "addr \<Rightarrow> rpc_objects \<Rightarrow> rpc_objects run" where
  "rpc_cobject_push cobject g =
     andthen (sc_queue_add_last True null (object_stack g) cobject) (\<lambda>q. Inr (g\<lparr>RO_object_stack := Some q\<rparr>))"

definition rpc_cobject_current :: "rpc_objects \<Rightarrow> (addr \<times> rpc_objects) run" where
  "rpc_cobject_current g =
     (let g1 = rpc_object_thread_init g in
      andthen (check (sc_queue_size (object_stack g) \<noteq> 0)) (\<lambda>_.
        if sc_queue_size (object_stack g) = 0 then Inr (null, g1)
        else andthen (sc_queue_peek_first (object_stack g)) (\<lambda>p. Inr (p, g1))))"

definition rpc_cobject_pop :: "rpc_objects \<Rightarrow> rpc_objects run" where
  "rpc_cobject_pop g = andthen (sc_queue_del_first (object_stack g)) (\<lambda>(p, q). Inr (g\<lparr>RO_object_stack := Some q\<rparr>))"

text \<open>The loop ends after one round at most unless the key holds something else; \<open>n\<close> bounds the rounds.\<close>

primrec lobject_loop :: "env \<Rightarrow> rpc_callbacks \<Rightarrow> nat \<Rightarrow> string \<Rightarrow> addr \<Rightarrow> rpc_objects \<Rightarrow> (addr \<times> rpc_objects) run" where
  "lobject_loop E cb 0 c_id ret g = Inl No_Fuel"
| "lobject_loop E cb (Suc n) c_id ret g =
     andthen (get_pointer (RO_lobjects g) c_id C_rpc_struct ret (ro_store g)) (\<lambda>(r, ret1).
       if r \<noteq> 0
       then andthen (on_store (rpc_struct_set_made E cb [] (RO_lobjects g) c_id C_rpc_struct (rpc_struct_create E)) g)
              (\<lambda>(r, g1). andthen (check (r = 0)) (\<lambda>_. lobject_loop E cb n c_id ret1 g1))
       else Inr (ret1, g))"

definition rpc_lobject_get :: "env \<Rightarrow> rpc_callbacks \<Rightarrow> nat \<Rightarrow> rpc_objects \<Rightarrow> (addr \<times> rpc_objects) run" where
  "rpc_lobject_get E cb n g =
     (if RO_lobjects g = null then Inr (null, g)
      else andthen (rpc_cobject_current g) (\<lambda>(current_cobject, g1).
        if current_cobject = null then Inr (null, g1)
        else andthen (rpc_struct_id_get current_cobject (ro_store g1)) (\<lambda>c_id. lobject_loop E cb n c_id null g1)))"

definition rpc_lobjects_load :: "addr \<Rightarrow> rpc_objects \<Rightarrow> rpc_objects" where
  "rpc_lobjects_load lobjects g = g\<lparr>RO_lobjects := lobjects\<rparr>"

definition rpc_cobject_remove :: "env \<Rightarrow> rpc_callbacks \<Rightarrow> string \<Rightarrow> rpc_objects \<Rightarrow> (int \<times> rpc_objects) run" where
  "rpc_cobject_remove E cb cobj_name g =
     (let g1 = rpc_object_thread_init g in
      if sc_queue_size (object_stack g) = 0
      then andthen (get_pointer (RO_cobject_bname g1) cobj_name C_rpc_struct null (ro_store g1)) (\<lambda>(ret, to_remove).
           andthen (if ret \<noteq> 0 then get_pointer (RO_cobject_bid g1) cobj_name C_rpc_struct to_remove (ro_store g1)
                    else Inr (ret, to_remove)) (\<lambda>(ret, to_remove).
           andthen (on_store_only (rpc_struct_free E cb to_remove) g1) (\<lambda>g2. Inr (ret, g2))))
      else Inr (0, g1))"

section \<open>Calls\<close>

definition rpctype_to_libffi :: "ffi_type list" where
  "rpctype_to_libffi =
     [ffi_type_void, ffi_type_uint64, ffi_type_double, ffi_type_pointer,
      ffi_type_pointer, ffi_type_pointer, ffi_type_pointer, ffi_type_pointer]"

definition libffi_type :: "nat \<Rightarrow> ffi_type run" where
  "libffi_type t = (if t < length rpctype_to_libffi then Inr (rpctype_to_libffi ! t) else Inl Out_Of_Bounds)"

text \<open>The comparison of the arguments from \<open>i\<close> on, with \<open>k\<close> to go.\<close>

fun proto_loop :: "nat list option \<Rightarrow> addr \<Rightarrow> store \<Rightarrow> nat \<Rightarrow> nat \<Rightarrow> int run" where
  "proto_loop sproto cl_args w i 0 = Inr 1"
| "proto_loop sproto cl_args w i (Suc k) =
     andthen (rpc_struct_typeof cl_args (Some (decimal i)) w) (\<lambda>t.
       case sproto of
         None \<Rightarrow> Inl Null_Deref
       | Some ts \<Rightarrow>
           if i \<ge> length ts then Inl Out_Of_Bounds
           else if enum_value t \<noteq> ts ! i then Inr 0 else proto_loop sproto cl_args w (i + 1) k)"

text \<open>A negative length becomes a large number in the comparison with a \<open>size_t\<close>.\<close>

definition proto_equals :: "nat list option \<Rightarrow> int \<Rightarrow> addr \<Rightarrow> store \<Rightarrow> int run" where
  "proto_equals sproto sproto_len cl_args w =
     andthen (rpc_struct_length cl_args w) (\<lambda>n.
       if int n < sproto_len mod 2 ^ 64 then Inr 0 else proto_loop sproto cl_args w 0 (nat sproto_len))"

fun argument_types :: "addr \<Rightarrow> store \<Rightarrow> nat \<Rightarrow> nat \<Rightarrow> ffi_type list run" where
  "argument_types params w i 0 = Inr []"
| "argument_types params w i (Suc k) =
     andthen (rpc_struct_typeof params (Some (decimal i)) w) (\<lambda>t.
     andthen (libffi_type (enum_value t)) (\<lambda>f.
     andthen (argument_types params w (i + 1) k) (\<lambda>fs. Inr (f # fs))))"

definition cached_prototype ::
    "env \<Rightarrow> rpc_callbacks \<Rightarrow> string \<Rightarrow> addr \<Rightarrow> rpc_objects \<Rightarrow> (addr \<times> rpc_objects) run" where
  "cached_prototype E cb cache_prototype params g =
     andthen (get_pointer (RO_protocache g) cache_prototype C_other_ptr null (ro_store g)) (\<lambda>(r, ffi_prototype).
       if r \<noteq> 0
       then andthen (rpc_struct_length params (ro_store g)) (\<lambda>n.
            andthen (argument_types params (ro_store g) 0 n) (\<lambda>ts.
            andthen (on_store (new_obj E (Ffi_Types ts)) g) (\<lambda>(p, g1).
            andthen (on_store (rpc_struct_set E cb [] (RO_protocache g1) cache_prototype C_other_ptr p) g1) (\<lambda>(r, g2).
            andthen (check (r = 0)) (\<lambda>_. Inr (p, g2))))))
       else Inr (ffi_prototype, g))"

definition the_ffi_types :: "store \<Rightarrow> addr \<Rightarrow> ffi_type list run" where
  "the_ffi_types w p =
     (if p = null then Inl Null_Deref
      else case mem w p of Some (Ffi_Types ts) \<Rightarrow> Inr ts | _ \<Rightarrow> Inl Use_After_Free)"

text \<open>Each argument is a zeroed block of eight bytes; a missing element leaves it 0.\<close>

fun ffi_arguments :: "addr \<Rightarrow> store \<Rightarrow> nat \<Rightarrow> nat \<Rightarrow> 64 word list run" where
  "ffi_arguments params w i 0 = Inr []"
| "ffi_arguments params w i (Suc k) =
     andthen (rpc_struct_get_unsafe params (decimal i) C_uint64 (replicate 8 0) w) (\<lambda>(r, out).
     andthen (ffi_arguments params w (i + 1) k) (\<lambda>as. Inr (of_le_bytes out # as)))"

definition return_element :: "rpc_types \<Rightarrow> 64 word \<Rightarrow> rpc_type_t" where
  "return_element t ffi_return =
     (if rpc_is_pointer t then \<lparr>data_container = le_bytes 8 ffi_return, rt_length = 0, rt_type = t\<rparr>
      else \<lparr>data_container = le_bytes 8 ffi_return, rt_length = 8, rt_type = t\<rparr>)"

text \<open>A tag that is none of the enumeration has been caught before, unless the function changed its own
  description.\<close>

definition store_return ::
    "env \<Rightarrow> rpc_callbacks \<Rightarrow> nat \<Rightarrow> 64 word \<Rightarrow> addr \<Rightarrow> store \<Rightarrow> store run" where
  "store_return E cb rt ffi_return output w =
     (if rt \<ge> length all_types then Inl Out_Of_Bounds
      else if rt \<noteq> enum_value RPC_none \<and> rt \<noteq> enum_value RPC_unknown then
        if \<not> (rpc_is_pointer (all_types ! rt) \<and> ffi_return = null) then
          andthen (rpc_struct_set_internal E cb output (Some ''return'') (return_element (all_types ! rt) ffi_return) w)
            (\<lambda>(r, w1). if rt = enum_value RPC_string then free_obj ffi_return w1 else Inr w1)
        else Inr w
      else Inr w)"

text \<open>From the prepared call to its end. The array of types is read as far as there are arguments.\<close>

definition perform_call ::
    "env \<Rightarrow> rpc_callbacks \<Rightarrow> ffi \<Rightarrow> addr \<Rightarrow> addr \<Rightarrow> addr \<Rightarrow> addr \<Rightarrow> addr \<Rightarrow> rpc_objects
     \<Rightarrow> (rpc_server_errors \<times> rpc_objects) run" where
  "perform_call E cb F cobj fn ffi_prototype params output g =
     andthen (the_function (ro_store g) fn) (\<lambda>f.
     andthen (rpc_struct_length params (ro_store g)) (\<lambda>n.
     andthen (libffi_type (return_type f)) (\<lambda>rtype.
     andthen (the_ffi_types (ro_store g) ffi_prototype) (\<lambda>ts.
       if length ts < n then Inl Out_Of_Bounds
       else andthen (check (ffi_prep_cif_var F (prototype_len f) n rtype (take n ts))) (\<lambda>_.
         andthen (ffi_arguments params (ro_store g) 0 n) (\<lambda>args.
         andthen (rpc_cobject_push cobj g) (\<lambda>g1.
         andthen (ffi_call F (rpc_function_get_fnptr (Some f)) rtype (take n ts) args g1) (\<lambda>(ffi_return, g2).
         andthen (rpc_cobject_pop g2) (\<lambda>g3.
         andthen (the_function (ro_store g3) fn) (\<lambda>f3.
         andthen (on_store_only (store_return E cb (return_type f3) ffi_return output) g3) (\<lambda>g4.
           Inr (ERR_RPC_OK, g4))))))))))))"

definition rpc_cobject_call ::
    "env \<Rightarrow> rpc_callbacks \<Rightarrow> ffi \<Rightarrow> addr \<Rightarrow> string \<Rightarrow> addr \<Rightarrow> addr \<Rightarrow> rpc_objects
     \<Rightarrow> (rpc_server_errors \<times> rpc_objects) run" where
  "rpc_cobject_call E cb F cobj fn_name params output g =
     (if cobj = null then Inr (ERR_RPC_DOESNT_EXIST, g)
      else andthen (get_pointer cobj fn_name C_rpc_function null (ro_store g)) (\<lambda>(r, fn).
        if r \<noteq> 0 then Inr (ERR_RPC_DOESNT_EXIST, g)
        else andthen (the_function (ro_store g) fn) (\<lambda>f.
          andthen (proto_equals (prototype f) (prototype_len f) params (ro_store g)) (\<lambda>eq.
            if eq = 0 then Inr (ERR_RPC_PROTOTYPE_DIFFERENT, g)
            else andthen (rpc_struct_id_get cobj (ro_store g)) (\<lambda>ID.
              andthen (cached_prototype E cb (ID @ '' : '' @ fn_name) params g) (\<lambda>(ffi_prototype, g1).
                perform_call E cb F cobj fn ffi_prototype params output g1))))))"

end
