(* ===== verification/Rpc_Network.thy ===== *)
theory Rpc_Network
  imports Rpc_Object Poll_Network
begin

text \<open>
  Messages between processes (\<open>rpc_network.c\<close>): a struct in its JSON form, as text behind its length; and the
  table of the persons at the other ends, with the requests each has sent. The kernel, and the text form of
  JSON values, are parameters. A person is referred to by its file descriptor, its place in the table.
\<close>

section \<open>State\<close>

text \<open>The state of the process, with what the server keeps (\<open>rpc_server.c\<close>): the structs of ports, of data of
  persons and of methods, and the jobs handed to the thread pool that have not been taken yet.\<close>

record rpc_net_person =
  np_ID :: string
  np_request_que :: "addr sc_queue"
  np_fd :: int

record 'k process =
  pr_objects :: rpc_objects
  pr_kernel :: 'k
  RN_persons :: "rpc_net_person option list"
  RS_netports :: addr
  RS_persondata :: addr
  RS_methods :: addr
  RS_thpool :: "addr list"

text \<open>\<open>send\<close> returns the number of bytes taken, or a negative number; \<open>recv\<close> the bytes received, at most as many
  as asked for, and none in case of an error.\<close>

record 'k kernel = "'k sockets" +
  k_send :: "int \<Rightarrow> byte list \<Rightarrow> 'k \<Rightarrow> int \<times> 'k"
  k_recv :: "int \<Rightarrow> nat \<Rightarrow> 'k \<Rightarrow> byte list \<times> 'k"

record 'j json_text =
  json_dumps :: "'j \<Rightarrow> string option"
  json_loadb :: "string \<Rightarrow> 'j option"

text \<open>Everything that is not part of the process: memory, callbacks of the tracker, libffi, the JSON library,
  the kernel, the depth to which structs may be nested, whether \<open>malloc\<close> has a block of a given size, and what
  an uninitialised container holds.\<close>

record ('j, 'k) platform =
  pf_env :: env
  pf_cb :: rpc_callbacks
  pf_ffi :: ffi
  pf_json :: "'j jansson"
  pf_text :: "'j json_text"
  pf_kernel :: "'k kernel"
  pf_depth :: nat
  pf_block :: "nat \<Rightarrow> bool"
  pf_junk :: "byte list"

record 'k rpc_net_notifier_callback =
  notify :: "(int \<Rightarrow> 'k process \<Rightarrow> 'k process run) option"
  persondata_init :: "(int \<Rightarrow> 'k process \<Rightarrow> 'k process run) option"
  persondata_destroy :: "(int \<Rightarrow> 'k process \<Rightarrow> 'k process run) option"

definition HOLDER_MIN_ALLOC_FDS :: nat where "HOLDER_MIN_ALLOC_FDS = 128"

definition pr_store :: "'k process \<Rightarrow> store" where
  "pr_store p = ro_store (pr_objects p)"

definition set_store :: "store \<Rightarrow> 'k process \<Rightarrow> 'k process" where
  "set_store w p = p\<lparr>pr_objects := (pr_objects p)\<lparr>ro_store := w\<rparr>\<rparr>"

definition in_store :: "(store \<Rightarrow> ('a \<times> store) run) \<Rightarrow> 'k process \<Rightarrow> ('a \<times> 'k process) run" where
  "in_store f p = andthen (f (pr_store p)) (\<lambda>(a, w). Inr (a, set_store w p))"

definition in_store_only :: "(store \<Rightarrow> store run) \<Rightarrow> 'k process \<Rightarrow> 'k process run" where
  "in_store_only f p = andthen (f (pr_store p)) (\<lambda>w. Inr (set_store w p))"

section \<open>Messages\<close>

definition text_bytes :: "string \<Rightarrow> byte list" where
  "text_bytes s = map (\<lambda>c. word_of_nat (of_char c)) s"

definition bytes_text :: "byte list \<Rightarrow> string" where
  "bytes_text bs = map (\<lambda>b. char_of (unat b)) bs"

definition rpc_net_send_json :: "'k kernel \<Rightarrow> 'j json_text \<Rightarrow> int \<Rightarrow> 'j \<Rightarrow> 'k \<Rightarrow> int \<times> 'k" where
  "rpc_net_send_json K T fd json k =
     (case json_dumps T json of
        None \<Rightarrow> (1, k)
      | Some send_string \<Rightarrow>
          let (n, k1) = k_send K fd (le_bytes 8 (of_nat (length send_string))) k in
          if n \<noteq> 8 then (1, k1)
          else let (n, k2) = k_send K fd (text_bytes send_string) k1 in
            if n \<noteq> int (length send_string) then (1, k2) else (0, k2))"

definition rpc_net_recv_json :: "'k kernel \<Rightarrow> 'j json_text \<Rightarrow> (nat \<Rightarrow> bool) \<Rightarrow> int \<Rightarrow> 'k \<Rightarrow> 'j option \<times> 'k" where
  "rpc_net_recv_json K T block fd k =
     (let (len, k1) = k_recv K fd 8 k in
      if length len \<noteq> 8 then (None, k1)
      else let recv_len = unat (of_le_bytes len) in
        if \<not> block recv_len then (None, k1)
        else let (recv_buf, k2) = k_recv K fd recv_len k1 in
          if length recv_buf \<noteq> recv_len then (None, k2) else (json_loadb T (bytes_text recv_buf), k2))"

definition rpc_net_send :: "('j, 'k) platform \<Rightarrow> int \<Rightarrow> addr \<Rightarrow> 'k process \<Rightarrow> (int \<times> 'k process) run" where
  "rpc_net_send P fd tosend p =
     andthen (in_store (rpc_struct_serialize (pf_env P) (pf_cb P) (pf_json P) (pf_depth P) tosend) p) (\<lambda>(json, p1).
       let (ret, k) = rpc_net_send_json (pf_kernel P) (pf_text P) fd json (pr_kernel p1) in
       andthen (in_store_only (rpc_struct_free (pf_env P) (pf_cb P) tosend) (p1\<lparr>pr_kernel := k\<rparr>)) (\<lambda>p2. Inr (ret, p2)))"

definition rpc_net_recv :: "('j, 'k) platform \<Rightarrow> int \<Rightarrow> 'k process \<Rightarrow> (addr \<times> 'k process) run" where
  "rpc_net_recv P fd p =
     (let (json, k) = rpc_net_recv_json (pf_kernel P) (pf_text P) (pf_block P) fd (pr_kernel p);
          p1 = p\<lparr>pr_kernel := k\<rparr> in
      case json of
        None \<Rightarrow> Inr (null, p1)
      | Some j \<Rightarrow> in_store (rpc_struct_deserialize (pf_env P) (pf_cb P) (pf_json P) (pf_junk P) (pf_depth P) (Some j)) p1)"

section \<open>Persons\<close>

text \<open>The table grows once, whatever the index.\<close>

definition make_personsfd_bigger :: "int \<Rightarrow> 'k process \<Rightarrow> 'k process" where
  "make_personsfd_bigger to p =
     (if to \<ge> int (length (RN_persons p))
      then p\<lparr>RN_persons := RN_persons p @ replicate HOLDER_MIN_ALLOC_FDS None\<rparr> else p)"

definition the_person :: "int \<Rightarrow> 'k process \<Rightarrow> rpc_net_person option run" where
  "the_person fd p =
     (if fd < 0 \<or> fd \<ge> int (length (RN_persons p)) then Inl Out_Of_Bounds else Inr (RN_persons p ! nat fd))"

definition set_person :: "int \<Rightarrow> rpc_net_person option \<Rightarrow> 'k process \<Rightarrow> 'k process" where
  "set_person fd x p = p\<lparr>RN_persons := (RN_persons p)[nat fd := x]\<rparr>"

text \<open>The functions on a person that is there.\<close>

definition rpc_net_person_request_ammount :: "rpc_net_person \<Rightarrow> nat" where
  "rpc_net_person_request_ammount person = sc_queue_size (np_request_que person)"

definition rpc_net_person_fd :: "rpc_net_person \<Rightarrow> int" where
  "rpc_net_person_fd person = np_fd person"

definition rpc_net_person_id :: "rpc_net_person option \<Rightarrow> string option" where
  "rpc_net_person_id person = map_option np_ID person"

definition rpc_net_person_get_request :: "rpc_net_person option \<Rightarrow> (addr \<times> rpc_net_person option) run" where
  "rpc_net_person_get_request person =
     (case person of
        None \<Rightarrow> Inr (null, None)
      | Some x \<Rightarrow>
          if rpc_net_person_request_ammount x > 0
          then andthen (sc_queue_del_first (np_request_que x)) (\<lambda>(request, q).
                 Inr (request, Some (x\<lparr>np_request_que := q\<rparr>)))
          else Inr (null, person))"

text \<open>The loop that releases requests compares its counter with the number of those that are left; \<open>n\<close> bounds
  the rounds.\<close>

fun free_requests :: "env \<Rightarrow> rpc_callbacks \<Rightarrow> nat \<Rightarrow> nat \<Rightarrow> addr sc_queue \<Rightarrow> store \<Rightarrow> (addr sc_queue \<times> store) run" where
  "free_requests E cb 0 i q w = (if i < sc_queue_size q then Inl No_Fuel else Inr (q, w))"
| "free_requests E cb (Suc n) i q w =
     (if i < sc_queue_size q
      then andthen (sc_queue_del_first q) (\<lambda>(req, q1).
           andthen (rpc_struct_free E cb req w) (\<lambda>w1. free_requests E cb n (i + 1) q1 w1))
      else Inr (q, w))"

definition net_discon :: "('j, 'k) platform \<Rightarrow> 'k rpc_net_notifier_callback \<Rightarrow> int \<Rightarrow> 'k process \<Rightarrow> 'k process run" where
  "net_discon P N fd p =
     andthen (the_person fd p) (\<lambda>person.
       if person = None then Inr p
       else andthen (call_fd (persondata_destroy N) fd p) (\<lambda>p1.
            andthen (the_person fd p1) (\<lambda>person1.
              case person1 of
                None \<Rightarrow> Inl Null_Deref
              | Some x \<Rightarrow>
                  andthen (in_store (free_requests (pf_env P) (pf_cb P) (sc_queue_size (np_request_que x)) 0 (np_request_que x)) p1)
                    (\<lambda>(q, p2). Inr (set_person fd None p2)))))"

definition net_accept :: "('j, 'k) platform \<Rightarrow> 'k rpc_net_notifier_callback \<Rightarrow> int \<Rightarrow> 'k process \<Rightarrow> 'k process run" where
  "net_accept P N fd p =
     (let p1 = make_personsfd_bigger fd p in
      andthen (the_person fd p1) (\<lambda>old.
      andthen (if old \<noteq> None then net_discon P N fd p1 else Inr p1) (\<lambda>p2.
        let len = RPC_STRUCT_ID_SIZE - 1; rnd = entropy (pr_store p2) in
        if length rnd < len then Inl No_Fuel
        else andthen (make_ID (take len rnd) (drop len rnd)) (\<lambda>(ID, rnd1).
          let person = \<lparr>np_ID = ID, np_request_que = sc_queue_init True null, np_fd = fd\<rparr>;
              p3 = set_person fd (Some person) (set_store ((pr_store p2)\<lparr>entropy := rnd1\<rparr>) p2) in
          call_fd (persondata_init N) fd p3))))"

text \<open>A connection that sends anything else than a whole message is closed.\<close>

definition drop_connection :: "('j, 'k) platform \<Rightarrow> int \<Rightarrow> 'k process \<Rightarrow> 'k process" where
  "drop_connection P fd p = p\<lparr>pr_kernel := sk_close (pf_kernel P) fd (sk_shutdown (pf_kernel P) fd (pr_kernel p))\<rparr>"

definition net_read :: "('j, 'k) platform \<Rightarrow> 'k rpc_net_notifier_callback \<Rightarrow> int \<Rightarrow> 'k process \<Rightarrow> 'k process run" where
  "net_read P N fd p =
     (if fd < int (length (RN_persons p))
      then andthen (the_person fd p) (\<lambda>person.
        case person of
          None \<Rightarrow> Inr (drop_connection P fd p)
        | Some x \<Rightarrow>
            andthen (rpc_net_recv P fd p) (\<lambda>(req, p1).
              if req \<noteq> null
              then andthen (sc_queue_add_last True null (np_request_que x) req) (\<lambda>q.
                   call_fd (notify N) fd (set_person fd (Some (x\<lparr>np_request_que := q\<rparr>)) p1))
              else Inr (drop_connection P fd p1)))
      else Inr (drop_connection P fd p))"

text \<open>The callbacks with which a holder sets up its connections, and adding a connection by hand.\<close>

definition holder_callbacks :: "('j, 'k) platform \<Rightarrow> 'k rpc_net_notifier_callback \<Rightarrow> 'k process poll_net_callbacks" where
  "holder_callbacks P N =
     \<lparr>accept_error_cb = None, accept_cb = Some (net_accept P N), disconnect_cb = Some (net_discon P N),
      read_cb = Some (net_read P N)\<rparr>"

definition process_sockets :: "('j, 'k) platform \<Rightarrow> 'k process sockets" where
  "process_sockets P =
     \<lparr>sk_shutdown = \<lambda>fd p. p\<lparr>pr_kernel := sk_shutdown (pf_kernel P) fd (pr_kernel p)\<rparr>,
      sk_close = \<lambda>fd p. p\<lparr>pr_kernel := sk_close (pf_kernel P) fd (pr_kernel p)\<rparr>\<rparr>"

definition rpc_net_holder_create :: poll_net where
  "rpc_net_holder_create = poll_net_init"

definition rpc_net_holder_accept_on :: "int \<Rightarrow> poll_net \<Rightarrow> poll_net" where
  "rpc_net_holder_accept_on accept_fd net = poll_net_start_accept accept_fd net"

definition rpc_net_holder_add_fd ::
    "('j, 'k) platform \<Rightarrow> 'k rpc_net_notifier_callback \<Rightarrow> pollfd \<Rightarrow> int \<Rightarrow> poll_net \<Rightarrow> 'k process
     \<Rightarrow> (poll_net \<times> 'k process) run" where
  "rpc_net_holder_add_fd P N junk fd net p =
     andthen (poll_net_add_fd (process_sockets P) junk fd net p) (\<lambda>(r, net1, p1).
     andthen (net_accept P N fd p1) (\<lambda>p2. Inr (net1, p2)))"

definition rpc_net_holder_free ::
    "('j, 'k) platform \<Rightarrow> 'k rpc_net_notifier_callback \<Rightarrow> poll_net option \<Rightarrow> 'k process \<Rightarrow> 'k process run" where
  "rpc_net_holder_free P N holder p =
     (case holder of
        None \<Rightarrow> Inr p
      | Some net \<Rightarrow> poll_net_free (holder_callbacks P N) (process_sockets P) net p)"

end
