(* ===== verification/Rpc_Server.thy ===== *)
theory Rpc_Server
  imports Rpc_Network
begin

text \<open>
  The requests a server handles (\<open>rpc_server.c\<close>): the table of methods, the handlers, the jobs of the thread
  pool, and the entry for clients in the same process. The addresses of the handlers are a parameter.
\<close>

section \<open>Methods\<close>

datatype rpc_method = Ping | Disconnect | Get_Cobject | Call | Is_Cobject

definition method_names :: "(string \<times> rpc_method) list" where
  "method_names =
     [(''ping'', Ping), (''disconnect'', Disconnect), (''get_object'', Get_Cobject), (''call'', Call), (''is_cobject'', Is_Cobject)]"

text \<open>The function at an address; a call of anything else than one of the five is a fault.\<close>

definition method_at :: "(rpc_method \<Rightarrow> addr) \<Rightarrow> addr \<Rightarrow> rpc_method run" where
  "method_at code a =
     (case find (\<lambda>m. code m = a) (map snd method_names) of None \<Rightarrow> Inl Use_After_Free | Some m \<Rightarrow> Inr m)"

fun set_methods :: "env \<Rightarrow> rpc_callbacks \<Rightarrow> byte list \<Rightarrow> (rpc_method \<Rightarrow> addr) \<Rightarrow> addr \<Rightarrow> (string \<times> rpc_method) list \<Rightarrow> store \<Rightarrow> store run" where
  "set_methods E cb junk code methods [] w = Inr w"
| "set_methods E cb junk code methods ((name, m) # ms) w =
     andthen (rpc_struct_set E cb junk methods name C_other_ptr (code m) w) (\<lambda>(r, w1). set_methods E cb junk code methods ms w1)"

definition RS_init_methods :: "('j, 'k) platform \<Rightarrow> (rpc_method \<Rightarrow> addr) \<Rightarrow> 'k process \<Rightarrow> 'k process run" where
  "RS_init_methods P code p =
     in_store_only (set_methods (pf_env P) (pf_cb P) (pf_junk P) code (RS_methods p) method_names) p"

definition rpc_server_init :: "('j, 'k) platform \<Rightarrow> (rpc_method \<Rightarrow> addr) \<Rightarrow> 'k process \<Rightarrow> 'k process run" where
  "rpc_server_init P code p =
     andthen (in_store (rpc_struct_create (pf_env P)) p) (\<lambda>(s, p1).
     andthen (in_store (rpc_struct_create (pf_env P)) (p1\<lparr>RS_netports := s\<rparr>)) (\<lambda>(s, p2).
     andthen (in_store (rpc_struct_create (pf_env P)) (p2\<lparr>RS_persondata := s, RS_thpool := []\<rparr>)) (\<lambda>(s, p3).
       RS_init_methods P code (p3\<lparr>RS_methods := s\<rparr>))))"

section \<open>Handlers\<close>

text \<open>A handler returns whether the connection is to be ended. It works on the objects of the process.\<close>

definition set_text :: "('j, 'k) platform \<Rightarrow> addr \<Rightarrow> string \<Rightarrow> string \<Rightarrow> rpc_objects \<Rightarrow> rpc_objects run" where
  "set_text P s key str g = on_store_only (set_json_string (pf_env P) (pf_cb P) (pf_junk P) s key str) g"

definition ping :: "('j, 'k) platform \<Rightarrow> addr \<Rightarrow> rpc_objects \<Rightarrow> (int \<times> rpc_objects) run" where
  "ping P reply g = andthen (set_text P reply ''pong'' ''pong'' g) (\<lambda>g1. Inr (0, g1))"

definition disconnect :: "rpc_objects \<Rightarrow> (int \<times> rpc_objects) run" where
  "disconnect g = Inr (1, g)"

definition is_cobject :: "('j, 'k) platform \<Rightarrow> addr \<Rightarrow> addr \<Rightarrow> rpc_objects \<Rightarrow> (int \<times> rpc_objects) run" where
  "is_cobject P request reply g =
     andthen (get_pointer request ''ID'' C_char_ptr null (ro_store g)) (\<lambda>(r, ID).
     andthen (if r = 0
              then andthen (the_cstring (ro_store g) ID) (\<lambda>str.
                   andthen (rpc_cobject_get str g) (\<lambda>cobj. Inr (if cobj \<noteq> null then 1 else 0)))
              else Inr 0) (\<lambda>found.
     andthen (on_store (rpc_struct_set (pf_env P) (pf_cb P) (pf_junk P) reply ''is_cobject'' C_int32 found) g) (\<lambda>(r, g1).
     andthen (check (r = 0)) (\<lambda>_. Inr (0, g1)))))"

definition get_cobject :: "('j, 'k) platform \<Rightarrow> addr \<Rightarrow> addr \<Rightarrow> rpc_objects \<Rightarrow> (int \<times> rpc_objects) run" where
  "get_cobject P request reply g =
     andthen (get_pointer request ''object'' C_char_ptr null (ro_store g)) (\<lambda>(r, cobj_name).
       if r \<noteq> 0 then Inr (1, g)
       else andthen (the_cstring (ro_store g) cobj_name) (\<lambda>name.
         andthen (rpc_cobject_get name g) (\<lambda>cobj.
           if cobj = null then andthen (set_text P reply ''error'' ''ERR_RPC_DOESNT_EXIST'' g) (\<lambda>g1. Inr (0, g1))
           else andthen (on_store (rpc_struct_set (pf_env P) (pf_cb P) (pf_junk P) reply ''object'' C_rpc_struct cobj) g)
                  (\<lambda>(r, g1). Inr (0, g1)))))"

definition report_error :: "('j, 'k) platform \<Rightarrow> rpc_server_errors \<Rightarrow> addr \<Rightarrow> rpc_objects \<Rightarrow> rpc_objects run" where
  "report_error P err reply g =
     (case err of
        ERR_RPC_OK \<Rightarrow> Inr g
      | ERR_RPC_DOESNT_EXIST \<Rightarrow> set_text P reply ''error'' ''ERR_RPC_DOESNT_EXIST'' g
      | ERR_RPC_PROTOTYPE_DIFFERENT \<Rightarrow> set_text P reply ''error'' ''ERR_RPC_PROTOTYPE_DIFFERENT'' g
      | _ \<Rightarrow> andthen (on_store (rpc_struct_set (pf_env P) (pf_cb P) (pf_junk P) reply ''error'' C_char_ptr null) g)
               (\<lambda>(r, g1). Inr g1))"

definition call :: "('j, 'k) platform \<Rightarrow> addr \<Rightarrow> addr \<Rightarrow> addr \<Rightarrow> rpc_objects \<Rightarrow> (int \<times> rpc_objects) run" where
  "call P person request reply g =
     andthen (get_pointer person ''lobjects'' C_rpc_struct null (ro_store g)) (\<lambda>(r, lobjects).
     andthen (get_pointer request ''object'' C_char_ptr null (ro_store g)) (\<lambda>(r, cobj_name).
       if r \<noteq> 0 then Inr (1, g)
       else andthen (get_pointer request ''function'' C_char_ptr null (ro_store g)) (\<lambda>(r, fn_name).
         if r \<noteq> 0 then Inr (1, g)
         else andthen (get_pointer request ''params'' C_rpc_struct null (ro_store g)) (\<lambda>(r, fn_params).
           if r \<noteq> 0 then Inr (1, g)
           else let g1 = rpc_lobjects_load lobjects g in
             andthen (the_cstring (ro_store g1) cobj_name) (\<lambda>name.
             andthen (rpc_cobject_get name g1) (\<lambda>cobj.
             andthen (the_cstring (ro_store g1) fn_name) (\<lambda>fn.
             andthen (rpc_cobject_call (pf_env P) (pf_cb P) (pf_ffi P) cobj fn fn_params reply g1) (\<lambda>(err, g2).
             andthen (report_error P err reply g2) (\<lambda>g3. Inr (0, g3))))))))))"

fun run_method :: "('j, 'k) platform \<Rightarrow> rpc_method \<Rightarrow> addr \<Rightarrow> addr \<Rightarrow> addr \<Rightarrow> rpc_objects \<Rightarrow> (int \<times> rpc_objects) run" where
  "run_method P Ping person request reply g = ping P reply g"
| "run_method P Disconnect person request reply g = disconnect g"
| "run_method P Get_Cobject person request reply g = get_cobject P request reply g"
| "run_method P Call person request reply g = call P person request reply g"
| "run_method P Is_Cobject person request reply g = is_cobject P request reply g"

text \<open>A request that names no method is refused; missing parameters are NULL.\<close>

definition rpc_server_localnet_job ::
    "('j, 'k) platform \<Rightarrow> (rpc_method \<Rightarrow> addr) \<Rightarrow> addr \<Rightarrow> addr \<Rightarrow> addr \<Rightarrow> addr \<Rightarrow> rpc_objects \<Rightarrow> (int \<times> rpc_objects) run" where
  "rpc_server_localnet_job P code methods person request reply g =
     andthen (get_pointer request ''method'' C_char_ptr null (ro_store g)) (\<lambda>(r, request_name).
       if r \<noteq> 0 then Inr (1, g)
       else andthen (the_cstring (ro_store g) request_name) (\<lambda>name.
         andthen (get_pointer methods name C_other_ptr null (ro_store g)) (\<lambda>(r, request_handler).
           if r \<noteq> 0 then Inr (1, g)
           else andthen (get_pointer request ''params'' C_rpc_struct null (ro_store g)) (\<lambda>(r, request_params).
             andthen (method_at code request_handler) (\<lambda>m. run_method P m person request_params reply g)))))"

section \<open>Jobs\<close>

definition in_objects :: "(rpc_objects \<Rightarrow> ('a \<times> rpc_objects) run) \<Rightarrow> 'k process \<Rightarrow> ('a \<times> 'k process) run" where
  "in_objects f p = andthen (f (pr_objects p)) (\<lambda>(a, g). Inr (a, p\<lparr>pr_objects := g\<rparr>))"

definition get_int :: "addr \<Rightarrow> string \<Rightarrow> store \<Rightarrow> int run" where
  "get_int s key w =
     andthen (rpc_struct_get s key C_int32 (replicate 4 0) w) (\<lambda>(r, out). Inr (sint (ucast (of_le_bytes out) :: 32 word)))"

text \<open>The job of a worker: as for a client in the same process, but the reply is sent, and the connection is
  ended when the handler or the request asks for it.\<close>

definition net_job :: "('j, 'k) platform \<Rightarrow> (rpc_method \<Rightarrow> addr) \<Rightarrow> addr \<Rightarrow> 'k process \<Rightarrow> 'k process run" where
  "net_job P code job_info p =
     andthen (in_store (rpc_struct_create (pf_env P)) p) (\<lambda>(reply, p1).
     andthen (get_int job_info ''fd'' (pr_store p1)) (\<lambda>fd.
     andthen (get_pointer job_info ''persondata'' C_rpc_struct null (pr_store p1)) (\<lambda>(r, persondata).
     andthen (get_pointer job_info ''request'' C_rpc_struct null (pr_store p1)) (\<lambda>(r, request).
     andthen (in_objects (rpc_server_localnet_job P code (RS_methods p1) persondata request reply) p1) (\<lambda>(ret, p2).
     andthen (in_store_only (rpc_struct_free (pf_env P) (pf_cb P) job_info) p2) (\<lambda>p3.
     andthen (rpc_net_send P fd reply p3) (\<lambda>(sent, p4).
       Inr (if ret \<noteq> 0 \<or> sent \<noteq> 0 then drop_connection P fd p4 else p4))))))))"

text \<open>For each request of a person a job is added. The struct of a job is new, so that its keys are free.\<close>

fun receive_jobs :: "('j, 'k) platform \<Rightarrow> int \<Rightarrow> nat \<Rightarrow> 'k process \<Rightarrow> 'k process run" where
  "receive_jobs P fd 0 p = Inr p"
| "receive_jobs P fd (Suc n) p =
     andthen (in_store (rpc_struct_create (pf_env P)) p) (\<lambda>(job_info, p1).
     andthen (the_person fd p1) (\<lambda>person.
       case person of
         None \<Rightarrow> Inl Null_Deref
       | Some x \<Rightarrow>
           let set = (\<lambda>key t v. in_store (rpc_struct_set (pf_env P) (pf_cb P) (pf_junk P) job_info key t v)) in
           andthen (set ''fd'' C_int32 (word_of_int (rpc_net_person_fd x)) p1) (\<lambda>(r, p2).
           andthen (get_pointer (RS_persondata p2) (np_ID x) C_rpc_struct null (pr_store p2)) (\<lambda>(r, persondata).
           andthen (check (r = 0)) (\<lambda>_.
           andthen (set ''persondata'' C_rpc_struct persondata p2) (\<lambda>(r, p3).
           andthen (check (r = 0)) (\<lambda>_.
           andthen (rpc_net_person_get_request person) (\<lambda>(request, person1).
           andthen (set ''request'' C_rpc_struct request (set_person fd person1 p3)) (\<lambda>(r, p4).
           andthen (check (r = 0)) (\<lambda>_.
             receive_jobs P fd n (p4\<lparr>RS_thpool := RS_thpool p4 @ [job_info]\<rparr>)))))))))))"

definition message_receiver :: "('j, 'k) platform \<Rightarrow> int \<Rightarrow> 'k process \<Rightarrow> 'k process run" where
  "message_receiver P fd p =
     andthen (the_person fd p) (\<lambda>person.
       case person of None \<Rightarrow> Inl Assert_Failed | Some x \<Rightarrow> receive_jobs P fd (rpc_net_person_request_ammount x) p)"

definition rs_persondata_init :: "('j, 'k) platform \<Rightarrow> int \<Rightarrow> 'k process \<Rightarrow> 'k process run" where
  "rs_persondata_init P fd p =
     andthen (the_person fd p) (\<lambda>person.
       case person of
         None \<Rightarrow> Inl Null_Deref
       | Some x \<Rightarrow>
           andthen (in_store (rpc_struct_create (pf_env P)) p) (\<lambda>(persondata, p1).
           andthen (in_store (rpc_struct_set_made (pf_env P) (pf_cb P) (pf_junk P) persondata ''lobjects'' C_rpc_struct
                      (rpc_struct_create (pf_env P))) p1) (\<lambda>(r, p2).
           andthen (in_store (rpc_struct_set (pf_env P) (pf_cb P) (pf_junk P) persondata ''fd'' C_int32
                      (word_of_int (rpc_net_person_fd x))) p2) (\<lambda>(r, p3).
           andthen (in_store (rpc_struct_set (pf_env P) (pf_cb P) (pf_junk P) (RS_persondata p3) (np_ID x) C_rpc_struct persondata) p3)
             (\<lambda>(r, p4). andthen (check (r = 0)) (\<lambda>_. Inr p4))))))"

text \<open>\<open>thpool_wait\<close> returns when all jobs have been done: one worker does them here, in the order in which
  they were added.\<close>

fun run_jobs :: "('j, 'k) platform \<Rightarrow> (rpc_method \<Rightarrow> addr) \<Rightarrow> addr list \<Rightarrow> 'k process \<Rightarrow> 'k process run" where
  "run_jobs P code [] p = Inr p"
| "run_jobs P code (j # js) p = andthen (net_job P code j p) (run_jobs P code js)"

definition rs_persondata_destroy :: "('j, 'k) platform \<Rightarrow> (rpc_method \<Rightarrow> addr) \<Rightarrow> int \<Rightarrow> 'k process \<Rightarrow> 'k process run" where
  "rs_persondata_destroy P code fd p =
     andthen (run_jobs P code (RS_thpool p) (p\<lparr>RS_thpool := []\<rparr>)) (\<lambda>p1.
     andthen (the_person fd p1) (\<lambda>person.
       case person of
         None \<Rightarrow> Inl Null_Deref
       | Some x \<Rightarrow>
           andthen (in_store (rpc_struct_remove (pf_cb P) (RS_persondata p1) (Some (np_ID x))) p1) (\<lambda>(r, p2). Inr p2)))"

definition server_notify :: "('j, 'k) platform \<Rightarrow> (rpc_method \<Rightarrow> addr) \<Rightarrow> 'k rpc_net_notifier_callback" where
  "server_notify P code =
     \<lparr>notify = Some (message_receiver P), persondata_init = Some (rs_persondata_init P),
      persondata_destroy = Some (rs_persondata_destroy P code)\<rparr>"

end
