(* ===== verification/Rpc_Init.thy ===== *)
theory Rpc_Init
  imports Rpc_Server
begin

text \<open>
  Services with dependencies, and the order in which they are started (\<open>rpc_init.c\<close>). What the function at
  an address does is a parameter; \<open>rpc_init\<close> adds the two of the library.
\<close>

section \<open>Adding services\<close>

text \<open>The array of dependencies has the length that is given with it.\<close>

record rpc_service_t =
  sv_name :: string
  sv_dependecies :: "string list"
  sv_init_handler :: addr

text \<open>\<open>rpc_struct_set\<close>, with the result asserted to be 0.\<close>

definition set_asserted ::
    "('j, 'k) platform \<Rightarrow> addr \<Rightarrow> string \<Rightarrow> ctype \<Rightarrow> 64 word \<Rightarrow> store \<Rightarrow> store run" where
  "set_asserted P s key t v w =
     andthen (rpc_struct_set (pf_env P) (pf_cb P) (pf_junk P) s key t v w) (\<lambda>(r, w1). andthen (check (r = 0)) (\<lambda>_. Inr w1))"

fun add_dependencies :: "('j, 'k) platform \<Rightarrow> addr \<Rightarrow> addr \<Rightarrow> string list \<Rightarrow> store \<Rightarrow> store run" where
  "add_dependencies P load dependencies [] w = Inr w"
| "add_dependencies P load dependencies (d # ds) w =
     andthen (rpc_struct_exists load (Some d) w) (\<lambda>ex.
     andthen (check (ex \<noteq> 0)) (\<lambda>_.
     andthen (rpc_struct_set (pf_env P) (pf_cb P) (pf_junk P) dependencies d C_int32 0 w) (\<lambda>(r, w1).
       add_dependencies P load dependencies ds w1)))"

definition rpc_service_add :: "('j, 'k) platform \<Rightarrow> addr \<Rightarrow> rpc_service_t \<Rightarrow> store \<Rightarrow> store run" where
  "rpc_service_add P load service w =
     andthen (rpc_struct_exists load (Some (sv_name service)) w) (\<lambda>ex.
       if ex \<noteq> 0 then Inr w
       else andthen (rpc_struct_create (pf_env P) w) (\<lambda>(new1, w1).
         andthen (set_asserted P new1 ''init_handler'' C_other_ptr (sv_init_handler service) w1) (\<lambda>w2.
         andthen (if sv_dependecies service \<noteq> []
                  then andthen (rpc_struct_create (pf_env P) w2) (\<lambda>(dependencies, w3).
                       andthen (add_dependencies P load dependencies (sv_dependecies service) w3) (\<lambda>w4.
                         set_asserted P new1 ''dependencies'' C_rpc_struct dependencies w4))
                  else Inr w2) (\<lambda>w5.
         andthen (rpc_struct_set (pf_env P) (pf_cb P) (pf_junk P) load (sv_name service) C_rpc_struct new1 w5) (\<lambda>(r, w6). Inr w6)))))"

fun rpc_service_add_packet :: "('j, 'k) platform \<Rightarrow> addr \<Rightarrow> rpc_service_t list \<Rightarrow> store \<Rightarrow> store run" where
  "rpc_service_add_packet P load [] w = Inr w"
| "rpc_service_add_packet P load (s # ss) w = andthen (rpc_service_add P load s w) (rpc_service_add_packet P load ss)"

section \<open>Starting services\<close>

text \<open>The loop over the keys of a struct, which is asked for its length in each round.\<close>

fun load_keys :: "(string \<Rightarrow> 'k process \<Rightarrow> 'k process run) \<Rightarrow> addr \<Rightarrow> string list \<Rightarrow> nat \<Rightarrow> 'k process \<Rightarrow> 'k process run" where
  "load_keys f dependencies [] i p =
     andthen (rpc_struct_length dependencies (pr_store p)) (\<lambda>n. if i < n then Inl Out_Of_Bounds else Inr p)"
| "load_keys f dependencies (k # ks) i p =
     andthen (rpc_struct_length dependencies (pr_store p)) (\<lambda>n.
       if i < n then andthen (f k p) (load_keys f dependencies ks (i + 1)) else Inr p)"

text \<open>\<open>n\<close> bounds how long a chain of dependencies may be; \<open>run_at\<close> calls the function at an address.\<close>

primrec rpc_service_load ::
    "('j, 'k) platform \<Rightarrow> (addr \<Rightarrow> 'k process \<Rightarrow> 'k process run) \<Rightarrow> nat \<Rightarrow> addr \<Rightarrow> string \<Rightarrow> 'k process \<Rightarrow> 'k process run" where
  "rpc_service_load P run_at 0 load service_name p = Inl No_Fuel"
| "rpc_service_load P run_at (Suc n) load service_name p =
     andthen (get_pointer load service_name C_rpc_struct null (pr_store p)) (\<lambda>(r, current_service).
       if r \<noteq> 0 then Inr p
       else andthen (get_pointer current_service ''dependencies'' C_rpc_struct null (pr_store p)) (\<lambda>(r, dependencies).
         andthen (if r = 0
                  then andthen (rpc_struct_keys dependencies (pr_store p)) (\<lambda>keys.
                       load_keys (rpc_service_load P run_at n load) dependencies keys 0 p)
                  else Inr p) (\<lambda>p1.
         andthen (get_pointer current_service ''init_handler'' C_other_ptr null (pr_store p1)) (\<lambda>(r, init).
         andthen (check (r = 0)) (\<lambda>_.
         andthen (run_at init p1) (\<lambda>p2.
         andthen (in_store (rpc_struct_remove (pf_cb P) load (Some service_name)) p2) (\<lambda>(r, p3). Inr p3)))))))"

text \<open>The keys are those of the table itself: a key is released with its entry, so that the key of a service
  that has been started as a dependency is stale.\<close>

fun load_each :: "(string \<Rightarrow> 'k process \<Rightarrow> 'k process run) \<Rightarrow> addr \<Rightarrow> string list \<Rightarrow> 'k process \<Rightarrow> 'k process run" where
  "load_each f load [] p = Inr p"
| "load_each f load (k # ks) p =
     andthen (rpc_struct_exists load (Some k) (pr_store p)) (\<lambda>ex.
       if ex = 0 then Inl Use_After_Free else andthen (f k p) (load_each f load ks))"

definition rpc_service_load_all ::
    "('j, 'k) platform \<Rightarrow> (addr \<Rightarrow> 'k process \<Rightarrow> 'k process run) \<Rightarrow> nat \<Rightarrow> addr \<Rightarrow> 'k process \<Rightarrow> 'k process run" where
  "rpc_service_load_all P run_at n load p =
     andthen (rpc_struct_keys load (pr_store p)) (\<lambda>keys. load_each (rpc_service_load P run_at n load) load keys p)"

section \<open>The library itself\<close>

definition init_rpc_modules :: "addr \<Rightarrow> addr \<Rightarrow> rpc_service_t list" where
  "init_rpc_modules object_init server_init =
     [\<lparr>sv_name = ''rpc_object'', sv_dependecies = [], sv_init_handler = object_init\<rparr>,
      \<lparr>sv_name = ''rpc_server'', sv_dependecies = [''rpc_object''], sv_init_handler = server_init\<rparr>]"

definition run_module ::
    "('j, 'k) platform \<Rightarrow> (rpc_method \<Rightarrow> addr) \<Rightarrow> addr \<Rightarrow> addr \<Rightarrow> addr \<Rightarrow> 'k process \<Rightarrow> 'k process run" where
  "run_module P code object_init server_init a p =
     (if a = object_init then andthen (rpc_object_init (pf_env P) (pr_objects p)) (\<lambda>g. Inr (p\<lparr>pr_objects := g\<rparr>))
      else if a = server_init then rpc_server_init P code p
      else Inl Use_After_Free)"

definition rpc_init :: "('j, 'k) platform \<Rightarrow> (rpc_method \<Rightarrow> addr) \<Rightarrow> addr \<Rightarrow> addr \<Rightarrow> 'k process \<Rightarrow> 'k process run" where
  "rpc_init P code object_init server_init p =
     andthen (in_store (rpc_struct_create (pf_env P)) p) (\<lambda>(load, p1).
     andthen (in_store_only (rpc_service_add_packet P load (init_rpc_modules object_init server_init)) p1) (\<lambda>p2.
     andthen (rpc_service_load_all P (run_module P code object_init server_init) 2 load p2) (\<lambda>p3.
       in_store_only (rpc_struct_free (pf_env P) (pf_cb P) load) p3)))"

end
