(* ===== verification/Store_Room.thy ===== *)
theory Store_Room
  imports Struct_Examples
begin

text \<open>
  Room for a number of further elements in a store, and one lemma for setting an element of any type: it
  takes one unit of room, and everything that was in the store before is still there. The operations above
  structs, which set several elements one after the other, are reasoned about with it.
\<close>

section \<open>What stays\<close>

fun same_object :: "obj \<Rightarrow> obj \<Rightarrow> bool" where
  "same_object (Struct a) (Struct b) = (rs_ID b = rs_ID a)"
| "same_object (Prec a) (Prec b) = True"
| "same_object x y = (y = x)"

definition keeps :: "store \<Rightarrow> store \<Rightarrow> bool" where
  "keeps w w' \<longleftrightarrow> (\<forall>a x. mem w a = Some x \<longrightarrow> (\<exists>x'. mem w' a = Some x' \<and> same_object x x'))"

lemma same_object_refl [simp]: "same_object x x"
  by (cases x) simp_all

lemma same_object_trans: "same_object x y \<Longrightarrow> same_object y z \<Longrightarrow> same_object x z"
  by (cases x; cases y; cases z) simp_all

lemma same_object_type: "same_object x y \<Longrightarrow> obj_type y = obj_type x"
  by (cases x; cases y) simp_all

lemma keeps_refl [simp]: "keeps w w"
  by (simp add: keeps_def)

lemma keeps_trans: "keeps w w1 \<Longrightarrow> keeps w1 w2 \<Longrightarrow> keeps w w2"
  unfolding keeps_def by (meson same_object_trans)

lemma keepsD:
  assumes "keeps w w'"
  shows "mem w a = Some (Struct rs) \<Longrightarrow> \<exists>rs'. mem w' a = Some (Struct rs') \<and> rs_ID rs' = rs_ID rs"
    "mem w a = Some (Cstring str) \<Longrightarrow> mem w' a = Some (Cstring str)"
    "mem w a = Some (Function f) \<Longrightarrow> mem w' a = Some (Function f)"
    "mem w a = Some (Sizedbuf sb) \<Longrightarrow> mem w' a = Some (Sizedbuf sb)"
    "mem w a = Some (Ffi_Types ts) \<Longrightarrow> mem w' a = Some (Ffi_Types ts)"
    "otype w a = Some t \<Longrightarrow> otype w' a = Some t"
proof -
  have x: "\<exists>x'. mem w' a = Some x' \<and> same_object x x'" if "mem w a = Some x" for x
    using assms that unfolding keeps_def by blast
  show "\<exists>rs'. mem w' a = Some (Struct rs') \<and> rs_ID rs' = rs_ID rs" if "mem w a = Some (Struct rs)"
    using x [OF that] by (auto elim!: same_object.elims)
  show "mem w' a = Some (Cstring str)" if "mem w a = Some (Cstring str)" using x [OF that] by auto
  show "mem w' a = Some (Function f)" if "mem w a = Some (Function f)" using x [OF that] by auto
  show "mem w' a = Some (Sizedbuf sb)" if "mem w a = Some (Sizedbuf sb)" using x [OF that] by auto
  show "mem w' a = Some (Ffi_Types ts)" if "mem w a = Some (Ffi_Types ts)" using x [OF that] by auto
  show "otype w' a = Some t" if "otype w a = Some t"
    using that x same_object_type by (auto simp: otype_def)
qed

lemma keeps_element: "keeps w w' \<Longrightarrow> element_valid w e \<Longrightarrow> element_valid w' e"
  using keepsD(6) by (auto simp: element_valid_def)

lemma keeps_put_new: "mem w p = None \<Longrightarrow> keeps w (put_obj p x w)"
  by (simp add: keeps_def)

lemma keeps_put_struct:
  "mem w s = Some (Struct rs) \<Longrightarrow> rs_ID rs' = rs_ID rs \<Longrightarrow> keeps w (put_obj s (Struct rs') w)"
  by (simp add: keeps_def)

section \<open>Room\<close>

definition roomy :: "nat \<Rightarrow> store \<Rightarrow> bool" where
  "roomy n w \<longleftrightarrow>
     n < 1000 \<and> card (dom (mem w)) + n < 2 ^ 63 \<and> hb_size (ptracker w) + n \<le> table_limit \<and>
     (\<forall>s rs. mem w s = Some (Struct rs) \<longrightarrow> hb_size (rs_map rs) + n \<le> table_limit) \<and>
     (\<forall>q pr. mem w q = Some (Prec pr) \<longrightarrow> record_room n pr)"

lemma record_room_less: "record_room n pr \<Longrightarrow> m \<le> n \<Longrightarrow> record_room m pr"
  unfolding record_room_def by (meson add_left_mono le_trans mult_le_mono2 order.strict_trans1)

lemma roomy_less:
  assumes "roomy n w" "m \<le> n" shows "roomy m w"
proof -
  have "record_room m pr" if "mem w q = Some (Prec pr)" for q pr
    using assms that record_room_less unfolding roomy_def by blast
  moreover have "hb_size (rs_map rs) + m \<le> table_limit" if "mem w s = Some (Struct rs)" for s rs
    using assms that unfolding roomy_def by (meson add_left_mono le_trans)
  ultimately show ?thesis using assms by (simp add: roomy_def)
qed

lemma roomy_room:
  assumes "roomy n w" "mem w s = Some (Struct rs)"
  shows "struct_room w s" "set_room w s k e" "card (dom (mem w)) < 2 ^ 63"
proof -
  show c: "card (dom (mem w)) < 2 ^ 63" using assms(1) by (simp add: roomy_def)
  have "hb_size (rs_map rs) + n \<le> table_limit" using assms unfolding roomy_def by blast
  then show r: "struct_room w s" using assms(2) c by (simp add: struct_room_def struct_map_def)
  have "context_room pr k" if "mem w q = Some (Prec pr)" for q pr
    using assms(1) that record_room_context unfolding roomy_def by blast
  then show "set_room w s k e" using r assms(1) by (simp add: set_room_def roomy_def)
qed

lemma roomy_put:
  assumes "roomy (Suc n) w" "finite (dom (mem w))"
    and "\<And>rs. x = Struct rs \<Longrightarrow> hb_size (rs_map rs) + n \<le> table_limit" "\<And>pr. x \<noteq> Prec pr"
  shows "roomy n (put_obj p x w)"
proof -
  have less: "roomy n w" by (rule roomy_less [OF assms(1)]) simp
  have "card (insert p (dom (mem w))) \<le> Suc (card (dom (mem w)))" using assms(2) by (simp add: card_insert_if)
  then show ?thesis using assms(1,3,4) less by (auto simp: roomy_def)
qed

section \<open>Setting an element of any type\<close>

lemma set_any:
  assumes E: "allocator (e_malloc E)" and inv: "store_inv {} w" and s: "mem w s = Some (Struct rs)"
    and new: "entry w s k = None" and room: "roomy (Suc n) w" and e: "element_valid w e"
    and cb: "cb_increment cb = Some (rpc_struct_increment_cb E)"
  obtains w' e' where "rpc_struct_set_internal E cb s (Some k) e w = Inr (0, w')" "store_inv {} w'" "roomy n w'" "keeps w w'"
    "\<forall>t j. entry w' t j = (if t = s \<and> j = k then Some e' else entry w t j)" "rt_type e' = rt_type e"
    "rt_type e \<noteq> RPC_string \<Longrightarrow> e' = e"
    "\<And>str. rt_type e = RPC_string \<Longrightarrow> mem w (ptr_value e) = Some (Cstring str) \<Longrightarrow> mem w' (ptr_value e') = Some (Cstring str)"
    "rt_type e = RPC_string \<Longrightarrow> mem w (ptr_value e') = None"
proof -
  have fin: "finite (dom (mem w))" using tracker_okD(2) [OF store_invD(1) [OF inv]] .
  note R = roomy_room [OF room s]
  have sz: "hb_size (rs_map rs) + Suc n \<le> table_limit" using room s unfolding roomy_def by blast
  have grown: "hb_size m + n \<le> table_limit" if "hm_inv m" "hashmap_get m = (hashmap_get (rs_map rs))(k \<mapsto> f)" for m f
    using that sz new s hm.count [OF store_inv_struct(1) [OF inv s]] hm.count [OF that(1)] hm.finite_dom [OF store_inv_struct(1) [OF inv s]]
    by (simp add: card_insert_if split: if_splits)
  consider (counted) "counted_type (rt_type e)" | (string) "rt_type e = RPC_string"
    | (plain) "\<not> counted_type (rt_type e)" "rt_type e \<noteq> RPC_string" by blast
  then show thesis
  proof cases
    case counted
    then have ot: "otype w (ptr_value e) = Some (rt_type e)" using e by (simp add: element_valid_def)
    obtain w' c q pr1 m where C: "rpc_struct_set_internal E cb s (Some k) e w = Inr (0, w')" "store_inv {} w'"
      "\<forall>t j. entry w' t j = (if t = s \<and> j = k then Some e else entry w t j)"
      "mem w' s = Some (Struct (rs\<lparr>rs_map := m\<rparr>))" "hb_size (ptracker w') \<le> Suc (hb_size (ptracker w))"
      "mem w q = None \<or> (\<exists>p. mem w q = Some (Prec p))" "mem w' q = Some (Prec pr1)"
      "\<forall>a. a \<noteq> q \<longrightarrow> a \<noteq> s \<longrightarrow> mem w' a = mem w a"
      "\<forall>n<1000. (\<forall>p. mem w q = Some (Prec p) \<longrightarrow> record_room (Suc n) p) \<longrightarrow> record_room n pr1"
      by (rule set_counted_frame [OF E inv s new R(2) counted ot cb]) blast
    have "keeps w w'"
      unfolding keeps_def
    proof (intro allI impI)
      fix a x assume a: "mem w a = Some x"
      consider "a = s" | "a = q" | "a \<noteq> s" "a \<noteq> q" by blast
      then show "\<exists>x'. mem w' a = Some x' \<and> same_object x x'"
      proof cases
        case 1
        then show ?thesis using C(4) s a by auto
      next
        case 2
        then show ?thesis using C(6,7) a by auto
      next
        case 3
        then show ?thesis using C(8) a by simp
      qed
    qed
    moreover have "roomy n w'"
    proof -
      have "dom (mem w') \<subseteq> insert q (dom (mem w))"
        using C(8) s by auto
      then have "card (dom (mem w')) \<le> card (insert q (dom (mem w)))" using fin by (intro card_mono) auto
      then have card: "card (dom (mem w')) \<le> Suc (card (dom (mem w)))" using fin by (simp add: card_insert_if split: if_splits)
      have rr: "record_room (Suc n) p" if "mem w a = Some (Prec p)" for a p using room that unfolding roomy_def by blast
      have n: "n < 1000" using room by (simp add: roomy_def)
      have "hb_size (rs_map rt) + n \<le> table_limit" if rt: "mem w' t = Some (Struct rt)" for t rt
      proof (cases "t = s")
        case True
        have "hashmap_get m j = ((hashmap_get (rs_map rs))(k \<mapsto> e)) j" for j
          using C(3) [rule_format, of s j] C(4) s by (simp add: entry_def split: if_splits)
        then have "hashmap_get m = (hashmap_get (rs_map rs))(k \<mapsto> e)" by (rule ext)
        moreover have "rs_map rt = m" using C(4) rt True by auto
        ultimately show ?thesis using grown store_inv_struct(1) [OF C(2,4)] by simp
      next
        case False
        then have "mem w t = Some (Struct rt)" using C(7,8) rt by (cases "t = q") auto
        then show ?thesis using roomy_less [OF room, of n] unfolding roomy_def by simp
      qed
      moreover have "record_room n p" if p: "mem w' a = Some (Prec p)" for a p
      proof (cases "a = q")
        case True
        then show ?thesis using C(7,9) n rr p by simp
      next
        case False
        then have "mem w a = Some (Prec p)" using C(4,8) p by (cases "a = s") auto
        then show ?thesis using rr record_room_less [of "Suc n" p n] by simp
      qed
      ultimately show ?thesis using card C(5) room n unfolding roomy_def by auto
    qed
    moreover have "rt_type e \<noteq> RPC_string" using counted by auto
    ultimately show thesis using that [OF C(1,2) _ _ C(3)] by simp
  next
    case string
    then obtain str where str: "mem w (ptr_value e) = Some (Cstring str)" using e by (auto simp: element_valid_def otype_Some obj_type_eq)
    obtain p m e' where S: "e' = (set_ptr_value p e)\<lparr>rt_length := length str + 1\<rparr>" "mem w p = None" "p \<noteq> null" "p \<noteq> s"
      "rpc_struct_set_internal E cb s (Some k) e w = Inr (0, put_obj s (Struct (rs\<lparr>rs_map := m\<rparr>)) (put_obj p (Cstring str) w))"
      "hashmap_get m = (hashmap_get (rs_map rs))(k \<mapsto> e')"
      "store_inv {} (put_obj s (Struct (rs\<lparr>rs_map := m\<rparr>)) (put_obj p (Cstring str) w))"
      by (rule set_string [OF E inv s new R(1) string str])
    let ?w1 = "put_obj p (Cstring str) w" and ?w = "put_obj s (Struct (rs\<lparr>rs_map := m\<rparr>)) (put_obj p (Cstring str) w)"
    have e': "rt_type e' = RPC_string" "ptr_value e' = p" using string by (simp_all add: S(1) ptr_value_def set_ptr_value_def)
    have s1: "mem ?w1 s = Some (Struct rs)" using s S(4) by simp
    have "hm_inv m" using store_inv_struct(1) [OF S(7), of s "rs\<lparr>rs_map := m\<rparr>"] by simp
    then have "hb_size m + n \<le> table_limit" using grown S(6) by blast
    moreover have "roomy n ?w1" by (rule roomy_put [OF room fin]) simp_all
    moreover have "insert s (insert p (dom (mem w))) = insert p (dom (mem w))" using s by auto
    ultimately have "roomy n ?w" by (auto simp: roomy_def)
    moreover have "keeps w ?w"
      by (rule keeps_trans [OF keeps_put_new [OF S(2)] keeps_put_struct [OF s1]]) simp
    moreover have "entry ?w t j = (if t = s \<and> j = k then Some e' else entry w t j)" for t j
      using s S(2,6) by (auto simp: entry_def)
    ultimately show thesis
      using that [OF S(5,7), of e'] e' string str S(2,4) by simp
  next
    case plain
    obtain m where S: "rpc_struct_set_internal E cb s (Some k) e w = Inr (0, put_obj s (Struct (rs\<lparr>rs_map := m\<rparr>)) w)"
      "hashmap_get m = (hashmap_get (rs_map rs))(k \<mapsto> e)" "store_inv {} (put_obj s (Struct (rs\<lparr>rs_map := m\<rparr>)) w)"
      by (rule set_plain [OF inv s new R(1) e plain])
    let ?w = "put_obj s (Struct (rs\<lparr>rs_map := m\<rparr>)) w"
    have "hm_inv m" using store_inv_struct(1) [OF S(3), of s "rs\<lparr>rs_map := m\<rparr>"] by simp
    then have "hb_size m + n \<le> table_limit" using grown S(2) by blast
    then have "roomy n ?w" by (intro roomy_put [OF room fin]) auto
    moreover have "keeps w ?w" by (rule keeps_put_struct [OF s]) simp
    moreover have "entry ?w t j = (if t = s \<and> j = k then Some e else entry w t j)" for t j
      using s S(2) by (auto simp: entry_def)
    ultimately show thesis using that [OF S(1,3), of e] plain by simp
  qed
qed

section \<open>The typed macros\<close>

lemma get_element:
  assumes "store_inv X w" "mem w s = Some (Struct rs)"
  shows "rpc_struct_get_internal s (Some k) w = Inr (case entry w s k of None \<Rightarrow> none_element | Some e \<Rightarrow> e)"
  using assms(2) store_inv_struct(3) [OF assms] by (simp add: rpc_struct_get_internal_def the_struct_def entry_def)

lemma entry_type_none [simp]: "rt_type none_element = RPC_none"
  by (simp add: none_element_def)

lemma set_typed:
  assumes E: "allocator (e_malloc E)" and inv: "store_inv {} w" and s: "mem w s = Some (Struct rs)"
    and new: "entry w s k = None" and room: "roomy (Suc n) w" and e: "element_valid w (c_to_rpc junk t v)"
    and cb: "cb_increment cb = Some (rpc_struct_increment_cb E)"
  obtains w' e' where "rpc_struct_set E cb junk s k t v w = Inr (0, w')" "store_inv {} w'" "roomy n w'" "keeps w w'"
    "\<forall>u j. entry w' u j = (if u = s \<and> j = k then Some e' else entry w u j)" "rt_type e' = ctype_to_rpc t"
    "ctype_to_rpc t \<noteq> RPC_string \<Longrightarrow> e' = c_to_rpc junk t v"
    "\<And>str. ctype_to_rpc t = RPC_string \<Longrightarrow> mem w v = Some (Cstring str) \<Longrightarrow> mem w' (ptr_value e') = Some (Cstring str)"
    "ctype_to_rpc t = RPC_string \<Longrightarrow> mem w (ptr_value e') = None"
proof -
  let ?e = "c_to_rpc junk t v"
  obtain w' e' where S: "rpc_struct_set_internal E cb s (Some k) ?e w = Inr (0, w')" "store_inv {} w'" "roomy n w'" "keeps w w'"
    "\<forall>u j. entry w' u j = (if u = s \<and> j = k then Some e' else entry w u j)" "rt_type e' = rt_type ?e"
    "rt_type ?e \<noteq> RPC_string \<Longrightarrow> e' = ?e"
    "\<And>str. rt_type ?e = RPC_string \<Longrightarrow> mem w (ptr_value ?e) = Some (Cstring str) \<Longrightarrow> mem w' (ptr_value e') = Some (Cstring str)"
    "rt_type ?e = RPC_string \<Longrightarrow> mem w (ptr_value e') = None"
    by (rule set_any [OF E inv s new room e cb]) blast
  have "rpc_struct_set E cb junk s k t v w = Inr (0, w')"
    using S(1) new by (simp add: rpc_struct_set_def rpc_struct_exists_def get_element [OF inv s])
  moreover have "ptr_value ?e = v" if "ctype_to_rpc t = RPC_string"
    using that by (intro c_to_rpc_fields(2)) (simp add: rpc_is_pointer_def)
  ultimately show thesis using that [of w' e'] S(2-9) by (simp add: c_to_rpc_fields(1))
qed

lemma set_value:
  assumes "allocator (e_malloc E)" "store_inv {} w" "mem w s = Some (Struct rs)" "entry w s k = None" "roomy (Suc n) w"
    "element_valid w (c_to_rpc junk t v)" "cb_increment cb = Some (rpc_struct_increment_cb E)" "ctype_to_rpc t \<noteq> RPC_string"
  obtains w' where "rpc_struct_set E cb junk s k t v w = Inr (0, w')" "store_inv {} w'" "roomy n w'" "keeps w w'"
    "\<forall>u j. entry w' u j = (if u = s \<and> j = k then Some (c_to_rpc junk t v) else entry w u j)"
proof -
  obtain w' e' where S: "rpc_struct_set E cb junk s k t v w = Inr (0, w')" "store_inv {} w'" "roomy n w'" "keeps w w'"
    "\<forall>u j. entry w' u j = (if u = s \<and> j = k then Some e' else entry w u j)"
    "ctype_to_rpc t \<noteq> RPC_string \<Longrightarrow> e' = c_to_rpc junk t v"
    by (rule set_typed [OF assms(1-7)]) (rule that)
  show thesis by (rule that [OF S(1-4)]) (use S(5,6) assms(8) in simp)
qed

lemma get_typed:
  assumes inv: "store_inv X w" and s: "mem w s = Some (Struct rs)"
  shows "rpc_struct_get s k t out w =
    Inr (case entry w s k of None \<Rightarrow> (1, out)
         | Some e \<Rightarrow> if rt_type e \<noteq> RPC_none \<and> rt_type e = ctype_to_rpc t then (0, rpc_output t out e) else (1, out))"
  by (simp add: rpc_struct_get_def get_element [OF inv s] rpc_get_element_def split: option.split)

lemma pointer_output: "rpc_is_pointer (rt_type e) \<Longrightarrow> c_sizeof t = 8 \<Longrightarrow> length out = 8 \<Longrightarrow> of_le_bytes (rpc_output t out e) = ptr_value e"
  by (simp add: rpc_output_def memcpy_def)

end
