(* ===== verification/Object_Calls.thy ===== *)
theory Object_Calls
  imports Rpc_Object Store_Room
begin

text \<open>
  How the operations of \<open>rpc_object.c\<close> act on a well-formed store: finding registered objects, the stack of
  calls, the comparison of prototypes, and the marshalling of arguments.
\<close>

declare decimal.simps [simp del]

section \<open>Pointers in structs\<close>

lemma get_pointer_entry:
  assumes "store_inv X w" "mem w s = Some (Struct rs)" "rpc_is_pointer (ctype_to_rpc t)"
  shows "get_pointer s k t old w =
    Inr (case entry w s k of None \<Rightarrow> (1, old) | Some e \<Rightarrow> if rt_type e = ctype_to_rpc t then (0, ptr_value e) else (1, old))"
  using assms(3) pointer_sizeof [OF assms(3)]
  by (auto simp: get_pointer_def get_typed [OF assms(1,2)] pointer_output split: option.split)

lemma pointer_types [simp]:
  "rpc_is_pointer RPC_struct" "rpc_is_pointer RPC_function" "rpc_is_pointer RPC_string" "rpc_is_pointer RPC_unknown"
  "rpc_is_pointer RPC_sizedbuf" "\<not> rpc_is_pointer RPC_number" "\<not> rpc_is_pointer RPC_real" "\<not> rpc_is_pointer RPC_none"
  by (simp_all add: rpc_is_pointer_def)

lemma element_object:
  assumes "store_inv {} w" "entry w s k = Some e"
  shows "rt_type e = RPC_struct \<Longrightarrow> \<exists>rs. mem w (ptr_value e) = Some (Struct rs)"
    "rt_type e = RPC_function \<Longrightarrow> \<exists>f. mem w (ptr_value e) = Some (Function f)"
    "rt_type e = RPC_string \<Longrightarrow> \<exists>str. mem w (ptr_value e) = Some (Cstring str)"
proof -
  have v: "visible {} w s k = Some e" using assms(2) by (simp add: visible_def)
  have "counted_type (rt_type e) \<or> rt_type e = RPC_string \<longrightarrow> otype w (ptr_value e) = Some (rt_type e)"
    using store_invD(3) [OF assms(1)] v unfolding elements_ok_def by blast
  then show "rt_type e = RPC_struct \<Longrightarrow> \<exists>rs. mem w (ptr_value e) = Some (Struct rs)"
    "rt_type e = RPC_function \<Longrightarrow> \<exists>f. mem w (ptr_value e) = Some (Function f)"
    "rt_type e = RPC_string \<Longrightarrow> \<exists>str. mem w (ptr_value e) = Some (Cstring str)"
    by (auto simp: counted_type_def otype_Some obj_type_eq)
qed

lemma store_inv_alive: "store_inv X w \<Longrightarrow> mem w p = Some x \<Longrightarrow> p \<noteq> null"
  using store_inv_null by fastforce

section \<open>The registry\<close>

text \<open>The tables are structs of their own.\<close>

definition registry_ok :: "rpc_objects \<Rightarrow> bool" where
  "registry_ok g \<longleftrightarrow>
     store_inv {} (ro_store g) \<and>
     (\<exists>a. mem (ro_store g) (RO_cobject_bname g) = Some (Struct a)) \<and>
     (\<exists>b. mem (ro_store g) (RO_cobject_bid g) = Some (Struct b)) \<and>
     (\<exists>c. mem (ro_store g) (RO_protocache g) = Some (Struct c)) \<and>
     RO_cobject_bname g \<noteq> RO_cobject_bid g \<and> RO_cobject_bname g \<noteq> RO_protocache g \<and> RO_cobject_bid g \<noteq> RO_protocache g"

text \<open>The object registered under a name, or an ID.\<close>

definition registered :: "rpc_objects \<Rightarrow> string \<Rightarrow> addr option" where
  "registered g name =
     (let named = (\<lambda>s. case entry (ro_store g) s name of
                         Some e \<Rightarrow> if rt_type e = RPC_struct then Some (ptr_value e) else None | None \<Rightarrow> None) in
      case named (RO_cobject_bname g) of Some p \<Rightarrow> Some p | None \<Rightarrow> named (RO_cobject_bid g))"

lemma cobject_get_registered:
  assumes "registry_ok g"
  shows "rpc_cobject_get name g = Inr (case registered g name of None \<Rightarrow> null | Some p \<Rightarrow> p)"
proof -
  obtain a b where R: "store_inv {} (ro_store g)" "mem (ro_store g) (RO_cobject_bname g) = Some (Struct a)"
    "mem (ro_store g) (RO_cobject_bid g) = Some (Struct b)"
    using assms by (auto simp: registry_ok_def)
  have p: "rpc_is_pointer (ctype_to_rpc C_rpc_struct)" by simp
  show ?thesis
    by (auto simp: rpc_cobject_get_def registered_def get_pointer_entry [OF R(1,2) p] get_pointer_entry [OF R(1,3) p] Let_def
        split: option.split)
qed

section \<open>The stack of calls\<close>

definition calls :: "rpc_objects \<Rightarrow> addr list" where
  "calls g = queue_list (object_stack g)"

definition calls_ok :: "rpc_objects \<Rightarrow> bool" where
  "calls_ok g \<longleftrightarrow> queue_ok (object_stack g) \<and> length (calls g) < queue_limit"

lemma object_stack_simps [simp]:
  "object_stack (g\<lparr>RO_object_stack := Some q\<rparr>) = q" "object_stack (g\<lparr>ro_store := w\<rparr>) = object_stack g"
  "object_stack (g\<lparr>RO_lobjects := l\<rparr>) = object_stack g"
  by (simp_all add: object_stack_def rpc_object_thread_init_def)

lemma push_calls:
  assumes "calls_ok g"
  obtains q where "rpc_cobject_push c g = Inr (g\<lparr>RO_object_stack := Some q\<rparr>)" "queue_ok q" "queue_list q = calls g @ [c]"
  using add_last_list [of "object_stack g" null c] assms that by (auto simp: calls_ok_def calls_def rpc_cobject_push_def)

lemma pop_calls:
  assumes "queue_ok (object_stack g)" "calls g = c # cs"
  obtains q where "rpc_cobject_pop g = Inr (g\<lparr>RO_object_stack := Some q\<rparr>)" "queue_ok q" "queue_list q = cs"
  using del_first_list [of "object_stack g" c cs] assms that by (auto simp: calls_def rpc_cobject_pop_def)

lemma current_calls:
  assumes "queue_ok (object_stack g)" "calls g = c # cs"
  shows "rpc_cobject_current g = Inr (c, rpc_object_thread_init g)"
  using assms queue_size [of "object_stack g"] peek_first_list [of "object_stack g" c cs]
  by (simp add: rpc_cobject_current_def Let_def calls_def queue_ok_def)

section \<open>Prototypes and arguments\<close>

definition argument :: "store \<Rightarrow> addr \<Rightarrow> nat \<Rightarrow> rpc_type_t option" where
  "argument w params i = entry w params (decimal i)"

definition argument_type :: "store \<Rightarrow> addr \<Rightarrow> nat \<Rightarrow> rpc_types" where
  "argument_type w params i = (case argument w params i of None \<Rightarrow> RPC_none | Some e \<Rightarrow> rt_type e)"

definition argument_word :: "store \<Rightarrow> addr \<Rightarrow> nat \<Rightarrow> 64 word" where
  "argument_word w params i =
     (case argument w params i of None \<Rightarrow> 0
      | Some e \<Rightarrow> if rt_type e = RPC_none then 0 else of_le_bytes (rpc_output C_uint64 (replicate 8 0) e))"

lemma typeof_argument:
  assumes "store_inv X w" "mem w params = Some (Struct rs)"
  shows "rpc_struct_typeof params (Some (decimal i)) w = Inr (argument_type w params i)"
  using store_inv_alive [OF assms]
  by (simp add: rpc_struct_typeof_def get_element [OF assms] argument_type_def argument_def split: option.split)

text \<open>The reference: the first types of the prototype are those of the arguments.\<close>

lemma proto_loop_types:
  assumes "store_inv X w" "mem w params = Some (Struct rs)" "i + k \<le> length ts"
  shows "proto_loop (Some ts) params w i k =
    Inr (if \<forall>j. i \<le> j \<and> j < i + k \<longrightarrow> enum_value (argument_type w params j) = ts ! j then 1 else 0)"
  using assms(3)
proof (induction k arbitrary: i)
  case (Suc k)
  have split: "(\<forall>j. i \<le> j \<and> j < i + Suc k \<longrightarrow> P j) \<longleftrightarrow> P i \<and> (\<forall>j. Suc i \<le> j \<and> j < Suc i + k \<longrightarrow> P j)" for P
    by (metis Suc_le_eq add_Suc add_Suc_right le_eq_less_or_eq less_add_Suc1 order_refl)
  show ?case
    using Suc.IH [of "Suc i"] Suc.prems unfolding split
    by (simp add: typeof_argument [OF assms(1,2)])
qed simp

lemma proto_equals_types:
  assumes "store_inv X w" "mem w params = Some (Struct rs)" "length ts < 2 ^ 64"
  shows "proto_equals (Some ts) (int (length ts)) params w =
    Inr (if length ts \<le> hb_size (rs_map rs) \<and> (\<forall>j<length ts. enum_value (argument_type w params j) = ts ! j) then 1 else 0)"
proof -
  have "int (length ts) mod 2 ^ 64 = int (length ts)" using assms(3) by simp
  then show ?thesis
    using assms(2) store_inv_alive [OF assms(1,2)] proto_loop_types [OF assms(1,2), of 0 "length ts" ts]
    by (auto simp: proto_equals_def rpc_struct_length_def the_struct_def)
qed

lemma argument_types_list:
  assumes "store_inv X w" "mem w params = Some (Struct rs)"
  shows "argument_types params w i k = Inr (map (\<lambda>j. rpctype_to_libffi ! enum_value (argument_type w params j)) [i..<i + k])"
proof (induction k arbitrary: i)
  case (Suc k)
  have "libffi_type (enum_value t) = Inr (rpctype_to_libffi ! enum_value t)" for t
    by (cases t) (simp_all add: libffi_type_def rpctype_to_libffi_def)
  then show ?case
    using Suc.IH [of "Suc i"] by (simp add: typeof_argument [OF assms] upt_conv_Cons del: upt_Suc)
qed simp

lemma ffi_arguments_list:
  assumes "store_inv X w" "mem w params = Some (Struct rs)"
  shows "ffi_arguments params w i k = Inr (map (argument_word w params) [i..<i + k])"
proof (induction k arbitrary: i)
  case (Suc k)
  have "of_le_bytes (replicate 8 0) = 0" by (simp add: numeral_eq_Suc)
  then have "andthen (rpc_struct_get_unsafe params (decimal i) C_uint64 (replicate 8 0) w) (\<lambda>(r, out). Inr (of_le_bytes out)) =
      Inr (argument_word w params i)"
    by (simp add: rpc_struct_get_unsafe_def get_element [OF assms] rpc_get_element_unsafe_def argument_word_def argument_def
        split: option.split)
  then obtain r out where "rpc_struct_get_unsafe params (decimal i) C_uint64 (replicate 8 0) w = Inr (r, out)"
    "of_le_bytes out = argument_word w params i"
    by (auto simp: andthen_eq_Inr)
  then show ?case
    using Suc.IH [of "Suc i"] by (simp add: upt_conv_Cons del: upt_Suc)
qed simp

end
