(* ===== verification/Store_Examples.thy ===== *)
theory Store_Examples
  imports Store_Room
begin

text \<open>
  Building example stores step by step: \<open>populated\<close> lists the structs that are there and all their elements.
\<close>

section \<open>Populated stores\<close>

type_synonym entries = "addr \<Rightarrow> string \<Rightarrow> rpc_type_t option"

definition populated :: "store \<Rightarrow> addr set \<Rightarrow> entries \<Rightarrow> nat \<Rightarrow> bool" where
  "populated w S es n \<longleftrightarrow>
     store_inv {} w \<and> roomy n w \<and> (\<forall>s k. entry w s k = es s k) \<and>
     (\<forall>s\<in>S. \<exists>rs ID. mem w s = Some (Struct rs) \<and> rs_ID rs = ID @ [CHR 0x00] \<and> length ID = 64 \<and> set ID \<subseteq> set ID_alphabet)"

lemma populatedD:
  assumes "populated w S es n"
  shows "store_inv {} w" "roomy n w" "entry w s k = es s k" "s \<in> S \<Longrightarrow> \<exists>rs. mem w s = Some (Struct rs)"
  using assms unfolding populated_def by blast+

lemma populated_less: "populated w S es n \<Longrightarrow> m \<le> n \<Longrightarrow> populated w S es m"
  using roomy_less unfolding populated_def by blast

lemma populated_ID:
  assumes "populated w S es n" "s \<in> S"
  obtains rs ID where "mem w s = Some (Struct rs)" "c_string (rs_ID rs) = Inr ID" "length ID = 64" "set ID \<subseteq> set ID_alphabet"
proof -
  obtain rs ID where r: "mem w s = Some (Struct rs)" "rs_ID rs = ID @ [CHR 0x00]" "length ID = 64" "set ID \<subseteq> set ID_alphabet"
    using assms unfolding populated_def by blast
  have "CHR 0x00 \<notin> set ID" using r(4) alphabet_no_NUL by blast
  then show thesis using that [of rs ID] r by (simp add: c_string_terminated)
qed

lemma populated_empty: "populated empty_store {} (\<lambda>s k. None) 900"
  using empty_store_inv
  by (simp add: populated_def roomy_def entry_def empty_store_def ptracker_init_map pointer_map_ok table_limit_def)

lemma populated_keeps_ID:
  assumes "populated w S es n" "keeps w w'" "s \<in> S"
  shows "\<exists>rs ID. mem w' s = Some (Struct rs) \<and> rs_ID rs = ID @ [CHR 0x00] \<and> length ID = 64 \<and> set ID \<subseteq> set ID_alphabet"
proof -
  obtain rs ID where "mem w s = Some (Struct rs)" "rs_ID rs = ID @ [CHR 0x00] \<and> length ID = 64 \<and> set ID \<subseteq> set ID_alphabet"
    using assms(1,3) unfolding populated_def by blast
  then show ?thesis using keepsD(1) [OF assms(2)] by metis
qed

lemma populated_object:
  assumes P: "populated w S es (Suc n)" and x: "\<And>rs. x \<noteq> Struct rs" "\<And>pr. x \<noteq> Prec pr"
  obtains p w' where "mem w' p = Some x" "p \<noteq> null" "keeps w w'" "populated w' S es n"
proof -
  note I = populatedD [OF P]
  have "card (dom (mem w)) < 2 ^ 63" using I(2) by (simp add: roomy_def)
  then obtain p where p: "mem w p = None" "p \<noteq> null" using new_obj_fresh [OF plain_env_allocates I(1)] by metis
  let ?w = "put_obj p x w"
  have "store_inv {} ?w" by (rule add_object [OF I(1) p]) (use x in auto)
  moreover have "roomy n ?w" by (rule roomy_put [OF I(2) tracker_okD(2) [OF store_invD(1) [OF I(1)]]]) (use x in auto)
  moreover have "entry ?w s k = es s k" for s k
    using I(3) [of s k] p(1) x(1) by (auto simp: entry_def split: obj.split)
  moreover have k: "keeps w ?w" by (rule keeps_put_new [OF p(1)])
  ultimately have "populated ?w S es n" using populated_keeps_ID [OF P k] by (simp add: populated_def)
  then show thesis using that [of ?w p] k p(2) by simp
qed

lemma populated_create:
  assumes P: "populated w S es (Suc n)"
  obtains s w' where "s \<notin> S" "keeps w w'" "populated w' (insert s S) es n" "\<And>k. es s k = None"
proof -
  note I = populatedD [OF P]
  let ?w0 = "w\<lparr>entropy := replicate 64 1\<rparr>"
  have inv0: "store_inv {} ?w0" by (rule store_inv_entropy [OF I(1)])
  have room0: "card (dom (mem ?w0)) < 2 ^ 63" using I(2) by (simp add: roomy_def)
  obtain s w' where run: "rpc_struct_create plain_env ?w0 = Inr (s, w')"
    by (rule create_runs [OF plain_env_allocates inv0 room0]) simp_all
  let ?rs = "\<lambda>ID. \<lparr>rs_map = string_map, rs_ID = ID @ [CHR 0x00], rs_copyof = null, rs_destructor = null\<rparr>"
  obtain ID rnd where C: "length ID = 64" "set ID \<subseteq> set ID_alphabet" "w' = put_obj s (Struct (?rs ID)) (?w0\<lparr>entropy := rnd\<rparr>)"
    "mem ?w0 s = None" "s \<noteq> null" "store_inv {} w'"
    by (rule create_effect [OF plain_env_allocates inv0 room0 run]) (rule that)
  have fin: "finite (dom (mem w))" using tracker_okD(2) [OF store_invD(1) [OF I(1)]] .
  have ss: "n + 0 \<le> table_limit" using I(2) by (simp add: roomy_def table_limit_def)
  have "roomy n (put_obj s (Struct (?rs ID)) w)"
    by (rule roomy_put [OF I(2) fin]) (use ss in \<open>auto simp: string_map_ok\<close>)
  then have "roomy n w'" by (simp add: C(3) roomy_def)
  moreover have keep: "keeps w w'" using C(3,4) by (auto simp: keeps_def)
  moreover have none: "es s k = None" for k using I(3) [of s k] C(4) by (simp add: entry_def)
  moreover have "entry w' t k = es t k" for t k
    using I(3) [of t k] none C(3) by (auto simp: entry_def string_map_ok)
  ultimately have "populated w' (insert s S) es n"
    using populated_keeps_ID [OF P keep] C(1-3,6) by (auto simp: populated_def)
  moreover have "s \<notin> S" using C(4) I(4) [of s] by auto
  ultimately show thesis using that keep none by simp
qed

lemma populated_set:
  assumes P: "populated w S es (Suc n)" and s: "s \<in> S" "es s k = None" and v: "element_valid w (c_to_rpc junk t v)"
    and t: "ctype_to_rpc t \<noteq> RPC_string"
  obtains w' where "rpc_struct_set plain_env (cbs plain_env m) junk s k t v w = Inr (0, w')" "keeps w w'"
    "populated w' S (es(s := (es s)(k \<mapsto> c_to_rpc junk t v))) n"
proof -
  note I = populatedD [OF P]
  obtain rs where rs: "mem w s = Some (Struct rs)" using I(4) s(1) by blast
  have "entry w s k = None" using I(3) s(2) by simp
  then obtain w' where W: "rpc_struct_set plain_env (cbs plain_env m) junk s k t v w = Inr (0, w')" "store_inv {} w'" "roomy n w'" "keeps w w'"
    "\<forall>u j. entry w' u j = (if u = s \<and> j = k then Some (c_to_rpc junk t v) else entry w u j)"
    by (rule set_value [OF plain_env_allocates I(1) rs _ I(2) v cbs_simps(2) t])
  then have "populated w' S (es(s := (es s)(k \<mapsto> c_to_rpc junk t v))) n"
    using populated_keeps_ID [OF P W(4)] I(3) by (simp add: populated_def)
  then show thesis using that W by blast
qed

lemma populated_number:
  assumes P: "populated w S es (Suc n)" and s: "s \<in> S" "es s k = None"
    and es': "es' = es(s := (es s)(k \<mapsto> c_to_rpc [] C_uint64 v))"
  obtains w' where "keeps w w'" "populated w' S es' n"
proof -
  have v: "element_valid w (c_to_rpc [] C_uint64 v)" by (simp add: element_valid_def counted_type_def c_to_rpc_fields rpc_is_pointer_def)
  show thesis by (rule populated_set [OF P s v]) (use that es' in auto)
qed

lemma populated_struct:
  assumes P: "populated w S es (Suc n)" and s: "s \<in> S" "es s k = None" "q \<in> S"
  obtains w' where "keeps w w'" "populated w' S (es(s := (es s)(k \<mapsto> c_to_rpc [] C_rpc_struct q))) n"
proof -
  have "element_valid w (c_to_rpc [] C_rpc_struct q)"
    using populatedD(4) [OF P s(3)] by (auto simp: element_valid_def c_to_rpc_fields otype_def rpc_is_pointer_def)
  then show thesis by (rule populated_set [OF P s(1,2)]) (use that in auto)
qed

lemma populated_text:
  assumes P: "populated w S es (Suc (Suc n))" and s: "s \<in> S" "es s k = None"
  obtains w' e where "keeps w w'" "populated w' S (es(s := (es s)(k \<mapsto> e))) n" "rt_type e = RPC_string"
    "mem w' (ptr_value e) = Some (Cstring str)"
proof -
  obtain p w1 where 1: "mem w1 p = Some (Cstring str)" "p \<noteq> null" "keeps w w1" "populated w1 S es (Suc n)"
    by (rule populated_object [OF P, of "Cstring str"]) simp_all
  note I = populatedD [OF 1(4)]
  obtain rs where rs: "mem w1 s = Some (Struct rs)" using I(4) s(1) by blast
  have new: "entry w1 s k = None" using I(3) s(2) by simp
  have valid: "element_valid w1 (c_to_rpc [] C_char_ptr p)"
    using 1(1,2) by (simp add: element_valid_def c_to_rpc_fields otype_def rpc_is_pointer_def)
  obtain w' e where W: "store_inv {} w'" "roomy n w'" "keeps w1 w'" "rt_type e = RPC_string"
    "\<forall>u j. entry w' u j = (if u = s \<and> j = k then Some e else entry w1 u j)" "mem w' (ptr_value e) = Some (Cstring str)"
    by (rule set_typed [OF plain_env_allocates I(1) rs new I(2) valid cbs_simps(2)]) (use 1(1) in auto)
  have "populated w' S (es(s := (es s)(k \<mapsto> e))) n"
    using populated_keeps_ID [OF 1(4) W(3)] I(3) W by (simp add: populated_def)
  then show thesis using that keeps_trans [OF 1(3) W(3)] W(4,6) by blast
qed

end
