(* ===== verification/Object_Claims.thy ===== *)
theory Object_Claims
  imports Object_Calls Store_Examples
begin

text \<open>
  What the objects of a server promise: a registered object is found by its name and by its ID; a call hands
  the arguments to the function in order and stores what it returns; and what goes wrong with nested calls
  and with functions that take a varying number of arguments.
\<close>

section \<open>An example\<close>

text \<open>An object that offers a function that adds one or more numbers, two numbers, and an empty reply.\<close>

definition adder :: rpc_function where
  "adder = \<lparr>prototype = Some [1], prototype_len = 1, return_type = 1, fnptr = 0x1000\<rparr>"

definition adding :: ffi where
  "adding = \<lparr>ffi_prep_cif_var = \<lambda>len n rtype ts. True, ffi_call = \<lambda>p rtype ts args g. Inr (sum_list args, g)\<rparr>"

definition number :: "64 word \<Rightarrow> rpc_type_t" where
  "number v = c_to_rpc [] C_uint64 v"

lemma number_fields [simp]:
  "rt_type (number v) = RPC_number" "rpc_output C_uint64 (replicate 8 0) (number v) = le_bytes 8 v"
  by (simp_all add: number_def c_to_rpc_def rpc_output_def memcpy_def)

lemma number_valid [simp]: "element_valid w (number v)"
  by (simp add: element_valid_def counted_type_def)

lemma decimal_01 [simp]: "decimal 0 = ''0''" "decimal (Suc 0) = ''1''"
  by (subst decimal.simps, code_simp)+

lemma adder_example:
  obtains g S es cobj fn params reply where
    "populated (ro_store g) S es 800" "registry_ok g" "RO_object_stack g = None"
    "{RO_cobject_bname g, RO_cobject_bid g, RO_protocache g, cobj, params, reply} \<subseteq> S"
    "distinct [RO_cobject_bname g, RO_cobject_bid g, RO_protocache g, cobj, params, reply]"
    "mem (ro_store g) fn = Some (Function adder)"
    "es = (\<lambda>s k. None)(cobj := [''add'' \<mapsto> c_to_rpc [] C_rpc_function fn], params := [''0'' \<mapsto> number 3, ''1'' \<mapsto> number 4])"
proof -
  let ?e = "\<lambda>s k. None" and ?n = "\<lambda>k. (800 :: nat) + k"
  have p0: "populated empty_store {} ?e (Suc (?n 99))" using populated_empty by simp
  obtain bn w1 where 1: "populated w1 {bn} ?e (Suc (?n 98))" by (rule populated_create [OF p0]) simp
  obtain bi w2 where 2: "bi \<notin> {bn}" "populated w2 {bi, bn} ?e (Suc (?n 97))" by (rule populated_create [OF 1]) simp
  obtain pc w3 where 3: "pc \<notin> {bi, bn}" "populated w3 {pc, bi, bn} ?e (Suc (?n 96))" by (rule populated_create [OF 2(2)]) simp
  obtain c w4 where 4: "c \<notin> {pc, bi, bn}" "populated w4 {c, pc, bi, bn} ?e (Suc (?n 95))" by (rule populated_create [OF 3(2)]) simp
  obtain pa w5 where 5: "pa \<notin> {c, pc, bi, bn}" "populated w5 {pa, c, pc, bi, bn} ?e (Suc (?n 94))"
    by (rule populated_create [OF 4(2)]) simp
  obtain re w6 where 6: "re \<notin> {pa, c, pc, bi, bn}" "populated w6 {re, pa, c, pc, bi, bn} ?e (Suc (?n 93))" by (rule populated_create [OF 5(2)]) simp
  obtain fn w7 where 7: "mem w7 fn = Some (Function adder)" "populated w7 {re, pa, c, pc, bi, bn} ?e (Suc (?n 92))"
    by (rule populated_object [OF 6(2), of "Function adder"]) simp_all
  let ?f = "c_to_rpc [] C_rpc_function fn"
  have "element_valid w7 ?f" using 7(1) by (simp add: element_valid_def c_to_rpc_fields otype_def)
  then obtain w8 where 8: "keeps w7 w8" "populated w8 {re, pa, c, pc, bi, bn} (?e(c := (?e c)(''add'' \<mapsto> ?f))) (Suc (?n 91))"
    by (rule populated_set [OF 7(2), where k = "''add''" and s = c, rotated 2]) simp_all
  obtain w9 where 9: "keeps w8 w9" "populated w9 {re, pa, c, pc, bi, bn} (?e(c := [''add'' \<mapsto> ?f], pa := [''0'' \<mapsto> number 3])) (Suc (?n 90))"
    by (rule populated_number [OF 8(2), where k = "''0''" and s = pa and v = 3]) (use 5(1) in \<open>simp_all add: number_def\<close>)
  obtain w where w: "keeps w9 w" "populated w {re, pa, c, pc, bi, bn} (?e(c := [''add'' \<mapsto> ?f], pa := [''0'' \<mapsto> number 3, ''1'' \<mapsto> number 4])) (?n 90)"
    by (rule populated_number [OF 9(2), where k = "''1''" and s = pa and v = 4]) (simp_all add: number_def)
  let ?g = "\<lparr>ro_store = w, RO_cobject_bname = bn, RO_cobject_bid = bi, RO_protocache = pc, RO_lobjects = null, RO_object_stack = None\<rparr>"
  have fn: "mem w fn = Some (Function adder)" using keepsD(3) [OF w(1) keepsD(3) [OF 9(1) keepsD(3) [OF 8(1) 7(1)]]] .
  have "registry_ok ?g" using w(2) 2(1) 3(1) unfolding registry_ok_def by (auto simp: populated_def; blast)
  moreover have "populated w {re, pa, c, pc, bi, bn} (?e(c := [''add'' \<mapsto> ?f], pa := [''0'' \<mapsto> number 3, ''1'' \<mapsto> number 4])) 800"
    using w(2) roomy_less [of "?n 90" w 800] by (auto simp: populated_def)
  ultimately show thesis
    using that [of ?g "{re, pa, c, pc, bi, bn}" _ c pa re fn] fn 2(1) 3(1) 4(1) 5(1) 6(1) by auto
qed

section \<open>Registering\<close>

lemma registry_keeps:
  assumes "registry_ok g" "keeps (ro_store g) w'" "store_inv {} w'" shows "registry_ok (g\<lparr>ro_store := w'\<rparr>)"
  using assms keepsD(1) [OF assms(2)] by (auto simp: registry_ok_def; blast)

text \<open>C11: Registering an object under a name that is free, with an ID that is neither registered nor used as
  a name, succeeds; it is then found by the name and by its ID, and all other names and IDs stand for the
  same objects as before.\<close>

theorem registered_object_found:
  assumes "allocator (e_malloc E)" "registry_ok g" "roomy 2 (ro_store g)" "cb_increment cb = Some (rpc_struct_increment_cb E)"
    "mem (ro_store g) cobj = Some (Struct rc)" "c_string (rs_ID rc) = Inr ID"
    "entry (ro_store g) (RO_cobject_bname g) name = None" "entry (ro_store g) (RO_cobject_bname g) ID = None"
    "entry (ro_store g) (RO_cobject_bid g) ID = None"
  shows "\<exists>g'. rpc_cobject_set E cb name cobj g = Inr (0, g') \<and> registry_ok g' \<and>
    rpc_cobject_get name g' = Inr cobj \<and> rpc_cobject_get ID g' = Inr cobj \<and>
    (\<forall>n. n \<noteq> name \<longrightarrow> n \<noteq> ID \<longrightarrow> rpc_cobject_get n g' = rpc_cobject_get n g)"
proof -
  let ?w = "ro_store g" and ?e = "c_to_rpc [] C_rpc_struct cobj"
  obtain a b where R: "store_inv {} ?w" "mem ?w (RO_cobject_bname g) = Some (Struct a)" "mem ?w (RO_cobject_bid g) = Some (Struct b)"
    "RO_cobject_bname g \<noteq> RO_cobject_bid g"
    using assms(2) by (auto simp: registry_ok_def)
  have room: "roomy (Suc (Suc 0)) ?w" using assms(3) by (simp add: numeral_eq_Suc)
  have e: "rt_type ?e = RPC_struct" "ptr_value ?e = cobj" by (simp_all add: c_to_rpc_fields)
  have valid: "element_valid ?w ?e" using assms(5) e by (simp add: element_valid_def otype_def)
  obtain w1 where S1: "rpc_struct_set E cb [] (RO_cobject_bname g) name C_rpc_struct cobj ?w = Inr (0, w1)" "store_inv {} w1"
    "roomy (Suc 0) w1" "keeps ?w w1"
    "\<forall>u j. entry w1 u j = (if u = RO_cobject_bname g \<and> j = name then Some ?e else entry ?w u j)"
    by (rule set_value [OF assms(1) R(1,2) assms(7) room valid assms(4)]) simp
  obtain b1 rc1 where K1: "mem w1 (RO_cobject_bid g) = Some (Struct b1)" "mem w1 cobj = Some (Struct rc1)" "rs_ID rc1 = rs_ID rc"
    using keepsD(1) [OF S1(4)] R(3) assms(5) by blast
  have ID: "rpc_struct_id_get cobj w1 = Inr ID"
    using K1(2,3) assms(6) store_inv_alive [OF S1(2) K1(2)] by (simp add: rpc_struct_id_get_def the_struct_def)
  have new: "entry w1 (RO_cobject_bid g) ID = None" using S1(5) R(4) assms(9) by simp
  obtain w2 where S2: "rpc_struct_set E cb [] (RO_cobject_bid g) ID C_rpc_struct cobj w1 = Inr (0, w2)" "store_inv {} w2"
    "keeps w1 w2" "\<forall>u j. entry w2 u j = (if u = RO_cobject_bid g \<and> j = ID then Some ?e else entry w1 u j)"
    by (rule set_value [OF assms(1) S1(2) K1(1) new S1(3) keeps_element [OF S1(4) valid] assms(4)]) simp
  let ?g = "g\<lparr>ro_store := w2\<rparr>"
  have run: "rpc_cobject_set E cb name cobj g = Inr (0, ?g)"
    using S1(1) S2(1) ID by (simp add: rpc_cobject_set_def on_store_def)
  have ok: "registry_ok ?g" by (rule registry_keeps [OF assms(2) keeps_trans [OF S1(4) S2(3)] S2(2)])
  have "registered ?g n = (if n = name \<or> n = ID then Some cobj else registered g n)" for n
    using R(4) assms(7-9) e by (auto simp: registered_def Let_def S1(5) S2(4) split: option.split)
  then show ?thesis using run ok by (simp add: cobject_get_registered [OF ok] cobject_get_registered [OF assms(2)])
qed

theorem registered_object_found_witness:
  "\<exists>g cobj g'. rpc_cobject_set plain_env (cbs plain_env 0) ''adder'' cobj g = Inr (0, g') \<and>
     rpc_cobject_get ''adder'' g' = Inr cobj"
proof -
  obtain g S es cobj fn params reply where P: "populated (ro_store g) S es 800" "registry_ok g"
    "{RO_cobject_bname g, RO_cobject_bid g, RO_protocache g, cobj, params, reply} \<subseteq> S"
    "distinct [RO_cobject_bname g, RO_cobject_bid g, RO_protocache g, cobj, params, reply]"
    "es = (\<lambda>s k. None)(cobj := [''add'' \<mapsto> c_to_rpc [] C_rpc_function fn], params := [''0'' \<mapsto> number 3, ''1'' \<mapsto> number 4])"
    by (rule adder_example)
  obtain rc ID where c: "mem (ro_store g) cobj = Some (Struct rc)" "c_string (rs_ID rc) = Inr ID"
    by (rule populated_ID [OF P(1), of cobj]) (use P(3) in auto)
  have free: "entry (ro_store g) (RO_cobject_bname g) k = None" "entry (ro_store g) (RO_cobject_bid g) k = None" for k
    using P(4) by (auto simp: populatedD(3) [OF P(1)] P(5))
  have "roomy 2 (ro_store g)" by (rule roomy_less [OF populatedD(2) [OF P(1)]]) simp
  from registered_object_found [OF plain_env_allocates P(2) this cbs_simps(2) c free(1) free(1) free(2), of 0 "''adder''"]
  show ?thesis by blast
qed

section \<open>Calling\<close>

text \<open>An object offers a function under a name, and the function accepts the arguments.\<close>

definition offers :: "store \<Rightarrow> addr \<Rightarrow> string \<Rightarrow> addr \<Rightarrow> rpc_function \<Rightarrow> bool" where
  "offers w cobj name fn f \<longleftrightarrow>
     (\<exists>e. entry w cobj name = Some e \<and> rt_type e = RPC_function \<and> ptr_value e = fn \<and> mem w fn = Some (Function f))"

definition accepts :: "rpc_function \<Rightarrow> store \<Rightarrow> addr \<Rightarrow> bool" where
  "accepts f w params \<longleftrightarrow>
     (\<exists>ts. prototype f = Some ts \<and> prototype_len f = int (length ts) \<and> length ts < 2 ^ 31 \<and>
       length ts \<le> hb_size (struct_map params w) \<and> (\<forall>j<length ts. enum_value (argument_type w params j) = ts ! j))"

definition arguments :: "store \<Rightarrow> addr \<Rightarrow> 64 word list" where
  "arguments w params = map (argument_word w params) [0..<hb_size (struct_map params w)]"

definition passed_types :: "store \<Rightarrow> addr \<Rightarrow> ffi_type list" where
  "passed_types w params =
     map (\<lambda>j. rpctype_to_libffi ! enum_value (argument_type w params j)) [0..<hb_size (struct_map params w)]"

definition cache_key :: "string \<Rightarrow> string \<Rightarrow> string" where
  "cache_key ID name = ID @ '' : '' @ name"

text \<open>A function at an address that computes its result from its arguments.\<close>

definition computes :: "ffi \<Rightarrow> rpc_function \<Rightarrow> ffi_type list \<Rightarrow> (64 word list \<Rightarrow> 64 word) \<Rightarrow> bool" where
  "computes F f ts impl \<longleftrightarrow>
     ffi_prep_cif_var F (prototype_len f) (length ts) (rpctype_to_libffi ! return_type f) ts \<and>
     (\<forall>args g. ffi_call F (fnptr f) (rpctype_to_libffi ! return_type f) ts args g = Inr (impl args, g))"

lemma call_resolved:
  assumes inv: "store_inv {} (ro_store g)" and obj: "mem (ro_store g) cobj = Some (Struct rc)" "c_string (rs_ID rc) = Inr ID"
    and fn: "offers (ro_store g) cobj name fn f" and params: "mem (ro_store g) params = Some (Struct rp)" and acc: "accepts f (ro_store g) params"
  shows "rpc_cobject_call E cb F cobj name params reply g =
    andthen (cached_prototype E cb (cache_key ID name) params g) (\<lambda>(p, g1). perform_call E cb F cobj fn p params reply g1)"
proof -
  have c0: "cobj \<noteq> null" by (rule store_inv_alive [OF inv obj(1)])
  obtain e where e: "entry (ro_store g) cobj name = Some e" "rt_type e = RPC_function" "ptr_value e = fn" "mem (ro_store g) fn = Some (Function f)"
    using fn by (auto simp: offers_def)
  obtain ts where ts: "prototype f = Some ts" "prototype_len f = int (length ts)" "length ts < 2 ^ 31"
    "length ts \<le> hb_size (rs_map rp)" "\<forall>j<length ts. enum_value (argument_type (ro_store g) params j) = ts ! j"
    using acc params by (auto simp: accepts_def struct_map_def)
  have "length ts < 2 ^ 64" using ts(3) by simp
  note eq = proto_equals_types [OF inv params this]
  have "get_pointer cobj name C_rpc_function null (ro_store g) = Inr (0, fn)"
    using get_pointer_entry [OF inv obj(1), of C_rpc_function name null] e by simp
  then show ?thesis
    using c0 e(4) store_inv_alive [OF inv e(4)] eq ts obj
    by (simp add: rpc_cobject_call_def the_function_def rpc_struct_id_get_def the_struct_def cache_key_def)
qed

lemma cache_miss:
  assumes E: "allocator (e_malloc E)" and inv: "store_inv {} (ro_store g)" and pc: "mem (ro_store g) (RO_protocache g) = Some (Struct c)"
    and params: "mem (ro_store g) params = Some (Struct rp)" and none: "entry (ro_store g) (RO_protocache g) key = None"
    and room: "roomy (Suc (Suc n)) (ro_store g)" and cb: "cb_increment cb = Some (rpc_struct_increment_cb E)"
  obtains p w' where "cached_prototype E cb key params g = Inr (p, g\<lparr>ro_store := w'\<rparr>)" "store_inv {} w'" "roomy n w'"
    "keeps (ro_store g) w'" "mem w' p = Some (Ffi_Types (passed_types (ro_store g) params))"
    "\<forall>s k. entry w' s k = (if s = RO_protocache g \<and> k = key then Some (c_to_rpc [] C_other_ptr p) else entry (ro_store g) s k)"
proof -
  let ?w = "ro_store g" and ?ts = "passed_types (ro_store g) params"
  have "card (dom (mem ?w)) < 2 ^ 63" using room by (simp add: roomy_def)
  then obtain p where p: "new_obj E (Ffi_Types ?ts) ?w = Inr (p, put_obj p (Ffi_Types ?ts) ?w)" "mem ?w p = None" "p \<noteq> null"
    using new_obj_fresh [OF E inv] by metis
  let ?w1 = "put_obj p (Ffi_Types ?ts) ?w"
  have inv1: "store_inv {} ?w1" by (rule add_object [OF inv p(2,3)]) simp_all
  have room1: "roomy (Suc n) ?w1"
    by (rule roomy_put [OF room tracker_okD(2) [OF store_invD(1) [OF inv]]]) simp_all
  have keep1: "keeps ?w ?w1" by (rule keeps_put_new [OF p(2)])
  have ent1: "entry ?w1 s k = entry ?w s k" for s k using p(2) by (auto simp: entry_def)
  obtain c1 where pc1: "mem ?w1 (RO_protocache g) = Some (Struct c1)" using keepsD(1) [OF keep1 pc] by blast
  have valid: "element_valid ?w1 (c_to_rpc [] C_other_ptr p)"
    using p(3) by (simp add: element_valid_def c_to_rpc_fields counted_type_def)
  obtain w' where S: "rpc_struct_set E cb [] (RO_protocache g) key C_other_ptr p ?w1 = Inr (0, w')" "store_inv {} w'" "roomy n w'"
    "keeps ?w1 w'" "\<forall>u j. entry w' u j = (if u = RO_protocache g \<and> j = key then Some (c_to_rpc [] C_other_ptr p) else entry ?w1 u j)"
    by (rule set_value [OF E inv1 pc1 _ room1 valid cb]) (use none ent1 in simp_all)
  have miss: "get_pointer (RO_protocache g) key C_other_ptr null ?w = Inr (1, null)"
    using get_pointer_entry [OF inv pc, of C_other_ptr key null] none by simp
  have args: "argument_types params ?w 0 (hb_size (rs_map rp)) = Inr ?ts"
    using argument_types_list [OF inv params, of 0 "hb_size (rs_map rp)"] params by (simp add: passed_types_def struct_map_def)
  have len: "rpc_struct_length params ?w = Inr (hb_size (rs_map rp))"
    using params store_inv_alive [OF inv params] by (simp add: rpc_struct_length_def the_struct_def)
  have run: "cached_prototype E cb key params g = Inr (p, g\<lparr>ro_store := w'\<rparr>)"
    using miss len args p(1) S(1) by (simp add: cached_prototype_def on_store_def)
  have types: "mem w' p = Some (Ffi_Types ?ts)" using keepsD(5) [OF S(4), of p] by simp
  show thesis by (rule that [OF run S(2,3) keeps_trans [OF keep1 S(4)] types]) (simp add: S(5) ent1)
qed

lemma cache_hit:
  assumes "store_inv {} (ro_store g)" "mem (ro_store g) (RO_protocache g) = Some (Struct c)"
    "entry (ro_store g) (RO_protocache g) key = Some e" "rt_type e = RPC_unknown"
  shows "cached_prototype E cb key params g = Inr (ptr_value e, g)"
  using get_pointer_entry [OF assms(1,2), of C_other_ptr key null] assms(3,4) by (simp add: cached_prototype_def)

text \<open>The number of elements, from the entries.\<close>

lemma size_entries:
  assumes "store_inv X w" "mem w s = Some (Struct rs)"
  shows "hb_size (struct_map s w) = card {k. entry w s k \<noteq> None}"
  using assms(2) hm.count [OF store_inv_struct(1) [OF assms]] by (simp add: struct_map_def entry_def dom_def)

lemma same_arguments:
  assumes "store_inv {} w" "store_inv {} w'" "keeps w w'" "mem w params = Some (Struct rp)"
    "\<And>k. entry w' params k = entry w params k"
  shows "hb_size (struct_map params w') = hb_size (struct_map params w)" "arguments w' params = arguments w params"
proof -
  obtain rp' where p': "mem w' params = Some (Struct rp')" using keepsD(1) [OF assms(3,4)] by blast
  show size: "hb_size (struct_map params w') = hb_size (struct_map params w)"
    by (simp add: size_entries [OF assms(1,4)] size_entries [OF assms(2) p'] assms(5))
  show "arguments w' params = arguments w params"
    by (simp add: arguments_def size argument_word_def argument_def assms(5))
qed

lemma perform_call_computes:
  assumes E: "allocator (e_malloc E)" and inv: "store_inv {} (ro_store g)" and room: "roomy (Suc n) (ro_store g)"
    and cb: "cb_increment cb = Some (rpc_struct_increment_cb E)" and calls: "queue_ok (object_stack g)" "calls g = []"
    and fn: "mem (ro_store g) fn = Some (Function f)" and params: "mem (ro_store g) params = Some (Struct rp)"
    and ts: "mem (ro_store g) p = Some (Ffi_Types ts)" "length ts = hb_size (struct_map params (ro_store g))"
    and impl: "computes F f ts impl" and rt: "return_type f = enum_value t" "t \<in> {RPC_none, RPC_number, RPC_real}"
    and out: "mem (ro_store g) reply = Some (Struct ro)" "entry (ro_store g) reply ''return'' = None"
  obtains w' q where "perform_call E cb F cobj fn p params reply g =
      Inr (ERR_RPC_OK, g\<lparr>RO_object_stack := Some q, ro_store := w'\<rparr>)" "store_inv {} w'" "keeps (ro_store g) w'"
    "queue_ok q" "queue_list q = []"
    "\<forall>s k. entry w' s k = (if s = reply \<and> k = ''return'' \<and> t \<noteq> RPC_none then Some (return_element t (impl (arguments (ro_store g) params)))
      else entry (ro_store g) s k)"
proof -
  let ?w = "ro_store g" and ?r = "impl (arguments (ro_store g) params)"
  have sz: "hb_size (struct_map params ?w) = hb_size (rs_map rp)" using params by (simp add: struct_map_def)
  have "calls_ok g" using calls by (simp add: calls_ok_def queue_limit_def)
  then obtain q1 where q1: "rpc_cobject_push cobj g = Inr (g\<lparr>RO_object_stack := Some q1\<rparr>)" "queue_ok q1" "queue_list q1 = [cobj]"
    using push_calls [of g cobj] calls(2) by auto
  let ?g1 = "g\<lparr>RO_object_stack := Some q1\<rparr>"
  obtain q where q: "rpc_cobject_pop ?g1 = Inr (?g1\<lparr>RO_object_stack := Some q\<rparr>)" "queue_ok q" "queue_list q = []"
    using pop_calls [of ?g1 cobj "[]"] q1(2,3) by (auto simp: calls_def)
  have args: "ffi_arguments params ?w 0 (hb_size (rs_map rp)) = Inr (arguments ?w params)"
    using ffi_arguments_list [OF inv params, of 0 "hb_size (rs_map rp)"] by (simp add: arguments_def sz)
  have len: "rpc_struct_length params ?w = Inr (hb_size (rs_map rp))"
    using params store_inv_alive [OF inv params] by (simp add: rpc_struct_length_def the_struct_def)
  have rtype: "libffi_type (return_type f) = Inr (rpctype_to_libffi ! return_type f)"
    using rt by (auto simp: libffi_type_def rpctype_to_libffi_def)
  obtain w' where W: "store_return E cb (return_type f) ?r reply ?w = Inr w'" "store_inv {} w'" "keeps ?w w'"
    "\<forall>s k. entry w' s k = (if s = reply \<and> k = ''return'' \<and> t \<noteq> RPC_none then Some (return_element t ?r) else entry ?w s k)"
  proof (cases "t = RPC_none")
    case True
    then show thesis using that [of ?w] inv rt(1) by (simp add: store_return_def all_types_def)
  next
    case False
    let ?e = "return_element t ?r"
    have t: "\<not> rpc_is_pointer t" "t \<noteq> RPC_unknown" "t \<noteq> RPC_string" "\<not> counted_type t" using rt(2) False by (auto simp: counted_type_def)
    have e: "rt_type ?e = t" by (simp add: return_element_def)
    have "element_valid ?w ?e" using t by (simp add: element_valid_def e)
    then obtain w' e' where S: "rpc_struct_set_internal E cb reply (Some ''return'') ?e ?w = Inr (0, w')" "store_inv {} w'" "roomy n w'"
      "keeps ?w w'" "\<forall>u j. entry w' u j = (if u = reply \<and> j = ''return'' then Some e' else entry ?w u j)"
      "rt_type e' = rt_type ?e" "rt_type ?e \<noteq> RPC_string \<Longrightarrow> e' = ?e"
      by (rule set_any [OF E inv out room _ cb]) (rule that)
    moreover have "store_return E cb (return_type f) ?r reply ?w =
        andthen (rpc_struct_set_internal E cb reply (Some ''return'') ?e ?w) (\<lambda>(r, w1). Inr w1)"
      using rt False by (auto simp: store_return_def all_types_def)
    ultimately show thesis using that [of w'] t(3) e False by simp
  qed
  have types: "the_ffi_types ?w p = Inr ts" using ts(1) store_inv_alive [OF inv ts(1)] by (simp add: the_ffi_types_def)
  have the_fn: "the_function ?w fn = Inr f" using fn store_inv_alive [OF inv fn] by (simp add: the_function_def)
  have "perform_call E cb F cobj fn p params reply g = Inr (ERR_RPC_OK, g\<lparr>RO_object_stack := Some q, ro_store := w'\<rparr>)"
    using the_fn len rtype types args q1(1) q(1) W(1) impl ts(2) sz
    by (simp add: perform_call_def computes_def rpc_function_get_fnptr_def on_store_only_def)
  then show thesis using that W(2-4) q(2,3) by blast
qed

text \<open>Calling a function that an object offers, with arguments that its prototype accepts, in a
  thread that is not in a call: the function at the address of the description is called once, with the
  64-bit values of all arguments in the order of their numbers and with the libffi types of their tags;
  what it returns, if anything, is set in the reply under "return". The call returns no error, leaves the
  stack of calls empty, and changes nothing else but the cache of prototypes.\<close>

theorem call_runs_function:
  assumes "allocator (e_malloc E)" "registry_ok g" "roomy 4 (ro_store g)" "cb_increment cb = Some (rpc_struct_increment_cb E)"
    "queue_ok (object_stack g)" "calls g = []"
    "mem (ro_store g) cobj = Some (Struct rc)" "c_string (rs_ID rc) = Inr ID" "offers (ro_store g) cobj name fn f"
    "mem (ro_store g) params = Some (Struct rp)" "accepts f (ro_store g) params" "params \<noteq> RO_protocache g"
    "entry (ro_store g) (RO_protocache g) (cache_key ID name) = None"
    "computes F f (passed_types (ro_store g) params) impl"
    "return_type f = enum_value t" "t \<in> {RPC_none, RPC_number, RPC_real}"
    "mem (ro_store g) reply = Some (Struct ro)" "entry (ro_store g) reply ''return'' = None" "reply \<noteq> RO_protocache g"
  shows "\<exists>g'. rpc_cobject_call E cb F cobj name params reply g = Inr (ERR_RPC_OK, g') \<and> registry_ok g' \<and> calls g' = [] \<and>
    (t \<noteq> RPC_none \<longrightarrow> entry (ro_store g') reply ''return'' = Some (return_element t (impl (arguments (ro_store g) params)))) \<and>
    (\<forall>s k. s \<noteq> RO_protocache g \<longrightarrow> \<not> (s = reply \<and> k = ''return'') \<longrightarrow> entry (ro_store g') s k = entry (ro_store g) s k)"
proof -
  let ?w = "ro_store g" and ?ts = "passed_types (ro_store g) params"
  obtain c where R: "store_inv {} ?w" "mem ?w (RO_protocache g) = Some (Struct c)"
    using assms(2) by (auto simp: registry_ok_def)
  have four: "roomy (Suc (Suc (Suc (Suc 0)))) ?w" using assms(3) by (simp add: numeral_eq_Suc)
  obtain p w1 where C: "cached_prototype E cb (cache_key ID name) params g = Inr (p, g\<lparr>ro_store := w1\<rparr>)" "store_inv {} w1"
    "roomy (Suc (Suc 0)) w1" "keeps ?w w1" "mem w1 p = Some (Ffi_Types ?ts)"
    "\<forall>s k. entry w1 s k = (if s = RO_protocache g \<and> k = cache_key ID name then Some (c_to_rpc [] C_other_ptr p) else entry ?w s k)"
    by (rule cache_miss [OF assms(1) R assms(10,13) four assms(4)])
  let ?g1 = "g\<lparr>ro_store := w1\<rparr>"
  obtain rp1 ro1 where K: "mem w1 params = Some (Struct rp1)" "mem w1 reply = Some (Struct ro1)"
    using keepsD(1) [OF C(4)] assms(10,17) by blast
  have fn1: "mem w1 fn = Some (Function f)" using assms(9) keepsD(3) [OF C(4)] by (auto simp: offers_def)
  have "entry w1 params k = entry ?w params k" for k using C(6) assms(12) by simp
  note A = same_arguments [OF R(1) C(2,4) assms(10) this]
  have G: "store_inv {} (ro_store ?g1)" "roomy (Suc (Suc 0)) (ro_store ?g1)" "queue_ok (object_stack ?g1)" "calls ?g1 = []"
    "mem (ro_store ?g1) fn = Some (Function f)" "mem (ro_store ?g1) params = Some (Struct rp1)"
    "mem (ro_store ?g1) p = Some (Ffi_Types ?ts)" "length ?ts = hb_size (struct_map params (ro_store ?g1))"
    "mem (ro_store ?g1) reply = Some (Struct ro1)" "entry (ro_store ?g1) reply ''return'' = None"
    using C(2,3,5,6) K fn1 assms(5,6,18,19) A(1) by (simp_all add: calls_def passed_types_def)
  obtain w' q where P: "perform_call E cb F cobj fn p params reply ?g1 =
      Inr (ERR_RPC_OK, ?g1\<lparr>RO_object_stack := Some q, ro_store := w'\<rparr>)" "store_inv {} w'" "keeps (ro_store ?g1) w'"
    "queue_ok q" "queue_list q = []"
    "\<forall>s k. entry w' s k = (if s = reply \<and> k = ''return'' \<and> t \<noteq> RPC_none
      then Some (return_element t (impl (arguments (ro_store ?g1) params))) else entry (ro_store ?g1) s k)"
    by (rule perform_call_computes [OF assms(1) G(1,2) assms(4) G(3-8) assms(14-16) G(9,10)])
  let ?g' = "g\<lparr>RO_object_stack := Some q, ro_store := w'\<rparr>"
  have "rpc_cobject_call E cb F cobj name params reply g = Inr (ERR_RPC_OK, ?g')"
    using call_resolved [OF R(1) assms(7-11), where E = E and cb = cb and F = F and reply = reply] C(1) P(1) by simp
  moreover have "registry_ok ?g'"
    using registry_keeps [OF assms(2) keeps_trans [OF C(4)] P(2)] P(3) by (simp add: registry_ok_def)
  moreover have "calls ?g' = []" using P(5) by (simp add: calls_def object_stack_def rpc_object_thread_init_def)
  moreover have "t \<noteq> RPC_none \<longrightarrow> entry w' reply ''return'' = Some (return_element t (impl (arguments ?w params)))"
    using P(6) A(2) by simp
  moreover have "\<forall>s k. s \<noteq> RO_protocache g \<longrightarrow> \<not> (s = reply \<and> k = ''return'') \<longrightarrow> entry w' s k = entry ?w s k"
    using P(6) C(6) by auto
  ultimately show ?thesis by (intro exI [of _ ?g']) simp
qed

lemma adder_facts:
  assumes P: "populated w S es n" and S: "params \<in> S" and fn: "es cobj ''add'' = Some (c_to_rpc [] C_rpc_function fn)" "mem w fn = Some (Function adder)"
    and es: "es params = [''0'' \<mapsto> number 3, ''1'' \<mapsto> number 4]"
  shows "offers w cobj ''add'' fn adder" "accepts adder w params" "arguments w params = [3, 4]" "hb_size (struct_map params w) = 2"
proof -
  note e = populatedD(3) [OF P]
  obtain rp where s: "mem w params = Some (Struct rp)" using populatedD(4) [OF P S] by blast
  have pe: "entry w params k = [''0'' \<mapsto> number 3, ''1'' \<mapsto> number 4] k" for k by (simp add: e es)
  have "{k. entry w params k \<noteq> None} = {''0'', ''1''}" by (auto simp: pe)
  then show size: "hb_size (struct_map params w) = 2"
    using size_entries [OF populatedD(1) [OF P] s] by simp
  have arg0: "argument_type w params 0 = RPC_number"
    by (simp add: argument_type_def argument_def pe)
  then show "accepts adder w params" using size by (simp add: accepts_def adder_def)
  show "offers w cobj ''add'' fn adder" using fn by (simp add: offers_def e c_to_rpc_fields)
  show "arguments w params = [3, 4]"
    unfolding arguments_def size by (simp add: argument_word_def argument_def pe upt_rec numeral_2_eq_2)
qed

lemma adder_ready:
  obtains g cobj rc ID fn params rp reply ro where "registry_ok g" "roomy 800 (ro_store g)" "RO_object_stack g = None"
    "mem (ro_store g) cobj = Some (Struct rc)" "c_string (rs_ID rc) = Inr ID" "offers (ro_store g) cobj ''add'' fn adder"
    "mem (ro_store g) params = Some (Struct rp)" "accepts adder (ro_store g) params" "hb_size (rs_map rp) = 2"
    "arguments (ro_store g) params = [3, 4]" "params \<noteq> RO_protocache g" "mem (ro_store g) reply = Some (Struct ro)"
    "entry (ro_store g) reply ''return'' = None" "reply \<noteq> RO_protocache g" "\<forall>k. entry (ro_store g) (RO_protocache g) k = None"
    "\<exists>S es. populated (ro_store g) S es 800 \<and> RO_protocache g \<in> S \<and> es (RO_protocache g) = Map.empty"
    "cobj \<noteq> RO_protocache g"
proof -
  obtain g S es cobj fn params reply where P: "populated (ro_store g) S es 800" "registry_ok g" "RO_object_stack g = None"
    "{RO_cobject_bname g, RO_cobject_bid g, RO_protocache g, cobj, params, reply} \<subseteq> S"
    "distinct [RO_cobject_bname g, RO_cobject_bid g, RO_protocache g, cobj, params, reply]"
    "mem (ro_store g) fn = Some (Function adder)"
    "es = (\<lambda>s k. None)(cobj := [''add'' \<mapsto> c_to_rpc [] C_rpc_function fn], params := [''0'' \<mapsto> number 3, ''1'' \<mapsto> number 4])"
    by (rule adder_example)
  let ?w = "ro_store g"
  note e = populatedD(3) [OF P(1)]
  obtain rc ID where c: "mem ?w cobj = Some (Struct rc)" "c_string (rs_ID rc) = Inr ID"
    by (rule populated_ID [OF P(1), of cobj]) (use P(4) in auto)
  obtain rp ro where s: "mem ?w params = Some (Struct rp)" "mem ?w reply = Some (Struct ro)"
    using populatedD(4) [OF P(1), of params] populatedD(4) [OF P(1), of reply] P(4) by auto
  have S: "params \<in> S" and fn: "es cobj ''add'' = Some (c_to_rpc [] C_rpc_function fn)" and pe: "es params = [''0'' \<mapsto> number 3, ''1'' \<mapsto> number 4]"
    using P(4,5) by (auto simp: P(7))
  note F = adder_facts [OF P(1) S fn P(6) pe]
  have size': "hb_size (rs_map rp) = 2" using F(4) s(1) by (simp add: struct_map_def)
  have "es (RO_protocache g) = Map.empty" using P(5) by (auto simp: P(7))
  moreover have "es reply = Map.empty" using P(5) by (auto simp: P(7))
  moreover have "params \<noteq> RO_protocache g" "reply \<noteq> RO_protocache g" "cobj \<noteq> RO_protocache g" using P(5) by auto
  moreover have "RO_protocache g \<in> S" using P(4) by simp
  moreover have "\<exists>S es. populated ?w S es 800 \<and> RO_protocache g \<in> S \<and> es (RO_protocache g) = Map.empty"
    using P(1,4,5) by (intro exI [of _ S] exI [of _ es]) (auto simp: P(7))
  ultimately show thesis
    using that [OF P(2) populatedD(2) [OF P(1)] P(3) c F(1) s(1) F(2) size' F(3) _ s(2)] by (simp add: e)
qed

theorem call_runs_function_witness:
  "\<exists>g cobj params reply g'. rpc_cobject_call plain_env (cbs plain_env 0) adding cobj ''add'' params reply g = Inr (ERR_RPC_OK, g') \<and>
     entry (ro_store g') reply ''return'' = Some (return_element RPC_number 7)"
proof -
  obtain g cobj rc ID fn params rp reply ro where A: "registry_ok g" "roomy 800 (ro_store g)" "RO_object_stack g = None"
    "mem (ro_store g) cobj = Some (Struct rc)" "c_string (rs_ID rc) = Inr ID" "offers (ro_store g) cobj ''add'' fn adder"
    "mem (ro_store g) params = Some (Struct rp)" "accepts adder (ro_store g) params"
    "arguments (ro_store g) params = [3, 4]" "params \<noteq> RO_protocache g" "mem (ro_store g) reply = Some (Struct ro)"
    "entry (ro_store g) reply ''return'' = None" "reply \<noteq> RO_protocache g" "\<forall>k. entry (ro_store g) (RO_protocache g) k = None"
    by (rule adder_ready) (rule that)
  have stack: "queue_ok (object_stack g)" "calls g = []"
    using A(3) init_list [of null] by (simp_all add: calls_def object_stack_def rpc_object_thread_init_def)
  have room: "roomy 4 (ro_store g)" by (rule roomy_less [OF A(2)]) simp
  have none: "entry (ro_store g) (RO_protocache g) (cache_key ID ''add'') = None" using A(14) by blast
  have impl: "computes adding adder (passed_types (ro_store g) params) sum_list" by (simp add: computes_def adding_def)
  have rt: "return_type adder = enum_value RPC_number" "RPC_number \<in> {RPC_none, RPC_number, RPC_real}" by (simp_all add: adder_def)
  from call_runs_function [OF plain_env_allocates A(1) room cbs_simps(2) stack A(4-8,10) none impl rt A(11-13), of 0]
  obtain g' where g': "rpc_cobject_call plain_env (cbs plain_env 0) adding cobj ''add'' params reply g = Inr (ERR_RPC_OK, g')"
    "entry (ro_store g') reply ''return'' = Some (return_element RPC_number (sum_list (arguments (ro_store g) params)))"
    by fastforce
  then show ?thesis using A(9) by (intro exI conjI) simp_all
qed

section \<open>Nested calls\<close>

text \<open>C31: The stack of calls is a queue. While a function called by a function runs, the current object
  is still that of the outer call; and once the inner call has returned, the outer function finds the
  object of the inner one.\<close>

theorem nested_call_sees_wrong_object:
  assumes "calls_ok g" "calls g = [outer]"
  shows "\<exists>g1 g2. rpc_cobject_push inner g = Inr g1 \<and> rpc_cobject_current g1 = Inr (outer, g1) \<and>
    rpc_cobject_pop g1 = Inr g2 \<and> rpc_cobject_current g2 = Inr (inner, g2)"
proof -
  obtain q where q: "rpc_cobject_push inner g = Inr (g\<lparr>RO_object_stack := Some q\<rparr>)" "queue_ok q" "queue_list q = [outer, inner]"
    using push_calls [OF assms(1), of inner] assms(2) by auto
  let ?g1 = "g\<lparr>RO_object_stack := Some q\<rparr>"
  obtain q2 where q2: "rpc_cobject_pop ?g1 = Inr (?g1\<lparr>RO_object_stack := Some q2\<rparr>)" "queue_ok q2" "queue_list q2 = [inner]"
    using pop_calls [of ?g1 outer "[inner]"] q by (auto simp: calls_def)
  let ?g2 = "g\<lparr>RO_object_stack := Some q2\<rparr>"
  have "rpc_object_thread_init ?g1 = ?g1" "rpc_object_thread_init ?g2 = ?g2" by (simp_all add: rpc_object_thread_init_def)
  then show ?thesis
    using q q2 current_calls [of ?g1 outer "[inner]"] current_calls [of ?g2 inner "[]"] by (auto simp: calls_def)
qed

theorem nested_call_sees_wrong_object_witness:
  "\<exists>g g1. calls g = [1] \<and> rpc_cobject_push 2 g = Inr g1 \<and> rpc_cobject_current g1 = Inr (1, g1)"
proof -
  let ?g = "\<lparr>ro_store = empty_store, RO_cobject_bname = 1, RO_cobject_bid = 2, RO_protocache = 3, RO_lobjects = null, RO_object_stack = None\<rparr>"
  have e: "queue_ok (object_stack ?g)" "calls ?g = []"
    using init_list [of null] by (simp_all add: calls_def object_stack_def rpc_object_thread_init_def)
  then have "calls_ok ?g" by (simp add: calls_ok_def queue_limit_def)
  then obtain q where "queue_ok q" "queue_list q = calls ?g @ [1]" by (rule push_calls [where c = 1])
  then have q: "queue_ok q" "queue_list q = [1]" using e(2) by simp_all
  let ?g1 = "?g\<lparr>RO_object_stack := Some q\<rparr>"
  have g1: "calls_ok ?g1" "calls ?g1 = [1]" using q
    by (simp_all add: calls_ok_def calls_def queue_limit_def object_stack_def rpc_object_thread_init_def)
  from nested_call_sees_wrong_object [OF g1, of 2]
  obtain g2 where "rpc_cobject_push 2 ?g1 = Inr g2 \<and> rpc_cobject_current g2 = Inr (1, g2)" by blast
  then show ?thesis using g1(2) by blast
qed

section \<open>The cache of prototypes\<close>



section \<open>Calls that are refused\<close>

lemma accepts_prototype:
  assumes "store_inv {} w" "mem w params = Some (Struct rp)" "prototype f = Some ts" "prototype_len f = int (length ts)" "length ts < 2 ^ 31"
  shows "proto_equals (prototype f) (prototype_len f) params w = Inr (if accepts f w params then 1 else 0)"
proof -
  have "length ts < 2 ^ 64" using assms(5) by simp
  from proto_equals_types [OF assms(1,2) this] show ?thesis
    using assms(2-5) by (auto simp: accepts_def struct_map_def)
qed

lemma offered_or_not:
  assumes "store_inv {} w" "mem w cobj = Some (Struct rc)"
  obtains (none) "\<forall>fn f. \<not> offers w cobj name fn f" "get_pointer cobj name C_rpc_function null w = Inr (1, null)"
  | (some) fn f where "offers w cobj name fn f" "get_pointer cobj name C_rpc_function null w = Inr (0, fn)" "mem w fn = Some (Function f)"
proof (cases "\<exists>e. entry w cobj name = Some e \<and> rt_type e = RPC_function")
  case True
  then obtain e f where "entry w cobj name = Some e" "rt_type e = RPC_function" "mem w (ptr_value e) = Some (Function f)"
    using element_object(2) [OF assms(1)] by blast
  then show thesis
    using some [of "ptr_value e" f] get_pointer_entry [OF assms, of C_rpc_function name null] by (simp add: offers_def)
next
  case False
  then show thesis
    using none get_pointer_entry [OF assms, of C_rpc_function name null] by (fastforce simp: offers_def split: option.splits)
qed

text \<open>C12: A call is made only if the object offers the function and the arguments have the types of its
  prototype, in their order: otherwise the call is refused with the error that says so, and nothing
  changes.\<close>

theorem call_is_type_checked:
  assumes "store_inv {} (ro_store g)" "mem (ro_store g) cobj = Some (Struct rc)" "mem (ro_store g) params = Some (Struct rp)"
    "\<forall>fn f. offers (ro_store g) cobj name fn f \<longrightarrow>
      (\<exists>ts. prototype f = Some ts \<and> prototype_len f = int (length ts) \<and> length ts < 2 ^ 31)"
  shows "(\<exists>fn f. offers (ro_store g) cobj name fn f \<and> accepts f (ro_store g) params) \<or>
    rpc_cobject_call E cb F cobj name params reply g =
      Inr (if \<exists>fn f. offers (ro_store g) cobj name fn f then ERR_RPC_PROTOTYPE_DIFFERENT else ERR_RPC_DOESNT_EXIST, g)"
proof -
  have c0: "cobj \<noteq> null" by (rule store_inv_alive [OF assms(1,2)])
  show ?thesis
  proof (cases rule: offered_or_not [OF assms(1,2), of name, case_names none some])
    case none
    then show ?thesis using c0 by (simp add: rpc_cobject_call_def)
  next
    case (some fn f)
    then obtain ts where ts: "prototype f = Some ts" "prototype_len f = int (length ts)" "length ts < 2 ^ 31" using assms(4) by blast
    show ?thesis
      using c0 some accepts_prototype [OF assms(1,3) ts] store_inv_alive [OF assms(1) some(3)]
      by (auto simp: rpc_cobject_call_def the_function_def)
  qed
qed

text \<open>The adder without arguments.\<close>

theorem call_is_type_checked_witness:
  "\<exists>g cobj reply. rpc_cobject_call plain_env (cbs plain_env 0) adding cobj ''add'' reply reply g = Inr (ERR_RPC_PROTOTYPE_DIFFERENT, g)"
proof -
  obtain g S es cobj fn params reply where P: "populated (ro_store g) S es 800" "registry_ok g" "RO_object_stack g = None"
    "{RO_cobject_bname g, RO_cobject_bid g, RO_protocache g, cobj, params, reply} \<subseteq> S"
    "distinct [RO_cobject_bname g, RO_cobject_bid g, RO_protocache g, cobj, params, reply]"
    "mem (ro_store g) fn = Some (Function adder)"
    "es = (\<lambda>s k. None)(cobj := [''add'' \<mapsto> c_to_rpc [] C_rpc_function fn], params := [''0'' \<mapsto> number 3, ''1'' \<mapsto> number 4])"
    by (rule adder_example)
  let ?w = "ro_store g"
  have ent: "entry ?w s k = es s k" for s k by (rule populatedD(3) [OF P(1)])
  obtain rc ro where s: "mem ?w cobj = Some (Struct rc)" "mem ?w reply = Some (Struct ro)"
    using populatedD(4) [OF P(1), of cobj] populatedD(4) [OF P(1), of reply] P(4) by auto
  have only: "f = adder" if "offers ?w cobj ''add'' fn' f" for fn' f
    using that P(5,6) by (auto simp: offers_def ent P(7) c_to_rpc_fields)
  have "es reply = Map.empty" using P(5) by (auto simp: P(7))
  then have "argument_type ?w reply 0 = RPC_none" by (simp add: argument_type_def argument_def ent)
  then have no: "\<not> accepts adder ?w reply" by (auto simp: accepts_def adder_def)
  have "offers ?w cobj ''add'' fn adder" using P(5,6) by (auto simp: offers_def ent P(7) c_to_rpc_fields)
  moreover have "\<forall>fn f. offers ?w cobj ''add'' fn f \<longrightarrow>
      (\<exists>ts. prototype f = Some ts \<and> prototype_len f = int (length ts) \<and> length ts < 2 ^ 31)"
  proof (intro allI impI)
    fix fn' f assume "offers ?w cobj ''add'' fn' f"
    then have "f = adder" by (rule only)
    then show "\<exists>ts. prototype f = Some ts \<and> prototype_len f = int (length ts) \<and> length ts < 2 ^ 31" by (simp add: adder_def)
  qed
  from call_is_type_checked [OF populatedD(1) [OF P(1)] s this, of plain_env "cbs plain_env 0" adding reply]
  have "rpc_cobject_call plain_env (cbs plain_env 0) adding cobj ''add'' reply reply g =
      Inr (if \<exists>fn f. offers ?w cobj ''add'' fn f then ERR_RPC_PROTOTYPE_DIFFERENT else ERR_RPC_DOESNT_EXIST, g)"
    using only no by blast
  ultimately show ?thesis by (intro exI [of _ g] exI [of _ cobj] exI [of _ reply]) auto
qed

end
