(* ===== verification/Network_Claims.thy ===== *)
theory Network_Claims
  imports Rpc_Network Store_Examples
begin

text \<open>
  What the exchange of messages promises over a connection that loses nothing, what happens to messages that
  arrive in parts, and what the table of persons does.
\<close>

lemma queue_ok_size: "queue_ok q \<Longrightarrow> sc_queue_size q = length (queue_list q)"
  by (simp add: queue_size queue_ok_def)

section \<open>Text and bytes\<close>

lemma bytes_text_bytes [simp]: "bytes_text (text_bytes s) = s"
proof -
  have "char_of (unat (word_of_nat (of_char c) :: byte)) = c" for c :: char
    by (simp add: unat_of_nat take_bit_nat_eq_self)
  then show ?thesis by (simp add: bytes_text_def text_bytes_def comp_def)
qed

lemma length_text_bytes [simp]: "length (text_bytes s) = length s"
  by (simp add: text_bytes_def)

section \<open>Messages in order\<close>

text \<open>A connection on which everything sent at \<open>a\<close> arrives at \<open>b\<close> in order, and a request for bytes that have
  arrived is answered in full: \<open>pending\<close> are the bytes on the way.\<close>

locale stream =
  fixes K :: "'k kernel" and a b :: int and pending :: "'k \<Rightarrow> byte list"
  assumes send: "\<exists>k'. k_send K a bs k = (int (length bs), k') \<and> pending k' = pending k @ bs"
    and recv: "n \<le> length (pending k) \<Longrightarrow> \<exists>k'. k_recv K b n k = (take n (pending k), k') \<and> pending k' = drop n (pending k)"
begin

definition frame :: "string \<Rightarrow> byte list" where
  "frame s = le_bytes 8 (of_nat (length s)) @ text_bytes s"

lemma send_frame:
  assumes "json_dumps T j = Some s"
  obtains k' where "rpc_net_send_json K T a j k = (0, k')" "pending k' = pending k @ frame s"
proof -
  obtain k1 where 1: "k_send K a (le_bytes 8 (of_nat (length s))) k = (8, k1)" "pending k1 = pending k @ le_bytes 8 (of_nat (length s))"
    using send [of "le_bytes 8 (of_nat (length s))" k] by auto
  obtain k2 where "k_send K a (text_bytes s) k1 = (int (length s), k2)" "pending k2 = pending k1 @ text_bytes s"
    using send [of "text_bytes s" k1] by auto
  then show thesis using that 1 assms by (simp add: rpc_net_send_json_def frame_def)
qed

lemma recv_frame:
  assumes "pending k = frame s @ rest" "length s < 2 ^ 64" "block (length s)"
  obtains k' where "rpc_net_recv_json K T block b k = (json_loadb T s, k')" "pending k' = rest"
proof -
  let ?l = "le_bytes 8 (of_nat (length s))"
  obtain k1 where 1: "k_recv K b 8 k = (?l, k1)" "pending k1 = text_bytes s @ rest"
    using recv [of 8 k] assms(1) by (auto simp: frame_def)
  have len: "unat (of_nat (length s) :: 64 word) = length s" using assms(2) by (simp add: unat_of_nat take_bit_nat_eq_self)
  obtain k2 where "k_recv K b (length s) k1 = (text_bytes s, k2)" "pending k2 = rest"
    using recv [of "length s" k1] 1(2) by auto
  then show thesis using that 1(1) len assms(3) by (simp add: rpc_net_recv_json_def)
qed

end

text \<open>Several messages one after the other.\<close>

fun send_all :: "'k kernel \<Rightarrow> 'j json_text \<Rightarrow> int \<Rightarrow> 'j list \<Rightarrow> 'k \<Rightarrow> int list \<times> 'k" where
  "send_all K T fd [] k = ([], k)"
| "send_all K T fd (j # js) k =
     (let (r, k1) = rpc_net_send_json K T fd j k; (rs, k2) = send_all K T fd js k1 in (r # rs, k2))"

fun recv_many :: "'k kernel \<Rightarrow> 'j json_text \<Rightarrow> (nat \<Rightarrow> bool) \<Rightarrow> int \<Rightarrow> nat \<Rightarrow> 'k \<Rightarrow> 'j option list \<times> 'k" where
  "recv_many K T block fd 0 k = ([], k)"
| "recv_many K T block fd (Suc n) k =
     (let (j, k1) = rpc_net_recv_json K T block fd k; (js, k2) = recv_many K T block fd n k1 in (j # js, k2))"

definition sendable :: "'j json_text \<Rightarrow> (nat \<Rightarrow> bool) \<Rightarrow> 'j \<Rightarrow> bool" where
  "sendable T block j \<longleftrightarrow>
     (case json_dumps T j of None \<Rightarrow> False | Some s \<Rightarrow> json_loadb T s = Some j \<and> length s < 2 ^ 64 \<and> block (length s))"

context stream
begin

lemma send_frames:
  assumes "\<forall>j\<in>set js. sendable T block j"
  obtains k' where "send_all K T a js k = (replicate (length js) 0, k')"
    "pending k' = pending k @ concat (map (\<lambda>j. frame (the (json_dumps T j))) js)"
  using assms
proof (induction js arbitrary: k thesis)
  case (Cons j js)
  obtain s where s: "json_dumps T j = Some s" using Cons.prems(2) by (auto simp: sendable_def split: option.splits)
  obtain k1 where 1: "rpc_net_send_json K T a j k = (0, k1)" "pending k1 = pending k @ frame s"
    by (rule send_frame [where k = k, OF s])
  have rest: "\<forall>j\<in>set js. sendable T block j" using Cons.prems(2) by simp
  obtain k2 where "send_all K T a js k1 = (replicate (length js) 0, k2)"
    "pending k2 = pending k1 @ concat (map (\<lambda>j. frame (the (json_dumps T j))) js)"
    by (rule Cons.IH [OF _ rest, of k1])
  then show ?case using Cons.prems(1) [of k2] 1 s by simp
qed simp

lemma recv_frames:
  assumes "\<forall>j\<in>set js. sendable T block j" "pending k = concat (map (\<lambda>j. frame (the (json_dumps T j))) js)"
  obtains k' where "recv_many K T block b (length js) k = (map Some js, k')" "pending k' = []"
  using assms
proof (induction js arbitrary: k thesis)
  case (Cons j js)
  obtain s where s: "json_dumps T j = Some s" "json_loadb T s = Some j" "length s < 2 ^ 64" "block (length s)"
    using Cons.prems(2) by (auto simp: sendable_def split: option.splits)
  have "pending k = frame s @ concat (map (\<lambda>j. frame (the (json_dumps T j))) js)" using Cons.prems(3) s(1) by simp
  then obtain k1 where 1: "rpc_net_recv_json K T block b k = (json_loadb T s, k1)"
    "pending k1 = concat (map (\<lambda>j. frame (the (json_dumps T j))) js)"
    using s(3,4) by (rule recv_frame)
  have rest: "\<forall>j\<in>set js. sendable T block j" using Cons.prems(2) by simp
  obtain k2 where "recv_many K T block b (length js) k1 = (map Some js, k2)" "pending k2 = []"
    by (rule Cons.IH [OF _ rest 1(2)])
  then show ?case using Cons.prems(1) [of k2] 1(1) s(2) by simp
qed simp

lemma in_order:
  assumes "\<forall>j\<in>set js. sendable T block j" "pending k = []"
  shows "\<exists>k1 k2. send_all K T a js k = (replicate (length js) 0, k1) \<and>
    recv_many K T block b (length js) k1 = (map Some js, k2) \<and> pending k2 = []"
proof -
  obtain k1 where 1: "send_all K T a js k = (replicate (length js) 0, k1)"
    "pending k1 = pending k @ concat (map (\<lambda>j. frame (the (json_dumps T j))) js)"
    by (rule send_frames [where k = k, OF assms(1)])
  then have "pending k1 = concat (map (\<lambda>j. frame (the (json_dumps T j))) js)" using assms(2) by simp
  then obtain k2 where "recv_many K T block b (length js) k1 = (map Some js, k2)" "pending k2 = []"
    by (rule recv_frames [OF assms(1)])
  then show ?thesis using 1(1) by blast
qed

end

text \<open>A kernel with one such connection, whose state is the bytes on the way.\<close>

definition pipe_kernel :: "byte list kernel" where
  "pipe_kernel = \<lparr>sk_shutdown = \<lambda>fd k. k, sk_close = \<lambda>fd k. k,
     k_send = \<lambda>fd bs k. (int (length bs), k @ bs), k_recv = \<lambda>fd n k. (take n k, drop n k)\<rparr>"

interpretation pipe: stream pipe_kernel a b "\<lambda>k. k"
  by unfold_locales (simp_all add: pipe_kernel_def)

text \<open>C10: Over a connection that loses nothing, messages that the JSON library prints and reads back are
  sent without an error and received one by one, as they were and in the order in which they were sent,
  with nothing left over.\<close>

theorem messages_arrive_in_order:
  assumes "\<forall>bs k. \<exists>k'. k_send K a bs k = (int (length bs), k') \<and> pending k' = pending k @ bs"
    and "\<forall>n k. n \<le> length (pending k) \<longrightarrow> (\<exists>k'. k_recv K b n k = (take n (pending k), k') \<and> pending k' = drop n (pending k))"
    and "\<forall>j\<in>set js. sendable T block j" "pending k = []"
  shows "\<exists>k1 k2. send_all K T a js k = (replicate (length js) 0, k1) \<and>
    recv_many K T block b (length js) k1 = (map Some js, k2) \<and> pending k2 = []"
proof -
  have "stream K a b pending" using assms(1,2) by unfold_locales blast+
  then show ?thesis using assms(3,4) by (rule stream.in_order)
qed

definition numeral_text :: "nat json_text" where
  "numeral_text = \<lparr>json_dumps = \<lambda>n. Some (replicate n CHR ''1''), json_loadb = \<lambda>s. Some (length s)\<rparr>"

theorem messages_arrive_in_order_witness:
  "\<exists>k1. send_all pipe_kernel numeral_text 4 [2, 0, 3] [] = ([0, 0, 0], k1) \<and>
     fst (recv_many pipe_kernel numeral_text (\<lambda>n. n < 100) 5 3 k1) = [Some 2, Some 0, Some 3]"
proof -
  have "\<forall>j\<in>set [2, 0, 3]. sendable numeral_text (\<lambda>n. n < 100) j" by (simp add: sendable_def numeral_text_def)
  from messages_arrive_in_order [of pipe_kernel 4 "\<lambda>k. k" 5 "[2, 0, 3]" numeral_text "\<lambda>n. n < 100" "[]", OF _ _ this]
  show ?thesis by (auto simp: pipe_kernel_def numeral_3_eq_3 numeral_2_eq_2)
qed

section \<open>Messages in parts\<close>

text \<open>C33: When a message arrives in parts, so that \<open>recv\<close> returns less than was announced, the connection is
  shut down and closed; no request is queued and nothing else in the process changes.\<close>

theorem split_message_closes_connection:
  assumes "0 \<le> fd" "fd < int (length (RN_persons p))" "RN_persons p ! nat fd = Some x"
    and "k_recv (pf_kernel P) fd 8 (pr_kernel p) = (le_bytes 8 (of_nat n), k1)" "n < 2 ^ 64"
    and "k_recv (pf_kernel P) fd n k1 = (part, k2)" "length part < n"
  shows "\<exists>k. net_read P N fd p =
    Inr (p\<lparr>pr_kernel := sk_close (pf_kernel P) fd (sk_shutdown (pf_kernel P) fd k)\<rparr>)"
proof -
  have "unat (of_nat n :: 64 word) = n" using assms(5) by (simp add: unat_of_nat take_bit_nat_eq_self)
  then obtain k where "rpc_net_recv_json (pf_kernel P) (pf_text P) (pf_block P) fd (pr_kernel p) = (None, k)"
    using assms(4,6,7) by (cases "pf_block P n") (simp_all add: rpc_net_recv_json_def)
  then show ?thesis
    using assms(1-3) by (intro exI [of _ k]) (simp add: net_read_def the_person_def rpc_net_recv_def drop_connection_def)
qed

text \<open>An example: a process without structs, and a platform for a given kernel.\<close>

definition idle_process :: "'k \<Rightarrow> rpc_net_person option list \<Rightarrow> 'k process" where
  "idle_process k ps =
     \<lparr>pr_objects = \<lparr>ro_store = empty_store\<lparr>entropy := replicate 64 1\<rparr>, RO_cobject_bname = null, RO_cobject_bid = null,
        RO_protocache = null, RO_lobjects = null, RO_object_stack = None\<rparr>,
      pr_kernel = k, RN_persons = ps, RS_netports = null, RS_persondata = null, RS_methods = null, RS_thpool = []\<rparr>"

definition plain_platform :: "'k kernel \<Rightarrow> (json, 'k) platform" where
  "plain_platform K =
     \<lparr>pf_env = plain_env, pf_cb = cbs plain_env 2,
      pf_ffi = \<lparr>ffi_prep_cif_var = \<lambda>len n rtype ts. True, ffi_call = \<lambda>p rtype ts args g. Inr (0, g)\<rparr>,
      pf_json = tree_json, pf_text = \<lparr>json_dumps = \<lambda>j. None, json_loadb = \<lambda>s. None\<rparr>, pf_kernel = K, pf_depth = 2,
      pf_block = \<lambda>n. True, pf_junk = replicate 8 0\<rparr>"

definition silent :: "'k rpc_net_notifier_callback" where
  "silent = \<lparr>notify = None, persondata_init = None, persondata_destroy = None\<rparr>"

definition short_kernel :: "int list kernel" where
  "short_kernel = \<lparr>sk_shutdown = \<lambda>fd k. k, sk_close = \<lambda>fd k. fd # k, k_send = \<lambda>fd bs k. (int (length bs), k),
     k_recv = \<lambda>fd n k. (if n = 8 then le_bytes 8 (of_nat 10) else [7, 7], k)\<rparr>"

theorem split_message_closes_connection_witness:
  "\<exists>x k. net_read (plain_platform short_kernel) silent 0 (idle_process [] [Some x]) = Inr (idle_process (0 # k) [Some x])"
proof -
  let ?x = "\<lparr>np_ID = [], np_request_que = sc_queue_init True null, np_fd = 0\<rparr>" and ?P = "plain_platform short_kernel"
  have len: "length [7 :: byte, 7] < (10 :: nat)" "(10 :: nat) < 2 ^ 64" by simp_all
  have "\<exists>k. net_read ?P silent 0 (idle_process [] [Some ?x]) = Inr ((idle_process [] [Some ?x])
      \<lparr>pr_kernel := sk_close (pf_kernel ?P) 0 (sk_shutdown (pf_kernel ?P) 0 k)\<rparr>)"
    by (rule split_message_closes_connection [where n = 10 and part = "[7, 7]" and x = ?x, OF _ _ _ _ len(2) _ len(1)])
      (simp_all add: idle_process_def plain_platform_def short_kernel_def)
  then show ?thesis by (auto simp: idle_process_def plain_platform_def short_kernel_def)
qed

section \<open>The table of persons\<close>

text \<open>Accepting a connection in a place of the table that is free, or behind its end by less than what the
  table grows by, puts a new person there, with an ID of 64 letters and digits, that descriptor and no
  requests; the other persons stay. The callback then runs on it.\<close>

theorem accept_registers_person:
  assumes "0 \<le> fd" "fd < int (length (RN_persons p)) + int HOLDER_MIN_ALLOC_FDS"
    and "fd < int (length (RN_persons p)) \<longrightarrow> RN_persons p ! nat fd = None"
    and "make_ID (take 64 (entropy (pr_store p))) (drop 64 (entropy (pr_store p))) = Inr (ID, rnd)"
    and "64 \<le> length (entropy (pr_store p))"
  shows "\<exists>p1 x. net_accept P N fd p = call_fd (persondata_init N) fd p1 \<and> the_person fd p1 = Inr (Some x) \<and>
    length (np_ID x) = 64 \<and> set (np_ID x) \<subseteq> set ID_alphabet \<and> np_fd x = fd \<and> rpc_net_person_request_ammount x = 0 \<and>
    (\<forall>g. g \<noteq> fd \<longrightarrow> g < int (length (RN_persons p)) \<longrightarrow> the_person g p1 = the_person g p)"
proof -
  let ?p1 = "make_personsfd_bigger fd p"
  let ?x = "\<lparr>np_ID = ID, np_request_que = sc_queue_init True null, np_fd = fd\<rparr>"
  let ?p2 = "set_person fd (Some ?x) (set_store ((pr_store ?p1)\<lparr>entropy := rnd\<rparr>) ?p1)"
  have len: "fd < int (length (RN_persons ?p1))" using assms(2) by (simp add: make_personsfd_bigger_def)
  have none: "RN_persons ?p1 ! nat fd = None"
    using assms(1-3) by (auto simp: make_personsfd_bigger_def nth_append not_less nat_less_iff HOLDER_MIN_ALLOC_FDS_def)
  have st: "pr_store ?p1 = pr_store p" by (simp add: make_personsfd_bigger_def pr_store_def)
  have run: "net_accept P N fd p = call_fd (persondata_init N) fd ?p2"
    using assms(1,4,5) len none st by (simp add: net_accept_def the_person_def RPC_STRUCT_ID_SIZE_def)
  have ID: "length ID = 64" "set ID \<subseteq> set ID_alphabet" using make_ID_chars [OF assms(4)] assms(5) by auto
  have "the_person fd ?p2 = Inr (Some ?x)"
    using assms(1) len by (simp add: the_person_def set_person_def set_store_def)
  moreover have "the_person g ?p2 = the_person g p" if "g \<noteq> fd" "g < int (length (RN_persons p))" for g
    using that assms(1)
    by (auto simp: the_person_def set_person_def set_store_def make_personsfd_bigger_def nth_append nat_less_iff nth_list_update)
  moreover have "rpc_net_person_request_ammount ?x = 0"
    by (simp add: rpc_net_person_request_ammount_def queue_ok_size [OF init_list(1)] init_list(2))
  ultimately show ?thesis using run ID by (intro exI [of _ ?p2] exI [of _ ?x]) simp
qed

theorem accept_registers_person_witness:
  "\<exists>p1 x. net_accept (plain_platform short_kernel) silent 5 (idle_process [] []) = Inr p1 \<and>
     the_person 5 p1 = Inr (Some x) \<and> length (np_ID x) = 64"
proof -
  let ?p = "idle_process [] [] :: int list process"
  obtain ID where "make_ID (replicate 64 1) [] = Inr (ID, [])"
    using make_ID_enough [of "replicate 64 1" "[]"] by auto
  then have ID: "make_ID (take 64 (entropy (pr_store ?p))) (drop 64 (entropy (pr_store ?p))) = Inr (ID, [])"
    by (simp add: idle_process_def pr_store_def)
  have hyps: "(5 :: int) < int (length (RN_persons ?p)) + int HOLDER_MIN_ALLOC_FDS" "64 \<le> length (entropy (pr_store ?p))"
    "(5 :: int) < int (length (RN_persons ?p)) \<longrightarrow> RN_persons ?p ! nat 5 = None"
    by (simp_all add: idle_process_def pr_store_def HOLDER_MIN_ALLOC_FDS_def)
  from accept_registers_person [of 5 ?p, OF _ hyps(1,3) ID hyps(2), of "plain_platform short_kernel" silent]
  show ?thesis by (auto simp: call_fd_def silent_def)
qed

text \<open>A descriptor that is further behind the end of the table than what the table grows by is used as an
  index outside the table.\<close>

theorem accept_outside_table_faults:
  assumes "fd \<ge> int (length (RN_persons p)) + int HOLDER_MIN_ALLOC_FDS"
  shows "net_accept P N fd p = Inl Out_Of_Bounds"
  using assms by (simp add: net_accept_def the_person_def make_personsfd_bigger_def HOLDER_MIN_ALLOC_FDS_def)

theorem accept_outside_table_faults_witness:
  "net_accept (plain_platform short_kernel) silent 128 (idle_process [] []) = Inl Out_Of_Bounds"
  by (rule accept_outside_table_faults) (simp add: idle_process_def HOLDER_MIN_ALLOC_FDS_def)

section \<open>Requests of a person that is gone\<close>

fun free_each :: "env \<Rightarrow> rpc_callbacks \<Rightarrow> addr list \<Rightarrow> store \<Rightarrow> store run" where
  "free_each E cb [] w = Inr w"
| "free_each E cb (r # rs) w = andthen (rpc_struct_free E cb r w) (free_each E cb rs)"

lemma free_requests_half:
  assumes "queue_ok q" "queue_list q = rs" "length rs \<le> n + i"
  shows "\<exists>q'. queue_list q' = drop ((length rs + 1 - i) div 2) rs \<and>
    (\<forall>w. free_requests E cb n i q w =
      andthen (free_each E cb (take ((length rs + 1 - i) div 2) rs) w) (\<lambda>w'. Inr (q', w')))"
  using assms
proof (induction n arbitrary: q rs i)
  case 0
  then show ?case using queue_ok_size [OF 0(1)] by (intro exI [of _ q]) simp
next
  case (Suc n)
  have size: "sc_queue_size q = length rs" using queue_ok_size [OF Suc.prems(1)] Suc.prems(2) by simp
  show ?case
  proof (cases "i < length rs")
    case False
    then show ?thesis using Suc.prems(2) size by (intro exI [of _ q]) simp
  next
    case True
    then obtain r rs' where rs: "rs = r # rs'" by (cases rs) auto
    obtain q1 where q1: "sc_queue_del_first q = Inr (r, q1)" "queue_ok q1" "queue_list q1 = rs'"
      using del_first_list [OF Suc.prems(1), of r rs'] Suc.prems(2) rs by auto
    have half: "(length rs + 1 - i) div 2 = Suc ((length rs' + 1 - Suc i) div 2)" using True rs by simp
    have "length rs' \<le> n + Suc i" using Suc.prems(3) rs by simp
    then obtain q' where q': "queue_list q' = drop ((length rs' + 1 - Suc i) div 2) rs'"
      "\<And>w. free_requests E cb n (Suc i) q1 w =
        andthen (free_each E cb (take ((length rs' + 1 - Suc i) div 2) rs') w) (\<lambda>w'. Inr (q', w'))"
      using Suc.IH [OF q1(2,3), of "Suc i"] by blast
    have "free_requests E cb (Suc n) i q w =
        andthen (rpc_struct_free E cb r w) (\<lambda>w1. free_requests E cb n (Suc i) q1 w1)" for w
      using True size q1(1) by simp
    then show ?thesis
      using q' unfolding half unfolding rs by (intro exI [of _ q']) (simp add: andthen_assoc)
  qed
qed

text \<open>C34: When a connection ends, only the first half of the requests that wait are released, and the others
  are not.\<close>

theorem discon_frees_half_of_requests:
  assumes "queue_ok q" "queue_list q = rs"
  shows "\<exists>q'. queue_list q' = drop ((length rs + 1) div 2) rs \<and>
    free_requests E cb (sc_queue_size q) 0 q w =
    andthen (free_each E cb (take ((length rs + 1) div 2) rs) w) (\<lambda>w'. Inr (q', w'))"
  using free_requests_half [OF assms, of "sc_queue_size q" 0 E cb] queue_ok_size [OF assms(1)] assms(2) by fastforce

theorem discon_frees_half_of_requests_witness:
  "\<exists>q q' cb. queue_list q = [7, 9] \<and> queue_list q' = [9] \<and>
     free_requests plain_env cb (sc_queue_size q) 0 q empty_store =
     andthen (rpc_struct_free plain_env cb 7 empty_store) (\<lambda>w'. Inr (q', w'))"
proof -
  let ?cb = "\<lparr>cb_increment = None, cb_decrement = None, cb_zero = None\<rparr>"
  obtain q1 where 1: "queue_ok q1" "queue_list q1 = [7 :: addr]"
    using add_last_list [OF init_list(1) [of null], of null 7] init_list(2) [of null] by (auto simp: queue_limit_def)
  obtain q where q: "queue_ok q" "queue_list q = [7 :: addr, 9]"
    using add_last_list [OF 1(1), of null 9] 1(2) by (auto simp: queue_limit_def)
  have e: "free_each plain_env ?cb [7] w = rpc_struct_free plain_env ?cb 7 w" for w
    by (cases "rpc_struct_free plain_env ?cb 7 w") simp_all
  from discon_frees_half_of_requests [OF q, of plain_env ?cb empty_store]
  obtain q' where "queue_list q' = [9]"
    "free_requests plain_env ?cb (sc_queue_size q) 0 q empty_store =
      andthen (free_each plain_env ?cb [7] empty_store) (\<lambda>w'. Inr (q', w'))" by auto
  then show ?thesis using q(2) unfolding e by blast
qed

end
