(* ===== verification/Server_Claims.thy ===== *)
theory Server_Claims
  imports Rpc_Server Object_Claims Network_Claims
begin

text \<open>
  What the server promises to its clients: a request is handled by the method it names, a request without one
  is refused, and a call of a function of a registered object returns what the function computes.
\<close>

section \<open>Requests\<close>

definition is_struct :: "store \<Rightarrow> addr \<Rightarrow> bool" where
  "is_struct w s \<longleftrightarrow> (\<exists>rs. mem w s = Some (Struct rs))"

lemma struct_keeps: "keeps w w' \<Longrightarrow> is_struct w s \<Longrightarrow> is_struct w' s"
  using keepsD(1) by (auto simp: is_struct_def; blast)

definition text_entry :: "store \<Rightarrow> addr \<Rightarrow> string \<Rightarrow> string \<Rightarrow> bool" where
  "text_entry w s k str \<longleftrightarrow> (\<exists>e. entry w s k = Some e \<and> rt_type e = RPC_string \<and> mem w (ptr_value e) = Some (Cstring str))"

definition struct_entry :: "store \<Rightarrow> addr \<Rightarrow> string \<Rightarrow> addr \<Rightarrow> bool" where
  "struct_entry w s k p \<longleftrightarrow> (\<exists>e. entry w s k = Some e \<and> rt_type e = RPC_struct \<and> ptr_value e = p)"

lemma text_pointer:
  assumes "store_inv {} w" "is_struct w s" "text_entry w s k str"
  obtains a where "get_pointer s k C_char_ptr null w = Inr (0, a)" "the_cstring w a = Inr str"
proof -
  obtain rs e where e: "mem w s = Some (Struct rs)" "entry w s k = Some e" "rt_type e = RPC_string"
    "mem w (ptr_value e) = Some (Cstring str)"
    using assms(2,3) by (auto simp: is_struct_def text_entry_def)
  show thesis
    using that [of "ptr_value e"] get_pointer_entry [OF assms(1) e(1), of C_char_ptr k null] e
      store_inv_alive [OF assms(1) e(4)]
    by (simp add: the_cstring_def)
qed

lemma struct_pointer:
  assumes "store_inv {} w" "is_struct w s" "struct_entry w s k p"
  shows "get_pointer s k C_rpc_struct null w = Inr (0, p)"
  using assms(2,3) get_pointer_entry [OF assms(1), of s _ C_rpc_struct k null] by (auto simp: is_struct_def struct_entry_def)

lemma any_pointer:
  assumes "store_inv {} w" "is_struct w s" "rpc_is_pointer (ctype_to_rpc t)"
  obtains r p where "get_pointer s k t null w = Inr (r, p)"
  using assms(2) get_pointer_entry [OF assms(1) _ assms(3), of s _ k null] that by (auto simp: is_struct_def split: option.splits if_splits)

text \<open>The table of methods after \<open>RS_init_methods\<close>.\<close>

definition methods_ok :: "(rpc_method \<Rightarrow> addr) \<Rightarrow> addr \<Rightarrow> store \<Rightarrow> bool" where
  "methods_ok code methods w \<longleftrightarrow>
     is_struct w methods \<and>
     (\<forall>k. entry w methods k = map_option (\<lambda>m. c_to_rpc [] C_other_ptr (code m)) (map_of method_names k))"

lemma method_at_code: "inj code \<Longrightarrow> method_at code (code m) = Inr m"
  by (cases m) (auto simp: method_at_def method_names_def inj_eq)

text \<open>Once the table is set up, a request is handled by the method it names, with the struct in "params" as
  parameters or NULL.\<close>

lemma dispatch:
  assumes "store_inv {} (ro_store g)" "inj code" "methods_ok code methods (ro_store g)" "is_struct (ro_store g) request"
  shows "rpc_server_localnet_job P code methods person request reply g =
    (case entry (ro_store g) request ''method'' of
       None \<Rightarrow> Inr (1, g)
     | Some e \<Rightarrow>
         if rt_type e \<noteq> RPC_string then Inr (1, g)
         else andthen (the_cstring (ro_store g) (ptr_value e)) (\<lambda>name.
           case map_of method_names name of
             None \<Rightarrow> Inr (1, g)
           | Some m \<Rightarrow>
               run_method P m person
                 (case entry (ro_store g) request ''params'' of
                    Some p \<Rightarrow> if rt_type p = RPC_struct then ptr_value p else null | None \<Rightarrow> null) reply g))"
proof -
  let ?w = "ro_store g"
  obtain rq ms where s: "mem ?w request = Some (Struct rq)" "mem ?w methods = Some (Struct ms)"
    using assms(3,4) by (auto simp: is_struct_def methods_ok_def)
  note get = get_pointer_entry [OF assms(1) s(1)] and get_method = get_pointer_entry [OF assms(1) s(2)]
  have handler: "get_pointer methods name C_other_ptr null ?w =
      Inr (case map_of method_names name of None \<Rightarrow> (1, null) | Some m \<Rightarrow> (0, code m))" for name
    using assms(3) by (simp add: get_method methods_ok_def c_to_rpc_fields split: option.split)
  show ?thesis
    by (auto simp: rpc_server_localnet_job_def get handler method_at_code [OF assms(2)] andthen_def split: option.split sum.split)
qed

text \<open>C27: A request that names no method, or none of the table, is refused and changes nothing.\<close>

theorem unknown_request_refused:
  assumes "store_inv {} (ro_store g)" "inj code" "methods_ok code methods (ro_store g)" "is_struct (ro_store g) request"
    and "\<forall>name. text_entry (ro_store g) request ''method'' name \<longrightarrow> name \<notin> fst ` set method_names"
  shows "rpc_server_localnet_job P code methods person request reply g = Inr (1, g)"
proof (cases "\<exists>e. entry (ro_store g) request ''method'' = Some e \<and> rt_type e = RPC_string")
  case True
  then obtain e str where e: "entry (ro_store g) request ''method'' = Some e" "rt_type e = RPC_string"
    "mem (ro_store g) (ptr_value e) = Some (Cstring str)"
    using element_object(3) [OF assms(1)] by blast
  then have "str \<notin> fst ` set method_names" using assms(5) by (auto simp: text_entry_def)
  then have "map_of method_names str = None" by (simp add: map_of_eq_None_iff)
  moreover have "the_cstring (ro_store g) (ptr_value e) = Inr str"
    using e(3) store_inv_alive [OF assms(1) e(3)] by (simp add: the_cstring_def)
  ultimately show ?thesis using e(1,2) by (simp add: dispatch [OF assms(1-4)])
qed (auto simp: dispatch [OF assms(1-4)] split: option.split)

section \<open>Setting up the methods\<close>

lemma set_methods_table:
  assumes E: "allocator (e_malloc E)" and cb: "cb_increment cb = Some (rpc_struct_increment_cb E)" and code: "\<forall>m. code m \<noteq> null"
    and inv: "store_inv {} w" "is_struct w s" "roomy (length ms + n) w" and ms: "distinct (map fst ms)" "\<forall>k\<in>set (map fst ms). entry w s k = None"
  obtains w' where "set_methods E cb junk code s ms w = Inr w'" "store_inv {} w'" "roomy n w'" "keeps w w'"
    "\<forall>k. entry w' s k = (case map_of ms k of None \<Rightarrow> entry w s k | Some m \<Rightarrow> Some (c_to_rpc [] C_other_ptr (code m)))"
    "\<forall>u k. u \<noteq> s \<longrightarrow> entry w' u k = entry w u k"
  using inv ms
proof (induction ms arbitrary: w thesis)
  case Nil
  show ?case by (rule Nil.prems(1) [of w]) (use Nil.prems in simp_all)
next
  case (Cons nm ms)
  obtain name m where nm: "nm = (name, m)" by (cases nm)
  obtain rs where rs: "mem w s = Some (Struct rs)" using Cons.prems(3) by (auto simp: is_struct_def)
  have new: "entry w s name = None" using Cons.prems(6) nm by simp
  have room: "roomy (Suc (length ms + n)) w" using Cons.prems(4) by simp
  have junk: "c_to_rpc junk C_other_ptr v = c_to_rpc [] C_other_ptr v" for v by (simp add: c_to_rpc_def)
  have valid: "element_valid w (c_to_rpc junk C_other_ptr (code m))"
    using code by (simp add: element_valid_def c_to_rpc_fields counted_type_def)
  have plain: "ctype_to_rpc C_other_ptr \<noteq> RPC_string" by simp
  obtain w1 where w1: "rpc_struct_set E cb junk s name C_other_ptr (code m) w = Inr (0, w1)" "store_inv {} w1" "roomy (length ms + n) w1"
    "keeps w w1" "\<forall>u j. entry w1 u j = (if u = s \<and> j = name then Some (c_to_rpc junk C_other_ptr (code m)) else entry w u j)"
    by (rule set_value [OF E Cons.prems(2) rs new room valid cb plain])
  have st: "is_struct w1 s" using keepsD(1) [OF w1(4) rs] by (auto simp: is_struct_def)
  have rest: "distinct (map fst ms)" "\<forall>k\<in>set (map fst ms). entry w1 s k = None"
    using Cons.prems(5,6) nm w1(5) by auto
  obtain w' where w': "set_methods E cb junk code s ms w1 = Inr w'" "store_inv {} w'" "keeps w1 w'" "roomy n w'"
    "\<forall>k. entry w' s k = (case map_of ms k of None \<Rightarrow> entry w1 s k | Some m \<Rightarrow> Some (c_to_rpc [] C_other_ptr (code m)))"
    "\<forall>u k. u \<noteq> s \<longrightarrow> entry w' u k = entry w1 u k"
    by (rule Cons.IH [OF _ w1(2) st w1(3) rest])
  have "map_of ms name = None" using Cons.prems(5) nm by (simp add: map_of_eq_None_iff)
  then have "\<forall>k. entry w' s k = (case map_of (nm # ms) k of None \<Rightarrow> entry w s k | Some m \<Rightarrow> Some (c_to_rpc [] C_other_ptr (code m)))"
    using w'(5) w1(5) nm junk by (auto split: option.split)
  then show ?case
    by (intro Cons.prems(1) [of w'] w'(2,4) keeps_trans [OF w1(4) w'(3)]) (use w1(1,5) w'(1,6) nm in simp_all)
qed

text \<open>Setting up the methods in an empty struct succeeds and makes the table that requests rely on.\<close>

theorem init_methods_registers_all:
  assumes "allocator (e_malloc (pf_env P))" "cb_increment (pf_cb P) = Some (rpc_struct_increment_cb (pf_env P))"
    "\<forall>m. code m \<noteq> null" "store_inv {} (pr_store p)" "is_struct (pr_store p) (RS_methods p)" "roomy 5 (pr_store p)"
    "\<forall>k. entry (pr_store p) (RS_methods p) k = None"
  shows "\<exists>p'. RS_init_methods P code p = Inr p' \<and> methods_ok code (RS_methods p') (pr_store p') \<and> store_inv {} (pr_store p')"
proof -
  have ms: "distinct (map fst method_names)" "roomy (length method_names + 0) (pr_store p)"
    using assms(6) by (simp_all add: method_names_def numeral_eq_Suc)
  have none: "\<forall>k\<in>set (map fst method_names). entry (pr_store p) (RS_methods p) k = None" using assms(7) by blast
  obtain w' where w': "set_methods (pf_env P) (pf_cb P) (pf_junk P) code (RS_methods p) method_names (pr_store p) = Inr w'"
    "store_inv {} w'" "keeps (pr_store p) w'"
    "\<forall>k. entry w' (RS_methods p) k =
      (case map_of method_names k of None \<Rightarrow> entry (pr_store p) (RS_methods p) k | Some m \<Rightarrow> Some (c_to_rpc [] C_other_ptr (code m)))"
    by (rule set_methods_table [OF assms(1-5) ms(2,1) none])
  have "is_struct w' (RS_methods p)" using assms(5) keepsD(1) [OF w'(3)] by (auto simp: is_struct_def; blast)
  then have "methods_ok code (RS_methods p) w'"
    using w'(4) assms(7) by (simp add: methods_ok_def split: option.split)
  then show ?thesis
    using w'(1,2) by (intro exI [of _ "set_store w' p"]) (simp add: RS_init_methods_def in_store_only_def set_store_def pr_store_def)
qed

section \<open>Calls of a client in the same process\<close>

text \<open>A request to call a function of an object.\<close>

definition call_request :: "store \<Rightarrow> addr \<Rightarrow> string \<Rightarrow> string \<Rightarrow> addr \<Rightarrow> bool" where
  "call_request w request object fn params \<longleftrightarrow>
     is_struct w request \<and> text_entry w request ''method'' ''call'' \<and>
     (\<exists>c. struct_entry w request ''params'' c \<and> is_struct w c \<and> text_entry w c ''object'' object \<and>
       text_entry w c ''function'' fn \<and> struct_entry w c ''params'' params)"

lemma call_request_runs:
  assumes inv: "store_inv {} (ro_store g)" "inj code" "methods_ok code methods (ro_store g)" and person: "is_struct (ro_store g) person"
    and req: "call_request (ro_store g) request object fn params"
    and obj: "\<And>l. rpc_cobject_get object (rpc_lobjects_load l g) = Inr cobj"
  obtains l where "rpc_server_localnet_job P code methods person request reply g =
    andthen (rpc_cobject_call (pf_env P) (pf_cb P) (pf_ffi P) cobj fn params reply (rpc_lobjects_load l g)) (\<lambda>(err, g2).
    andthen (report_error P err reply g2) (\<lambda>g3. Inr (0, g3)))"
proof -
  let ?w = "ro_store g"
  obtain c where c: "is_struct ?w request" "text_entry ?w request ''method'' ''call''" "struct_entry ?w request ''params'' c"
    "is_struct ?w c" "text_entry ?w c ''object'' object" "text_entry ?w c ''function'' fn" "struct_entry ?w c ''params'' params"
    using req by (auto simp: call_request_def)
  obtain e where e: "entry ?w request ''method'' = Some e" "rt_type e = RPC_string" "mem ?w (ptr_value e) = Some (Cstring ''call'')"
    using c(2) by (auto simp: text_entry_def)
  have "the_cstring ?w (ptr_value e) = Inr ''call''"
    using e(3) store_inv_alive [OF inv(1) e(3)] by (simp add: the_cstring_def)
  moreover have "map_of method_names ''call'' = Some Call" by (simp add: method_names_def)
  ultimately have run: "rpc_server_localnet_job P code methods person request reply g = call P person c reply g"
    using dispatch [OF inv c(1), of P person reply] e(1,2) c(3) by (auto simp: struct_entry_def)
  obtain r l where l: "get_pointer person ''lobjects'' C_rpc_struct null ?w = Inr (r, l)"
    using any_pointer [OF inv(1) person, of C_rpc_struct "''lobjects''"] by auto
  obtain a where a: "get_pointer c ''object'' C_char_ptr null ?w = Inr (0, a)" "the_cstring ?w a = Inr object"
    by (rule text_pointer [OF inv(1) c(4,5)])
  obtain b where b: "get_pointer c ''function'' C_char_ptr null ?w = Inr (0, b)" "the_cstring ?w b = Inr fn"
    by (rule text_pointer [OF inv(1) c(4,6)])
  have st: "ro_store (rpc_lobjects_load l g) = ?w" by (simp add: rpc_lobjects_load_def)
  show thesis
    by (rule that [of l]) (simp add: run call_def l a b struct_pointer [OF inv(1) c(4,7)] Let_def st obj)
qed


lemma populated_methods:
  assumes P: "populated w S es (5 + n)" and s: "s \<in> S" "\<forall>k. es s k = None" and code: "\<forall>m. code m \<noteq> null"
  obtains w' where "keeps w w'" "methods_ok code s w'"
    "populated w' S (es(s := \<lambda>k. map_option (\<lambda>m. c_to_rpc [] C_other_ptr (code m)) (map_of method_names k))) n"
proof -
  note I = populatedD [OF P]
  have st: "is_struct w s" using I(4) s(1) by (simp add: is_struct_def)
  have ms: "distinct (map fst method_names)" "roomy (length method_names + n) w" "\<forall>k\<in>set (map fst method_names). entry w s k = None"
    using I(2,3) s(2) by (simp_all add: method_names_def numeral_eq_Suc)
  obtain w' where w': "store_inv {} w'" "roomy n w'" "keeps w w'"
    "\<forall>k. entry w' s k = (case map_of method_names k of None \<Rightarrow> entry w s k | Some m \<Rightarrow> Some (c_to_rpc [] C_other_ptr (code m)))"
    "\<forall>u k. u \<noteq> s \<longrightarrow> entry w' u k = entry w u k"
    by (rule set_methods_table [OF plain_env_allocates cbs_simps(2) code I(1) st ms(2,1,3)])
  have m: "entry w' s k = map_option (\<lambda>m. c_to_rpc [] C_other_ptr (code m)) (map_of method_names k)" for k
    using w'(4) I(3) s(2) by (simp split: option.split)
  have "is_struct w' s" using st keepsD(1) [OF w'(3)] by (auto simp: is_struct_def; blast)
  then have "methods_ok code s w'" using m by (simp add: methods_ok_def)
  moreover have "populated w' S (es(s := \<lambda>k. map_option (\<lambda>m. c_to_rpc [] C_other_ptr (code m)) (map_of method_names k))) n"
    using populated_keeps_ID [OF P w'(3)] I(3) m w'(1,2,5) by (simp add: populated_def)
  ultimately show thesis using that w'(3) by blast
qed

text \<open>An adder is registered, and a client asks for the sum of 3 and 4.\<close>

definition handler_address :: "rpc_method \<Rightarrow> addr" where
  "handler_address m = (case m of Ping \<Rightarrow> 1 | Disconnect \<Rightarrow> 2 | Get_Cobject \<Rightarrow> 3 | Call \<Rightarrow> 4 | Is_Cobject \<Rightarrow> 5)"

lemma handler_address_ok: "inj handler_address" "\<forall>m. handler_address m \<noteq> null"
proof -
  show "inj handler_address"
  proof (rule injI)
    fix x y assume "handler_address x = handler_address y"
    then show "x = y" by (cases x; cases y) (simp_all add: handler_address_def)
  qed
  show "\<forall>m. handler_address m \<noteq> null"
  proof
    fix m show "handler_address m \<noteq> null" by (cases m) (simp_all add: handler_address_def)
  qed
qed

lemma service_example:
  obtains g S es cobj fn params reply me rq where
    "populated (ro_store g) S es 700" "registry_ok g" "RO_object_stack g = None"
    "{RO_protocache g, cobj, params, reply, me, rq} \<subseteq> S" "params \<noteq> RO_protocache g" "reply \<noteq> RO_protocache g"
    "mem (ro_store g) fn = Some (Function adder)" "es cobj ''add'' = Some (c_to_rpc [] C_rpc_function fn)"
    "es params = [''0'' \<mapsto> number 3, ''1'' \<mapsto> number 4]" "es reply = Map.empty" "es (RO_protocache g) = Map.empty"
    "methods_ok handler_address me (ro_store g)" "call_request (ro_store g) rq ''adder'' ''add'' params"
    "registered g ''adder'' = Some cobj"
proof -
  obtain g S es cobj fn params reply where P: "populated (ro_store g) S es 800" "registry_ok g" "RO_object_stack g = None"
    "{RO_cobject_bname g, RO_cobject_bid g, RO_protocache g, cobj, params, reply} \<subseteq> S"
    "distinct [RO_cobject_bname g, RO_cobject_bid g, RO_protocache g, cobj, params, reply]"
    "mem (ro_store g) fn = Some (Function adder)"
    "es = (\<lambda>s k. None)(cobj := [''add'' \<mapsto> c_to_rpc [] C_rpc_function fn], params := [''0'' \<mapsto> number 3, ''1'' \<mapsto> number 4])"
    by (rule adder_example)
  let ?bn = "RO_cobject_bname g" and ?n = "\<lambda>k. (700 :: nat) + k"
  have p0: "populated (ro_store g) S es (Suc (?n 99))" using P(1) by simp
  have bn: "?bn \<in> S" "es ?bn ''adder'' = None" "cobj \<in> S" using P(4,5) by (auto simp: P(7))
  obtain w1 where 1: "keeps (ro_store g) w1" "populated w1 S (es(?bn := (es ?bn)(''adder'' \<mapsto> c_to_rpc [] C_rpc_struct cobj))) (Suc (?n 98))"
    by (rule populated_struct [OF p0 bn]) simp
  define e1 where "e1 = es(?bn := (es ?bn)(''adder'' \<mapsto> c_to_rpc [] C_rpc_struct cobj))"
  obtain me w2 where 2: "me \<notin> S" "keeps w1 w2" "populated w2 (insert me S) e1 (Suc (?n 97))" "\<And>k. e1 me k = None"
    unfolding e1_def by (rule populated_create [OF 1(2)]) simp
  obtain rq w3 where 3: "rq \<notin> insert me S" "keeps w2 w3" "populated w3 (insert rq (insert me S)) e1 (Suc (?n 96))" "\<And>k. e1 rq k = None"
    by (rule populated_create [OF 2(3)]) simp
  obtain c w4 where 4: "c \<notin> insert rq (insert me S)" "keeps w3 w4" "populated w4 (insert c (insert rq (insert me S))) e1 (5 + ?n 91)"
    "\<And>k. e1 c k = None"
    by (rule populated_create [OF 3(3)]) simp
  let ?S = "insert c (insert rq (insert me S))"
  define e2 where "e2 = e1(me := \<lambda>k. map_option (\<lambda>m. c_to_rpc [] C_other_ptr (handler_address m)) (map_of method_names k))"
  obtain w5 where 5: "keeps w4 w5" "methods_ok handler_address me w5" "populated w5 ?S e2 (Suc (Suc (?n 89)))"
    unfolding e2_def by (rule populated_methods [OF 4(3), where s = me, OF _ _ handler_address_ok(2)]) (use 2(4) in auto)
  have free: "e2 rq = Map.empty" "e2 c = Map.empty" using 2(1) 3(1,4) 4(1,4) by (auto simp: e2_def)
  have in_S: "rq \<in> ?S" "c \<in> ?S" by simp_all
  obtain w6 t1 where 6: "keeps w5 w6" "populated w6 ?S (e2(rq := (e2 rq)(''method'' \<mapsto> t1))) (Suc (Suc (?n 87)))" "rt_type t1 = RPC_string"
    "mem w6 (ptr_value t1) = Some (Cstring ''call'')"
    by (rule populated_text [OF 5(3) in_S(1), of "''method''" "''call''"]) (simp_all add: free)
  have rq_c: "rq \<noteq> c" using 4(1) by auto
  obtain w7 t2 where 7: "keeps w6 w7" "populated w7 ?S (e2(rq := [''method'' \<mapsto> t1], c := [''object'' \<mapsto> t2])) (Suc (Suc (?n 85)))"
    "rt_type t2 = RPC_string" "mem w7 (ptr_value t2) = Some (Cstring ''adder'')"
    by (rule populated_text [OF 6(2) in_S(2), of "''object''" "''adder''"]) (use rq_c in \<open>simp_all add: free fun_upd_def\<close>)
  obtain w8 t3 where 8: "keeps w7 w8"
    "populated w8 ?S (e2(rq := [''method'' \<mapsto> t1], c := [''object'' \<mapsto> t2, ''function'' \<mapsto> t3])) (Suc (Suc (?n 83)))"
    "rt_type t3 = RPC_string" "mem w8 (ptr_value t3) = Some (Cstring ''add'')"
    by (rule populated_text [OF 7(2) in_S(2), of "''function''" "''add''"]) simp_all
  let ?st = "c_to_rpc [] C_rpc_struct"
  obtain w9 where 9: "keeps w8 w9" "populated w9 ?S (e2(rq := [''method'' \<mapsto> t1, ''params'' \<mapsto> ?st c], c := [''object'' \<mapsto> t2, ''function'' \<mapsto> t3])) (Suc (?n 83))"
    by (rule populated_struct [where k = "''params''", OF 8(2) in_S(1) _ in_S(2)]) (use rq_c in \<open>simp_all add: fun_upd_twist [OF rq_c]\<close>)
  define e3 where "e3 = e2(rq := [''method'' \<mapsto> t1, ''params'' \<mapsto> ?st c], c := [''object'' \<mapsto> t2, ''function'' \<mapsto> t3, ''params'' \<mapsto> ?st params])"
  have pS: "params \<in> ?S" using P(4) by simp
  obtain w where w: "keeps w9 w" "populated w ?S e3 (?n 83)"
    unfolding e3_def by (rule populated_struct [where k = "''params''", OF 9(2) in_S(2) _ pS]) simp_all
  let ?g = "g\<lparr>ro_store := w\<rparr>"
  note K = keeps_trans [OF 9(1) w(1)]
  note K8 = keeps_trans [OF 8(1) K] and K7 = keeps_trans [OF 7(1) keeps_trans [OF 8(1) K]]
  note K0 = keeps_trans [OF 1(1) keeps_trans [OF 2(2) keeps_trans [OF 3(2) keeps_trans [OF 4(2)
    keeps_trans [OF 5(1) keeps_trans [OF 6(1) K7]]]]]]
  have out: "x \<noteq> c" "x \<noteq> rq" "x \<noteq> me" if "x \<in> S" for x using that 2(1) 3(1) 4(1) by auto
  have old: "e3 x = e1 x" if "x \<in> S" for x using out [OF that] by (simp add: e3_def e2_def)
  have me: "me \<noteq> c" "me \<noteq> rq" using 3(1) 4(1) by auto
  have ent: "entry w x k = e3 x k" for x k by (rule populatedD(3) [OF w(2)])
  have sts: "is_struct w x" if "x \<in> ?S" for x using populatedD(4) [OF w(2) that] by (simp add: is_struct_def)
  have t: "mem w (ptr_value t1) = Some (Cstring ''call'')" "mem w (ptr_value t2) = Some (Cstring ''adder'')"
    "mem w (ptr_value t3) = Some (Cstring ''add'')"
    using keepsD(2) [OF K7 6(4)] keepsD(2) [OF K8 7(4)] keepsD(2) [OF K 8(4)] by simp_all
  have "methods_ok handler_address me w"
    using sts [of me] me by (simp add: methods_ok_def ent e3_def e2_def)
  moreover have "call_request w rq ''adder'' ''add'' params"
    unfolding call_request_def
  proof (intro conjI exI [of _ c])
    show "is_struct w rq" "is_struct w c" using sts by simp_all
    show "text_entry w rq ''method'' ''call''" "struct_entry w rq ''params'' c"
      using rq_c t(1) 6(3) by (simp_all add: text_entry_def struct_entry_def ent e3_def c_to_rpc_fields)
    show "text_entry w c ''object'' ''adder''" "text_entry w c ''function'' ''add''" "struct_entry w c ''params'' params"
      using t(2,3) 7(3) 8(3) by (simp_all add: text_entry_def struct_entry_def ent e3_def c_to_rpc_fields)
  qed
  moreover have "registered ?g ''adder'' = Some cobj"
    by (simp add: registered_def ent old [OF bn(1)] e1_def c_to_rpc_fields)
  moreover have "registry_ok ?g" by (rule registry_keeps [OF P(2) K0 populatedD(1) [OF w(2)]])
  moreover have "populated (ro_store ?g) ?S e3 700" using populated_less [OF w(2)] by simp
  moreover have "mem (ro_store ?g) fn = Some (Function adder)" using keepsD(3) [OF K0 P(6)] by simp
  moreover have "e3 cobj ''add'' = Some (c_to_rpc [] C_rpc_function fn)" "e3 params = [''0'' \<mapsto> number 3, ''1'' \<mapsto> number 4]"
    "e3 reply = Map.empty" "e3 (RO_protocache g) = Map.empty"
    using P(4,5) old by (auto simp: e1_def P(7))
  ultimately show thesis
    by (intro that [of ?g ?S e3 cobj params reply me rq fn]) (use P(3-5) in auto)
qed


theorem unknown_request_refused_witness:
  "\<exists>P code g methods person request reply. is_struct (ro_store g) request \<and>
     rpc_server_localnet_job (P :: (json, int list) platform) code methods person request reply g = Inr (1, g)"
proof -
  obtain g S es cobj fn params reply me rq where X:
    "populated (ro_store g) S es 700" "registry_ok g" "{RO_protocache g, cobj, params, reply, me, rq} \<subseteq> S"
    "es reply = Map.empty" "methods_ok handler_address me (ro_store g)"
    by (rule service_example)
  have inv: "store_inv {} (ro_store g)" using X(2) by (simp add: registry_ok_def)
  have st: "is_struct (ro_store g) reply" using X(3) populatedD(4) [OF X(1)] by (auto simp: is_struct_def)
  have "\<forall>name. text_entry (ro_store g) reply ''method'' name \<longrightarrow> name \<notin> fst ` set method_names"
    using X(4) by (simp add: text_entry_def populatedD(3) [OF X(1)])
  from unknown_request_refused [OF inv handler_address_ok(1) X(5) st this, of "plain_platform short_kernel"]
  show ?thesis using st by blast
qed

theorem init_methods_registers_all_witness:
  "\<exists>P code p p'. RS_init_methods (P :: (json, int list) platform) code p = Inr p' \<and> methods_ok code (RS_methods p') (pr_store p')"
proof -
  have p0: "populated empty_store {} (\<lambda>s k. None) (Suc 899)" using populated_empty by simp
  obtain s w where w: "populated w {s} (\<lambda>s k. None) 899" by (rule populated_create [OF p0]) simp
  let ?p = "(set_store w (idle_process [] []))\<lparr>RS_methods := s\<rparr> :: int list process" and ?P = "plain_platform short_kernel"
  have st: "pr_store ?p = w" "RS_methods ?p = s" by (simp_all add: pr_store_def set_store_def)
  have E: "allocator (e_malloc (pf_env ?P))" "cb_increment (pf_cb ?P) = Some (rpc_struct_increment_cb (pf_env ?P))"
    using plain_env_allocates cbs_simps(2) by (simp_all add: plain_platform_def)
  have "store_inv {} (pr_store ?p)" "is_struct (pr_store ?p) (RS_methods ?p)" "roomy 5 (pr_store ?p)"
    "\<forall>k. entry (pr_store ?p) (RS_methods ?p) k = None"
    using populatedD(1,3,4) [OF w] roomy_less [OF populatedD(2) [OF w], of 5] by (simp_all add: st is_struct_def)
  from init_methods_registers_all [OF E handler_address_ok(2) this] show ?thesis by blast
qed

end
