(* ===== verification/Init_Claims.thy ===== *)
theory Init_Claims
  imports Rpc_Init Server_Claims Json_Serialize
begin

text \<open>
  What starting services promises: a service is started after the services it depends on, and each once; but
  the loop over all services goes on with keys that have been released.
\<close>

section \<open>Tables of services\<close>

text \<open>A service as it is kept: its struct, the address of its function, and the struct of its dependencies with
  the keys in the order in which they are visited.\<close>

record service =
  svc_struct :: addr
  svc_handler :: addr
  svc_needs :: "(addr \<times> string list) option"

definition needed :: "service \<Rightarrow> string list" where
  "needed sv = (case svc_needs sv of None \<Rightarrow> [] | Some (d, ks) \<Rightarrow> ks)"

definition blocks :: "service \<Rightarrow> addr set" where
  "blocks sv = insert (svc_struct sv) (case svc_needs sv of None \<Rightarrow> {} | Some (d, ks) \<Rightarrow> {d})"

definition service_ok :: "store \<Rightarrow> service \<Rightarrow> bool" where
  "service_ok w sv \<longleftrightarrow>
     is_struct w (svc_struct sv) \<and>
     (\<exists>e. entry w (svc_struct sv) ''init_handler'' = Some e \<and> rt_type e = RPC_unknown \<and> ptr_value e = svc_handler sv) \<and>
     (case svc_needs sv of
        None \<Rightarrow> entry w (svc_struct sv) ''dependencies'' = None
      | Some (d, ks) \<Rightarrow> struct_entry w (svc_struct sv) ''dependencies'' d \<and>
          (\<exists>rd. mem w d = Some (Struct rd) \<and> map fst (hm_entries (rs_map rd)) = ks) \<and>
          (\<forall>k e. entry w d k = Some e \<longrightarrow> \<not> counted_type (rt_type e))) \<and>
     (\<forall>k e. entry w (svc_struct sv) k = Some e \<longrightarrow> counted_type (rt_type e) \<longrightarrow> k = ''dependencies'')"

text \<open>The services of the struct \<open>load\<close>; no two share memory.\<close>

definition services_ok :: "(string \<rightharpoonup> service) \<Rightarrow> addr \<Rightarrow> store \<Rightarrow> bool" where
  "services_ok T load w \<longleftrightarrow>
     is_struct w load \<and>
     (\<forall>k. T k = None \<longrightarrow> entry w load k = None) \<and>
     (\<forall>k sv. T k = Some sv \<longrightarrow> struct_entry w load k (svc_struct sv) \<and> service_ok w sv \<and> load \<notin> blocks sv) \<and>
     (\<forall>j k a b. T j = Some a \<longrightarrow> T k = Some b \<longrightarrow> j \<noteq> k \<longrightarrow> blocks a \<inter> blocks b = {})"

lemma services_okD:
  assumes "services_ok T load w"
  shows "is_struct w load" "T k = None \<Longrightarrow> entry w load k = None"
    "T k = Some sv \<Longrightarrow> struct_entry w load k (svc_struct sv)" "T k = Some sv \<Longrightarrow> service_ok w sv" "T k = Some sv \<Longrightarrow> load \<notin> blocks sv"
    "T j = Some a \<Longrightarrow> T k = Some b \<Longrightarrow> j \<noteq> k \<Longrightarrow> blocks a \<inter> blocks b = {}"
  using assms unfolding services_ok_def by blast+

lemma service_ok_same:
  assumes "service_ok w sv" "\<And>a rs. a \<in> blocks sv \<Longrightarrow> mem w a = Some (Struct rs) \<Longrightarrow> mem w' a = Some (Struct rs)"
  shows "service_ok w' sv"
proof -
  have e: "entry w' a = entry w a" if "a \<in> blocks sv" "is_struct w a" for a
    using assms(2) [OF that(1)] that(2) by (auto simp: entry_def is_struct_def)
  have s: "svc_struct sv \<in> blocks sv" "is_struct w (svc_struct sv)" using assms(1) by (simp_all add: blocks_def service_ok_def)
  have s': "is_struct w' (svc_struct sv)" using s assms(2) by (auto simp: is_struct_def)
  show ?thesis
  proof (cases "svc_needs sv")
    case None
    then show ?thesis using assms(1) s' e [OF s] by (simp add: service_ok_def)
  next
    case (Some n)
    obtain d ks where n: "n = (d, ks)" by fastforce
    then obtain rd where d: "d \<in> blocks sv" "mem w d = Some (Struct rd)" using assms(1) Some by (auto simp: service_ok_def blocks_def)
    then have "entry w' d = entry w d" "mem w' d = Some (Struct rd)" using e [OF d(1)] assms(2) [OF d] by (auto simp: is_struct_def)
    then show ?thesis using assms(1) s' e [OF s] Some n d(2) by (simp add: service_ok_def struct_entry_def)
  qed
qed

text \<open>Taking a service out releases what belongs to it and nothing of the others.\<close>

lemma remove_service:
  assumes inv: "store_inv {} w" "nested r w" and T: "services_ok T load w" "T name = Some sv" and m: "r load + 2 \<le> m"
  obtains w' where "rpc_struct_remove (rpc_struct_default_prec_cbs E m) load (Some name) w = Inr (0, w')" "store_inv {} w'" "nested r w'"
    "services_ok (T(name := None)) load w'"
proof -
  note D = services_okD [OF T(1)]
  let ?x = "svc_struct sv"
  let ?q = "\<lambda>a. if a = ?x then 1 else if a \<in> blocks sv then 0 else r a + 2"
  obtain rl where l: "mem w load = Some (Struct rl)" using D(1) by (auto simp: is_struct_def)
  obtain e where e: "entry w load name = Some e" "rt_type e = RPC_struct" "ptr_value e = ?x"
    using D(3) [OF T(2)] by (auto simp: struct_entry_def)
  have low: "?q (ptr_value a) < ?q t" if a: "entry w t k = Some a" "counted_type (rt_type a)" for t k a
  proof -
    consider "t = ?x" | "t \<noteq> ?x" "t \<in> blocks sv" | "t \<notin> blocks sv" by blast
    then show ?thesis
    proof cases
      case 1
      then have k: "k = ''dependencies''" using D(4) [OF T(2)] a by (auto simp: service_ok_def)
      then obtain d ks where "svc_needs sv = Some (d, ks)" "ptr_value a = d"
        using D(4) [OF T(2)] a(1) 1 by (auto simp: service_ok_def struct_entry_def split: option.splits)
      moreover have "r (ptr_value a) < r ?x" using inv(2) a 1 unfolding nested_def by blast
      ultimately show ?thesis using 1 by (auto simp: blocks_def)
    next
      case 2
      then have "\<not> counted_type (rt_type a)"
        using D(4) [OF T(2)] a(1) by (auto simp: service_ok_def blocks_def split: option.splits)
      then show ?thesis using a(2) by simp
    next
      case 3
      then have "t \<noteq> ?x" by (auto simp: blocks_def)
      moreover have "r (ptr_value a) < r t" using inv(2) a unfolding nested_def by blast
      ultimately show ?thesis using 3 by simp
    qed
  qed
  have rk: "nested ?q w" unfolding nested_def using low by blast
  have x: "load \<noteq> ?x" "load \<notin> blocks sv" using D(5) [OF T(2)] by (auto simp: blocks_def)
  have el: "hashmap_get (rs_map rl) name = Some e" using e(1) l by (simp add: entry_def)
  have lm: "?q load \<le> m" using x m by simp
  obtain w' where W: "rpc_struct_remove (rpc_struct_default_prec_cbs E m) load (Some name) w = Inr (0, w')" "store_inv {} w'"
    "mem w' load = Some (Struct (rl\<lparr>rs_map := snd (hashmap_remove (rs_map rl) name)\<rparr>))"
    "frame (spared ?q e - {load}) w w'"
    "hashmap_get (snd (hashmap_remove (rs_map rl) name)) = (hashmap_get (rs_map rl))(name := None)"
    by (rule remove_nested [OF inv(1) rk l el lm]) blast
  have kept: "mem w' a = Some (Struct ra)" if "a \<notin> blocks sv" "a \<noteq> load" "mem w a = Some (Struct ra)" for a ra
  proof (rule frameD(1) [OF W(4) _ that(3)])
    show "a \<in> spared ?q e - {load}" using that(1,2) e(3) by (auto simp: spared_def blocks_def)
  qed
  have ent: "entry w' load = (entry w load)(name := None)" using W(3,5) l by (auto simp: entry_def fun_eq_iff)
  have "nested r w'" using inv(2) frameD(5) [OF W(4)] unfolding nested_def by blast
  moreover have "service_ok w' b" if b: "T k = Some b" "k \<noteq> name" for k b
  proof (rule service_ok_same [OF D(4) [OF b(1)] kept])
    show "a \<notin> blocks sv" if "a \<in> blocks b" for a using that D(6) [OF b(1) T(2) b(2)] by blast
    show "a \<noteq> load" if "a \<in> blocks b" for a using that D(5) [OF b(1)] by blast
  qed
  then have "services_ok (T(name := None)) load w'"
    using D(2,3,5,6) W(3) unfolding services_ok_def
    by (auto simp: ent is_struct_def struct_entry_def)
  ultimately show thesis using that [OF W(1,2)] by blast
qed

section \<open>The order of starts\<close>

text \<open>Functions that note their address in the kernel's state, to see the order in which they are called.\<close>

definition record_start :: "addr \<Rightarrow> addr list process \<Rightarrow> addr list process run" where
  "record_start a p = Inr (p\<lparr>pr_kernel := pr_kernel p @ [a]\<rparr>)"

definition ordered :: "(string \<rightharpoonup> service) \<Rightarrow> string list \<Rightarrow> bool" where
  "ordered T names \<longleftrightarrow>
     (\<forall>i<length names. \<forall>sv. T (names ! i) = Some sv \<longrightarrow> set (needed sv) \<inter> dom T \<subseteq> set (take i names))"

definition handlers :: "(string \<rightharpoonup> service) \<Rightarrow> string list \<Rightarrow> addr list" where
  "handlers T names = map (\<lambda>d. svc_handler (the (T d))) names"

definition others :: "(string \<rightharpoonup> service) \<Rightarrow> string list \<Rightarrow> string \<rightharpoonup> service" where
  "others T names = T |` (- set names)"

text \<open>What starting the services \<open>names\<close>, in this order, comes to.\<close>

definition started :: "(addr \<Rightarrow> nat) \<Rightarrow> addr \<Rightarrow> (string \<rightharpoonup> service) \<Rightarrow> addr list process \<Rightarrow> string list \<Rightarrow> addr list process \<Rightarrow> bool" where
  "started r load T p names p' \<longleftrightarrow>
     pr_kernel p' = pr_kernel p @ handlers T names \<and> distinct names \<and> set names \<subseteq> dom T \<and> ordered T names \<and>
     store_inv {} (pr_store p') \<and> nested r (pr_store p') \<and> services_ok (others T names) load (pr_store p')"

lemma others_simps [simp]: "others T [] = T" "others T [x] = T(x := None)" "others (others T xs) ys = others T (xs @ ys)"
  by (auto simp: others_def restrict_map_def fun_eq_iff)

lemma others_Some: "others T xs k = Some sv \<longleftrightarrow> T k = Some sv \<and> k \<notin> set xs"
  by (auto simp: others_def restrict_map_def)

lemma others_dom: "dom (others T xs) = dom T - set xs"
  by (auto simp: dom_def others_Some)

lemma started_none:
  "store_inv {} (pr_store p) \<Longrightarrow> nested r (pr_store p) \<Longrightarrow> services_ok T load (pr_store p) \<Longrightarrow> started r load T p [] p"
  by (simp add: started_def handlers_def ordered_def)

lemma ordered_append:
  assumes "ordered T xs" "ordered (others T xs) ys" "set ys \<subseteq> dom (others T xs)"
  shows "ordered T (xs @ ys)"
  unfolding ordered_def
proof (intro allI impI)
  fix i sv assume i: "i < length (xs @ ys)" "T ((xs @ ys) ! i) = Some sv"
  show "set (needed sv) \<inter> dom T \<subseteq> set (take i (xs @ ys))"
  proof (cases "i < length xs")
    case True
    then show ?thesis using assms(1) i(2) by (simp add: ordered_def nth_append)
  next
    case False
    define j where "j = i - length xs"
    have j: "i = length xs + j" "j < length ys" "T (ys ! j) = Some sv" using False i by (simp_all add: j_def nth_append)
    then have "ys ! j \<in> dom (others T xs)" using assms(3) nth_mem by blast
    then have "others T xs (ys ! j) = Some sv" using j(3) by (simp add: others_Some others_dom)
    then have "set (needed sv) \<inter> dom (others T xs) \<subseteq> set (take j ys)" using assms(2) j(2) unfolding ordered_def by blast
    then show ?thesis using j(1) by (auto simp: others_dom)
  qed
qed

lemma started_append:
  assumes "started r load T p xs p1" "started r load (others T xs) p1 ys p2"
  shows "started r load T p (xs @ ys) p2"
proof -
  note A = assms(1) [unfolded started_def] and B = assms(2) [unfolded started_def]
  have ys: "set ys \<subseteq> dom (others T xs)" using B by blast
  have "others T xs d = T d" if "d \<in> set ys" for d
  proof -
    have "d \<in> dom (others T xs)" using that ys by blast
    then obtain sv where "others T xs d = Some sv" by blast
    then show ?thesis using others_Some by metis
  qed
  then have "handlers (others T xs) ys = handlers T ys" by (simp add: handlers_def)
  moreover have "ordered T (xs @ ys)" using ordered_append [OF _ _ ys] A B by blast
  ultimately show ?thesis
    using A B ys by (auto simp: started_def others_dom handlers_def)
qed

definition depends :: "(string \<rightharpoonup> service) \<Rightarrow> (string \<Rightarrow> nat) \<Rightarrow> bool" where
  "depends T d \<longleftrightarrow> (\<forall>k sv. T k = Some sv \<longrightarrow> (\<forall>j\<in>set (needed sv). T j \<noteq> None \<longrightarrow> d j < d k))"

lemma depends_others: "depends T d \<Longrightarrow> depends (others T xs) d"
  by (auto simp: depends_def others_Some)

text \<open>The services that a service needs, directly or through others.\<close>

definition needs :: "(string \<rightharpoonup> service) \<Rightarrow> (string \<times> string) set" where
  "needs T = {(a, b). \<exists>sv. T a = Some sv \<and> b \<in> set (needed sv)}"

lemma needs_others: "(a, b) \<in> (needs (others T xs))\<^sup>* \<Longrightarrow> (a, b) \<in> (needs T)\<^sup>*"
proof -
  have "needs (others T xs) \<subseteq> needs T" by (auto simp: needs_def others_Some)
  then show "(a, b) \<in> (needs (others T xs))\<^sup>* \<Longrightarrow> (a, b) \<in> (needs T)\<^sup>*" using rtrancl_mono by blast
qed

section \<open>Starting a service\<close>

lemma pr_store_kernel [simp]: "pr_store (p\<lparr>pr_kernel := k\<rparr>) = pr_store p" "pr_store (set_store w p) = w"
  "pr_kernel (set_store w p) = pr_kernel p"
  by (simp_all add: pr_store_def set_store_def)

lemma service_pointers:
  assumes "store_inv {} w" "services_ok T load w" "T name = Some sv"
  shows "get_pointer load name C_rpc_struct null w = Inr (0, svc_struct sv)"
    "get_pointer (svc_struct sv) ''init_handler'' C_other_ptr null w = Inr (0, svc_handler sv)"
    "get_pointer (svc_struct sv) ''dependencies'' C_rpc_struct null w =
       Inr (case svc_needs sv of None \<Rightarrow> (1, null) | Some (d, ks) \<Rightarrow> (0, d))"
proof -
  note D = services_okD [OF assms(2)]
  obtain rl rx where l: "mem w load = Some (Struct rl)" and x: "mem w (svc_struct sv) = Some (Struct rx)"
    using D(1) D(4) [OF assms(3)] by (auto simp: is_struct_def service_ok_def)
  show "get_pointer load name C_rpc_struct null w = Inr (0, svc_struct sv)"
    using D(3) [OF assms(3)] by (auto simp: get_pointer_entry [OF assms(1) l] struct_entry_def)
  note get = get_pointer_entry [OF assms(1) x]
  show "get_pointer (svc_struct sv) ''init_handler'' C_other_ptr null w = Inr (0, svc_handler sv)"
    using D(4) [OF assms(3)] by (auto simp: get service_ok_def)
  show "get_pointer (svc_struct sv) ''dependencies'' C_rpc_struct null w =
       Inr (case svc_needs sv of None \<Rightarrow> (1, null) | Some (d, ks) \<Rightarrow> (0, d))"
    using D(4) [OF assms(3)] by (auto simp: get service_ok_def struct_entry_def split: option.splits)
qed

lemma no_service:
  assumes "store_inv {} w" "services_ok T load w" "T name = None"
  shows "get_pointer load name C_rpc_struct null w = Inr (1, null)"
proof -
  obtain rl where l: "mem w load = Some (Struct rl)" using services_okD(1) [OF assms(2)] by (auto simp: is_struct_def)
  show ?thesis using services_okD(2) [OF assms(2,3)] by (simp add: get_pointer_entry [OF assms(1) l])
qed

lemma dependency_keys:
  assumes "store_inv {} w" "service_ok w sv" "svc_needs sv = Some (d, ks)"
  shows "rpc_struct_keys d w = Inr ks" "rpc_struct_length d w = Inr (length ks)"
proof -
  obtain rd where rd: "mem w d = Some (Struct rd)" "map fst (hm_entries (rs_map rd)) = ks"
    using assms(2,3) by (auto simp: service_ok_def)
  show "rpc_struct_keys d w = Inr ks" using keys_run [OF assms(1) rd(1)] rd(2) by simp
  have "hb_size (rs_map rd) = length ks" using hm_inv_size [OF store_inv_struct(1) [OF assms(1) rd(1)]] rd(2) by auto
  then show "rpc_struct_length d w = Inr (length ks)"
    using rd(1) store_inv_struct(3) [OF assms(1) rd(1)] by (simp add: rpc_struct_length_def the_struct_def)
qed

text \<open>The last part of \<open>rpc_service_load\<close>, when all dependencies have been started.\<close>

lemma start_one:
  assumes P: "pf_cb P = rpc_struct_default_prec_cbs (pf_env P) m" "r load + 2 \<le> m"
    and p: "store_inv {} (pr_store p)" "nested r (pr_store p)" "services_ok T load (pr_store p)"
    and sv: "T name = Some sv" "set (needed sv) \<inter> dom T = {}"
  obtains p' where "andthen (get_pointer (svc_struct sv) ''init_handler'' C_other_ptr null (pr_store p)) (\<lambda>(r, init).
         andthen (check (r = 0)) (\<lambda>_.
         andthen (record_start init p) (\<lambda>p2.
         andthen (in_store (rpc_struct_remove (pf_cb P) load (Some name)) p2) (\<lambda>(r, p3). Inr p3)))) = Inr p'"
    "started r load T p [name] p'"
proof -
  obtain w' where w': "rpc_struct_remove (pf_cb P) load (Some name) (pr_store p) = Inr (0, w')" "store_inv {} w'" "nested r w'"
    "services_ok (T(name := None)) load w'"
    unfolding P(1) by (rule remove_service [OF p sv(1) P(2)])
  let ?p = "set_store w' (p\<lparr>pr_kernel := pr_kernel p @ [svc_handler sv]\<rparr>)"
  show thesis
  proof (rule that [of ?p])
    show "started r load T p [name] ?p"
      using w'(2-4) sv by (auto simp: started_def handlers_def ordered_def)
  qed (simp add: service_pointers(2) [OF p(1,3) sv(1)] record_start_def in_store_def w'(1))
qed

text \<open>The loop over the dependencies, given what is to be shown of each of them.\<close>

lemma load_dependencies:
  assumes f: "\<And>k T p. store_inv {} (pr_store p) \<Longrightarrow> nested r (pr_store p) \<Longrightarrow> services_ok T load (pr_store p) \<Longrightarrow>
      depends T d \<Longrightarrow> T k \<noteq> None \<longrightarrow> d k < h \<Longrightarrow>
      \<exists>names p'. f k p = Inr p' \<and> started r load T p names p' \<and> (T k \<noteq> None \<longrightarrow> k \<in> set names) \<and>
        (\<forall>x\<in>set names. d x < h \<and> (k, x) \<in> (needs T)\<^sup>*)"
    and p: "store_inv {} (pr_store p)" "nested r (pr_store p)" "services_ok T load (pr_store p)" "depends T d"
    and sv: "T name = Some sv" "svc_needs sv = Some (deps, all_keys)" "h \<le> d name"
    and ks: "all_keys = done_keys @ ks" "i = length done_keys" "\<forall>k\<in>set ks. T k \<noteq> None \<longrightarrow> d k < h"
  shows "\<exists>names p'. load_keys f deps ks i p = Inr p' \<and> started r load T p names p' \<and>
    (\<forall>k\<in>set ks. T k \<noteq> None \<longrightarrow> k \<in> set names) \<and> (\<forall>x\<in>set names. d x < h \<and> (\<exists>k\<in>set ks. (k, x) \<in> (needs T)\<^sup>*))"
  using p sv(1) ks
proof (induction ks arbitrary: T p i done_keys)
  case Nil
  have "service_ok (pr_store p) sv" using services_okD(4) [OF Nil.prems(3,5)] .
  note len = dependency_keys(2) [OF Nil.prems(1) this sv(2)]
  show ?case using Nil.prems len started_none [OF Nil.prems(1-3)] by (intro exI [of _ "[]"] exI [of _ p]) simp
next
  case (Cons k ks)
  have "service_ok (pr_store p) sv" using services_okD(4) [OF Cons.prems(3,5)] .
  note len = dependency_keys(2) [OF Cons.prems(1) this sv(2)]
  have "T k \<noteq> None \<longrightarrow> d k < h" using Cons.prems(8) by simp
  then obtain xs p1 where 1: "f k p = Inr p1" "started r load T p xs p1" "T k \<noteq> None \<longrightarrow> k \<in> set xs" "\<forall>x\<in>set xs. d x < h \<and> (k, x) \<in> (needs T)\<^sup>*"
    using f [OF Cons.prems(1-4)] by blast
  note S = 1(2) [unfolded started_def]
  have "name \<notin> set xs" using 1(4) sv(3) by fastforce
  then have name: "others T xs name = Some sv" using Cons.prems(5) by (simp add: others_Some)
  have "\<forall>j\<in>set ks. others T xs j \<noteq> None \<longrightarrow> d j < h" using Cons.prems(8) by (auto simp: others_Some)
  then have "\<exists>names p'. load_keys f deps ks (i + 1) p1 = Inr p' \<and> started r load (others T xs) p1 names p' \<and>
      (\<forall>j\<in>set ks. others T xs j \<noteq> None \<longrightarrow> j \<in> set names) \<and>
      (\<forall>x\<in>set names. d x < h \<and> (\<exists>k\<in>set ks. (k, x) \<in> (needs (others T xs))\<^sup>*))"
    using S name Cons.prems(6,7) depends_others [OF Cons.prems(4)]
    by (intro Cons.IH [where done_keys = "done_keys @ [k]"]) simp_all
  then obtain ys p2 where 2: "load_keys f deps ks (i + 1) p1 = Inr p2" "started r load (others T xs) p1 ys p2"
    "\<forall>j\<in>set ks. others T xs j \<noteq> None \<longrightarrow> j \<in> set ys"
    "\<forall>x\<in>set ys. d x < h \<and> (\<exists>k\<in>set ks. (k, x) \<in> (needs (others T xs))\<^sup>*)" by blast
  have "load_keys f deps (k # ks) i p = Inr p2" using len Cons.prems(6,7) 1(1) 2(1) by simp
  moreover have "j \<in> set (xs @ ys)" if j: "j \<in> set (k # ks)" "T j \<noteq> None" for j
  proof (cases "j \<in> set xs")
    case False
    then have "j \<in> set ks" using j 1(3) by auto
    moreover have "others T xs j \<noteq> None" using j(2) False by (auto simp: others_Some)
    ultimately show ?thesis using 2(3) by simp
  qed simp
  moreover have "d x < h \<and> (\<exists>j\<in>set (k # ks). (j, x) \<in> (needs T)\<^sup>*)" if "x \<in> set (xs @ ys)" for x
    using that 1(4) 2(4) needs_others by fastforce
  ultimately show ?case using started_append [OF 1(2) 2(2)] by (intro exI [of _ "xs @ ys"] exI [of _ p2]) blast
qed

lemma load_service:
  assumes P: "pf_cb P = rpc_struct_default_prec_cbs (pf_env P) m" "r load + 2 \<le> m"
    and p: "store_inv {} (pr_store p)" "nested r (pr_store p)" "services_ok T load (pr_store p)" "depends T d"
    and n: "0 < n" "T name \<noteq> None \<longrightarrow> d name + 1 < n"
  shows "\<exists>names p'. rpc_service_load P record_start n load name p = Inr p' \<and> started r load T p names p' \<and>
    (T name \<noteq> None \<longrightarrow> name \<in> set names) \<and> (\<forall>x\<in>set names. T name \<noteq> None \<and> d x \<le> d name \<and> (name, x) \<in> (needs T)\<^sup>*)"
  using p n
proof (induction n arbitrary: T p name)
  case (Suc n)
  show ?case
  proof (cases "T name")
    case None
    then show ?thesis
      using started_none [OF Suc.prems(1-3)]
      by (intro exI [of _ "[]"] exI [of _ p]) (simp add: no_service [OF Suc.prems(1,3)])
  next
    case (Some sv)
    note ptr = service_pointers [OF Suc.prems(1,3) Some]
    let ?f = "rpc_service_load P record_start n load"
    let ?deps = "case svc_needs sv of None \<Rightarrow> Inr p | Some (a, ks) \<Rightarrow> load_keys ?f a ks 0 p"
    have deps: "\<exists>names p'. ?deps = Inr p' \<and> started r load T p names p' \<and>
      (\<forall>k\<in>set (needed sv). T k \<noteq> None \<longrightarrow> k \<in> set names) \<and>
      (\<forall>x\<in>set names. d x < d name \<and> (\<exists>k\<in>set (needed sv). (k, x) \<in> (needs T)\<^sup>*))"
    proof (cases "svc_needs sv")
      case None
      then show ?thesis using started_none [OF Suc.prems(1-3)] by (intro exI [of _ "[]"] exI [of _ p]) (simp add: needed_def)
    next
      case (Some q)
      then obtain a ks where q: "svc_needs sv = Some (a, ks)" by (cases q) auto
      have below: "\<forall>k\<in>set ks. T k \<noteq> None \<longrightarrow> d k < d name"
        using Suc.prems(4) \<open>T name = Some sv\<close> q by (auto simp: depends_def needed_def)
      have "\<exists>names p'. load_keys ?f a ks 0 p = Inr p' \<and> started r load T p names p' \<and>
        (\<forall>k\<in>set ks. T k \<noteq> None \<longrightarrow> k \<in> set names) \<and>
        (\<forall>x\<in>set names. d x < d name \<and> (\<exists>k\<in>set ks. (k, x) \<in> (needs T)\<^sup>*))"
      proof (rule load_dependencies [where done_keys = "[]", OF _ Suc.prems(1-4) \<open>T name = Some sv\<close> q])
        fix k :: string and T' :: "string \<rightharpoonup> service" and p' :: "addr list process" assume a: "store_inv {} (pr_store p')" "nested r (pr_store p')" "services_ok T' load (pr_store p')"
          "depends T' d" "T' k \<noteq> None \<longrightarrow> d k < d name"
        have "0 < n" "T' k \<noteq> None \<longrightarrow> d k + 1 < n" using Suc.prems(6) \<open>T name = Some sv\<close> a(5) by auto
        then obtain names p'' where N: "?f k p' = Inr p''" "started r load T' p' names p''" "T' k \<noteq> None \<longrightarrow> k \<in> set names"
          "\<forall>x\<in>set names. T' k \<noteq> None \<and> d x \<le> d k \<and> (k, x) \<in> (needs T')\<^sup>*" using Suc.IH [OF a(1-4)] by blast
        then have "\<forall>x\<in>set names. d x < d name \<and> (k, x) \<in> (needs T')\<^sup>*" using a(5) by fastforce
        then show "\<exists>names p''. ?f k p' = Inr p'' \<and> started r load T' p' names p'' \<and> (T' k \<noteq> None \<longrightarrow> k \<in> set names) \<and>
            (\<forall>x\<in>set names. d x < d name \<and> (k, x) \<in> (needs T')\<^sup>*)" using N(1-3) by blast
      qed (use below in auto)
      then show ?thesis using q by (simp add: needed_def)
    qed
    then obtain xs p1 where 1: "?deps = Inr p1" "started r load T p xs p1" "\<forall>k\<in>set (needed sv). T k \<noteq> None \<longrightarrow> k \<in> set xs"
      "\<forall>x\<in>set xs. d x < d name \<and> (\<exists>k\<in>set (needed sv). (k, x) \<in> (needs T)\<^sup>*)" by blast
    note S = 1(2) [unfolded started_def]
    have name: "name \<notin> set xs" using 1(4) by blast
    then have sv1: "others T xs name = Some sv" using Some by (simp add: others_Some)
    have none: "set (needed sv) \<inter> dom (others T xs) = {}" using 1(3) by (auto simp: others_dom)
    obtain p2 where 2: "andthen (get_pointer (svc_struct sv) ''init_handler'' C_other_ptr null (pr_store p1)) (\<lambda>(r, init).
         andthen (check (r = 0)) (\<lambda>_.
         andthen (record_start init p1) (\<lambda>p2.
         andthen (in_store (rpc_struct_remove (pf_cb P) load (Some name)) p2) (\<lambda>(r, p3). Inr p3)))) = Inr p2"
      "started r load (others T xs) p1 [name] p2"
      by (rule start_one [where r = r and T = "others T xs" and name = name and sv = sv and p = p1, OF P _ _ _ sv1 none])
        (use S in blast)+
    have ks: "rpc_struct_keys a (pr_store p) = Inr ks" if "svc_needs sv = Some (a, ks)" for a ks
      using dependency_keys(1) [OF Suc.prems(1) services_okD(4) [OF Suc.prems(3) Some] that] .
    have "rpc_service_load P record_start (Suc n) load name p = Inr p2"
      using 1(1) 2(1) ks by (simp add: ptr(1,3) split: option.splits prod.splits)
    moreover have "d x \<le> d name \<and> (name, x) \<in> (needs T)\<^sup>*" if "x \<in> set (xs @ [name])" for x
    proof (cases "x = name")
      case False
      then have "x \<in> set xs" using that by simp
      then obtain k where k: "d x < d name" "k \<in> set (needed sv)" "(k, x) \<in> (needs T)\<^sup>*" using 1(4) by blast
      have "(name, k) \<in> needs T" using Some k(2) by (auto simp: needs_def)
      then show ?thesis using k by (auto intro: converse_rtrancl_into_rtrancl)
    qed simp
    ultimately show ?thesis
      using started_append [OF 1(2) 2(2)] Some by (intro exI [of _ "xs @ [name]"] exI [of _ p2]) simp
  qed
qed simp

text \<open>C9: Starting a service whose dependencies have no cycle starts it and every service it needs that has not
  been started, and nothing else, each once and each after those it depends on; what is started is taken
  out of the table, all other services stay.\<close>

theorem service_starts_after_dependencies:
  assumes "pf_cb P = rpc_struct_default_prec_cbs (pf_env P) m" "r load + 2 \<le> m"
    "store_inv {} (pr_store p)" "nested r (pr_store p)" "services_ok T load (pr_store p)" "depends T d"
    "T name = Some sv" "d name + 1 < n"
  shows "\<exists>names p'. rpc_service_load P record_start n load name p = Inr p' \<and>
    pr_kernel p' = pr_kernel p @ handlers T names \<and> distinct names \<and> ordered T names \<and>
    name \<in> set names \<and> (\<forall>x\<in>set names. (name, x) \<in> (needs T)\<^sup>*) \<and>
    store_inv {} (pr_store p') \<and> services_ok (others T names) load (pr_store p')"
proof -
  have n: "0 < n" "T name \<noteq> None \<longrightarrow> d name + 1 < n" using assms(8) by simp_all
  show ?thesis using load_service [OF assms(1-6) n] assms(7) by (auto simp: started_def)
qed

section \<open>Starting all services\<close>

definition bounded :: "(string \<Rightarrow> nat) \<Rightarrow> (string \<rightharpoonup> service) \<Rightarrow> nat \<Rightarrow> bool" where
  "bounded d T n \<longleftrightarrow> 0 < n \<and> (\<forall>k. T k \<noteq> None \<longrightarrow> d k + 1 < n)"

lemma bounded_others: "bounded d T n \<Longrightarrow> bounded d (others T xs) n"
  by (auto simp: bounded_def others_Some)

lemma key_present:
  assumes "store_inv {} (pr_store p)" "services_ok T load (pr_store p)"
  shows "rpc_struct_exists load (Some k) (pr_store p) = Inr (if T k = None then 0 else 1)"
proof -
  obtain rl where l: "mem (pr_store p) load = Some (Struct rl)" using services_okD(1) [OF assms(2)] by (auto simp: is_struct_def)
  show ?thesis
    using services_okD(2) [OF assms(2), of k] services_okD(3) [OF assms(2), of k]
    by (cases "T k") (auto simp: rpc_struct_exists_def get_element [OF assms(1) l] struct_entry_def)
qed

text \<open>The facts about a process in which services are started.\<close>

definition ready :: "(addr \<Rightarrow> nat) \<Rightarrow> (string \<Rightarrow> nat) \<Rightarrow> nat \<Rightarrow> (string \<rightharpoonup> service) \<Rightarrow> addr \<Rightarrow> 'k process \<Rightarrow> bool" where
  "ready r d n T load p \<longleftrightarrow>
     store_inv {} (pr_store p) \<and> nested r (pr_store p) \<and> services_ok T load (pr_store p) \<and> depends T d \<and> bounded d T n"

lemma ready_load:
  assumes P: "pf_cb P = rpc_struct_default_prec_cbs (pf_env P) m" "r load + 2 \<le> m" and p: "ready r d n T load p"
  obtains names p' where "rpc_service_load P record_start n load k p = Inr p'" "started r load T p names p'"
    "ready r d n (others T names) load p'" "T k \<noteq> None \<Longrightarrow> k \<in> set names" "\<And>x. x \<in> set names \<Longrightarrow> (k, x) \<in> (needs T)\<^sup>*"
proof -
  have R: "store_inv {} (pr_store p)" "nested r (pr_store p)" "services_ok T load (pr_store p)" "depends T d"
    "0 < n" "T k \<noteq> None \<longrightarrow> d k + 1 < n" using p by (simp_all add: ready_def bounded_def)
  obtain names p' where N: "rpc_service_load P record_start n load k p = Inr p'" "started r load T p names p'"
    "T k \<noteq> None \<longrightarrow> k \<in> set names" "\<forall>x\<in>set names. T k \<noteq> None \<and> d x \<le> d k \<and> (k, x) \<in> (needs T)\<^sup>*"
    using load_service [OF P R] by blast
  have "ready r d n (others T names) load p'"
    using N(2) p by (auto simp: ready_def started_def intro: depends_others bounded_others)
  then show thesis using that [OF N(1,2)] N(3,4) by blast
qed

lemma stale_key_faults:
  assumes P: "pf_cb P = rpc_struct_default_prec_cbs (pf_env P) m" "r load + 2 \<le> m"
    and p: "ready r d n T load p" and stale: "j \<in> set ks" "T j = None"
  shows "load_each (rpc_service_load P record_start n load) load ks p = Inl Use_After_Free"
  using p stale
proof (induction ks arbitrary: T p)
  case (Cons k ks)
  have I: "store_inv {} (pr_store p)" "services_ok T load (pr_store p)" using Cons.prems(1) by (simp_all add: ready_def)
  show ?case
  proof (cases "T k")
    case None
    then show ?thesis by (simp add: key_present [OF I])
  next
    case (Some sv)
    obtain names p' where N: "rpc_service_load P record_start n load k p = Inr p'" "ready r d n (others T names) load p'"
      by (rule ready_load [OF P Cons.prems(1)])
    have "j \<in> set ks" using Cons.prems(2,3) Some by auto
    moreover have "others T names j = None" using Cons.prems(3) by (simp add: others_def restrict_map_def)
    ultimately have "load_each (rpc_service_load P record_start n load) load ks p' = Inl Use_After_Free"
      using Cons.IH [OF N(2)] by blast
    then show ?thesis using Some N(1) by (simp add: key_present [OF I])
  qed
qed simp

lemma ordered_Cons:
  assumes "T k = Some sv"
  shows "ordered T (k # ks) \<longleftrightarrow> set (needed sv) \<inter> dom T = {} \<and> ordered (T(k := None)) ks"
proof
  assume o: "ordered T (k # ks)"
  have "set (needed sv) \<inter> dom T = {}" using o [unfolded ordered_def, rule_format, of 0 sv] assms by simp
  moreover have "ordered (T(k := None)) ks"
    unfolding ordered_def
  proof (intro allI impI)
    fix i s assume i: "i < length ks" "(T(k := None)) (ks ! i) = Some s"
    then have "set (needed s) \<inter> dom T \<subseteq> set (take (Suc i) (k # ks))"
      using o [unfolded ordered_def, rule_format, of "Suc i" s] by (simp split: if_splits)
    then show "set (needed s) \<inter> dom (T(k := None)) \<subseteq> set (take i ks)" by auto
  qed
  ultimately show "set (needed sv) \<inter> dom T = {} \<and> ordered (T(k := None)) ks" by blast
next
  assume o: "set (needed sv) \<inter> dom T = {} \<and> ordered (T(k := None)) ks"
  show "ordered T (k # ks)"
    unfolding ordered_def
  proof (intro allI impI)
    fix i s assume i: "i < length (k # ks)" "T ((k # ks) ! i) = Some s"
    show "set (needed s) \<inter> dom T \<subseteq> set (take i (k # ks))"
    proof (cases i)
      case 0
      then show ?thesis using i o assms by simp
    next
      case (Suc j)
      show ?thesis
      proof (cases "ks ! j = k")
        case True
        then show ?thesis using i Suc o assms by simp
      next
        case False
        then have "set (needed s) \<inter> dom (T(k := None)) \<subseteq> set (take j ks)"
          using o i Suc unfolding ordered_def by simp
        then show ?thesis using Suc by auto
      qed
    qed
  qed
qed

text \<open>A service without missing dependencies is started alone.\<close>

lemma needs_alone:
  assumes "T k = Some sv" "set (needed sv) \<inter> dom T = {}" "(k, x) \<in> (needs T)\<^sup>*" "x \<in> dom T"
  shows "x = k"
  using assms(3)
proof (cases rule: converse_rtranclE)
  case (step y)
  then have y: "T y = None" using assms(1,2) by (auto simp: needs_def)
  from step(2) have "x = y" by (cases rule: converse_rtranclE) (use y in \<open>auto simp: needs_def\<close>)
  then show ?thesis using y assms(4) by auto
qed simp

lemma only_element:
  assumes "distinct xs" "k \<in> set xs" "\<And>x. x \<in> set xs \<Longrightarrow> x = k" shows "xs = [k]"
proof -
  have "set xs = {k}" using assms(2,3) by blast
  then have "length xs = 1" using distinct_card [OF assms(1)] by simp
  then show ?thesis using assms(2) by (cases xs) auto
qed

lemma load_each_keys:
  assumes P: "pf_cb P = rpc_struct_default_prec_cbs (pf_env P) m" "r load + 2 \<le> m"
    and p: "ready r d n T load p" and ks: "distinct ks" "set ks = dom T"
  shows "if ordered T ks
    then \<exists>p'. load_each (rpc_service_load P record_start n load) load ks p = Inr p' \<and> pr_kernel p' = pr_kernel p @ handlers T ks
    else load_each (rpc_service_load P record_start n load) load ks p = Inl Use_After_Free"
  using p ks
proof (induction ks arbitrary: T p)
  case Nil
  then show ?case by (simp add: ordered_def handlers_def)
next
  case (Cons k ks)
  have I: "store_inv {} (pr_store p)" "services_ok T load (pr_store p)" "depends T d" using Cons.prems(1) by (simp_all add: ready_def)
  obtain sv where sv: "T k = Some sv" using Cons.prems(3) by (auto simp: dom_def)
  obtain names p1 where N: "rpc_service_load P record_start n load k p = Inr p1" "started r load T p names p1"
    "ready r d n (others T names) load p1" "k \<in> set names" "\<And>x. x \<in> set names \<Longrightarrow> (k, x) \<in> (needs T)\<^sup>*"
    by (rule ready_load [where k = k, OF P Cons.prems(1)]) (use sv in blast)
  note S = N(2) [unfolded started_def]
  have step: "load_each (rpc_service_load P record_start n load) load (k # ks) p =
      load_each (rpc_service_load P record_start n load) load ks p1"
    using sv N(1) by (simp add: key_present [OF I(1,2)])
  show ?case
  proof (cases "set (needed sv) \<inter> dom T = {}")
    case True
    have names: "names = [k]"
      by (rule only_element [OF _ N(4)]) (use S needs_alone [where T = T and k = k, OF sv True] N(5) in blast)+
    have k1: "pr_kernel p1 = pr_kernel p @ [svc_handler sv]" using S sv by (simp add: names handlers_def)
    have r1: "ready r d n (T(k := None)) load p1" using N(3) by (simp add: names)
    have "distinct ks" "set ks = dom (T(k := None))" using Cons.prems(2,3) by auto
    note ih = Cons.IH [OF r1 this]
    have "handlers (T(k := None)) ks = handlers T ks" using Cons.prems(2) by (auto simp: handlers_def)
    moreover have "handlers T (k # ks) = svc_handler sv # handlers T ks" using sv by (simp add: handlers_def)
    moreover have "ordered T (k # ks) = ordered (T(k := None)) ks" using True by (simp add: ordered_Cons [where T = T and k = k, OF sv])
    ultimately show ?thesis using ih k1 unfolding step by (cases "ordered (T(k := None)) ks") (simp_all del: fun_upd_apply)
  next
    case False
    then obtain j where j: "j \<in> set (needed sv)" "j \<in> dom T" by blast
    have "j \<noteq> k" using I(3) sv j unfolding depends_def by (metis domD less_irrefl option.distinct(1))
    then have "j \<in> set ks" using j(2) Cons.prems(3) by auto
    moreover have "j \<in> set names"
    proof -
      obtain i where "i < length names" "names ! i = k" using N(4) by (auto simp: in_set_conv_nth)
      moreover have "ordered T names" using S by blast
      ultimately show ?thesis using sv j set_take_subset [of i names] unfolding ordered_def by blast
    qed
    then have "others T names j = None" by (simp add: others_def restrict_map_def)
    ultimately show ?thesis
      using stale_key_faults [OF P N(3)] False unfolding step by (simp add: ordered_Cons [where T = T and k = k, OF sv])
  qed
qed

text \<open>C28: Starting all services, whose dependencies have no cycle, works when the order of the keys in the
  table happens to have each service after those it depends on: then all are started once, in that order. In
  all other cases the loop reads the key of a service that was started as a dependency, and that has been
  released with it.\<close>

theorem load_all_needs_sorted_keys:
  assumes "pf_cb P = rpc_struct_default_prec_cbs (pf_env P) m" "r load + 2 \<le> m" "ready r d n T load p"
  shows "\<exists>ks. rpc_struct_keys load (pr_store p) = Inr ks \<and> distinct ks \<and> set ks = dom T \<and>
    (if ordered T ks
     then \<exists>p'. rpc_service_load_all P record_start n load p = Inr p' \<and> pr_kernel p' = pr_kernel p @ handlers T ks
     else rpc_service_load_all P record_start n load p = Inl Use_After_Free)"
proof -
  have I: "store_inv {} (pr_store p)" "services_ok T load (pr_store p)" using assms(3) by (simp_all add: ready_def)
  obtain rl where l: "mem (pr_store p) load = Some (Struct rl)" using services_okD(1) [OF I(2)] by (auto simp: is_struct_def)
  let ?ks = "map fst (hm_entries (rs_map rl))"
  note hm = store_inv_struct(1) [OF I(1) l]
  have "set ?ks = dom (hashmap_get (rs_map rl))" by (simp only: hashmap_get_map [OF hm] dom_hm_map)
  also have "\<dots> = dom T"
  proof -
    have "hashmap_get (rs_map rl) k = None \<longleftrightarrow> T k = None" for k
      using services_okD(2) [OF I(2), of k] services_okD(3) [OF I(2), of k] l
      by (cases "T k") (fastforce simp: entry_def struct_entry_def)+
    then show ?thesis by (auto simp: dom_def)
  qed
  finally have ks: "distinct ?ks" "set ?ks = dom T" using hm_inv_distinct [OF hm] by simp_all
  have "rpc_struct_keys load (pr_store p) = Inr ?ks" by (rule keys_run [OF I(1) l])
  then show ?thesis
    using load_each_keys [OF assms(1-3) ks] ks by (intro exI [of _ ?ks]) (simp add: rpc_service_load_all_def)
qed

section \<open>An example\<close>

text \<open>Two services, of which b depends on a.\<close>

definition example_services :: "addr \<Rightarrow> addr \<Rightarrow> addr \<Rightarrow> string \<rightharpoonup> service" where
  "example_services a b d =
     [''a'' \<mapsto> \<lparr>svc_struct = a, svc_handler = 1, svc_needs = None\<rparr>,
      ''b'' \<mapsto> \<lparr>svc_struct = b, svc_handler = 2, svc_needs = Some (d, [''a''])\<rparr>]"

lemma example_needs: "needs (example_services a b d) = {(''b'', ''a'')}"
  by (auto simp: needs_def example_services_def needed_def split: if_splits)

lemma example_reach: "(''b'', x) \<in> (needs (example_services a b d))\<^sup>* \<Longrightarrow> x \<in> {''a'', ''b''}"
  unfolding example_needs by (induction rule: rtrancl_induct) auto

lemma example_dom: "dom (example_services a b d) = {''a'', ''b''}"
  by (auto simp: example_services_def)

lemma populated_address:
  assumes P: "populated w S es (Suc n)" and s: "s \<in> S" "es s k = None" and v: "v \<noteq> null"
  obtains w' where "populated w' S (es(s := (es s)(k \<mapsto> c_to_rpc [] C_other_ptr v))) n"
proof -
  have "element_valid w (c_to_rpc [] C_other_ptr v)" using v by (simp add: element_valid_def c_to_rpc_fields counted_type_def)
  then show thesis by (rule populated_set [OF P s]) (use that in auto)
qed

lemma services_example:
  obtains p :: "addr list process" and load a b d r where
    "ready r (\<lambda>k. if k = ''b'' then 1 else 0) 3 (example_services a b d) load p" "pr_kernel p = []" "r load = 2"
proof -
  let ?n = "\<lambda>k. (10 :: nat) + k"
  have p0: "populated empty_store {} (\<lambda>s k. None) (Suc (?n 889))" using populated_empty by simp
  obtain load w1 where 1: "populated w1 {load} (\<lambda>s k. None) (Suc (?n 888))" by (rule populated_create [OF p0]) simp
  obtain a w2 where 2: "a \<notin> {load}" "populated w2 {a, load} (\<lambda>s k. None) (Suc (?n 887))" by (rule populated_create [OF 1]) simp
  obtain b w3 where 3: "b \<notin> {a, load}" "populated w3 {b, a, load} (\<lambda>s k. None) (Suc (?n 886))" by (rule populated_create [OF 2(2)]) simp
  obtain d w4 where 4: "d \<notin> {b, a, load}" "populated w4 {d, b, a, load} (\<lambda>s k. None) (Suc (?n 885))"
    by (rule populated_create [OF 3(2)]) simp
  let ?S = "{d, b, a, load}" and ?h = "\<lambda>v. c_to_rpc [] C_other_ptr v" and ?st = "\<lambda>q. c_to_rpc [] C_rpc_struct q"
  have ne: "d \<noteq> b" "d \<noteq> a" "d \<noteq> load" "b \<noteq> a" "b \<noteq> load" "a \<noteq> load" using 2(1) 3(1) 4(1) by auto
  obtain w5 where 5: "populated w5 ?S ((\<lambda>s k. None)(a := [''init_handler'' \<mapsto> ?h 1])) (Suc (?n 884))"
    by (rule populated_address [where s = a and k = "''init_handler''" and v = 1, OF 4(2)]) simp_all
  obtain w6 where 6: "populated w6 ?S ((\<lambda>s k. None)(a := [''init_handler'' \<mapsto> ?h 1], b := [''init_handler'' \<mapsto> ?h 2])) (Suc (?n 883))"
    by (rule populated_address [where s = b and k = "''init_handler''" and v = 2, OF 5]) (use ne in simp_all)
  obtain w7 where 7: "populated w7 ?S ((\<lambda>s k. None)(a := [''init_handler'' \<mapsto> ?h 1],
      b := [''init_handler'' \<mapsto> ?h 2, ''dependencies'' \<mapsto> ?st d])) (Suc (?n 882))"
    by (rule populated_struct [where s = b and k = "''dependencies''" and q = d, OF 6]) (use ne in simp_all)
  obtain w8 where 8: "populated w8 ?S ((\<lambda>s k. None)(a := [''init_handler'' \<mapsto> ?h 1],
      b := [''init_handler'' \<mapsto> ?h 2, ''dependencies'' \<mapsto> ?st d], d := [''a'' \<mapsto> number 0])) (Suc (?n 881))"
    by (rule populated_number [where s = d and k = "''a''" and v = 0, OF 7]) (use ne in \<open>simp_all add: number_def\<close>)
  obtain w9 where 9: "populated w9 ?S ((\<lambda>s k. None)(a := [''init_handler'' \<mapsto> ?h 1],
      b := [''init_handler'' \<mapsto> ?h 2, ''dependencies'' \<mapsto> ?st d], d := [''a'' \<mapsto> number 0], load := [''a'' \<mapsto> ?st a])) (Suc (?n 880))"
    by (rule populated_struct [where s = load and k = "''a''" and q = a, OF 8]) (use ne in simp_all)
  let ?es = "(\<lambda>s k. None)(a := [''init_handler'' \<mapsto> ?h 1], b := [''init_handler'' \<mapsto> ?h 2, ''dependencies'' \<mapsto> ?st d],
      d := [''a'' \<mapsto> number 0], load := [''a'' \<mapsto> ?st a, ''b'' \<mapsto> ?st b])"
  obtain w where w: "populated w ?S ?es (?n 880)"
    by (rule populated_struct [where s = load and k = "''b''" and q = b, OF 9]) (use ne in simp_all)
  have ent: "entry w s k = ?es s k" for s k by (rule populatedD(3) [OF w])
  note inv = populatedD(1) [OF w] and st = populatedD(4) [OF w]
  obtain rd where rd: "mem w d = Some (Struct rd)" using st [of d] by blast
  note hm = store_inv_struct(1) [OF inv rd]
  have "hashmap_get (rs_map rd) = [''a'' \<mapsto> number 0]" using ent [of d] rd ne by (simp add: entry_def fun_eq_iff)
  then have keyset: "set (map fst (hm_entries (rs_map rd))) = {''a''}" using dom_hm_map [of "rs_map rd"] by (simp add: hashmap_get_map [OF hm, symmetric])
  have keys: "map fst (hm_entries (rs_map rd)) = [''a'']"
  proof (rule only_element [OF hm_inv_distinct [OF hm]])
    show "''a'' \<in> set (map fst (hm_entries (rs_map rd)))" by (simp only: keyset) simp
    show "x = ''a''" if "x \<in> set (map fst (hm_entries (rs_map rd)))" for x using that by (simp only: keyset) simp
  qed
  let ?r = "\<lambda>s. if s = load then 2 else if s = b then 1 else 0 :: nat" and ?T = "example_services a b d"
  have "nested ?r w" using ne by (auto simp: nested_def ent c_to_rpc_fields counted_type_def split: if_splits)
  moreover have "services_ok ?T load w"
  proof -
    have sts: "is_struct w load" "is_struct w a" "is_struct w b" using st by (simp_all add: is_struct_def)
    let ?A = "\<lparr>svc_struct = a, svc_handler = 1, svc_needs = None\<rparr>" and ?B = "\<lparr>svc_struct = b, svc_handler = 2, svc_needs = Some (d, [''a''])\<rparr>"
    have "service_ok w ?A"
      using sts ne by (simp add: service_ok_def ent c_to_rpc_fields counted_type_def)
    moreover have "service_ok w ?B"
      using sts ne rd keys by (simp add: service_ok_def ent c_to_rpc_fields struct_entry_def counted_type_def)
    moreover have "struct_entry w load ''a'' a" "struct_entry w load ''b'' b"
      by (simp_all add: struct_entry_def ent c_to_rpc_fields)
    moreover have "entry w load k = None" if "?T k = None" for k using that by (auto simp: ent example_services_def split: if_splits)
    moreover have "blocks ?A = {a}" "blocks ?B = {b, d}" by (simp_all add: blocks_def)
    ultimately show ?thesis
      using sts(1) ne by (simp add: services_ok_def example_services_def)
  qed
  moreover have "depends ?T (\<lambda>k. if k = ''b'' then 1 else 0)" by (simp add: depends_def example_services_def needed_def)
  moreover have "bounded (\<lambda>k. if k = ''b'' then 1 else 0) ?T 3" by (simp add: bounded_def)
  ultimately show thesis
    using that [of ?r a b d load "set_store w (idle_process [] [])"] inv by (simp add: ready_def idle_process_def set_store_def pr_store_def)
qed

lemma example_order:
  assumes "distinct names" "set names \<subseteq> {''a'', ''b''}" "''b'' \<in> set names" "ordered (example_services a b d) names"
  shows "names = [''a'', ''b'']"
proof -
  obtain i where i: "i < length names" "names ! i = ''b''" using assms(3) by (auto simp: in_set_conv_nth)
  have "{''a''} \<subseteq> set (take i names)"
    using assms(4) i unfolding ordered_def by (auto simp: example_dom) (auto simp: example_services_def needed_def)
  moreover have "length names \<le> 2"
    using card_mono [OF _ assms(2)] distinct_card [OF assms(1)] by simp
  ultimately have "i = 1" "length names = 2" using i(1) by (cases i; auto)+
  then obtain x y where "names = [x, y]" by (auto simp: numeral_2_eq_2 length_Suc_conv)
  then show ?thesis using i(2) \<open>i = 1\<close> \<open>{''a''} \<subseteq> set (take i names)\<close> by simp
qed

definition still_kernel :: "'k kernel" where
  "still_kernel = \<lparr>sk_shutdown = \<lambda>fd k. k, sk_close = \<lambda>fd k. k, k_send = \<lambda>fd bs k. (int (length bs), k), k_recv = \<lambda>fd n k. ([], k)\<rparr>"

lemma example_platform:
  "pf_cb ((plain_platform K)\<lparr>pf_cb := cbs plain_env 4\<rparr>) =
    rpc_struct_default_prec_cbs (pf_env ((plain_platform K)\<lparr>pf_cb := cbs plain_env 4\<rparr>)) 4"
  by (simp add: plain_platform_def)

theorem service_starts_after_dependencies_witness:
  "\<exists>P load p p'. rpc_service_load (P :: (json, addr list) platform) record_start 3 load ''b'' p = Inr p' \<and>
     pr_kernel p = [] \<and> pr_kernel p' = [1, 2]"
proof -
  let ?P = "(plain_platform still_kernel)\<lparr>pf_cb := cbs plain_env 4\<rparr> :: (json, addr list) platform"
  let ?d = "\<lambda>k. if k = ''b'' then 1 else 0 :: nat"
  obtain p :: "addr list process" and load a b dp r where E: "ready r ?d 3 (example_services a b dp) load p" "pr_kernel p = []" "r load = 2"
    by (rule services_example)
  let ?T = "example_services a b dp"
  have R: "store_inv {} (pr_store p)" "nested r (pr_store p)" "services_ok ?T load (pr_store p)" "depends ?T ?d"
    using E(1) by (simp_all add: ready_def)
  have r: "r load + 2 \<le> 4" using E(3) by simp
  have b: "?T ''b'' = Some \<lparr>svc_struct = b, svc_handler = 2, svc_needs = Some (dp, [''a''])\<rparr>" "?d ''b'' + 1 < 3"
    by (simp_all add: example_services_def)
  obtain names p' where N: "rpc_service_load ?P record_start 3 load ''b'' p = Inr p'" "pr_kernel p' = pr_kernel p @ handlers ?T names"
    "distinct names" "ordered ?T names" "''b'' \<in> set names" "\<forall>x\<in>set names. (''b'', x) \<in> (needs ?T)\<^sup>*"
    using service_starts_after_dependencies [OF example_platform r R b] by blast
  have "set names \<subseteq> {''a'', ''b''}" using N(6) example_reach by blast
  then have "names = [''a'', ''b'']" by (rule example_order [OF N(3) _ N(5,4)])
  then have "pr_kernel p' = [1, 2]" using N(2) E(2) by (simp add: handlers_def example_services_def)
  then show ?thesis using N(1) E(2) by blast
qed

theorem load_all_needs_sorted_keys_witness:
  "\<exists>P load p ks. rpc_struct_keys load (pr_store p) = Inr ks \<and>
     (if ks = [''a'', ''b'']
      then \<exists>p'. rpc_service_load_all (P :: (json, addr list) platform) record_start 3 load p = Inr p' \<and> pr_kernel p' = [1, 2]
      else rpc_service_load_all P record_start 3 load p = Inl Use_After_Free)"
proof -
  let ?P = "(plain_platform still_kernel)\<lparr>pf_cb := cbs plain_env 4\<rparr> :: (json, addr list) platform"
  let ?d = "\<lambda>k. if k = ''b'' then 1 else 0 :: nat"
  obtain p :: "addr list process" and load a b dp r where E: "ready r ?d 3 (example_services a b dp) load p" "pr_kernel p = []" "r load = 2"
    by (rule services_example)
  let ?T = "example_services a b dp"
  have r: "r load + 2 \<le> 4" using E(3) by simp
  obtain ks where K: "rpc_struct_keys load (pr_store p) = Inr ks" "distinct ks" "set ks = dom ?T"
    "if ordered ?T ks
     then \<exists>p'. rpc_service_load_all ?P record_start 3 load p = Inr p' \<and> pr_kernel p' = pr_kernel p @ handlers ?T ks
     else rpc_service_load_all ?P record_start 3 load p = Inl Use_After_Free"
    using load_all_needs_sorted_keys [OF example_platform r E(1)] by blast
  have ks: "set ks = {''a'', ''b''}" using K(3) by (simp add: example_dom)
  show ?thesis
  proof (cases "ordered ?T ks")
    case True
    then have "ks = [''a'', ''b'']" by (intro example_order [OF K(2)]) (use ks in auto)
    then show ?thesis using K(1,4) True E(2) by (intro exI conjI) (auto simp: handlers_def example_services_def)
  next
    case False
    have "ordered ?T [''a'', ''b'']"
      unfolding ordered_def by (auto simp: less_Suc_eq numeral_2_eq_2 example_services_def needed_def)
    then have "ks \<noteq> [''a'', ''b'']" using False by auto
    then show ?thesis using K(1,4) False by (intro exI conjI) auto
  qed
qed

end
