(* ===== verification/Rpc_Ports.thy ===== *)
theory Rpc_Ports
  imports Rpc_Server
begin

text \<open>
  The ports a server listens on (\<open>rpc_server.c\<close>, with the listening socket and the holders of
  \<open>rpc_network.c\<close>): a port has a table of connections, with the callbacks of the server, and a mutex; the
  struct of ports holds the address of the table under the number of the port. Also the turns that the
  threads of a port and a worker take.
\<close>

section \<open>State\<close>

text \<open>The data for the callbacks is the mutex of the port.\<close>

record 'k rpc_net_holder =
  rh_poll_net :: poll_net
  rh_notify :: "'k rpc_net_notifier_callback"
  rh_userdata :: addr

record 'k server =
  sv_process :: "'k process"
  sv_holders :: "addr \<rightharpoonup> 'k rpc_net_holder"
  sv_mutexes :: "addr set"

text \<open>The calls for a listening socket: its number, or a negative number; 0 if they worked.\<close>

record 'k listening =
  lk_socket :: "'k \<Rightarrow> int \<times> 'k"
  lk_setsockopt :: "int \<Rightarrow> int \<Rightarrow> 'k \<Rightarrow> int \<times> 'k"
  lk_bind :: "int \<Rightarrow> 16 word \<Rightarrow> 'k \<Rightarrow> int \<times> 'k"
  lk_listen :: "int \<Rightarrow> int \<Rightarrow> 'k \<Rightarrow> int \<times> 'k"

text \<open>The blocks that are in use, for \<open>malloc\<close>.\<close>

definition blocks :: "'k server \<Rightarrow> (addr \<rightharpoonup> unit)" where
  "blocks s a = (if sv_holders s a \<noteq> None \<or> a \<in> sv_mutexes s \<or> mem (pr_store (sv_process s)) a \<noteq> None then Some () else None)"

section \<open>Listening sockets\<close>

definition SO_REUSEADDR :: int where "SO_REUSEADDR = 2"
definition SO_REUSEPORT :: int where "SO_REUSEPORT = 15"
definition HOLDER_LISTEN :: int where "HOLDER_LISTEN = 1024"

definition htons :: "16 word \<Rightarrow> 16 word" where
  "htons w = (push_bit 8 w OR drop_bit 8 w)"

definition create_tcp_listenfd :: "'k listening \<Rightarrow> 16 word \<Rightarrow> 'k \<Rightarrow> (int \<times> 'k) run" where
  "create_tcp_listenfd L port k =
     (let (sockfd, k1) = lk_socket L k in
      andthen (check (sockfd \<noteq> 0)) (\<lambda>_.
      let (r, k2) = lk_setsockopt L sockfd (SO_REUSEADDR OR SO_REUSEPORT) k1 in
      andthen (check (r = 0)) (\<lambda>_.
      let (r, k3) = lk_bind L sockfd (htons port) k2 in
      andthen (check (r = 0)) (\<lambda>_.
      let (r, k4) = lk_listen L sockfd HOLDER_LISTEN k3 in
      andthen (check (r = 0)) (\<lambda>_. Inr (sockfd, k4))))))"

section \<open>Ports\<close>

text \<open>\<open>sprintf\<close> with \<^verbatim>\<open>%d\<close> into an array of 16 characters.\<close>

definition signed_decimal :: "int \<Rightarrow> string" where
  "signed_decimal i = (if i < 0 then CHR ''-'' # decimal (nat (- i)) else decimal (nat i))"

definition port_text :: "16 word \<Rightarrow> string run" where
  "port_text port =
     (let acc = signed_decimal (sint port) in if length acc < 16 then Inr acc else Inl Out_Of_Bounds)"

definition rpc_net_holder_get_notify :: "'k rpc_net_holder option \<Rightarrow> 'k rpc_net_notifier_callback \<times> addr" where
  "rpc_net_holder_get_notify holder =
     (case holder of
        None \<Rightarrow> (\<lparr>notify = None, persondata_init = None, persondata_destroy = None\<rparr>, null)
      | Some h \<Rightarrow> (rh_notify h, rh_userdata h))"

definition rpc_server_launch_port ::
    "('j, 'k) platform \<Rightarrow> ((addr \<rightharpoonup> unit) \<Rightarrow> addr) \<Rightarrow> 'k listening \<Rightarrow> (rpc_method \<Rightarrow> addr) \<Rightarrow> 16 word \<Rightarrow> 'k server
     \<Rightarrow> (int \<times> 'k server) run" where
  "rpc_server_launch_port P malloc L code port s =
     andthen (port_text port) (\<lambda>acc.
     andthen (rpc_struct_exists (RS_netports (sv_process s)) (Some acc) (pr_store (sv_process s))) (\<lambda>ex.
       if ex \<noteq> 0 then Inr (1, s)
       else let sync_mutex = malloc (blocks s) in
         andthen (check (sync_mutex \<noteq> null)) (\<lambda>_.
         let s1 = s\<lparr>sv_mutexes := insert sync_mutex (sv_mutexes s)\<rparr>; net_port = malloc (blocks s1) in
         andthen (check (net_port \<noteq> null)) (\<lambda>_.
         andthen (create_tcp_listenfd L port (pr_kernel (sv_process s1))) (\<lambda>(fd, k).
         let holder = \<lparr>rh_poll_net = rpc_net_holder_accept_on fd rpc_net_holder_create, rh_notify = server_notify P code,
                       rh_userdata = sync_mutex\<rparr>;
             s2 = s1\<lparr>sv_holders := (sv_holders s1)(net_port \<mapsto> holder), sv_process := (sv_process s1)\<lparr>pr_kernel := k\<rparr>\<rparr> in
         andthen (in_store (rpc_struct_set (pf_env P) (pf_cb P) (pf_junk P) (RS_netports (sv_process s2)) acc C_other_ptr net_port)
                    (sv_process s2)) (\<lambda>(r, p).
         andthen (check (r = 0)) (\<lambda>_. Inr (0, s2\<lparr>sv_process := p\<rparr>))))))))"

definition rpc_server_stop_port :: "('j, 'k) platform \<Rightarrow> 16 word \<Rightarrow> 'k server \<Rightarrow> (int \<times> 'k server) run" where
  "rpc_server_stop_port P port s =
     andthen (port_text port) (\<lambda>acc.
     let netports = RS_netports (sv_process s) in
     andthen (rpc_struct_exists netports (Some acc) (pr_store (sv_process s))) (\<lambda>ex.
       if ex = 0 then Inr (1, s)
       else
         andthen (get_pointer netports acc C_other_ptr null (pr_store (sv_process s))) (\<lambda>(r, net_port).
         andthen (check (r = 0)) (\<lambda>_.
         andthen (in_store (rpc_struct_remove (pf_cb P) netports (Some acc)) (sv_process s)) (\<lambda>(r, p1).
         andthen (check (r = 0)) (\<lambda>_.
         case sv_holders s net_port of
           None \<Rightarrow> Inl Use_After_Free
         | Some holder \<Rightarrow>
             let sync_mutex = snd (rpc_net_holder_get_notify (Some holder)) in
             andthen (rpc_net_holder_free P (rh_notify holder) (Some (rh_poll_net holder)) p1) (\<lambda>p2.
               if sync_mutex \<notin> sv_mutexes s then Inl Use_After_Free
               else Inr (0, \<lparr>sv_process = p2, sv_holders = (sv_holders s)(net_port := None),
                             sv_mutexes = sv_mutexes s - {sync_mutex}\<rparr>))))))))"

section \<open>Turns\<close>

definition with_holder ::
    "(poll_net \<Rightarrow> 'k rpc_net_notifier_callback \<Rightarrow> 'k process \<Rightarrow> (poll_net \<times> 'k process) run) \<Rightarrow> addr \<Rightarrow> 'k server \<Rightarrow> 'k server run" where
  "with_holder f a s =
     (case sv_holders s a of
        None \<Rightarrow> Inl Use_After_Free
      | Some h \<Rightarrow>
          andthen (f (rh_poll_net h) (rh_notify h) (sv_process s)) (\<lambda>(net, p).
            Inr (s\<lparr>sv_process := p, sv_holders := (sv_holders s)(a \<mapsto> h\<lparr>rh_poll_net := net\<rparr>)\<rparr>)))"

text \<open>The accepting thread and the polling thread of a port, and a worker that takes a job.\<close>

definition port_accept :: "('j, 'k) platform \<Rightarrow> pollfd \<Rightarrow> int \<Rightarrow> bool \<Rightarrow> bool \<Rightarrow> addr \<Rightarrow> 'k server \<Rightarrow> 'k server run" where
  "port_accept P junk netfd opt1 opt2 =
     with_holder (\<lambda>net N p. andthen (accept_thread (holder_callbacks P N) (process_sockets P) junk netfd opt1 opt2 net p)
       (\<lambda>(go, net1, p1). Inr (net1, p1)))"

definition port_poll :: "('j, 'k) platform \<Rightarrow> (nat \<Rightarrow> 16 word) \<Rightarrow> addr \<Rightarrow> 'k server \<Rightarrow> 'k server run" where
  "port_poll P revents =
     with_holder (\<lambda>net N p. poll_thread (holder_callbacks P N) (process_sockets P) revents net p)"

definition take_job :: "('j, 'k) platform \<Rightarrow> (rpc_method \<Rightarrow> addr) \<Rightarrow> 'k server \<Rightarrow> 'k server run" where
  "take_job P code s =
     (case RS_thpool (sv_process s) of
        [] \<Rightarrow> Inr s
      | j # js \<Rightarrow> andthen (net_job P code j ((sv_process s)\<lparr>RS_thpool := js\<rparr>)) (\<lambda>p. Inr (s\<lparr>sv_process := p\<rparr>)))"

inductive server_step ::
    "('j, 'k) platform \<Rightarrow> ((addr \<rightharpoonup> unit) \<Rightarrow> addr) \<Rightarrow> 'k listening \<Rightarrow> (rpc_method \<Rightarrow> addr) \<Rightarrow> 'k server \<Rightarrow> 'k server \<Rightarrow> bool"
  for P malloc L code where
  launch: "rpc_server_launch_port P malloc L code port s = Inr (r, s') \<Longrightarrow> server_step P malloc L code s s'"
| stop: "rpc_server_stop_port P port s = Inr (r, s') \<Longrightarrow> server_step P malloc L code s s'"
| accept: "port_accept P junk netfd opt1 opt2 a s = Inr s' \<Longrightarrow> server_step P malloc L code s s'"
| poll: "port_poll P revents a s = Inr s' \<Longrightarrow> server_step P malloc L code s s'"
| job: "take_job P code s = Inr s' \<Longrightarrow> server_step P malloc L code s s'"

end
