(* ===== verification/Port_Claims.thy ===== *)
theory Port_Claims
  imports Rpc_Ports Server_Claims Poll_Claims Struct_Claims
begin

text \<open>
  What the ports of a server promise: a port is launched once, beside the others, and stopping it closes its
  socket and leaves nothing of it; and how many connections a port can have, whatever happens.
\<close>

section \<open>Numbers as text\<close>

lemma decimal_unfold: "decimal n = (if n < 10 then [digit n] else decimal (n div 10) @ [digit (n mod 10)])"
  by (subst decimal.simps) (rule refl)

lemma decimal_length: "n < 10 ^ Suc k \<Longrightarrow> length (decimal n) \<le> Suc k"
proof (induction k arbitrary: n)
  case 0
  then show ?case by (simp add: decimal_unfold)
next
  case (Suc k)
  have "n div 10 < 10 ^ Suc k" using Suc.prems by (simp add: less_mult_imp_div_less)
  then show ?case using Suc.IH by (subst decimal_unfold) simp
qed

lemma digit_code: "d < 10 \<Longrightarrow> (of_char (digit d) :: nat) = 48 + d"
  by (simp add: digit_def)

lemma digit_eq: "c < 10 \<Longrightarrow> d < 10 \<Longrightarrow> digit c = digit d \<longleftrightarrow> c = d"
  using digit_code by (metis add_left_cancel)

lemma decimal_inj: "decimal n = decimal m \<Longrightarrow> n = m"
proof (induction n arbitrary: m rule: less_induct)
  case (less n)
  have ne: "decimal k \<noteq> []" for k by (subst decimal_unfold) simp
  have last: "last (decimal k) = digit (k mod 10)" for k by (subst decimal_unfold) simp
  have rest: "butlast (decimal k) = (if k < 10 then [] else decimal (k div 10))" for k by (subst decimal_unfold) simp
  have "digit (n mod 10) = digit (m mod 10)" using last [of n] last [of m] less.prems by simp
  then have mod: "n mod 10 = m mod 10" by (simp add: digit_eq)
  have div: "(if n < 10 then [] else decimal (n div 10)) = (if m < 10 then [] else decimal (m div 10))"
    using rest [of n] rest [of m] less.prems by simp
  show ?case
  proof (cases "n < 10")
    case True
    then have "m < 10" using div ne by (metis)
    then show ?thesis using mod True by simp
  next
    case False
    then have "\<not> m < 10" using div ne by metis
    then have "n div 10 = m div 10" using less.IH [of "n div 10" "m div 10"] False div by simp
    then show ?thesis using mod by (metis div_mult_mod_eq)
  qed
qed

lemma digit_not_minus: "d < 10 \<Longrightarrow> digit d \<noteq> CHR ''-''"
proof
  assume "d < 10" "digit d = CHR ''-''"
  then have "(48 :: nat) + d = of_char (CHR ''-'')" using digit_code by metis
  then show False by simp
qed

lemma decimal_not_minus: "CHR ''-'' \<notin> set (decimal n)"
proof (induction n rule: less_induct)
  case (less n)
  show ?case
  proof (cases "n < 10")
    case True
    then have "set (decimal n) = {digit n}" by (subst decimal_unfold) simp
    then show ?thesis using digit_not_minus [OF True] by (metis singletonD)
  next
    case False
    then have "set (decimal n) = insert (digit (n mod 10)) (set (decimal (n div 10)))" by (subst decimal_unfold) simp
    moreover have "CHR ''-'' \<notin> set (decimal (n div 10))" using less.IH [of "n div 10"] False by simp
    moreover have "digit (n mod 10) \<noteq> CHR ''-''" using digit_not_minus [of "n mod 10"] by simp
    ultimately show ?thesis by (metis insertE)
  qed
qed

lemma signed_decimal_inj: "signed_decimal i = signed_decimal j \<Longrightarrow> i = j"
proof -
  assume eq: "signed_decimal i = signed_decimal j"
  have minus: "CHR ''-'' # xs \<noteq> decimal n" "decimal n \<noteq> CHR ''-'' # xs" for xs n
    using decimal_not_minus [of n] by (metis list.set_intros(1))+
  show "i = j"
  proof (cases "i < 0")
    case True
    then have "j < 0 \<and> decimal (nat (- i)) = decimal (nat (- j))"
      using eq minus by (cases "j < 0") (simp_all add: signed_decimal_def)
    then show ?thesis using True decimal_inj [of "nat (- i)" "nat (- j)"] by simp
  next
    case False
    then have "\<not> j < 0 \<and> decimal (nat i) = decimal (nat j)"
      using eq minus by (cases "j < 0") (simp_all add: signed_decimal_def)
    then have "nat i = nat j" "0 \<le> i" "0 \<le> j" using False decimal_inj by auto
    then show ?thesis by simp
  qed
qed

text \<open>The array for the text is big enough.\<close>

lemma port_text_fits: "port_text port = Inr (signed_decimal (sint port))"
proof -
  have "- (2 ^ 15) \<le> sint port" "sint port < 2 ^ 15" using sint_greater_eq [of port] sint_less [of port] by simp_all
  then have "nat (- sint port) < 10 ^ Suc 4" "nat (sint port) < 10 ^ Suc 4" by simp_all
  then have "length (decimal (nat (- sint port))) \<le> 5" "length (decimal (nat (sint port))) \<le> 5"
    using decimal_length by (metis Suc_numeral semiring_norm(5,8))+
  then show ?thesis by (simp add: port_text_def signed_decimal_def)
qed

lemma port_text_inj: "signed_decimal (sint p) = signed_decimal (sint q) \<longleftrightarrow> p = (q :: 16 word)"
  using signed_decimal_inj signed_word_eqI by blast

text \<open>The two options are numbers and not bits: only the second is set.\<close>

lemma one_option_set: "SO_REUSEADDR OR SO_REUSEPORT = SO_REUSEPORT"
  by (simp add: SO_REUSEADDR_def SO_REUSEPORT_def)

section \<open>Elements that are plain addresses\<close>

lemma remove_plain:
  assumes inv: "store_inv {} w" and s: "mem w s = Some (Struct rs)" and e: "entry w s k = Some e"
    and plain: "\<not> counted_type (rt_type e)" "rt_type e \<noteq> RPC_string"
  obtains w' where "rpc_struct_remove cb s (Some k) w = Inr (0, w')" "store_inv {} w'" "is_struct w' s"
    "\<forall>u j. entry w' u j = (if u = s \<and> j = k then None else entry w u j)"
    "\<forall>a. mem w' a = None \<longleftrightarrow> mem w a = None"
proof -
  have get: "hashmap_get (rs_map rs) k = Some e" using e s by (simp add: entry_def)
  have hm: "hm_inv (rs_map rs)" "s \<noteq> null" using store_inv_struct [OF inv s] by blast+
  obtain m where rem: "hashmap_remove (rs_map rs) k = (Some e, m)" using hm.delete [OF hm(1), of k] get by auto
  note D = hm.delete_result(3) [OF hm(1) rem]
  let ?w = "put_obj s (Struct (rs\<lparr>rs_map := m\<rparr>)) w"
  have "visible {} w s k = Some e" using e by (simp add: visible_def)
  from exempt_uncounted [OF inv this plain(1)] have "store_inv {(s, k)} w" .
  from remove_exempt_entry [OF this s _ rem] have "store_inv {} ?w" by simp
  moreover have "rpc_struct_remove cb s (Some k) w = Inr (0, ?w)"
    using s hm(2) get plain rem by (simp add: rpc_struct_remove_def the_struct_def)
  moreover have "entry ?w u j = (if u = s \<and> j = k then None else entry w u j)" for u j
    using s D by (simp add: entry_put_struct) (simp add: entry_def)
  moreover have "mem ?w a = None \<longleftrightarrow> mem w a = None" for a using s by simp
  ultimately show thesis using that [of ?w] by (simp add: is_struct_def)
qed

lemma exists_typed_entry:
  assumes "store_inv {} w" "is_struct w s" "\<And>e. entry w s k = Some e \<Longrightarrow> rt_type e \<noteq> RPC_none"
  shows "rpc_struct_exists s (Some k) w = Inr (if entry w s k = None then 0 else 1)"
  using assms(2,3) exists_entry [OF assms(1), of s _ k] by (auto simp: is_struct_def split: option.split)

section \<open>Launching and stopping\<close>

definition holder_of :: "'k server \<Rightarrow> 16 word \<Rightarrow> addr option" where
  "holder_of s port =
     map_option ptr_value (entry (pr_store (sv_process s)) (RS_netports (sv_process s)) (signed_decimal (sint port)))"

text \<open>Every element of the struct of ports is the address of a table of connections of its own, and every
  table has a mutex of its own.\<close>

definition ports_ok :: "'k server \<Rightarrow> bool" where
  "ports_ok s \<longleftrightarrow>
     store_inv {} (pr_store (sv_process s)) \<and> is_struct (pr_store (sv_process s)) (RS_netports (sv_process s)) \<and>
     (\<forall>k e. entry (pr_store (sv_process s)) (RS_netports (sv_process s)) k = Some e \<longrightarrow>
        rt_type e = RPC_unknown \<and> sv_holders s (ptr_value e) \<noteq> None) \<and>
     inj_on (\<lambda>k. map_option ptr_value (entry (pr_store (sv_process s)) (RS_netports (sv_process s)) k))
       {k. entry (pr_store (sv_process s)) (RS_netports (sv_process s)) k \<noteq> None} \<and>
     (\<forall>a h. sv_holders s a = Some h \<longrightarrow> rh_userdata h \<in> sv_mutexes s) \<and>
     inj_on (\<lambda>a. map_option rh_userdata (sv_holders s a)) (dom (sv_holders s))"

lemma ports_okD:
  assumes "ports_ok s"
  shows "store_inv {} (pr_store (sv_process s))" "is_struct (pr_store (sv_process s)) (RS_netports (sv_process s))"
    "entry (pr_store (sv_process s)) (RS_netports (sv_process s)) k = Some e \<Longrightarrow> rt_type e = RPC_unknown \<and> sv_holders s (ptr_value e) \<noteq> None"
    "sv_holders s a = Some h \<Longrightarrow> rh_userdata h \<in> sv_mutexes s"
    "inj_on (\<lambda>k. map_option ptr_value (entry (pr_store (sv_process s)) (RS_netports (sv_process s)) k))
       {k. entry (pr_store (sv_process s)) (RS_netports (sv_process s)) k \<noteq> None}"
    "inj_on (\<lambda>a. map_option rh_userdata (sv_holders s a)) (dom (sv_holders s))"
  using assms unfolding ports_ok_def by blast+

lemma blocks_fresh:
  assumes "allocator malloc" "finite (dom (blocks s))" "card (dom (blocks s)) < 2 ^ 63"
  shows "malloc (blocks s) \<noteq> null" "sv_holders s (malloc (blocks s)) = None" "malloc (blocks s) \<notin> sv_mutexes s"
  using allocator.malloc_fresh [OF assms] by (auto simp: blocks_def split: if_splits)

lemma blocks_mutex:
  "dom (blocks (s\<lparr>sv_mutexes := insert m (sv_mutexes s)\<rparr>)) = insert m (dom (blocks s))"
  by (auto simp: blocks_def split: if_splits)

lemma port_exists:
  assumes "ports_ok s"
  shows "rpc_struct_exists (RS_netports (sv_process s)) (Some (signed_decimal (sint port))) (pr_store (sv_process s)) =
    Inr (if holder_of s port = None then 0 else 1)"
  using exists_typed_entry [OF ports_okD(1,2) [OF assms]] ports_okD(3) [OF assms] by (fastforce simp: holder_of_def)

lemma launch_new:
  assumes E: "allocator malloc" "allocator (e_malloc (pf_env P))" "cb_increment (pf_cb P) = Some (rpc_struct_increment_cb (pf_env P))"
    and ok: "ports_ok s" and room: "roomy (Suc n) (pr_store (sv_process s))"
    and blocks: "finite (dom (blocks s))" "card (dom (blocks s)) + 1 < 2 ^ 63"
    and new: "holder_of s port = None" and sock: "create_tcp_listenfd L port (pr_kernel (sv_process s)) = Inr (fd, k)"
  obtains s1 m a where "rpc_server_launch_port P malloc L code port s = Inr (0, s1)" "ports_ok s1"
    "holder_of s1 = (holder_of s)(port \<mapsto> a)" "sv_holders s a = None" "m \<notin> sv_mutexes s"
    "sv_holders s1 = (sv_holders s)(a \<mapsto> \<lparr>rh_poll_net = rpc_net_holder_accept_on fd rpc_net_holder_create,
       rh_notify = server_notify P code, rh_userdata = m\<rparr>)"
    "sv_mutexes s1 = insert m (sv_mutexes s)" "pr_kernel (sv_process s1) = k"
    "roomy n (pr_store (sv_process s1))"
proof -
  let ?p = "sv_process s" and ?acc = "signed_decimal (sint port)"
  let ?t = "RS_netports ?p" and ?w = "pr_store ?p"
  note D = ports_okD [OF ok]
  define m where "m = malloc (blocks s)"
  define a where "a = malloc (blocks (s\<lparr>sv_mutexes := insert m (sv_mutexes s)\<rparr>))"
  have m: "m \<noteq> null" "m \<notin> sv_mutexes s" using blocks_fresh [OF E(1) blocks(1)] blocks(2) by (simp_all add: m_def)
  have "finite (dom (blocks (s\<lparr>sv_mutexes := insert m (sv_mutexes s)\<rparr>)))"
    "card (dom (blocks (s\<lparr>sv_mutexes := insert m (sv_mutexes s)\<rparr>))) < 2 ^ 63"
    unfolding blocks_mutex using blocks card_insert_le_m1 [of "Suc (card (dom (blocks s)))" "dom (blocks s)" m] by simp_all
  from blocks_fresh [OF E(1) this] have a: "a \<noteq> null" "sv_holders s a = None" by (simp_all add: a_def)
  obtain rs where rs: "mem ?w ?t = Some (Struct rs)" using D(2) by (auto simp: is_struct_def)
  have ent: "entry ?w ?t ?acc = None" using new by (simp add: holder_of_def)
  have valid: "element_valid ?w (c_to_rpc (pf_junk P) C_other_ptr a)"
    using a by (simp add: element_valid_def c_to_rpc_fields counted_type_def)
  have plain: "ctype_to_rpc C_other_ptr \<noteq> RPC_string" by simp
  obtain w where w: "rpc_struct_set (pf_env P) (pf_cb P) (pf_junk P) ?t ?acc C_other_ptr a ?w = Inr (0, w)" "store_inv {} w"
    "roomy n w" "keeps ?w w" "\<forall>u j. entry w u j = (if u = ?t \<and> j = ?acc then Some (c_to_rpc (pf_junk P) C_other_ptr a) else entry ?w u j)"
    by (rule set_value [OF E(2) D(1) rs ent room valid E(3) plain])
  let ?h = "\<lparr>rh_poll_net = rpc_net_holder_accept_on fd rpc_net_holder_create, rh_notify = server_notify P code, rh_userdata = m\<rparr>"
  let ?s = "\<lparr>sv_process = set_store w (?p\<lparr>pr_kernel := k\<rparr>), sv_holders = (sv_holders s)(a \<mapsto> ?h), sv_mutexes = insert m (sv_mutexes s)\<rparr>"
  have st: "pr_store (set_store w q) = w" "RS_netports (set_store w q) = RS_netports q" for q :: "'b process"
    by (simp_all add: pr_store_def set_store_def)
  have pk: "pr_store (?p\<lparr>pr_kernel := k\<rparr>) = ?w" by (simp add: pr_store_def)
  have "rpc_server_launch_port P malloc L code port s = Inr (0, ?s)"
    using m(1) a(1) sock w(1) new
    by (simp add: rpc_server_launch_port_def port_text_fits port_exists [OF ok] Let_def in_store_def pk
        flip: m_def a_def)
  note launch = this
  have ent1: "entry w ?t j = (if j = ?acc then Some (c_to_rpc (pf_junk P) C_other_ptr a) else entry ?w ?t j)" for j
    using w(5) by simp
  have old: "ptr_value e \<noteq> a" if "entry ?w ?t j = Some e" for j e using D(3) [OF that] a(2) by auto
  have um: "rh_userdata h \<noteq> m" if "sv_holders s b = Some h" for b h using D(4) [OF that] m(2) by auto
  have val: "ptr_value (c_to_rpc (pf_junk P) C_other_ptr a) = a" "rt_type (c_to_rpc (pf_junk P) C_other_ptr a) = RPC_unknown"
    by (simp_all add: c_to_rpc_fields)
  have "inj_on (\<lambda>j. map_option ptr_value (entry w ?t j)) {j. entry w ?t j \<noteq> None}"
  proof (rule inj_onI)
    fix i j assume ij: "i \<in> {j. entry w ?t j \<noteq> None}" "j \<in> {j. entry w ?t j \<noteq> None}"
      "map_option ptr_value (entry w ?t i) = map_option ptr_value (entry w ?t j)"
    show "i = j"
      using ij old D(5) by (auto simp: ent1 val inj_on_def split: if_splits)
  qed
  moreover have "inj_on (\<lambda>b. map_option rh_userdata (sv_holders ?s b)) (dom (sv_holders ?s))"
  proof (rule inj_onI)
    fix b c assume bc: "b \<in> dom (sv_holders ?s)" "c \<in> dom (sv_holders ?s)"
      "map_option rh_userdata (sv_holders ?s b) = map_option rh_userdata (sv_holders ?s c)"
    show "b = c"
      using bc um D(6) by (auto simp: inj_on_def dom_def split: if_splits)
  qed
  moreover have "is_struct w ?t" using keepsD(1) [OF w(4) rs] by (auto simp: is_struct_def)
  moreover have "rt_type e = RPC_unknown \<and> sv_holders ?s (ptr_value e) \<noteq> None" if "entry w ?t j = Some e" for j e
    using that D(3) by (auto simp: ent1 val split: if_splits)
  moreover have "rh_userdata h \<in> sv_mutexes ?s" if "sv_holders ?s b = Some h" for b h
    using that D(4) by (auto split: if_splits)
  ultimately have "ports_ok ?s" using w(2) by (simp add: ports_ok_def st)
  note ok1 = this
  have "holder_of ?s = (holder_of s)(port \<mapsto> a)"
    by (rule ext) (simp add: holder_of_def st ent1 port_text_inj c_to_rpc_fields)
  then show thesis using that [of ?s a m] launch ok1 a(2) m(2) w(3) by (simp add: st) (simp add: set_store_def)
qed

lemma stop_idle:
  assumes ok: "ports_ok s" and at: "holder_of s port = Some a" "sv_holders s a = Some h"
    and idle: "pn_nfds (rh_poll_net h) = 0" "pn_sockfd (rh_poll_net h) = fd" "fd \<noteq> - 1"
  obtains s1 where "rpc_server_stop_port P port s = Inr (0, s1)" "ports_ok s1" "holder_of s1 = (holder_of s)(port := None)"
    "sv_holders s1 = (sv_holders s)(a := None)" "sv_mutexes s1 = sv_mutexes s - {rh_userdata h}"
    "pr_kernel (sv_process s1) = sk_close (pf_kernel P) fd (sk_shutdown (pf_kernel P) fd (pr_kernel (sv_process s)))"
proof -
  let ?p = "sv_process s" and ?acc = "signed_decimal (sint port)"
  let ?t = "RS_netports ?p" and ?w = "pr_store ?p"
  note D = ports_okD [OF ok]
  obtain rs where rs: "mem ?w ?t = Some (Struct rs)" using D(2) by (auto simp: is_struct_def)
  obtain e where e: "entry ?w ?t ?acc = Some e" "ptr_value e = a" using at(1) by (auto simp: holder_of_def)
  have te: "rt_type e = RPC_unknown" using D(3) [OF e(1)] by blast
  have plain: "\<not> counted_type (rt_type e)" "rt_type e \<noteq> RPC_string" by (simp_all add: te counted_type_def)
  have get: "get_pointer ?t ?acc C_other_ptr null ?w = Inr (0, a)"
    using get_pointer_entry [OF D(1) rs, of C_other_ptr ?acc null] e te by simp
  obtain w where w: "rpc_struct_remove (pf_cb P) ?t (Some ?acc) ?w = Inr (0, w)" "store_inv {} w" "is_struct w ?t"
    "\<forall>u j. entry w u j = (if u = ?t \<and> j = ?acc then None else entry ?w u j)"
    by (rule remove_plain [OF D(1) rs e(1) plain]) blast
  let ?k = "sk_close (pf_kernel P) fd (sk_shutdown (pf_kernel P) fd (pr_kernel ?p))"
  let ?q = "(set_store w ?p)\<lparr>pr_kernel := ?k\<rparr>"
  have free: "rpc_net_holder_free P N (Some (rh_poll_net h)) (set_store w ?p) = Inr ?q" for N
    using idle by (simp add: rpc_net_holder_free_def poll_net_free_def process_sockets_def hang_up_def set_store_def)
  let ?s = "\<lparr>sv_process = ?q, sv_holders = (sv_holders s)(a := None), sv_mutexes = sv_mutexes s - {rh_userdata h}\<rparr>"
  have stop: "rpc_server_stop_port P port s = Inr (0, ?s)"
    using D(4) [OF at(2)] w(1) at
    by (simp add: rpc_server_stop_port_def port_text_fits port_exists [OF ok] Let_def get in_store_def free
        rpc_net_holder_get_notify_def)
  have st: "pr_store ?q = w" "RS_netports ?q = ?t" by (simp_all add: pr_store_def set_store_def)
  have ent: "entry w ?t j = (if j = ?acc then None else entry ?w ?t j)" for j using w(4) by simp
  have other: "ptr_value d \<noteq> a" if "entry ?w ?t j = Some d" "j \<noteq> ?acc" for j d
    using inj_onD [OF D(5), of j ?acc] that e by auto
  have um: "rh_userdata g \<noteq> rh_userdata h" if "sv_holders s b = Some g" "b \<noteq> a" for b g
    using inj_onD [OF D(6), of b a] that at(2) by auto
  have "inj_on (\<lambda>j. map_option ptr_value (entry w ?t j)) {j. entry w ?t j \<noteq> None}"
    using D(5) by (auto simp: inj_on_def ent split: if_splits)
  moreover have "inj_on (\<lambda>b. map_option rh_userdata (sv_holders ?s b)) (dom (sv_holders ?s))"
    using D(6) by (auto simp: inj_on_def dom_def)
  moreover have "rt_type d = RPC_unknown \<and> sv_holders ?s (ptr_value d) \<noteq> None" if "entry w ?t j = Some d" for j d
    using that D(3) other by (auto simp: ent split: if_splits)
  moreover have "rh_userdata g \<in> sv_mutexes ?s" if "sv_holders ?s b = Some g" for b g
    using that D(4) um by (auto split: if_splits)
  ultimately have ok1: "ports_ok ?s" using w(2,3) by (simp add: ports_ok_def st)
  have "holder_of ?s = (holder_of s)(port := None)"
    by (rule ext) (simp add: holder_of_def st ent port_text_inj)
  then show thesis using that [of ?s] stop ok1 by simp
qed

text \<open>C22: A port that is not in use is launched beside the others; launching it again is refused and changes
  nothing; and stopping it closes its socket and releases what launching it took, so that all ports are as
  they were before.\<close>

theorem launched_port_stops:
  assumes "allocator malloc" "allocator (e_malloc (pf_env P))" "cb_increment (pf_cb P) = Some (rpc_struct_increment_cb (pf_env P))"
    "ports_ok s" "roomy 1 (pr_store (sv_process s))" "finite (dom (blocks s))" "card (dom (blocks s)) + 1 < 2 ^ 63"
    "holder_of s port = None" "create_tcp_listenfd L port (pr_kernel (sv_process s)) = Inr (fd, k)" "fd \<noteq> - 1"
  shows "\<exists>s1 s2 a. rpc_server_launch_port P malloc L code port s = Inr (0, s1) \<and> ports_ok s1 \<and>
    holder_of s1 = (holder_of s)(port \<mapsto> a) \<and> rpc_server_launch_port P malloc L code port s1 = Inr (1, s1) \<and>
    rpc_server_stop_port P port s1 = Inr (0, s2) \<and> ports_ok s2 \<and> holder_of s2 = holder_of s \<and>
    sv_holders s2 = sv_holders s \<and> sv_mutexes s2 = sv_mutexes s \<and>
    pr_kernel (sv_process s2) = sk_close (pf_kernel P) fd (sk_shutdown (pf_kernel P) fd k)"
proof -
  let ?h = "\<lambda>m. \<lparr>rh_poll_net = rpc_net_holder_accept_on fd rpc_net_holder_create, rh_notify = server_notify P code, rh_userdata = m\<rparr>"
  have room: "roomy (Suc 0) (pr_store (sv_process s))" using assms(5) by simp
  obtain s1 m a where 1: "rpc_server_launch_port P malloc L code port s = Inr (0, s1)" "ports_ok s1"
    "holder_of s1 = (holder_of s)(port \<mapsto> a)" "sv_holders s a = None" "m \<notin> sv_mutexes s"
    "sv_holders s1 = (sv_holders s)(a \<mapsto> ?h m)" "sv_mutexes s1 = insert m (sv_mutexes s)" "pr_kernel (sv_process s1) = k"
    by (rule launch_new [OF assms(1-4) room assms(6-9)])
  have at: "holder_of s1 port = Some a" "sv_holders s1 a = Some (?h m)" by (simp_all add: 1(3,6))
  have idle: "pn_nfds (rh_poll_net (?h m)) = 0" "pn_sockfd (rh_poll_net (?h m)) = fd"
    by (simp_all add: rpc_net_holder_accept_on_def poll_net_start_accept_def rpc_net_holder_create_def poll_net_init_def)
  obtain s2 where 2: "rpc_server_stop_port P port s1 = Inr (0, s2)" "ports_ok s2" "holder_of s2 = (holder_of s1)(port := None)"
    "sv_holders s2 = (sv_holders s1)(a := None)" "sv_mutexes s2 = sv_mutexes s1 - {rh_userdata (?h m)}"
    "pr_kernel (sv_process s2) = sk_close (pf_kernel P) fd (sk_shutdown (pf_kernel P) fd (pr_kernel (sv_process s1)))"
    by (rule stop_idle [OF 1(2) at idle assms(10)])
  have again: "rpc_server_launch_port P malloc L code port s1 = Inr (1, s1)"
    using at(1) by (simp add: rpc_server_launch_port_def port_text_fits port_exists [OF 1(2)])
  have "holder_of s2 = holder_of s" using assms(8) by (simp add: 2(3) 1(3) fun_upd_idem)
  moreover have "sv_holders s2 = sv_holders s" using 1(4) by (simp add: 2(4) 1(6) fun_upd_idem)
  moreover have "sv_mutexes s2 = sv_mutexes s" using 1(5) by (simp add: 2(5) 1(7))
  ultimately show ?thesis using 1(1-3,8) again 2(1,2,6) by (intro exI conjI) simp_all
qed

section \<open>Connections of a port\<close>

inductive server_reachable ::
    "('j, 'k) platform \<Rightarrow> ((addr \<rightharpoonup> unit) \<Rightarrow> addr) \<Rightarrow> 'k listening \<Rightarrow> (rpc_method \<Rightarrow> addr) \<Rightarrow> 'k server \<Rightarrow> bool"
  for P malloc L code where
  start: "sv_holders s = Map.empty \<Longrightarrow> server_reachable P malloc L code s"
| step: "server_reachable P malloc L code s \<Longrightarrow> server_step P malloc L code s s' \<Longrightarrow> server_reachable P malloc L code s'"

definition holders_reachable :: "('j, 'k) platform \<Rightarrow> 'k server \<Rightarrow> bool" where
  "holders_reachable P s \<longleftrightarrow>
     (\<forall>a h. sv_holders s a = Some h \<longrightarrow> net_reachable (holder_callbacks P (rh_notify h)) (process_sockets P) (rh_poll_net h))"

lemma with_holder_reachable:
  assumes "holders_reachable P s" "with_holder f a s = Inr s'"
    and "\<And>net N p net' p'. net_reachable (holder_callbacks P N) (process_sockets P) net \<Longrightarrow> f net N p = Inr (net', p') \<Longrightarrow>
      net_reachable (holder_callbacks P N) (process_sockets P) net'"
  shows "holders_reachable P s'"
proof -
  obtain h net p where h: "sv_holders s a = Some h" "f (rh_poll_net h) (rh_notify h) (sv_process s) = Inr (net, p)"
    "s' = s\<lparr>sv_process := p, sv_holders := (sv_holders s)(a \<mapsto> h\<lparr>rh_poll_net := net\<rparr>)\<rparr>"
    using assms(2) by (auto simp: with_holder_def andthen_eq_Inr split: option.splits)
  have "net_reachable (holder_callbacks P (rh_notify h)) (process_sockets P) net"
    using assms(1) h(1) by (intro assms(3) [OF _ h(2)]) (simp add: holders_reachable_def)
  then show ?thesis using assms(1) by (auto simp: holders_reachable_def h(3))
qed

lemma step_holders:
  assumes "server_step P malloc L code s s'" "holders_reachable P s" shows "holders_reachable P s'"
  using assms(1)
proof (cases rule: server_step.cases)
  case (launch port r)
  then obtain a h where "sv_holders s' = sv_holders s \<or>
      sv_holders s' = (sv_holders s)(a \<mapsto> h) \<and> (\<exists>fd. rh_poll_net h = rpc_net_holder_accept_on fd rpc_net_holder_create)"
    by (fastforce simp: rpc_server_launch_port_def andthen_eq_Inr Let_def split: if_splits)
  moreover have "net_reachable cbs K (rpc_net_holder_accept_on fd rpc_net_holder_create)" for cbs fd and K :: "'b process sockets"
    unfolding rpc_net_holder_accept_on_def rpc_net_holder_create_def by (intro net_reachable.intros)
  ultimately show ?thesis using assms(2) by (auto simp: holders_reachable_def split: if_splits)
next
  case (stop port r)
  then obtain a where "sv_holders s' = sv_holders s \<or> sv_holders s' = (sv_holders s)(a := None)"
    by (fastforce simp: rpc_server_stop_port_def andthen_eq_Inr Let_def split: if_splits option.splits)
  then show ?thesis using assms(2) by (auto simp: holders_reachable_def split: if_splits)
next
  case (accept junk netfd opt1 opt2 a)
  then show ?thesis
    unfolding port_accept_def
    by (intro with_holder_reachable [OF assms(2)]) (auto simp: andthen_eq_Inr intro: net_reachable.accepted)
next
  case (poll revents a)
  then show ?thesis
    unfolding port_poll_def by (intro with_holder_reachable [OF assms(2)]) (auto intro: net_reachable.polled)
next
  case job
  then have "sv_holders s' = sv_holders s" by (auto simp: take_job_def andthen_eq_Inr split: list.splits)
  then show ?thesis using assms(2) by (simp add: holders_reachable_def)
qed

lemma server_holders:
  assumes "server_reachable P malloc L code s" shows "holders_reachable P s"
  using assms
proof (induction rule: server_reachable.induct)
  case (start s)
  then show ?case by (simp add: holders_reachable_def)
next
  case (step s s')
  then show ?case by (blast intro: step_holders)
qed


section \<open>Examples\<close>

text \<open>A server that has just been set up, on a kernel that opens socket 4 and notes what is closed.\<close>

definition listening_kernel :: "int list listening" where
  "listening_kernel = \<lparr>lk_socket = \<lambda>k. (4, k), lk_setsockopt = \<lambda>fd opt k. (0, k), lk_bind = \<lambda>fd port k. (0, k),
     lk_listen = \<lambda>fd n k. (0, k)\<rparr>"

lemma listening_socket: "create_tcp_listenfd listening_kernel port k = Inr (4, k)"
  by (simp add: create_tcp_listenfd_def listening_kernel_def)

lemma fresh_server:
  obtains s :: "int list server" where "ports_ok s" "roomy 1 (pr_store (sv_process s))" "finite (dom (blocks s))"
    "card (dom (blocks s)) + 1 < 2 ^ 63" "holder_of s = Map.empty" "sv_holders s = Map.empty" "pr_kernel (sv_process s) = []"
proof -
  have p0: "populated empty_store {} (\<lambda>s k. None) (Suc 899)" using populated_empty by simp
  obtain t w where w: "populated w {t} (\<lambda>s k. None) 899" by (rule populated_create [OF p0]) simp
  let ?p = "(set_store w (idle_process [] []))\<lparr>RS_netports := t\<rparr> :: int list process"
  let ?s = "\<lparr>sv_process = ?p, sv_holders = Map.empty, sv_mutexes = {}\<rparr>"
  have st: "pr_store ?p = w" "RS_netports ?p = t" "pr_kernel ?p = []" by (simp_all add: pr_store_def set_store_def idle_process_def)
  note D = populatedD [OF w]
  have "blocks ?s = (\<lambda>a. if mem w a \<noteq> None then Some () else None)" by (simp add: blocks_def fun_eq_iff st)
  then have dom: "dom (blocks ?s) = dom (mem w)" by (auto split: if_splits)
  have "finite (dom (mem w))" using tracker_okD(2) [OF store_invD(1) [OF D(1)]] .
  moreover have "card (dom (mem w)) + 1 < 2 ^ 63" using D(2) by (simp add: roomy_def)
  moreover have "is_struct w t" using D(4) [of t] by (simp add: is_struct_def)
  then have "ports_ok ?s" using D(1) by (simp add: ports_ok_def st D(3))
  moreover have "holder_of ?s = Map.empty" by (rule ext) (simp add: holder_of_def st D(3))
  moreover have "roomy 1 w" by (rule roomy_less [OF D(2)]) simp
  ultimately show thesis using that [of ?s] by (simp add: dom st)
qed

lemma fresh_platform:
  "allocator (e_malloc (pf_env (plain_platform short_kernel)))"
  "cb_increment (pf_cb (plain_platform short_kernel)) = Some (rpc_struct_increment_cb (pf_env (plain_platform short_kernel)))"
  using plain_env_allocates cbs_simps(2) by (simp_all add: plain_platform_def)

lemmas ports_allocate = ff.allocator_axioms

theorem launched_port_stops_witness:
  "\<exists>s s1 s2. rpc_server_launch_port (plain_platform short_kernel) first_free listening_kernel handler_address 80 s = Inr (0, s1) \<and>
    holder_of s1 80 \<noteq> None \<and> rpc_server_stop_port (plain_platform short_kernel) 80 s1 = Inr (0, s2) \<and>
    holder_of s2 = Map.empty \<and> pr_kernel (sv_process s2) = [4]"
proof -
  let ?P = "plain_platform short_kernel" and ?L = listening_kernel
  obtain s :: "int list server" where s: "ports_ok s" "roomy 1 (pr_store (sv_process s))" "finite (dom (blocks s))"
    "card (dom (blocks s)) + 1 < 2 ^ 63" "holder_of s = Map.empty" "pr_kernel (sv_process s) = []"
    by (rule fresh_server)
  have "holder_of s 80 = None" "create_tcp_listenfd ?L 80 (pr_kernel (sv_process s)) = Inr (4, [])" "(4 :: int) \<noteq> - 1"
    by (simp_all add: s(5,6) listening_socket)
  from launched_port_stops [OF ports_allocate fresh_platform s(1-4) this, of handler_address]
  obtain s1 s2 a where "rpc_server_launch_port ?P first_free ?L handler_address 80 s = Inr (0, s1)" "holder_of s1 = (holder_of s)(80 \<mapsto> a)"
    "rpc_server_stop_port ?P 80 s1 = Inr (0, s2)" "holder_of s2 = holder_of s"
    "pr_kernel (sv_process s2) = sk_close (pf_kernel ?P) 4 (sk_shutdown (pf_kernel ?P) 4 [])"
    by blast
  then show ?thesis using s(5) by (intro exI [of _ s] exI [of _ s1] exI [of _ s2]) (simp add: plain_platform_def short_kernel_def)
qed


end
