(* ===== verification/Rpc_Client.thy ===== *)
theory Rpc_Client
  imports Rpc_Server
begin

text \<open>
  Clients (\<open>rpc_client.c\<close>): connections to a server in the same process or over TCP, objects of the server
  whose functions are replaced by closures, and calls of these closures, which become requests. A client is
  its number. The library for closures, and name resolution, are parameters. No function sets an error
  handler, so that the tests for one are left out.
\<close>

section \<open>State\<close>

text \<open>The functions of a connection: those for a server in the process, with the struct of the person, those
  for TCP, with the socket, or none yet.\<close>

datatype connection = Not_Connected | Local addr | Tcp int

record rpc_client =
  cl_connection :: connection
  loaded_cobjects :: addr

record 'k clients =
  cl_process :: "'k process"
  cl_clients :: "rpc_client list"

text \<open>\<open>ffi_closure_alloc\<close> gives an address at which a closure can be called; \<open>ffi_prep_cif\<close> prepares a call.\<close>

record ffi_closures =
  ffi_closure_alloc :: "store \<Rightarrow> addr"
  ffi_prep_cif :: "int \<Rightarrow> ffi_type \<Rightarrow> ffi_type list \<Rightarrow> bool"
  cobj_destructor_at :: addr

definition the_client :: "nat \<Rightarrow> 'k clients \<Rightarrow> rpc_client run" where
  "the_client c s = (if c < length (cl_clients s) then Inr (cl_clients s ! c) else Inl Use_After_Free)"

definition set_client :: "nat \<Rightarrow> rpc_client \<Rightarrow> 'k clients \<Rightarrow> 'k clients" where
  "set_client c x s = s\<lparr>cl_clients := (cl_clients s)[c := x]\<rparr>"

definition cl_store :: "'k clients \<Rightarrow> store" where
  "cl_store s = pr_store (cl_process s)"

definition in_process :: "('k process \<Rightarrow> ('a \<times> 'k process) run) \<Rightarrow> 'k clients \<Rightarrow> ('a \<times> 'k clients) run" where
  "in_process f s = andthen (f (cl_process s)) (\<lambda>(a, p). Inr (a, s\<lparr>cl_process := p\<rparr>))"

definition with_store :: "(store \<Rightarrow> ('a \<times> store) run) \<Rightarrow> 'k clients \<Rightarrow> ('a \<times> 'k clients) run" where
  "with_store f s = in_process (in_store f) s"

definition with_store_only :: "(store \<Rightarrow> store run) \<Rightarrow> 'k clients \<Rightarrow> 'k clients run" where
  "with_store_only f s = andthen (in_store_only f (cl_process s)) (\<lambda>p. Inr (s\<lparr>cl_process := p\<rparr>))"

text \<open>\<open>rpc_struct_set\<close> with its result asserted to be 0, of a value or of a text that is not in the store.\<close>

definition set_sure :: "('j, 'k) platform \<Rightarrow> addr \<Rightarrow> string \<Rightarrow> ctype \<Rightarrow> 64 word \<Rightarrow> 'k clients \<Rightarrow> 'k clients run" where
  "set_sure P s key t v =
     with_store_only (\<lambda>w. andthen (rpc_struct_set (pf_env P) (pf_cb P) (pf_junk P) s key t v w)
       (\<lambda>(r, w1). andthen (check (r = 0)) (\<lambda>_. Inr w1)))"

definition set_sure_text :: "('j, 'k) platform \<Rightarrow> addr \<Rightarrow> string \<Rightarrow> string \<Rightarrow> 'k clients \<Rightarrow> 'k clients run" where
  "set_sure_text P s key str =
     with_store_only (\<lambda>w. andthen (rpc_struct_exists s (Some key) w) (\<lambda>ex. andthen (check (ex = 0)) (\<lambda>_.
       set_json_string (pf_env P) (pf_cb P) (pf_junk P) s key str w)))"

definition new_struct :: "('j, 'k) platform \<Rightarrow> 'k clients \<Rightarrow> (addr \<times> 'k clients) run" where
  "new_struct P = with_store (rpc_struct_create (pf_env P))"

definition free_struct :: "('j, 'k) platform \<Rightarrow> addr \<Rightarrow> 'k clients \<Rightarrow> 'k clients run" where
  "free_struct P s = with_store_only (rpc_struct_free (pf_env P) (pf_cb P) s)"

section \<open>Connections\<close>

definition rpc_client_create :: "('j, 'k) platform \<Rightarrow> 'k clients \<Rightarrow> (nat \<times> 'k clients) run" where
  "rpc_client_create P s =
     andthen (new_struct P s) (\<lambda>(loaded, s1).
       Inr (length (cl_clients s1),
            s1\<lparr>cl_clients := cl_clients s1 @ [\<lparr>cl_connection = Not_Connected, loaded_cobjects = loaded\<rparr>]\<rparr>))"

definition tcp_disconnect :: "('j, 'k) platform \<Rightarrow> int \<Rightarrow> 'k clients \<Rightarrow> 'k clients" where
  "tcp_disconnect P fd s = s\<lparr>cl_process := drop_connection P fd (cl_process s)\<rparr>"

text \<open>A local connection has no function for ending it. The number of a released client is not used again.\<close>

definition rpc_client_free :: "('j, 'k) platform \<Rightarrow> nat \<Rightarrow> 'k clients \<Rightarrow> 'k clients run" where
  "rpc_client_free P c s =
     andthen (the_client c s) (\<lambda>client.
     andthen (free_struct P (loaded_cobjects client) s) (\<lambda>s1.
       Inr (case cl_connection client of Tcp fd \<Rightarrow> tcp_disconnect P fd s1 | _ \<Rightarrow> s1)))"

definition local_requestor ::
    "('j, 'k) platform \<Rightarrow> (rpc_method \<Rightarrow> addr) \<Rightarrow> addr \<Rightarrow> addr \<Rightarrow> 'k clients \<Rightarrow> (addr \<times> 'k clients) run" where
  "local_requestor P code person request s =
     andthen (new_struct P s) (\<lambda>(reply, s1).
     andthen (in_process (in_objects (rpc_server_localnet_job P code (RS_methods (cl_process s1)) person request reply)) s1) (\<lambda>(ret, s2).
     andthen (if ret \<noteq> 0 then andthen (free_struct P reply s2) (\<lambda>s3. Inr (null, s3)) else Inr (reply, s2)) (\<lambda>(reply1, s3).
     andthen (free_struct P request s3) (\<lambda>s4. Inr (reply1, s4)))))"

definition tcp_requestor :: "('j, 'k) platform \<Rightarrow> int \<Rightarrow> addr \<Rightarrow> 'k clients \<Rightarrow> (addr \<times> 'k clients) run" where
  "tcp_requestor P fd request s =
     andthen (in_process (rpc_net_send P fd request) s) (\<lambda>(r, s1).
       if r \<noteq> 0 then Inr (null, s1)
       else andthen (in_process (rpc_net_recv P fd) s1) (\<lambda>(reply, s2).
         Inr (reply, if reply = null then s2\<lparr>cl_process := drop_connection P fd (cl_process s2)\<rparr> else s2)))"

definition method_request ::
    "('j, 'k) platform \<Rightarrow> (rpc_method \<Rightarrow> addr) \<Rightarrow> nat \<Rightarrow> addr \<Rightarrow> 'k clients \<Rightarrow> (addr \<times> 'k clients) run" where
  "method_request P code c request s =
     andthen (the_client c s) (\<lambda>client.
       case cl_connection client of
         Not_Connected \<Rightarrow> Inl Null_Deref
       | Local person \<Rightarrow> local_requestor P code person request s
       | Tcp fd \<Rightarrow> tcp_requestor P fd request s)"

text \<open>One turn of the thread that keeps a connection alive.\<close>

definition tcp_ping :: "('j, 'k) platform \<Rightarrow> int \<Rightarrow> 'k clients \<Rightarrow> 'k clients run" where
  "tcp_ping P fd s =
     (if fd = - 1 then Inr s
      else andthen (new_struct P s) (\<lambda>(request, s1).
           andthen (set_sure_text P request ''method'' ''ping'' s1) (\<lambda>s2.
           andthen (tcp_requestor P fd request s2) (\<lambda>(reply, s3). free_struct P reply s3))))"

definition rpc_client_connect_local :: "('j, 'k) platform \<Rightarrow> nat \<Rightarrow> 'k clients \<Rightarrow> 'k clients run" where
  "rpc_client_connect_local P c s =
     andthen (the_client c s) (\<lambda>client.
     andthen (new_struct P s) (\<lambda>(person, s1).
     andthen (with_store_only (\<lambda>w.
                andthen (rpc_struct_set_made (pf_env P) (pf_cb P) (pf_junk P) person ''lobjects'' C_rpc_struct
                  (rpc_struct_create (pf_env P)) w) (\<lambda>(r, w1). andthen (check (r = 0)) (\<lambda>_. Inr w1))) s1) (\<lambda>s2.
       Inr (set_client c (client\<lparr>cl_connection := Local person\<rparr>) s2))))"

text \<open>The addresses of a host are tried in their order: for each the socket, if there was one, and whether it
  could be connected. Sockets that could not are closed. A host of \<open>NULL\<close> is \<open>None\<close>.\<close>

fun try_addresses :: "('j, 'k) platform \<Rightarrow> (int \<times> bool) list \<Rightarrow> 'k \<Rightarrow> int option \<times> 'k" where
  "try_addresses P [] k = (None, k)"
| "try_addresses P ((sockfd, connected) # rest) k =
     (if sockfd > 0
      then if connected then (Some sockfd, k) else try_addresses P rest (sk_close (pf_kernel P) sockfd k)
      else try_addresses P rest k)"

definition rpc_client_connect_tcp ::
    "('j, 'k) platform \<Rightarrow> (string \<Rightarrow> string \<Rightarrow> (int \<times> bool) list option) \<Rightarrow> nat \<Rightarrow> string option \<Rightarrow> 'k clients \<Rightarrow> (int \<times> 'k clients) run" where
  "rpc_client_connect_tcp P getaddrinfo c host s =
     andthen (the_client c s) (\<lambda>client.
       case host of None \<Rightarrow> Inr (1, s) | Some h \<Rightarrow>
       let mod_host = takeWhile (\<lambda>x. x \<noteq> CHR '':'') h; port = dropWhile (\<lambda>x. x \<noteq> CHR '':'') h in
       if port = [] then Inr (1, s)
       else case getaddrinfo mod_host (tl port) of
         None \<Rightarrow> Inr (1, s)
       | Some info \<Rightarrow>
           let (fd, k) = try_addresses P info (pr_kernel (cl_process s));
               s1 = s\<lparr>cl_process := (cl_process s)\<lparr>pr_kernel := k\<rparr>\<rparr> in
           case fd of
             None \<Rightarrow> Inr (1, s1)
           | Some sockfd \<Rightarrow> Inr (0, set_client c (client\<lparr>cl_connection := Tcp sockfd\<rparr>) s1))"

section \<open>Closures\<close>

definition the_closure :: "store \<Rightarrow> addr \<Rightarrow> rpc_closure_udata run" where
  "the_closure w p =
     (if p = null then Inl Null_Deref
      else case mem w p of Some (Closure d) \<Rightarrow> Inr d | _ \<Rightarrow> Inl Use_After_Free)"

text \<open>The destructor of the struct that keeps the closures. It takes the lock a second time at its end,
  instead of giving it back.\<close>

fun free_closures :: "addr \<Rightarrow> string list \<Rightarrow> store \<Rightarrow> store run" where
  "free_closures cobj [] w = Inr w"
| "free_closures cobj (k # ks) w =
     andthen (get_pointer cobj k C_other_ptr null w) (\<lambda>(r, closure_data).
     andthen (check (r = 0)) (\<lambda>_.
     andthen (the_closure w closure_data) (\<lambda>_.
     andthen (free_obj closure_data w) (free_closures cobj ks))))"

definition cobj_destructor :: "addr \<Rightarrow> store \<Rightarrow> store run" where
  "cobj_destructor cobj w =
     andthen (the_struct w cobj) (\<lambda>_.
     andthen (rpc_struct_keys cobj w) (\<lambda>keys.
     andthen (free_closures cobj keys w) (\<lambda>w1. andthen (the_struct w1 cobj) (\<lambda>_. Inr w1))))"

fun libffi_types :: "nat list \<Rightarrow> ffi_type list run" where
  "libffi_types [] = Inr []"
| "libffi_types (t # ts) = andthen (libffi_type t) (\<lambda>f. andthen (libffi_types ts) (\<lambda>fs. Inr (f # fs)))"

text \<open>One function of an object: its description gets the address of the new closure.\<close>

definition make_closure ::
    "('j, 'k) platform \<Rightarrow> ffi_closures \<Rightarrow> nat \<Rightarrow> addr \<Rightarrow> addr \<Rightarrow> nat \<Rightarrow> string \<Rightarrow> store \<Rightarrow> store run" where
  "make_closure P C c cobj cif_storage i key w =
     andthen (get_pointer cobj key C_rpc_function null w) (\<lambda>(r, fn).
     andthen (check (r = 0)) (\<lambda>_.
     andthen (check (ffi_closure_alloc C w \<noteq> null)) (\<lambda>_.
     andthen (the_function w fn) (\<lambda>f.
     andthen (if prototype_len f < 0 then Inl Assert_Failed
              else if prototype_len f = 0 then Inr []
              else case prototype f of
                     None \<Rightarrow> Inl Null_Deref
                   | Some ts \<Rightarrow> if length ts < nat (prototype_len f) then Inl Out_Of_Bounds
                       else libffi_types (take (nat (prototype_len f)) ts)) (\<lambda>types.
     andthen (libffi_type (return_type f)) (\<lambda>rtype.
     andthen (check (ffi_prep_cif C (prototype_len f) rtype types)) (\<lambda>_.
     andthen (new_obj (pf_env P) (Closure \<lparr>cu_client = c, cu_fn_name = key, cu_fetched_fn = fn, cu_cobj = cobj,
                cu_closure = ffi_closure_alloc C w, cu_ffi_prototype = types\<rparr>) w) (\<lambda>(closure_data, w1).
     andthen (rpc_struct_set (pf_env P) (pf_cb P) (pf_junk P) cif_storage (decimal i) C_other_ptr closure_data
                (put_obj fn (Function (f\<lparr>fnptr := ffi_closure_alloc C w\<rparr>)) w1)) (\<lambda>(r, w2). Inr w2)))))))))"

fun make_closures ::
    "('j, 'k) platform \<Rightarrow> ffi_closures \<Rightarrow> nat \<Rightarrow> addr \<Rightarrow> addr \<Rightarrow> nat \<Rightarrow> string list \<Rightarrow> store \<Rightarrow> store run" where
  "make_closures P C c cobj cif_storage i [] w = Inr w"
| "make_closures P C c cobj cif_storage i (k # ks) w =
     andthen (rpc_struct_typeof cobj (Some k) w) (\<lambda>t.
     andthen (if t = RPC_function then make_closure P C c cobj cif_storage i k w else Inr w)
       (make_closures P C c cobj cif_storage (i + 1) ks))"

definition closurefy :: "('j, 'k) platform \<Rightarrow> ffi_closures \<Rightarrow> nat \<Rightarrow> addr \<Rightarrow> store \<Rightarrow> store run" where
  "closurefy P C c cobj w =
     andthen (the_struct w cobj) (\<lambda>_.
     andthen (rpc_struct_keys cobj w) (\<lambda>cobj_keys.
     andthen (rpc_struct_create (pf_env P) w) (\<lambda>(cif_storage, w1).
     andthen (make_closures P C c cobj cif_storage 0 cobj_keys w1) (\<lambda>w2.
     andthen (rpc_struct_set (pf_env P) (pf_cb P) (pf_junk P) cobj ''cif_storage'' C_rpc_struct cif_storage w2) (\<lambda>(r, w3).
       rpc_struct_add_destructor cif_storage (cobj_destructor_at C) w3)))))"

end
