(* ===== verification/Rpc_Closure.thy ===== *)
theory Rpc_Closure
  imports Rpc_Client
begin

text \<open>
  Calls of closures (\<open>rpc_client.c\<close>): the arguments go into a request, and the value in the reply is
  returned. Objects that a request or a reply refers to but that belong to the caller are exempted from
  being released.
\<close>

section \<open>Requests of a client\<close>

definition is_object :: "('j, 'k) platform \<Rightarrow> (rpc_method \<Rightarrow> addr) \<Rightarrow> nat \<Rightarrow> string \<Rightarrow> 'k clients \<Rightarrow> (int \<times> 'k clients) run" where
  "is_object P code c ID s =
     andthen (new_struct P s) (\<lambda>(request, s1).
     andthen (new_struct P s1) (\<lambda>(params, s2).
     andthen (set_sure_text P request ''method'' ''is_cobject'' s2) (\<lambda>s3.
     andthen (set_sure P request ''params'' C_rpc_struct params s3) (\<lambda>s4.
     andthen (set_sure_text P params ''ID'' ID s4) (\<lambda>s5.
     andthen (method_request P code c request s5) (\<lambda>(reply, s6).
       if reply = null then Inr (0, s6)
       else andthen (rpc_struct_get reply ''is_cobject'' C_int32 (replicate 4 0) (cl_store s6)) (\<lambda>(r, out).
         andthen (check (r = 0)) (\<lambda>_.
         andthen (free_struct P reply s6) (\<lambda>s7. Inr (sint (ucast (of_le_bytes out) :: 32 word), s7))))))))))"

text \<open>An object that was loaded before is replaced. The copy is the client's own.\<close>

definition remember_cobject :: "('j, 'k) platform \<Rightarrow> addr \<Rightarrow> addr \<Rightarrow> store \<Rightarrow> store run" where
  "remember_cobject P loaded cobj w =
     andthen (rpc_struct_id_get cobj w) (\<lambda>ID.
     andthen (rpc_struct_set (pf_env P) (pf_cb P) (pf_junk P) loaded ID C_rpc_struct cobj w) (\<lambda>(r, w1).
       if r \<noteq> 0
       then andthen (get_pointer loaded ID C_rpc_struct null w1) (\<lambda>(r, old).
            andthen (check (r = 0)) (\<lambda>_.
            andthen (rpc_struct_free (pf_env P) (pf_cb P) old w1) (\<lambda>w2.
            andthen (rpc_struct_set (pf_env P) (pf_cb P) (pf_junk P) loaded ID C_rpc_struct cobj w2) (\<lambda>(r, w3).
            andthen (check (r = 0)) (\<lambda>_. Inr w3)))))
       else Inr w1))"

definition rpc_client_cobject_get ::
    "('j, 'k) platform \<Rightarrow> ffi_closures \<Rightarrow> (rpc_method \<Rightarrow> addr) \<Rightarrow> nat \<Rightarrow> string \<Rightarrow> 'k clients \<Rightarrow> (addr \<times> 'k clients) run" where
  "rpc_client_cobject_get P C code c cobj_name s =
     andthen (the_client c s) (\<lambda>client.
     andthen (new_struct P s) (\<lambda>(request, s1).
     andthen (set_sure_text P request ''method'' ''get_object'' s1) (\<lambda>s2.
     andthen (new_struct P s2) (\<lambda>(method_params, s3).
     andthen (set_sure P request ''params'' C_rpc_struct method_params s3) (\<lambda>s4.
     andthen (set_sure_text P method_params ''object'' cobj_name s4) (\<lambda>s5.
     andthen (method_request P code c request s5) (\<lambda>(reply, s6).
     andthen (if reply = null then Inr (null, s6)
              else andthen (rpc_struct_exists reply (Some ''error'') (cl_store s6)) (\<lambda>ex.
                if ex \<noteq> 0 then Inr (null, s6)
                else andthen (get_pointer reply ''object'' C_rpc_struct null (cl_store s6)) (\<lambda>(r, reply_cobj).
                     andthen (check (r = 0)) (\<lambda>_.
                     andthen (with_store (rpc_struct_deep_copy (pf_env P) (pf_cb P) (pf_depth P) reply_cobj) s6) (\<lambda>(cobj, s7).
                     andthen (with_store_only (remember_cobject P (loaded_cobjects client) cobj) s7) (\<lambda>s8.
                     andthen (with_store_only (closurefy P C c cobj) s8) (\<lambda>s9. Inr (cobj, s9)))))))) (\<lambda>(cobj, s10).
     andthen (free_struct P reply s10) (\<lambda>s11. Inr (cobj, s11))))))))))"

section \<open>Arguments\<close>

text \<open>\<open>ctx->free = NULL\<close>: the tracker counts the pointer but does not release it.\<close>

definition disown :: "addr \<Rightarrow> prec_ptr_ctx \<Rightarrow> store \<Rightarrow> store run" where
  "disown prec ctx w = prec_context_set prec (Some (ctx\<lparr>pc_free := None\<rparr>)) w"

definition pointer_argument ::
    "('j, 'k) platform \<Rightarrow> addr \<Rightarrow> nat \<Rightarrow> rpc_types \<Rightarrow> 64 word \<Rightarrow> (addr, int) hashmap_base \<times> store
     \<Rightarrow> ((addr, int) hashmap_base \<times> store) run" where
  "pointer_argument P fn_args i t arg = (\<lambda>(arg_info, w).
     andthen (check (rpc_is_pointer t)) (\<lambda>_.
       let was_refcounted = rpc_struct_is_refcounted arg w;
           element = \<lparr>data_container = le_bytes 8 arg, rt_length = 8, rt_type = t\<rparr> in
       andthen (rpc_struct_set_internal (pf_env P) (pf_cb P) fn_args (Some (decimal i)) element w) (\<lambda>(r, w1).
       andthen (check (r = 0)) (\<lambda>_.
       andthen (if was_refcounted = 0 \<and> t \<noteq> RPC_string \<and> t \<noteq> RPC_unknown
                then andthen (prec_context_get w1 (prec_get w1 arg)) (\<lambda>ctx.
                     case ctx of None \<Rightarrow> Inl Assert_Failed | Some x \<Rightarrow> disown (prec_get w1 arg) x w1)
                else Inr w1) (\<lambda>w2.
         if hashmap_get arg_info arg = None
         then andthen (hashmap_put arg_info arg was_refcounted) (\<lambda>(r, m). Inr (m, w2))
         else Inr (arg_info, w2))))))"

definition closure_argument ::
    "('j, 'k) platform \<Rightarrow> addr \<Rightarrow> nat \<Rightarrow> nat \<Rightarrow> 64 word \<Rightarrow> (addr, int) hashmap_base \<times> store
     \<Rightarrow> ((addr, int) hashmap_base \<times> store) run" where
  "closure_argument P fn_args i tag arg = (\<lambda>(arg_info, w).
     andthen (check (tag \<noteq> enum_value RPC_none)) (\<lambda>_.
       let set = (\<lambda>t. andthen (rpc_struct_set (pf_env P) (pf_cb P) (pf_junk P) fn_args (decimal i) t arg w)
                    (\<lambda>(r, w1). andthen (check (r = 0)) (\<lambda>_. Inr (arg_info, w1)))) in
       if tag = enum_value RPC_number then set C_uint64
       else if tag = enum_value RPC_real then set C_double
       else if tag \<ge> length all_types then Inl Assert_Failed
       else pointer_argument P fn_args i (all_types ! tag) arg (arg_info, w)))"

text \<open>The arguments from the \<open>i\<close>th on, by their types in the prototype.\<close>

fun closure_arguments ::
    "('j, 'k) platform \<Rightarrow> addr \<Rightarrow> nat list \<Rightarrow> 64 word list \<Rightarrow> nat \<Rightarrow> nat \<Rightarrow> (addr, int) hashmap_base \<times> store
     \<Rightarrow> ((addr, int) hashmap_base \<times> store) run" where
  "closure_arguments P fn_args ts args i 0 x = Inr x"
| "closure_arguments P fn_args ts args i (Suc n) x =
     (if i \<ge> length ts \<or> i \<ge> length args then Inl Out_Of_Bounds
      else andthen (closure_argument P fn_args i (ts ! i) (args ! i) x) (closure_arguments P fn_args ts args (i + 1) n))"

section \<open>The value that is returned\<close>

definition keep_returned :: "addr \<Rightarrow> (addr, int) hashmap_base \<Rightarrow> store \<Rightarrow> store run" where
  "keep_returned p arg_info w =
     (if hashmap_get arg_info p = None \<or> hashmap_get arg_info p = Some 0
      then andthen (prec_context_get w (prec_get w p)) (\<lambda>ctx.
           case ctx of None \<Rightarrow> Inr w | Some x \<Rightarrow> disown (prec_get w p) x w)
      else Inr w)"

text \<open>A struct that is an object of the server becomes one of the client, or a copy of the one it has.\<close>

definition returned_struct ::
    "('j, 'k) platform \<Rightarrow> ffi_closures \<Rightarrow> (rpc_method \<Rightarrow> addr) \<Rightarrow> nat \<Rightarrow> addr \<Rightarrow> (addr, int) hashmap_base \<Rightarrow> 'k clients
     \<Rightarrow> (addr \<times> 'k clients) run" where
  "returned_struct P C code c p arg_info s =
     andthen (the_client c s) (\<lambda>client.
     andthen (rpc_struct_id_get p (cl_store s)) (\<lambda>ID.
     andthen (rpc_struct_exists (loaded_cobjects client) (Some ID) (cl_store s)) (\<lambda>ex.
       if ex = 0
       then andthen (is_object P code c ID s) (\<lambda>(is_obj, s1).
            if is_obj \<noteq> 0
            then andthen (check (hashmap_get arg_info p = None)) (\<lambda>_.
                 andthen (with_store_only (closurefy P C c p) s1) (\<lambda>s2. Inr (p, s2)))
            else Inr (p, s1))
       else andthen (get_pointer (loaded_cobjects client) ID C_rpc_struct null (cl_store s)) (\<lambda>(r, lcobj).
            andthen (check (r = 0)) (\<lambda>_. with_store (rpc_struct_copy (pf_env P) (pf_cb P) lcobj) s)))))"

text \<open>All types that a closure can return have eight bytes; what is not written stays \<open>ret\<close>.\<close>

definition closure_return ::
    "('j, 'k) platform \<Rightarrow> ffi_closures \<Rightarrow> (rpc_method \<Rightarrow> addr) \<Rightarrow> nat \<Rightarrow> addr \<Rightarrow> (addr, int) hashmap_base \<Rightarrow> addr \<Rightarrow> 64 word
     \<Rightarrow> 'k clients \<Rightarrow> (64 word \<times> 'k clients) run" where
  "closure_return P C code c fetched_fn arg_info reply ret s =
     andthen (rpc_struct_typeof reply (Some ''return'') (cl_store s)) (\<lambda>return_type1.
     andthen (the_function (cl_store s) fetched_fn) (\<lambda>f.
     andthen (check (enum_value return_type1 = return_type f)) (\<lambda>_.
     andthen (rpc_struct_get_internal reply (Some ''return'') (cl_store s)) (\<lambda>element.
       if return_type1 = RPC_none then Inr (ret, s)
       else if \<not> rpc_is_pointer return_type1
       then Inr (of_le_bytes (memcpy (le_bytes 8 ret) (data_container element) (min (rt_length element) 8)), s)
       else if return_type1 = RPC_string \<or> return_type1 = RPC_unknown \<or> ptr_value element = null
       then Inr (if return_type1 = RPC_string \<or> return_type1 = RPC_unknown then ptr_value element else ret, s)
       else andthen (with_store_only (keep_returned (ptr_value element) arg_info) s) (\<lambda>s1.
            if return_type1 = RPC_struct then returned_struct P C code c (ptr_value element) arg_info s1
            else Inr (ptr_value element, s1))))))"

section \<open>The call\<close>

definition call_rpc_closure ::
    "('j, 'k) platform \<Rightarrow> ffi_closures \<Rightarrow> (rpc_method \<Rightarrow> addr) \<Rightarrow> addr \<Rightarrow> 64 word list \<Rightarrow> 64 word \<Rightarrow> 'k clients
     \<Rightarrow> (64 word \<times> 'k clients) run" where
  "call_rpc_closure P C code udata args ret s =
     andthen (the_closure (cl_store s) udata) (\<lambda>my_data.
     andthen (the_struct (cl_store s) (cu_cobj my_data)) (\<lambda>_.
     andthen (the_function (cl_store s) (cu_fetched_fn my_data)) (\<lambda>f.
     andthen (new_struct P s) (\<lambda>(request, s1).
     andthen (new_struct P s1) (\<lambda>(call_request, s2).
     andthen (new_struct P s2) (\<lambda>(fn_args, s3).
     andthen (if prototype f = None \<and> prototype_len f > 0 then Inl Null_Deref
              else with_store (\<lambda>w. closure_arguments P fn_args (case prototype f of None \<Rightarrow> [] | Some ts \<Rightarrow> ts) args 0
                                      (nat (prototype_len f)) (pointer_map, w)) s3) (\<lambda>(arg_info, s4).
     andthen (rpc_struct_id_get (cu_cobj my_data) (cl_store s4)) (\<lambda>ID.
     andthen (set_sure_text P call_request ''object'' ID s4) (\<lambda>s5.
     andthen (set_sure_text P call_request ''function'' (cu_fn_name my_data) s5) (\<lambda>s6.
     andthen (set_sure P call_request ''params'' C_rpc_struct fn_args s6) (\<lambda>s7.
     andthen (set_sure_text P request ''method'' ''call'' s7) (\<lambda>s8.
     andthen (set_sure P request ''params'' C_rpc_struct call_request s8) (\<lambda>s9.
     andthen (method_request P code (cu_client my_data) request s9) (\<lambda>(reply, s10).
     andthen (if reply = null then Inr (ret, s10)
              else closure_return P C code (cu_client my_data) (cu_fetched_fn my_data) arg_info reply ret s10) (\<lambda>(ret1, s11).
     andthen (free_struct P reply s11) (\<lambda>s12.
     andthen (the_struct (cl_store s12) (cu_cobj my_data)) (\<lambda>_. Inr (ret1, s12))))))))))))))))))"

end
