(* ===== verification/Store_Texts.thy ===== *)
theory Store_Texts
  imports Store_Room Rpc_Json
begin

text \<open>
  Making requests and replies in a store with room: new structs, texts that are copied into them, and their
  release with everything in them, which leaves all other structs as they were.
\<close>

section \<open>Random bytes\<close>

text \<open>Setting elements uses none.\<close>

lemma prec_context_set_entropy: "prec_context_set q c w = Inr w' \<Longrightarrow> entropy w' = entropy w"
  by (auto simp: prec_context_set_def andthen_eq_Inr split: if_splits)

lemma increment_cb_entropy: "rpc_struct_increment_cb E q u w = Inr w' \<Longrightarrow> entropy w' = entropy w"
  by (auto simp: rpc_struct_increment_cb_def prec_ptr_ctx_create_or_get_def andthen_eq_Inr Let_def
      split: option.splits if_splits prod.splits dest!: prec_context_set_entropy)

lemma new_obj_entropy: "new_obj E x w = Inr (p, w') \<Longrightarrow> entropy w' = entropy w"
  by (auto simp: new_obj_def andthen_eq_Inr)

lemma duplicate_string_entropy: "duplicate_string E e w = Inr (e', w') \<Longrightarrow> entropy w' = entropy w"
  by (auto simp: duplicate_string_def andthen_eq_Inr split: if_splits dest: new_obj_entropy)

lemma prec_new_entropy: "prec_new E p w = Inr (q, w') \<Longrightarrow> entropy w' = entropy w"
  by (auto simp: prec_new_def andthen_eq_Inr split: if_splits prod.splits dest: new_obj_entropy)

lemma prec_increment_entropy:
  assumes "prec_increment cb q u w = Inr w'" "cb_increment cb = Some (rpc_struct_increment_cb E)"
  shows "entropy w' = entropy w"
  using assms by (auto simp: prec_increment_def andthen_eq_Inr Let_def split: if_splits dest: increment_cb_entropy)

lemma count_element_entropy:
  assumes "count_element E cb s k e w = Inr w'" "cb_increment cb = Some (rpc_struct_increment_cb E)"
  shows "entropy w' = entropy w"
  using assms(1)
  by (auto simp: count_element_def andthen_eq_Inr split: if_splits
      dest!: prec_new_entropy prec_increment_entropy [OF _ assms(2)])

lemma set_internal_entropy:
  assumes "rpc_struct_set_internal E cb s k e w = Inr (r, w')" "cb_increment cb = Some (rpc_struct_increment_cb E)"
  shows "entropy w' = entropy w"
  using assms(1)
  by (cases k) (auto simp: rpc_struct_set_internal_def andthen_eq_Inr split: if_splits
      dest!: duplicate_string_entropy count_element_entropy [OF _ assms(2)])

lemma set_entropy:
  assumes "rpc_struct_set E cb junk s k t v w = Inr (r, w')" "cb_increment cb = Some (rpc_struct_increment_cb E)"
  shows "entropy w' = entropy w"
  using assms set_internal_entropy by (auto simp: rpc_struct_set_def andthen_eq_Inr split: if_splits)

section \<open>Tracked pointers\<close>

text \<open>Setting an element starts the tracking of its own pointer only.\<close>

lemma prec_context_set_ptracker: "prec_context_set q c w = Inr w' \<Longrightarrow> ptracker w' = ptracker w"
  by (auto simp: prec_context_set_def andthen_eq_Inr split: if_splits)

lemma increment_cb_ptracker: "rpc_struct_increment_cb E q u w = Inr w' \<Longrightarrow> ptracker w' = ptracker w"
  by (auto simp: rpc_struct_increment_cb_def prec_ptr_ctx_create_or_get_def andthen_eq_Inr Let_def
      split: option.splits if_splits prod.splits dest!: prec_context_set_ptracker)

lemma prec_increment_ptracker:
  assumes "prec_increment cb q u w = Inr w'" "cb_increment cb = Some (rpc_struct_increment_cb E)"
  shows "ptracker w' = ptracker w"
  using assms by (auto simp: prec_increment_def andthen_eq_Inr Let_def split: if_splits dest: increment_cb_ptracker)

lemma new_obj_ptracker: "new_obj E x w = Inr (p, w') \<Longrightarrow> ptracker w' = ptracker w"
  by (auto simp: new_obj_def andthen_eq_Inr)

lemma duplicate_string_ptracker: "duplicate_string E e w = Inr (e', w') \<Longrightarrow> ptracker w' = ptracker w"
  by (auto simp: duplicate_string_def andthen_eq_Inr split: if_splits dest: new_obj_ptracker)

lemma duplicate_other: "duplicate_string E e w = Inr (e', w') \<Longrightarrow> rt_type e \<noteq> RPC_string \<Longrightarrow> e' = e \<and> w' = w"
  by (simp add: duplicate_string_def)

lemma count_element_ptracker:
  assumes E: "allocator (e_malloc E)" and inv: "store_inv {} w" and room: "roomy (Suc n) w"
    and cb: "cb_increment cb = Some (rpc_struct_increment_cb E)"
    and run: "count_element E cb s k e w = Inr w'" and a: "a \<noteq> ptr_value e \<or> \<not> counted_type (rt_type e)" and e: "ptr_value e \<noteq> null"
  shows "hashmap_get (ptracker w') a = hashmap_get (ptracker w) a"
proof (cases "counted_type (rt_type e) \<and> prec_get w (ptr_value e) = null")
  case True
  have ok: "tracker_ok w" using store_invD(1) [OF inv] .
  have small: "card (dom (mem w)) < 2 ^ 63" "hb_size (ptracker w) \<le> table_limit" using room by (simp_all add: roomy_def)
  obtain q t where n: "prec_new E (ptr_value e) w =
      Inr (q, (put_obj q (Prec \<lparr>pr_ptr = ptr_value e, pr_context = None, pr_refcount = 0\<rparr>) w)\<lparr>ptracker := t\<rparr>)"
    "hashmap_get t = (hashmap_get (ptracker w))(ptr_value e \<mapsto> q)"
    by (rule prec_new_tracks [OF ok E small e]) (use True in auto)
  then show ?thesis
    using run True a prec_increment_ptracker [OF _ cb] by (fastforce simp: count_element_def)
next
  case False
  then show ?thesis
    using run prec_increment_ptracker [OF _ cb] by (auto simp: count_element_def andthen_eq_Inr split: if_splits)
qed

lemma set_internal_ptracker:
  assumes E: "allocator (e_malloc E)" and inv: "store_inv {} w" and room: "roomy (Suc n) w"
    and cb: "cb_increment cb = Some (rpc_struct_increment_cb E)"
    and run: "rpc_struct_set_internal E cb s (Some k) e w = Inr (r, w')" and a: "a \<noteq> ptr_value e \<or> \<not> counted_type (rt_type e)"
  shows "hashmap_get (ptracker w') a = hashmap_get (ptracker w) a"
proof (cases "counted_type (rt_type e)")
  case True
  then have t: "rt_type e \<noteq> RPC_string" "rpc_is_pointer (rt_type e)" by (auto simp: counted_type_def)
  show ?thesis
  proof (cases "\<exists>w1. count_element E cb s k e w = Inr w1 \<and> ptracker w' = ptracker w1 \<and> ptr_value e \<noteq> null")
    case True
    then show ?thesis using count_element_ptracker [OF E inv room cb _ a] by auto
  next
    case False
    then have "w' = w"
      using run t by (auto simp: rpc_struct_set_internal_def andthen_eq_Inr duplicate_string_def split: if_splits)
    then show ?thesis by simp
  qed
next
  case False
  have "ptracker w2 = ptracker w" if "duplicate_string E e w = Inr (e1, w1)" "count_element E cb s k e1 w1 = Inr w2" for e1 w1 w2
  proof -
    have "rt_type e1 = rt_type e" using that(1) by (auto simp: duplicate_string_def andthen_eq_Inr split: if_splits)
    then have "w2 = w1" using that(2) False by (simp add: count_element_def)
    then show ?thesis using duplicate_string_ptracker [OF that(1)] by simp
  qed
  then have "ptracker w' = ptracker w"
    using run by (fastforce simp: rpc_struct_set_internal_def andthen_eq_Inr split: if_splits)
  then show ?thesis by simp
qed

lemma set_ptracker:
  assumes "allocator (e_malloc E)" "store_inv {} w" "roomy (Suc n) w" "cb_increment cb = Some (rpc_struct_increment_cb E)"
    "rpc_struct_set E cb junk s k t v w = Inr (r, w')" "a \<noteq> v \<or> \<not> counted_type (ctype_to_rpc t)"
  shows "hashmap_get (ptracker w') a = hashmap_get (ptracker w) a"
proof -
  have "a \<noteq> ptr_value (c_to_rpc junk t v) \<or> \<not> counted_type (rt_type (c_to_rpc junk t v))"
    using assms(6) by (auto simp: c_to_rpc_fields counted_type_def)
  then show ?thesis
    using assms(5) set_internal_ptracker [OF assms(1-4)] by (auto simp: rpc_struct_set_def andthen_eq_Inr split: if_splits)
qed

section \<open>New structs\<close>

definition fresh_bytes :: "nat \<Rightarrow> store \<Rightarrow> bool" where
  "fresh_bytes n w \<longleftrightarrow> 64 * n \<le> length (entropy w) \<and> (\<forall>b\<in>set (entropy w). b \<noteq> 0)"

lemma fresh_bytes_cong: "fresh_bytes n w \<Longrightarrow> entropy w' = entropy w \<Longrightarrow> fresh_bytes n w'"
  by (simp add: fresh_bytes_def)

lemma create_room:
  assumes E: "allocator (e_malloc E)" and inv: "store_inv {} w" and room: "roomy (Suc n) w" and rnd: "fresh_bytes (Suc m) w"
  obtains s w' rs where "rpc_struct_create E w = Inr (s, w')" "store_inv {} w'" "roomy n w'" "fresh_bytes m w'" "keeps w w'"
    "mem w s = None" "s \<noteq> null" "mem w' s = Some (Struct rs)" "entry w' = entry w" "ptracker w' = ptracker w"
    "\<And>k. entry w s k = None" "\<And>a. a \<noteq> s \<Longrightarrow> mem w' a = mem w a"
proof -
  have c: "card (dom (mem w)) < 2 ^ 63" using room by (simp add: roomy_def)
  have fin: "finite (dom (mem w))" using tracker_okD(2) [OF store_invD(1) [OF inv]] .
  have nz: "\<And>b. b \<in> set (take 64 (entropy w)) \<Longrightarrow> b \<noteq> 0" using rnd by (meson fresh_bytes_def in_set_takeD)
  obtain ID where ID: "make_ID (take 64 (entropy w)) (drop 64 (entropy w)) = Inr (ID, drop 64 (entropy w))"
    using make_ID_enough [OF nz, where rnd = "drop 64 (entropy w)"] by blast
  let ?we = "w\<lparr>entropy := drop 64 (entropy w)\<rparr>"
  let ?x = "Struct \<lparr>rs_map = string_map, rs_ID = ID @ [CHR 0x00], rs_copyof = null, rs_destructor = null\<rparr>"
  have inv0: "store_inv {} ?we" and c0: "card (dom (mem ?we)) < 2 ^ 63" using store_inv_entropy [OF inv] c by simp_all
  obtain s where s: "new_obj E ?x ?we = Inr (s, put_obj s ?x ?we)" "mem ?we s = None" "s \<noteq> null"
    using new_obj_fresh [OF E inv0 c0] by metis
  let ?w = "put_obj s ?x ?we"
  have r0: "roomy (Suc n) ?we" and fin0: "finite (dom (mem ?we))" and small: "n \<le> table_limit"
    using room fin by (simp_all add: roomy_def table_limit_def)
  have len: "\<not> length (entropy w) < 64" using rnd by (simp add: fresh_bytes_def)
  have run: "rpc_struct_create E w = Inr (s, ?w)"
    using ID s(1) len by (simp add: rpc_struct_create_def RPC_STRUCT_ID_SIZE_def)
  have "store_inv {} ?w" by (rule add_object [OF inv0 s(2,3)]) (auto simp: string_map_ok)
  moreover have "roomy n ?w" by (rule roomy_put [OF r0 fin0]) (use small in \<open>auto simp: string_map_ok\<close>)
  moreover have "fresh_bytes m ?w" using rnd by (auto simp: fresh_bytes_def dest: in_set_dropD)
  moreover have "keeps w ?w" using s(2) by (auto simp: keeps_def)
  moreover have "entry ?w = entry w" using s(2) by (auto simp: entry_def fun_eq_iff string_map_ok)
  moreover have "entry w s k = None" for k using s(2) by (simp add: entry_def)
  ultimately show thesis using that [OF run] s(2,3) by simp
qed

section \<open>Texts\<close>

lemma drop_string:
  assumes inv: "store_inv {} w" and p: "mem w p = Some (Cstring str)"
    and none: "\<And>s k e. entry w s k = Some e \<Longrightarrow> rt_type e = RPC_string \<Longrightarrow> ptr_value e \<noteq> p"
  shows "free_obj p w = Inr (w\<lparr>mem := (mem w)(p := None)\<rparr>)" "store_inv {} (w\<lparr>mem := (mem w)(p := None)\<rparr>)"
proof -
  have ot: "otype w p = Some RPC_string" using p by (simp add: otype_def)
  have untr: "hashmap_get (ptracker w) p = None"
  proof (rule ccontr)
    assume "hashmap_get (ptracker w) p \<noteq> None"
    then obtain q where q: "hashmap_get (ptracker w) p = Some q" by blast
    then obtain pr where "mem w q = Some (Prec pr)" using tracker_okD(4) [OF store_invD(1) [OF inv]] by blast
    then have "record_ok {} w p pr" using store_invD(5) [OF inv] q unfolding records_ok_def by blast
    then show False using ot by (auto simp: record_ok_def)
  qed
  have rec: "hashmap_get (ptracker w) a \<noteq> Some p" for a
    using tracker_okD(4) [OF store_invD(1) [OF inv], of a p] p by auto
  have live: "ptr_value e \<noteq> p" if "visible {} w s k = Some e" "counted_type (rt_type e) \<or> rt_type e = RPC_string" for s k e
  proof -
    have e: "entry w s k = Some e" using that(1) by (simp add: visible_def)
    have "otype w (ptr_value e) = Some (rt_type e)"
      using store_invD(3) [OF inv] that unfolding elements_ok_def by blast
    then show ?thesis using none [OF e] that(2) ot by (cases "rt_type e = RPC_string") auto
  qed
  have empty: "visible {} w p k = None" for k using p by (simp add: visible_def entry_def)
  show "free_obj p w = Inr (w\<lparr>mem := (mem w)(p := None)\<rparr>)" "store_inv {} (w\<lparr>mem := (mem w)(p := None)\<rparr>)"
    using release_unreferenced [OF inv _ untr live empty rec] p by simp_all
qed

lemma set_text_room:
  assumes E: "allocator (e_malloc E)" and inv: "store_inv {} w" and s: "mem w s = Some (Struct rs)" and new: "entry w s k = None"
    and room: "roomy (Suc (Suc n)) w" and cb: "cb_increment cb = Some (rpc_struct_increment_cb E)"
  obtains w' e where "set_json_string E cb junk s k str w = Inr w'" "store_inv {} w'" "roomy n w'" "keeps w w'" "entropy w' = entropy w"
    "\<forall>u j. entry w' u j = (if u = s \<and> j = k then Some e else entry w u j)" "rt_type e = RPC_string"
    "mem w' (ptr_value e) = Some (Cstring str)" "\<And>a. hashmap_get (ptracker w') a = hashmap_get (ptracker w) a"
proof -
  have c: "card (dom (mem w)) < 2 ^ 63" using room by (simp add: roomy_def)
  have fin: "finite (dom (mem w))" using tracker_okD(2) [OF store_invD(1) [OF inv]] .
  obtain p where p: "new_obj E (Cstring str) w = Inr (p, put_obj p (Cstring str) w)" "mem w p = None" "p \<noteq> null"
    using new_obj_fresh [OF E inv c] by metis
  let ?w1 = "put_obj p (Cstring str) w"
  have inv1: "store_inv {} ?w1" by (rule add_object [OF inv p(2,3)]) simp_all
  have room1: "roomy (Suc n) ?w1" by (rule roomy_put [OF room fin]) simp_all
  have keep1: "keeps w ?w1" by (rule keeps_put_new [OF p(2)])
  have s1: "mem ?w1 s = Some (Struct rs)" using s p(2) by auto
  have ent1: "entry ?w1 u j = entry w u j" for u j using p(2) by (auto simp: entry_def)
  have new1: "entry ?w1 s k = None" using new ent1 by simp
  have valid: "element_valid ?w1 (c_to_rpc junk C_char_ptr p)"
    using p(3) by (simp add: element_valid_def c_to_rpc_fields otype_def rpc_is_pointer_def)
  obtain w2 e where S: "rpc_struct_set E cb junk s k C_char_ptr p ?w1 = Inr (0, w2)" "store_inv {} w2" "roomy n w2" "keeps ?w1 w2"
    "\<forall>u j. entry w2 u j = (if u = s \<and> j = k then Some e else entry ?w1 u j)" "rt_type e = RPC_string"
    "mem w2 (ptr_value e) = Some (Cstring str)" "mem ?w1 (ptr_value e) = None"
    by (rule set_typed [OF E inv1 s1 new1 room1 valid cb]) auto
  have p2: "mem w2 p = Some (Cstring str)" using keepsD(2) [OF S(4), of p] by simp
  have none: "ptr_value x \<noteq> p" if x: "entry w2 u j = Some x" "rt_type x = RPC_string" for u j x
  proof (cases "u = s \<and> j = k")
    case True
    then show ?thesis using S(5,8) x by auto
  next
    case False
    then have "visible {} w u j = Some x" using S(5) x ent1 by (simp add: visible_def split: if_splits)
    then show ?thesis using store_inv_string [OF inv _ x(2)] p(2) by (metis option.distinct(1))
  qed
  let ?w = "w2\<lparr>mem := (mem w2)(p := None)\<rparr>"
  have D: "free_obj p w2 = Inr ?w" "store_inv {} ?w" using drop_string [OF S(2) p2] none by blast+
  have ent: "entry ?w u j = entry w2 u j" for u j using p2 by (simp add: entry_def)
  have run: "set_json_string E cb junk s k str w = Inr ?w"
    using p(1) S(1) D(1) by (simp add: set_json_string_def)
  have "dom (mem ?w) \<subseteq> dom (mem w2)" by auto
  moreover have "finite (dom (mem w2))" using tracker_okD(2) [OF store_invD(1) [OF S(2)]] .
  ultimately have "card (dom (mem ?w)) \<le> card (dom (mem w2))" by (rule card_mono [rotated])
  then have "roomy n ?w" using S(3) by (auto simp: roomy_def split: if_splits)
  moreover have "keeps w ?w"
    using keeps_trans [OF keep1 S(4)] p(2) unfolding keeps_def by auto
  moreover have "entropy ?w = entropy w" using set_entropy [OF S(1) cb] by simp
  moreover have "\<forall>u j. entry ?w u j = (if u = s \<and> j = k then Some e else entry w u j)" using S(5) ent ent1 by simp
  moreover have "mem ?w (ptr_value e) = Some (Cstring str)" using S(7,8) by auto
  moreover have "hashmap_get (ptracker ?w) a = hashmap_get (ptracker w) a" for a
    using set_ptracker [OF E inv1 room1 cb S(1), of a] by simp
  ultimately show thesis using that [OF run D(2), of e] S(6) by blast
qed

section \<open>Release\<close>

lemma free_room:
  assumes "store_inv {} w" "\<forall>s k e. entry w s k = Some e \<longrightarrow> counted_type (rt_type e) \<longrightarrow> r (ptr_value e) < r s"
    "mem w s = Some (Struct rs)" "\<forall>t k e. entry w t k = Some e \<longrightarrow> counted_type (rt_type e) \<longrightarrow> ptr_value e \<noteq> s" "r s \<le> n"
    "hashmap_get (ptracker w) s = None"
  obtains w' where "rpc_struct_free E (rpc_struct_default_prec_cbs E n) s w = Inr w'" "store_inv {} w'" "mem w' s = None"
    "\<And>t rt. t \<noteq> s \<Longrightarrow> r s \<le> r t \<Longrightarrow> mem w t = Some (Struct rt) \<Longrightarrow> mem w' t = Some (Struct rt)"
    "\<And>t k e. entry w' t k = Some e \<Longrightarrow> entry w t k = Some e"
    "\<And>a q. hashmap_get (ptracker w') a = Some q \<Longrightarrow> hashmap_get (ptracker w) a = Some q"
    "dom (mem w') \<subseteq> dom (mem w)" "entropy w' = entropy w"
proof -
  have rk: "ranked r {} w" using assms(2) by (simp add: ranked_def visible_def)
  obtain w' where w': "rpc_struct_free_internal E (cbs E n) s w = Inr w'" "store_inv {} w'" "mem w' s = None"
    "frame {t. t \<noteq> s \<and> r s \<le> r t} w w'"
    by (rule release_struct [OF all_removes assms(1) rk assms(3,6) holders_untracked [OF assms(1,6)] _ assms(5)]) auto
  have "s \<noteq> null" using store_inv_struct(3) [OF assms(1,3)] .
  moreover have "prec_get w s = null" using assms(6) prec_get_untracked [OF store_invD(1) [OF assms(1)]] by simp
  ultimately show thesis
    using that [OF _ w'(2,3)] w'(1) frameD(1,3,5,6,7) [OF w'(4)] by (simp add: rpc_struct_free_def)
qed

end
