(* ===== verification/Client_Claims.thy ===== *)
theory Client_Claims
  imports Rpc_Closure Store_Texts Server_Claims
begin

text \<open>
  What a client in the same process can rely on: its question whether an ID belongs to an object of the
  server is built, answered and released, and nothing else in memory changes.
\<close>

section \<open>Clients and their memory\<close>

definition with_memory :: "store \<Rightarrow> 'k clients \<Rightarrow> 'k clients" where
  "with_memory w s = s\<lparr>cl_process := set_store w (cl_process s)\<rparr>"

lemma with_memory_simps [simp]:
  "cl_store (with_memory w s) = w" "with_memory w (with_memory w' s) = with_memory w s" "with_memory (cl_store s) s = s"
  "the_client c (with_memory w s) = the_client c s" "RS_methods (cl_process (with_memory w s)) = RS_methods (cl_process s)"
  "cl_clients (with_memory w s) = cl_clients s"
  by (simp_all add: with_memory_def cl_store_def set_store_def pr_store_def the_client_def)

lemma with_store_memory: "with_store f s = andthen (f (cl_store s)) (\<lambda>(a, w). Inr (a, with_memory w s))"
  by (simp add: with_store_def in_process_def in_store_def cl_store_def with_memory_def andthen_def split: sum.split prod.split)

lemma with_store_only_memory: "with_store_only f s = andthen (f (cl_store s)) (\<lambda>w. Inr (with_memory w s))"
  by (simp add: with_store_only_def in_store_only_def cl_store_def with_memory_def andthen_def split: sum.split)

lemma in_objects_memory:
  assumes "f (pr_objects (cl_process s)) = Inr (r, (pr_objects (cl_process s))\<lparr>ro_store := w\<rparr>)"
  shows "in_process (in_objects f) s = Inr (r, with_memory w s)"
  using assms by (simp add: in_process_def in_objects_def with_memory_def set_store_def)

text \<open>New keys of structs.\<close>

lemma set_sure_text_memory:
  assumes "store_inv {} (cl_store s)" "is_struct (cl_store s) a" "entry (cl_store s) a k = None"
    "set_json_string (pf_env P) (pf_cb P) (pf_junk P) a k str (cl_store s) = Inr w'"
  shows "set_sure_text P a k str s = Inr (with_memory w' s)"
  using assms(2-4)
  by (auto simp: set_sure_text_def with_store_only_memory rpc_struct_exists_def is_struct_def get_element [OF assms(1)])

section \<open>A request with one text as its parameter\<close>

lemma text_request:
  fixes P :: "('j, 'k) platform"
  assumes E: "allocator (e_malloc (pf_env P))" and cb: "cb_increment (pf_cb P) = Some (rpc_struct_increment_cb (pf_env P))"
    and inv: "store_inv {} (cl_store s)" and room: "roomy (7 + n) (cl_store s)" and rnd: "fresh_bytes (Suc (Suc m)) (cl_store s)"
  obtains rq pa w1 w2 w3 w4 w e1 e2 where "new_struct P s = Inr (rq, with_memory w1 s)"
    "new_struct P (with_memory w1 s) = Inr (pa, with_memory w2 s)"
    "set_sure_text P rq ''method'' name (with_memory w2 s) = Inr (with_memory w3 s)"
    "set_sure P rq ''params'' C_rpc_struct pa (with_memory w3 s) = Inr (with_memory w4 s)"
    "set_sure_text P pa key str (with_memory w4 s) = Inr (with_memory w s)"
    "store_inv {} w" "roomy n w" "fresh_bytes m w" "keeps (cl_store s) w" "mem (cl_store s) rq = None" "mem (cl_store s) pa = None"
    "rq \<noteq> pa" "is_struct w rq" "is_struct w pa"
    "entry w = (entry (cl_store s))(rq := [''method'' \<mapsto> e1, ''params'' \<mapsto> c_to_rpc (pf_junk P) C_rpc_struct pa], pa := [key \<mapsto> e2])"
    "rt_type e1 = RPC_string" "mem w (ptr_value e1) = Some (Cstring name)"
    "rt_type e2 = RPC_string" "mem w (ptr_value e2) = Some (Cstring str)"
    "\<And>a. a \<noteq> pa \<Longrightarrow> hashmap_get (ptracker w) a = hashmap_get (ptracker (cl_store s)) a"
proof -
  let ?w = "cl_store s" and ?E = "pf_env P"
  have room1: "roomy (Suc (6 + n)) ?w" using room by simp
  obtain rq w1 r1 where 1: "rpc_struct_create ?E ?w = Inr (rq, w1)" "store_inv {} w1" "roomy (6 + n) w1" "fresh_bytes (Suc m) w1" "keeps ?w w1"
    "mem ?w rq = None" "mem w1 rq = Some (Struct r1)" "entry w1 = entry ?w" "ptracker w1 = ptracker ?w" "\<And>k. entry ?w rq k = None"
    by (rule create_room [OF E inv room1 rnd]) blast
  have room2: "roomy (Suc (5 + n)) w1" using 1(3) by simp
  obtain pa w2 r2 where 2: "rpc_struct_create ?E w1 = Inr (pa, w2)" "store_inv {} w2" "roomy (5 + n) w2" "fresh_bytes m w2" "keeps w1 w2"
    "mem w1 pa = None" "mem w2 pa = Some (Struct r2)" "entry w2 = entry w1" "ptracker w2 = ptracker w1" "\<And>k. entry w1 pa k = None"
    by (rule create_room [OF E 1(2) room2 1(4)]) blast
  have ne: "rq \<noteq> pa" using 1(7) 2(6) by auto
  have pa0: "mem ?w pa = None" using 1(5) 2(6) unfolding keeps_def by (metis not_None_eq)
  have rq2: "is_struct w2 rq" using struct_keeps [OF 2(5)] 1(7) by (auto simp: is_struct_def)
  then obtain q2 where q2: "mem w2 rq = Some (Struct q2)" by (auto simp: is_struct_def)
  have room3: "roomy (Suc (Suc (3 + n))) w2" using 2(3) by (simp add: numeral_eq_Suc)
  have new: "entry w2 rq k = None" "entry w2 pa k = None" for k using 1(8,10) 2(8,10) by simp_all
  obtain w3 e1 where 3: "set_json_string ?E (pf_cb P) (pf_junk P) rq ''method'' name w2 = Inr w3" "store_inv {} w3" "roomy (3 + n) w3" "keeps w2 w3"
    "entropy w3 = entropy w2" "\<forall>u j. entry w3 u j = (if u = rq \<and> j = ''method'' then Some e1 else entry w2 u j)" "rt_type e1 = RPC_string"
    "mem w3 (ptr_value e1) = Some (Cstring name)" "\<And>a. hashmap_get (ptracker w3) a = hashmap_get (ptracker w2) a"
    by (rule set_text_room [where junk = "pf_junk P" and str = name, OF E 2(2) q2 new(1) [of "''method''"] room3 cb]) blast
  obtain q3 p3 where st3: "mem w3 rq = Some (Struct q3)" "mem w3 pa = Some (Struct p3)"
    using keepsD(1) [OF 3(4) q2] keepsD(1) [OF 3(4) 2(7)] by blast
  have valid: "element_valid w3 (c_to_rpc (pf_junk P) C_rpc_struct pa)"
    using st3(2) store_inv_struct(3) [OF 3(2) st3(2)] by (simp add: element_valid_def c_to_rpc_fields otype_def)
  have room4: "roomy (Suc (2 + n)) w3" using 3(3) by (simp add: numeral_eq_Suc)
  have new3: "entry w3 rq ''params'' = None" using 3(6) new by simp
  have t: "ctype_to_rpc C_rpc_struct \<noteq> RPC_string" by simp
  obtain w4 where 4: "rpc_struct_set ?E (pf_cb P) (pf_junk P) rq ''params'' C_rpc_struct pa w3 = Inr (0, w4)" "store_inv {} w4" "roomy (2 + n) w4"
    "keeps w3 w4" "\<forall>u j. entry w4 u j = (if u = rq \<and> j = ''params'' then Some (c_to_rpc (pf_junk P) C_rpc_struct pa) else entry w3 u j)"
    by (rule set_value [OF E 3(2) st3(1) new3 room4 valid cb t])
  obtain p4 where p4: "mem w4 pa = Some (Struct p4)" using keepsD(1) [OF 4(4) st3(2)] by blast
  have new4: "entry w4 pa key = None" using 4(5) 3(6) new ne by simp
  have room5: "roomy (Suc (Suc n)) w4" using 4(3) by simp
  obtain w e2 where 5: "set_json_string ?E (pf_cb P) (pf_junk P) pa key str w4 = Inr w" "store_inv {} w" "roomy n w" "keeps w4 w"
    "entropy w = entropy w4" "\<forall>u j. entry w u j = (if u = pa \<and> j = key then Some e2 else entry w4 u j)" "rt_type e2 = RPC_string"
    "mem w (ptr_value e2) = Some (Cstring str)" "\<And>a. hashmap_get (ptracker w) a = hashmap_get (ptracker w4) a"
    by (rule set_text_room [where junk = "pf_junk P" and str = str, OF E 4(2) p4 new4 room5 cb]) blast
  have ent: "entry w = (entry ?w)(rq := [''method'' \<mapsto> e1, ''params'' \<mapsto> c_to_rpc (pf_junk P) C_rpc_struct pa], pa := [key \<mapsto> e2])"
    using ne new 1(8,10) 2(8,10) by (intro ext) (simp add: 5(6) 4(5) 3(6))
  have keep34: "keeps w3 w" and keep24: "keeps w2 w" and keep: "keeps ?w w"
    using keeps_trans [OF 4(4) 5(4)] keeps_trans [OF 3(4) keeps_trans [OF 4(4) 5(4)]]
      keeps_trans [OF 1(5) keeps_trans [OF 2(5) keeps_trans [OF 3(4) keeps_trans [OF 4(4) 5(4)]]]] by simp_all
  have fresh: "fresh_bytes m w"
    by (rule fresh_bytes_cong [OF 2(4)]) (use 3(5) 5(5) set_entropy [OF 4(1) cb] in simp)
  have method_text: "mem w (ptr_value e1) = Some (Cstring name)" using keepsD(2) [OF keep34 3(8)] .
  have tr: "hashmap_get (ptracker w) a = hashmap_get (ptracker ?w) a" if "a \<noteq> pa" for a
    using that 1(9) 2(9) 3(9) 5(9) set_ptracker [OF E 3(2) room4 cb 4(1), of a] by simp
  have "new_struct P s = Inr (rq, with_memory w1 s)" "new_struct P (with_memory w1 s) = Inr (pa, with_memory w2 s)"
    using 1(1) 2(1) by (simp_all add: new_struct_def with_store_memory)
  moreover have "set_sure_text P rq ''method'' name (with_memory w2 s) = Inr (with_memory w3 s)"
    using set_sure_text_memory [of "with_memory w2 s" rq "''method''" P name w3] 2(2) rq2 new 3(1) by simp
  moreover have "set_sure P rq ''params'' C_rpc_struct pa (with_memory w3 s) = Inr (with_memory w4 s)"
    using 4(1) by (simp add: set_sure_def with_store_only_memory)
  moreover have "set_sure_text P pa key str (with_memory w4 s) = Inr (with_memory w s)"
    using set_sure_text_memory [of "with_memory w4 s" pa key P str w] 4(2) p4 new4 5(1) by (simp add: is_struct_def)
  moreover have "is_struct w rq" "is_struct w pa"
    using struct_keeps [OF keep24 rq2] struct_keeps [OF 5(4)] p4 by (auto simp: is_struct_def)
  ultimately show thesis
    using that [of rq w1 pa w2 w3 w4 w] 5(2,3,7,8) fresh keep 1(6) pa0 ne ent 3(7) method_text tr by blast
qed

section \<open>The answer of the server\<close>

definition found_flag :: "rpc_objects \<Rightarrow> string \<Rightarrow> 64 word" where
  "found_flag g ID = (if registered g ID = None then 0 else 1)"

lemma registered_alive: "registry_ok g \<Longrightarrow> registered g name = Some p \<Longrightarrow> p \<noteq> null"
  using element_object(1) store_inv_alive
  by (fastforce simp: registry_ok_def registered_def Let_def split: option.splits if_splits)

lemma is_cobject_answers:
  assumes E: "allocator (e_malloc (pf_env P))" and cb: "cb_increment (pf_cb P) = Some (rpc_struct_increment_cb (pf_env P))"
    and reg: "registry_ok g" and room: "roomy (Suc n) (ro_store g)"
    and pa: "is_struct (ro_store g) pa" "text_entry (ro_store g) pa ''ID'' ID"
    and reply: "mem (ro_store g) reply = Some (Struct ro)" "entry (ro_store g) reply ''is_cobject'' = None"
  obtains w where "is_cobject P pa reply g = Inr (0, g\<lparr>ro_store := w\<rparr>)" "store_inv {} w" "roomy n w" "keeps (ro_store g) w"
    "\<forall>u j. entry w u j = (if u = reply \<and> j = ''is_cobject'' then Some (c_to_rpc (pf_junk P) C_int32 (found_flag g ID))
                         else entry (ro_store g) u j)"
    "\<And>a. hashmap_get (ptracker w) a = hashmap_get (ptracker (ro_store g)) a" "entropy w = entropy (ro_store g)"
proof -
  have inv: "store_inv {} (ro_store g)" using reg by (simp add: registry_ok_def)
  obtain a where a: "get_pointer pa ''ID'' C_char_ptr null (ro_store g) = Inr (0, a)" "the_cstring (ro_store g) a = Inr ID"
    by (rule text_pointer [OF inv pa])
  have get: "andthen (rpc_cobject_get ID g) (\<lambda>cobj. Inr (if cobj \<noteq> null then 1 else 0)) = Inr (found_flag g ID)"
    using registered_alive [OF reg] by (simp add: cobject_get_registered [OF reg] found_flag_def split: option.split)
  have valid: "element_valid (ro_store g) (c_to_rpc (pf_junk P) C_int32 v)" for v
    by (simp add: element_valid_def c_to_rpc_fields counted_type_def rpc_is_pointer_def)
  have t: "ctype_to_rpc C_int32 \<noteq> RPC_string" "\<not> counted_type (ctype_to_rpc C_int32)" by (simp_all add: counted_type_def)
  obtain w where w: "rpc_struct_set (pf_env P) (pf_cb P) (pf_junk P) reply ''is_cobject'' C_int32 (found_flag g ID) (ro_store g) = Inr (0, w)"
    "store_inv {} w" "roomy n w" "keeps (ro_store g) w"
    "\<forall>u j. entry w u j = (if u = reply \<and> j = ''is_cobject'' then Some (c_to_rpc (pf_junk P) C_int32 (found_flag g ID))
                         else entry (ro_store g) u j)"
    by (rule set_value [OF E inv reply(1,2) room valid cb t(1)])
  show thesis
    using that [of w] w a get set_ptracker [OF E inv room cb w(1)] t(2) set_entropy [OF w(1) cb]
    by (simp add: is_cobject_def on_store_def)
qed

lemma int32_answer:
  assumes "length junk = 8" "store_inv {} w" "mem w s = Some (Struct rs)" "entry w s k = Some (c_to_rpc junk C_int32 v)"
  shows "rpc_struct_get s k C_int32 (replicate 4 0) w = Inr (0, le_bytes 4 v)"
proof -
  have "rpc_get_element C_int32 (replicate 4 0) (c_to_rpc junk C_int32 v) = (0, le_bytes 4 v)"
    using get_c_to_rpc [of C_int32 C_int32 junk "replicate 4 0" v] assms(1) by simp
  then show ?thesis using assms(4) by (auto simp: get_typed [OF assms(2,3)] rpc_get_element_def split: if_splits)
qed

lemma int32_of_flag: "sint (ucast (of_le_bytes (le_bytes 4 (found_flag g ID))) :: 32 word) = (if registered g ID = None then 0 else 1)"
  by (simp add: of_le_bytes_le_bytes found_flag_def)

section \<open>The question of a client\<close>

lemma free_nested:
  assumes "store_inv {} w" "nested r w" "is_struct w s" "r s \<le> n" "hashmap_get (ptracker w) s = None"
    "\<forall>t k e. entry w t k = Some e \<longrightarrow> counted_type (rt_type e) \<longrightarrow> ptr_value e \<noteq> s"
  obtains w' where "rpc_struct_free E (rpc_struct_default_prec_cbs E n) s w = Inr w'" "store_inv {} w'"
    "\<And>t rt. t \<noteq> s \<Longrightarrow> r s \<le> r t \<Longrightarrow> mem w t = Some (Struct rt) \<Longrightarrow> mem w' t = Some (Struct rt)"
    "\<And>t. t \<noteq> s \<Longrightarrow> r s \<le> r t \<Longrightarrow> entry w' t = entry w t"
    "\<And>t k e. entry w' t k = Some e \<Longrightarrow> entry w t k = Some e"
    "\<And>a. hashmap_get (ptracker w) a = None \<Longrightarrow> hashmap_get (ptracker w') a = None"
    "dom (mem w') \<subseteq> dom (mem w)" "entropy w' = entropy w" "mem w' s = None"
proof -
  obtain rs where rs: "mem w s = Some (Struct rs)" using assms(3) by (auto simp: is_struct_def)
  obtain w' where w': "rpc_struct_free E (rpc_struct_default_prec_cbs E n) s w = Inr w'" "store_inv {} w'" "mem w' s = None"
    "\<And>t rt. t \<noteq> s \<Longrightarrow> r s \<le> r t \<Longrightarrow> mem w t = Some (Struct rt) \<Longrightarrow> mem w' t = Some (Struct rt)"
    "\<And>t k e. entry w' t k = Some e \<Longrightarrow> entry w t k = Some e"
    "\<And>a q. hashmap_get (ptracker w') a = Some q \<Longrightarrow> hashmap_get (ptracker w) a = Some q"
    "dom (mem w') \<subseteq> dom (mem w)" "entropy w' = entropy w"
    by (rule free_room [OF assms(1) assms(2) [unfolded nested_def] rs assms(6,4,5)]) blast
  have kept: "entry w' t = entry w t" if t: "t \<noteq> s" "r s \<le> r t" for t
  proof (cases "is_struct w t")
    case True
    then show ?thesis using w'(4) [OF t] by (auto simp: is_struct_def entry_def)
  next
    case False
    then have "entry w t k = None" for k by (auto simp: is_struct_def entry_def split: option.split obj.split)
    then show ?thesis using w'(5) by (intro ext) (metis option.exhaust)
  qed
  have "hashmap_get (ptracker w') a = None" if "hashmap_get (ptracker w) a = None" for a
    using that w'(6) [of a] by (cases "hashmap_get (ptracker w') a") auto
  then show thesis
    using that [OF w'(1,2) _ kept w'(5) _ w'(7,8,3)] w'(4) by simp
qed

text \<open>After the exchange the request and the reply are released, and the parameters with the request.\<close>

lemma exchange_released:
  assumes n: "1 \<le> n" and inv: "store_inv {} w" and rk: "nested r w" and absent: "mem w rq = None" "mem w pa = None" "mem w re = None"
    and ne: "rq \<noteq> pa" "re \<noteq> rq" "re \<noteq> pa"
    and inv7: "store_inv {} w7" and st7: "is_struct w7 rq" "is_struct w7 re"
    and tr7: "hashmap_get (ptracker w7) rq = None" "hashmap_get (ptracker w7) re = None"
    and ent7: "entry w7 = (entry w)(rq := [''method'' \<mapsto> e1, ''params'' \<mapsto> c_to_rpc junk C_rpc_struct pa], pa := [key \<mapsto> e2], re := answer)"
    and plain: "rt_type e1 = RPC_string" "rt_type e2 = RPC_string" "\<And>k e. answer k = Some e \<Longrightarrow> \<not> counted_type (rt_type e)"
  obtains w8 w9 where "rpc_struct_free E (rpc_struct_default_prec_cbs E n) rq w7 = Inr w8" "store_inv {} w8" "is_struct w8 re"
    "entry w8 re = answer" "rpc_struct_free E (rpc_struct_default_prec_cbs E n) re w8 = Inr w9" "store_inv {} w9"
    "\<forall>t. mem w t \<noteq> None \<longrightarrow> entry w9 t = entry w t"
proof -
  let ?r = "\<lambda>a. if a = pa then 0 else if a = rq then 1 else r a + 2"
  let ?q = "\<lambda>a. if a = re then 0 else Suc (?r a)"
  have live: "ptr_value e \<noteq> rq \<and> ptr_value e \<noteq> pa \<and> ptr_value e \<noteq> re" if "entry w t k = Some e" "counted_type (rt_type e)" for t k e
    using untracked_if_absent(3) [OF inv absent(1), of t k e] untracked_if_absent(3) [OF inv absent(2), of t k e]
      untracked_if_absent(3) [OF inv absent(3), of t k e] that by (simp add: visible_def)
  have counted: "(t = rq \<and> ptr_value e = pa) \<or> t \<notin> {rq, pa, re} \<and> entry w t k = Some e"
    if "entry w7 t k = Some e" "counted_type (rt_type e)" for t k e
    using that ne plain by (auto simp: ent7 c_to_rpc_fields counted_type_def split: if_splits)
  have low: "?r (ptr_value e) < ?r t" if e: "entry w7 t k = Some e" "counted_type (rt_type e)" for t k e
  proof (cases "t = rq \<and> ptr_value e = pa")
    case False
    then have t: "t \<notin> {rq, pa, re}" "entry w t k = Some e" using counted [OF e] by blast+
    then show ?thesis using live [OF t(2) e(2)] rk e(2) unfolding nested_def by auto
  qed (use ne in simp)
  then have n7: "nested ?r w7" unfolding nested_def by blast
  have alone: "\<forall>t k e. entry w7 t k = Some e \<longrightarrow> counted_type (rt_type e) \<longrightarrow> ptr_value e \<noteq> rq \<and> ptr_value e \<noteq> re"
    using live counted ne by metis
  obtain w8 where F: "rpc_struct_free E (rpc_struct_default_prec_cbs E n) rq w7 = Inr w8" "store_inv {} w8" "is_struct w8 re"
    "\<And>t. t \<noteq> rq \<Longrightarrow> ?r rq \<le> ?r t \<Longrightarrow> entry w8 t = entry w7 t"
    "\<And>t k e. entry w8 t k = Some e \<Longrightarrow> entry w7 t k = Some e" "hashmap_get (ptracker w8) re = None"
    by (rule free_nested [where E = E and n = n, OF inv7 n7 st7(1) _ tr7(1)]) (use n ne alone tr7(2) st7(2) in \<open>auto simp: is_struct_def\<close>)
  have "?q (ptr_value e) < ?q t" if e: "entry w8 t k = Some e" "counted_type (rt_type e)" for t k e
  proof -
    have t: "entry w7 t k = Some e" using F(5) e(1) .
    moreover have "t \<noteq> re" using counted [OF t e(2)] ne by blast
    ultimately show ?thesis using low [OF t e(2)] alone e(2) by auto
  qed
  then have n8: "nested ?q w8" unfolding nested_def by blast
  have alone8: "\<forall>t k e. entry w8 t k = Some e \<longrightarrow> counted_type (rt_type e) \<longrightarrow> ptr_value e \<noteq> re" using alone F(5) by blast
  obtain w9 where L: "rpc_struct_free E (rpc_struct_default_prec_cbs E n) re w8 = Inr w9" "store_inv {} w9"
    "\<And>t. t \<noteq> re \<Longrightarrow> ?q re \<le> ?q t \<Longrightarrow> entry w9 t = entry w8 t"
    by (rule free_nested [where E = E and n = n, OF F(2) n8 F(3) _ F(6) alone8]) auto
  have "entry w8 re = answer" using F(4) [of re] ne by (simp add: ent7)
  moreover have "entry w9 t = entry w t" if "mem w t \<noteq> None" for t
  proof -
    have "t \<noteq> rq" "t \<noteq> pa" "t \<noteq> re" using that absent by auto
    then show ?thesis using L(3) [of t] F(4) [of t] ne by (simp add: ent7)
  qed
  ultimately show thesis using that [OF F(1-3) _ L(1,2)] by blast
qed

lemma is_cobject_served:
  fixes P :: "('j, 'k) platform"
  assumes E: "allocator (e_malloc (pf_env P))" and cb: "cb_increment (pf_cb P) = Some (rpc_struct_increment_cb (pf_env P))"
    and reg: "registry_ok g" and code: "inj code" "methods_ok code methods (ro_store g)"
    and w5: "store_inv {} w5" "roomy 2 w5" "fresh_bytes (Suc 0) w5" "keeps (ro_store g) w5"
    and st: "is_struct w5 rq" "is_struct w5 pa" "mem (ro_store g) rq = None" "mem (ro_store g) pa = None" "rq \<noteq> pa"
    and ent: "entry w5 = (entry (ro_store g))(rq := [''method'' \<mapsto> e1, ''params'' \<mapsto> c_to_rpc (pf_junk P) C_rpc_struct pa], pa := [''ID'' \<mapsto> e2])"
    and e: "rt_type e1 = RPC_string" "mem w5 (ptr_value e1) = Some (Cstring ''is_cobject'')"
      "rt_type e2 = RPC_string" "mem w5 (ptr_value e2) = Some (Cstring ID)"
  obtains re w6 w7 where "rpc_struct_create (pf_env P) w5 = Inr (re, w6)" "mem w5 re = None" "re \<noteq> rq" "re \<noteq> pa"
    "rpc_server_localnet_job P code methods person rq re (g\<lparr>ro_store := w6\<rparr>) = Inr (0, g\<lparr>ro_store := w7\<rparr>)"
    "store_inv {} w7" "keeps w5 w7" "is_struct w7 re" "\<And>a. hashmap_get (ptracker w7) a = hashmap_get (ptracker w5) a"
    "entry w7 = (entry w5)(re := [''is_cobject'' \<mapsto> c_to_rpc (pf_junk P) C_int32 (found_flag g ID)])"
proof -
  let ?w = "ro_store g"
  have room5: "roomy (Suc 1) w5" using w5(2) by (simp add: numeral_eq_Suc)
  obtain re w6 ro where C: "rpc_struct_create (pf_env P) w5 = Inr (re, w6)" "store_inv {} w6" "roomy 1 w6" "keeps w5 w6"
    "mem w5 re = None" "mem w6 re = Some (Struct ro)" "entry w6 = entry w5" "ptracker w6 = ptracker w5" "\<And>k. entry w5 re k = None"
    by (rule create_room [OF E w5(1) room5 w5(3)]) blast
  have fresh: "re \<noteq> rq" "re \<noteq> pa" using st(1,2) C(5) by (auto simp: is_struct_def)
  let ?g6 = "g\<lparr>ro_store := w6\<rparr>"
  have keep6: "keeps ?w w6" using keeps_trans [OF w5(4) C(4)] .
  have same: "entry w6 t = entry ?w t" if "mem ?w t \<noteq> None" for t using that st(3,4) by (auto simp: C(7) ent)
  have reg6: "registry_ok ?g6" by (rule registry_keeps [OF reg keep6 C(2)])
  have tables: "entry w6 (RO_cobject_bname g) = entry ?w (RO_cobject_bname g)" "entry w6 (RO_cobject_bid g) = entry ?w (RO_cobject_bid g)"
    using reg by (auto simp: registry_ok_def intro!: same)
  then have flag: "found_flag ?g6 ID = found_flag g ID" by (simp add: found_flag_def registered_def Let_def cong: option.case_cong)
  have me: "methods_ok code methods (ro_store ?g6)"
    using code(2) same [of methods] struct_keeps [OF keep6] by (auto simp: methods_ok_def is_struct_def)
  have st6: "is_struct w6 rq" "is_struct w6 pa" using st(1,2) struct_keeps [OF C(4)] by blast+
  have texts: "the_cstring w6 (ptr_value e1) = Inr ''is_cobject''" "text_entry w6 pa ''ID'' ID"
    using keepsD(2) [OF C(4) e(2)] keepsD(2) [OF C(4) e(4)] store_inv_alive [OF C(2)] st(5) e(3)
    by (auto simp: the_cstring_def text_entry_def C(7) ent)
  have job: "rpc_server_localnet_job P code methods person rq re ?g6 = is_cobject P pa re ?g6"
    using dispatch [OF _ code(1) me, of rq P person re] C(2) st6(1) texts(1) st(5) e(1)
    by (simp add: C(7) ent method_names_def c_to_rpc_fields)
  have room6: "roomy (Suc 0) (ro_store ?g6)" using C(3) by simp
  have pa6: "is_struct (ro_store ?g6) pa" "text_entry (ro_store ?g6) pa ''ID'' ID" using st6 texts by simp_all
  have re6: "mem (ro_store ?g6) re = Some (Struct ro)" "entry (ro_store ?g6) re ''is_cobject'' = None" using C(6,7,9) by simp_all
  obtain w7 where A: "is_cobject P pa re ?g6 = Inr (0, ?g6\<lparr>ro_store := w7\<rparr>)" "store_inv {} w7" "keeps w6 w7"
    "\<forall>u j. entry w7 u j = (if u = re \<and> j = ''is_cobject'' then Some (c_to_rpc (pf_junk P) C_int32 (found_flag g ID)) else entry w6 u j)"
    "\<And>a. hashmap_get (ptracker w7) a = hashmap_get (ptracker w6) a"
    by (rule is_cobject_answers [OF E cb reg6 room6 pa6 re6]) (simp add: flag)
  have "entry w7 = (entry w5)(re := [''is_cobject'' \<mapsto> c_to_rpc (pf_junk P) C_int32 (found_flag g ID)])"
    using C(7,9) by (intro ext) (simp add: A(4))
  moreover have "is_struct w7 re" using struct_keeps [OF A(3)] C(6) by (auto simp: is_struct_def)
  ultimately show thesis
    using that [OF C(1,5) fresh _ A(2) keeps_trans [OF C(4) A(3)]] job A(1,5) C(8) by simp
qed

lemma local_exchange:
  assumes c: "c < length (cl_clients s)" "cl_connection (cl_clients s ! c) = Local person"
    and run: "rpc_struct_create (pf_env P) w5 = Inr (re, w6)"
      "rpc_server_localnet_job P code (RS_methods (cl_process s)) person rq re ((pr_objects (cl_process s))\<lparr>ro_store := w6\<rparr>) =
        Inr (0, (pr_objects (cl_process s))\<lparr>ro_store := w7\<rparr>)"
      "rpc_struct_free (pf_env P) (pf_cb P) rq w7 = Inr w8"
  shows "method_request P code c rq (with_memory w5 s) = Inr (re, with_memory w8 s)"
proof -
  have "in_process (in_objects (rpc_server_localnet_job P code (RS_methods (cl_process s)) person rq re)) (with_memory w6 s) =
      Inr (0, with_memory w7 s)"
    using run(2) by (simp add: in_process_def in_objects_def with_memory_def set_store_def)
  then show ?thesis
    using c run(1,3)
    by (simp add: method_request_def the_client_def local_requestor_def new_struct_def free_struct_def with_store_memory
        with_store_only_memory)
qed


text \<open>A client of a server with one object.\<close>

lemma client_example:
  obtains s :: "int list clients" and cobj where "registry_ok (pr_objects (cl_process s))"
    "methods_ok handler_address (RS_methods (cl_process s)) (cl_store s)" "roomy 9 (cl_store s)" "fresh_bytes 3 (cl_store s)"
    "\<exists>r. nested r (cl_store s)" "registered (pr_objects (cl_process s)) ''adder'' = Some cobj"
    "cl_clients s = [\<lparr>cl_connection = Local cobj, loaded_cobjects = cobj\<rparr>]"
proof -
  let ?n = "\<lambda>k. (10 :: nat) + k"
  have p0: "populated empty_store {} (\<lambda>s k. None) (Suc (?n 889))" using populated_empty by simp
  obtain bn w1 where 1: "populated w1 {bn} (\<lambda>s k. None) (Suc (?n 888))" by (rule populated_create [OF p0]) simp
  obtain bi w2 where 2: "bi \<notin> {bn}" "populated w2 {bi, bn} (\<lambda>s k. None) (Suc (?n 887))" by (rule populated_create [OF 1]) simp
  obtain pc w3 where 3: "pc \<notin> {bi, bn}" "populated w3 {pc, bi, bn} (\<lambda>s k. None) (Suc (?n 886))" by (rule populated_create [OF 2(2)]) simp
  obtain cobj w4 where 4: "cobj \<notin> {pc, bi, bn}" "populated w4 {cobj, pc, bi, bn} (\<lambda>s k. None) (Suc (?n 885))"
    by (rule populated_create [OF 3(2)]) simp
  obtain me w5 where 5: "me \<notin> {cobj, pc, bi, bn}" "populated w5 {me, cobj, pc, bi, bn} (\<lambda>s k. None) (Suc (?n 884))"
    by (rule populated_create [OF 4(2)]) simp
  let ?S = "{me, cobj, pc, bi, bn}" and ?st = "c_to_rpc [] C_rpc_struct cobj"
  obtain w6 where 6: "populated w6 ?S ((\<lambda>s k. None)(bn := [''adder'' \<mapsto> ?st])) (5 + ?n 879)"
    by (rule populated_struct [where s = bn and q = cobj and k = "''adder''", OF 5(2)]) simp_all
  let ?ms = "\<lambda>k. map_option (\<lambda>m. c_to_rpc [] C_other_ptr (handler_address m)) (map_of method_names k)"
  let ?es = "(\<lambda>s k. None)(bn := [''adder'' \<mapsto> ?st], me := ?ms)"
  obtain w where w: "methods_ok handler_address me w" "populated w ?S ?es (?n 879)"
    by (rule populated_methods [OF 6, where s = me, OF _ _ handler_address_ok(2)]) (use 5(1) in auto)
  let ?w = "w\<lparr>entropy := replicate 192 1\<rparr>"
  let ?g = "\<lparr>ro_store = ?w, RO_cobject_bname = bn, RO_cobject_bid = bi, RO_protocache = pc, RO_lobjects = null, RO_object_stack = None\<rparr>"
  let ?s = "\<lparr>cl_process = (idle_process [] [])\<lparr>pr_objects := ?g, RS_methods := me\<rparr>,
    cl_clients = [\<lparr>cl_connection = Local cobj, loaded_cobjects = cobj\<rparr>]\<rparr> :: int list clients"
  have st: "cl_store ?s = ?w" by (simp add: cl_store_def pr_store_def)
  have ent: "entry ?w = ?es" using populatedD(3) [OF w(2)] by (intro ext) (simp add: entry_def)
  have inv: "store_inv {} ?w" by (rule store_inv_entropy [OF populatedD(1) [OF w(2)]])
  have "registry_ok ?g" using inv 2(1) 3(1) populatedD(4) [OF w(2)] by (auto simp: registry_ok_def)
  moreover have "methods_ok handler_address me ?w" using w(1) by (simp add: methods_ok_def is_struct_def entry_def)
  moreover have "roomy 9 ?w" using roomy_less [OF populatedD(2) [OF w(2)], of 9] by (simp add: roomy_def)
  moreover have "fresh_bytes 3 ?w" by (simp add: fresh_bytes_def)
  moreover have "nested (\<lambda>a. if a = cobj then 0 else 1) ?w"
    using 4(1) 5(1) by (auto simp: nested_def ent c_to_rpc_fields counted_type_def split: if_splits)
  moreover have "registered ?g ''adder'' = Some cobj" using 5(1) by (auto simp: registered_def ent c_to_rpc_fields)
  ultimately show thesis using that [of ?s cobj] st by auto
qed


end
