(* ===== verification/Job_Claims.thy ===== *)
theory Job_Claims
  imports Client_Claims Json_Claims
begin

text \<open>
  From messages to jobs: the requests that a person has sent become jobs of the thread pool, one for each, in
  the order in which they arrived.
\<close>

section \<open>One request\<close>

text \<open>The elements of the struct of a job.\<close>

definition job_of :: "('j, 'k) platform \<Rightarrow> int \<Rightarrow> addr \<Rightarrow> addr \<Rightarrow> string \<Rightarrow> rpc_type_t option" where
  "job_of P fd persondata request =
     [''fd'' \<mapsto> c_to_rpc (pf_junk P) C_int32 (word_of_int fd), ''persondata'' \<mapsto> c_to_rpc (pf_junk P) C_rpc_struct persondata,
      ''request'' \<mapsto> c_to_rpc (pf_junk P) C_rpc_struct request]"

lemma store_process [simp]:
  "pr_store (set_store w p) = w" "RS_persondata (set_store w p) = RS_persondata p" "RS_thpool (set_store w p) = RS_thpool p"
  "RN_persons (set_store w p) = RN_persons p" "set_store w' (set_store w p) = set_store w' p" "the_person fd (set_store w p) = the_person fd p"
  "pr_store (set_person fd y p) = pr_store p" "RS_persondata (set_person fd y p) = RS_persondata p"
  "RS_thpool (set_person fd y p) = RS_thpool p" "pr_store (p\<lparr>RS_thpool := js\<rparr>) = pr_store p"
  "RS_persondata (p\<lparr>RS_thpool := js\<rparr>) = RS_persondata p" "the_person fd (p\<lparr>RS_thpool := js\<rparr>) = the_person fd p"
  by (simp_all add: set_store_def pr_store_def the_person_def set_person_def)

lemma person_set: "the_person fd p = Inr y \<Longrightarrow> the_person fd (set_person fd z p) = Inr z"
  by (auto simp: the_person_def set_person_def split: if_splits)

lemma struct_element_valid:
  assumes "store_inv {} w" "is_struct w s" shows "element_valid w (c_to_rpc junk C_rpc_struct s)"
  using assms(2) store_inv_struct(3) [OF assms(1)] by (auto simp: is_struct_def element_valid_def c_to_rpc_fields otype_def)

lemma int_element_valid: "element_valid w (c_to_rpc junk C_int32 v)"
  by (simp add: element_valid_def c_to_rpc_fields counted_type_def rpc_is_pointer_def)

lemma receive_one:
  assumes E: "allocator (e_malloc (pf_env P))" and cb: "cb_increment (pf_cb P) = Some (rpc_struct_increment_cb (pf_env P))"
    and inv: "store_inv {} (pr_store p)" and room: "roomy (4 + n) (pr_store p)" and rnd: "fresh_bytes (Suc m) (pr_store p)"
    and person: "the_person fd p = Inr (Some x)" and queue: "queue_ok (np_request_que x)" "queue_list (np_request_que x) = rq # rqs"
    and data: "is_struct (pr_store p) (RS_persondata p)" "struct_entry (pr_store p) (RS_persondata p) (np_ID x) pd"
      "is_struct (pr_store p) pd" "is_struct (pr_store p) rq"
  obtains p1 j q1 where "receive_jobs P fd (Suc l) p = receive_jobs P fd l p1" "RS_thpool p1 = RS_thpool p @ [j]"
    "RS_persondata p1 = RS_persondata p" "the_person fd p1 = Inr (Some (x\<lparr>np_request_que := q1\<rparr>))" "queue_ok q1" "queue_list q1 = rqs"
    "store_inv {} (pr_store p1)" "roomy n (pr_store p1)" "fresh_bytes m (pr_store p1)" "keeps (pr_store p) (pr_store p1)"
    "mem (pr_store p) j = None" "mem (pr_store p1) j \<noteq> None"
    "entry (pr_store p1) = (entry (pr_store p))(j := job_of P (np_fd x) pd rq)"
    "is_struct (pr_store p1) j" "hashmap_get (ptracker (pr_store p1)) j = None"
    "pr_objects p1 = (pr_objects p)\<lparr>ro_store := pr_store p1\<rparr>" "RS_methods p1 = RS_methods p" "pr_kernel p1 = pr_kernel p"
proof -
  let ?w = "pr_store p" and ?E = "pf_env P"
  have r1: "roomy (Suc (3 + n)) ?w" using room by (simp add: numeral_eq_Suc)
  obtain j w1 rs1 where 1: "rpc_struct_create ?E ?w = Inr (j, w1)" "store_inv {} w1" "roomy (3 + n) w1" "fresh_bytes m w1" "keeps ?w w1"
    "mem ?w j = None" "mem w1 j = Some (Struct rs1)" "entry w1 = entry ?w" "\<And>k. entry ?w j k = None"
    "ptracker w1 = ptracker ?w"
    by (rule create_room [OF E inv r1 rnd]) blast
  have r2: "roomy (Suc (2 + n)) w1" using 1(3) by (simp add: numeral_eq_Suc)
  have new: "entry w1 j k = None" for k using 1(8,9) by simp
  have t: "ctype_to_rpc C_int32 \<noteq> RPC_string" "ctype_to_rpc C_rpc_struct \<noteq> RPC_string" by simp_all
  obtain w2 where 2: "rpc_struct_set ?E (pf_cb P) (pf_junk P) j ''fd'' C_int32 (word_of_int (np_fd x)) w1 = Inr (0, w2)" "store_inv {} w2"
    "roomy (2 + n) w2" "keeps w1 w2"
    "\<forall>u k. entry w2 u k = (if u = j \<and> k = ''fd'' then Some (c_to_rpc (pf_junk P) C_int32 (word_of_int (np_fd x))) else entry w1 u k)"
    by (rule set_value [OF E 1(2,7) new r2 int_element_valid cb t(1)])
  note K02 = keeps_trans [OF 1(5) 2(4)]
  have pd2: "is_struct w2 pd" "is_struct w2 (RS_persondata p)" using struct_keeps [OF K02] data(1,3) by blast+
  have ne: "RS_persondata p \<noteq> j" using data(1) 1(6) by (auto simp: is_struct_def)
  have "struct_entry w2 (RS_persondata p) (np_ID x) pd" using data(2) ne 1(8) 2(5) by (simp add: struct_entry_def)
  from struct_pointer [OF 2(2) pd2(2) this] have gp: "get_pointer (RS_persondata p) (np_ID x) C_rpc_struct null w2 = Inr (0, pd)" .
  obtain rs2 where rs2: "mem w2 j = Some (Struct rs2)" using keepsD(1) [OF 2(4) 1(7)] by blast
  have r3: "roomy (Suc (1 + n)) w2" using 2(3) by (simp add: numeral_eq_Suc)
  have new2: "entry w2 j ''persondata'' = None" using 2(5) new by simp
  obtain w3 where 3: "rpc_struct_set ?E (pf_cb P) (pf_junk P) j ''persondata'' C_rpc_struct pd w2 = Inr (0, w3)" "store_inv {} w3"
    "roomy (1 + n) w3" "keeps w2 w3"
    "\<forall>u k. entry w3 u k = (if u = j \<and> k = ''persondata'' then Some (c_to_rpc (pf_junk P) C_rpc_struct pd) else entry w2 u k)"
    by (rule set_value [OF E 2(2) rs2 new2 r3 struct_element_valid [OF 2(2) pd2(1)] cb t(2)])
  obtain q1 where q1: "sc_queue_del_first (np_request_que x) = Inr (rq, q1)" "queue_ok q1" "queue_list q1 = rqs"
    using del_first_list [OF queue] by blast
  obtain rs3 where rs3: "mem w3 j = Some (Struct rs3)" using keepsD(1) [OF 3(4) rs2] by blast
  have rq3: "is_struct w3 rq" using struct_keeps [OF keeps_trans [OF K02 3(4)] data(4)] .
  have r4: "roomy (Suc n) w3" using 3(3) by simp
  have new3: "entry w3 j ''request'' = None" using 3(5) 2(5) new by simp
  obtain w4 where 4: "rpc_struct_set ?E (pf_cb P) (pf_junk P) j ''request'' C_rpc_struct rq w3 = Inr (0, w4)" "store_inv {} w4"
    "roomy n w4" "keeps w3 w4"
    "\<forall>u k. entry w4 u k = (if u = j \<and> k = ''request'' then Some (c_to_rpc (pf_junk P) C_rpc_struct rq) else entry w3 u k)"
    by (rule set_value [OF E 3(2) rs3 new3 r4 struct_element_valid [OF 3(2) rq3] cb t(2)])
  let ?x = "x\<lparr>np_request_que := q1\<rparr>"
  let ?p = "(set_store w4 (set_person fd (Some ?x) p))\<lparr>RS_thpool := RS_thpool p @ [j]\<rparr>"
  have comm: "set_store u (set_person fd y q) = set_person fd y (set_store u q)" for u y and q :: "'b process"
    by (simp add: set_store_def set_person_def)
  have "rpc_net_person_request_ammount x > 0"
    using queue by (simp add: rpc_net_person_request_ammount_def queue_ok_size)
  then have take: "rpc_net_person_get_request (Some x) = Inr (rq, Some ?x)" by (simp add: rpc_net_person_get_request_def q1(1))
  have set: "in_store (rpc_struct_create ?E) p = Inr (j, set_store w1 p)"
    "in_store (rpc_struct_set ?E (pf_cb P) (pf_junk P) j ''fd'' C_int32 (word_of_int (np_fd x))) (set_store w1 p) = Inr (0, set_store w2 p)"
    "in_store (rpc_struct_set ?E (pf_cb P) (pf_junk P) j ''persondata'' C_rpc_struct pd) (set_store w2 p) = Inr (0, set_store w3 p)"
    "in_store (rpc_struct_set ?E (pf_cb P) (pf_junk P) j ''request'' C_rpc_struct rq) (set_person fd (Some ?x) (set_store w3 p)) =
      Inr (0, set_store w4 (set_person fd (Some ?x) p))"
    using 1(1) 2(1) 3(1) 4(1) by (simp_all add: in_store_def comm)
  have "receive_jobs P fd (Suc l) p = receive_jobs P fd l ?p"
    by (simp add: set person gp rpc_net_person_fd_def take Let_def)
  moreover have "entry w4 = (entry ?w)(j := job_of P (np_fd x) pd rq)"
    by (intro ext) (simp add: 4(5) 3(5) 2(5) 1(8,9) job_of_def)
  moreover have "fresh_bytes m w4"
    by (rule fresh_bytes_cong [OF 1(4)]) (simp add: set_entropy [OF 2(1) cb] set_entropy [OF 3(1) cb] set_entropy [OF 4(1) cb])
  moreover have "keeps ?w w4" using keeps_trans [OF keeps_trans [OF K02 3(4)] 4(4)] .
  moreover have "mem w4 j \<noteq> None" "is_struct w4 j" using keepsD(1) [OF 4(4) rs3] by (auto simp: is_struct_def)
  moreover have "hashmap_get (ptracker w4) j = None"
  proof -
    have "pd \<noteq> j" "rq \<noteq> j" using data(3,4) 1(6) by (auto simp: is_struct_def)
    then show ?thesis
      using set_ptracker [OF E 1(2) r2 cb 2(1), of j] set_ptracker [OF E 2(2) r3 cb 3(1), of j]
        set_ptracker [OF E 3(2) r4 cb 4(1), of j] untracked_if_absent(1) [OF inv 1(6)]
      by (simp add: 1(10) counted_type_def)
  qed
  moreover have "pr_objects ?p = (pr_objects p)\<lparr>ro_store := w4\<rparr>" "RS_methods ?p = RS_methods p" "pr_kernel ?p = pr_kernel p"
    by (simp_all add: set_store_def set_person_def)
  ultimately show thesis using that [of ?p j q1] 4(2,3) q1(2,3) 1(6) person person_set [of fd "set_store w4 p" "Some x"]
    by (simp add: comm del: receive_jobs.simps)
qed

section \<open>All requests\<close>

lemma receive_all:
  assumes E: "allocator (e_malloc (pf_env P))" and cb: "cb_increment (pf_cb P) = Some (rpc_struct_increment_cb (pf_env P))"
    and "store_inv {} (pr_store p)" "roomy (4 * length rqs + n) (pr_store p)" "fresh_bytes (length rqs + m) (pr_store p)"
    and "the_person fd p = Inr (Some x)" "queue_ok (np_request_que x)" "queue_list (np_request_que x) = rqs"
    and "is_struct (pr_store p) (RS_persondata p)" "struct_entry (pr_store p) (RS_persondata p) (np_ID x) pd"
      "is_struct (pr_store p) pd" "\<forall>rq\<in>set rqs. is_struct (pr_store p) rq"
  obtains p' js q where "receive_jobs P fd (length rqs) p = Inr p'" "RS_thpool p' = RS_thpool p @ js"
    "the_person fd p' = Inr (Some (x\<lparr>np_request_que := q\<rparr>))" "queue_ok q" "queue_list q = []"
    "store_inv {} (pr_store p')" "roomy n (pr_store p')" "fresh_bytes m (pr_store p')" "keeps (pr_store p) (pr_store p')"
    "distinct js" "\<forall>j\<in>set js. mem (pr_store p) j = None"
    "map (entry (pr_store p')) js = map (job_of P (np_fd x) pd) rqs"
    "\<forall>u. u \<notin> set js \<longrightarrow> entry (pr_store p') u = entry (pr_store p) u"
  using assms(3-)
proof (induction rqs arbitrary: p x thesis)
  case Nil
  show ?case
    by (rule Nil.prems(1) [of p "[]" "np_request_que x"]) (use Nil.prems(2-) in \<open>(cases x; simp)+\<close>)
next
  case (Cons rq rqs)
  have room: "roomy (4 + (4 * length rqs + n)) (pr_store p)" using Cons.prems(3) by (simp add: algebra_simps)
  have rnd: "fresh_bytes (Suc (length rqs + m)) (pr_store p)" using Cons.prems(4) by simp
  have rq: "is_struct (pr_store p) rq" using Cons.prems(11) by simp
  obtain p1 j q1 where 1: "receive_jobs P fd (Suc (length rqs)) p = receive_jobs P fd (length rqs) p1" "RS_thpool p1 = RS_thpool p @ [j]"
    "RS_persondata p1 = RS_persondata p" "the_person fd p1 = Inr (Some (x\<lparr>np_request_que := q1\<rparr>))" "queue_ok q1" "queue_list q1 = rqs"
    "store_inv {} (pr_store p1)" "roomy (4 * length rqs + n) (pr_store p1)" "fresh_bytes (length rqs + m) (pr_store p1)"
    "keeps (pr_store p) (pr_store p1)" "mem (pr_store p) j = None" "mem (pr_store p1) j \<noteq> None"
    "entry (pr_store p1) = (entry (pr_store p))(j := job_of P (np_fd x) pd rq)"
    by (rule receive_one [where l = "length rqs", OF E cb Cons.prems(2) room rnd Cons.prems(5-10) rq]) blast
  let ?x = "x\<lparr>np_request_que := q1\<rparr>"
  have ne: "RS_persondata p \<noteq> j" using Cons.prems(8) 1(11) by (auto simp: is_struct_def)
  have data: "is_struct (pr_store p1) (RS_persondata p1)" "struct_entry (pr_store p1) (RS_persondata p1) (np_ID ?x) pd"
    "is_struct (pr_store p1) pd" "\<forall>rq\<in>set rqs. is_struct (pr_store p1) rq"
    using struct_keeps [OF 1(10)] Cons.prems(8-11) ne by (simp_all add: 1(3,13) struct_entry_def)
  have q: "queue_ok (np_request_que ?x)" "queue_list (np_request_que ?x) = rqs" using 1(5,6) by simp_all
  obtain p' js q' where 2: "receive_jobs P fd (length rqs) p1 = Inr p'" "RS_thpool p' = RS_thpool p1 @ js"
    "the_person fd p' = Inr (Some (?x\<lparr>np_request_que := q'\<rparr>))" "queue_ok q'" "queue_list q' = []"
    "store_inv {} (pr_store p')" "roomy n (pr_store p')" "fresh_bytes m (pr_store p')" "keeps (pr_store p1) (pr_store p')"
    "distinct js" "\<forall>j\<in>set js. mem (pr_store p1) j = None"
    "map (entry (pr_store p')) js = map (job_of P (np_fd ?x) pd) rqs"
    "\<forall>u. u \<notin> set js \<longrightarrow> entry (pr_store p') u = entry (pr_store p1) u"
    by (rule Cons.IH [OF _ 1(7-9,4) q data])
  have j: "j \<notin> set js" using 2(11) 1(12) by auto
  have old: "mem (pr_store p) i = None" if "mem (pr_store p1) i = None" for i
    using 1(10) that unfolding keeps_def by (metis not_None_eq)
  show ?case
  proof (rule Cons.prems(1) [of p' "j # js" q'])
    show "map (entry (pr_store p')) (j # js) = map (job_of P (np_fd x) pd) (rq # rqs)"
      using 2(12,13) j 1(13) by simp
    show "\<forall>u. u \<notin> set (j # js) \<longrightarrow> entry (pr_store p') u = entry (pr_store p) u" using 2(13) 1(13) by simp
    show "\<forall>i\<in>set (j # js). mem (pr_store p) i = None" using 2(11) 1(11) old by auto
  qed (use 1(1,2) 2(1-8,10) j keeps_trans [OF 1(10) 2(9)] in simp_all)
qed

text \<open>C7: The requests that a person has sent become jobs of the thread pool, behind those that wait there
  already: one new struct for each request, in the order of arrival, with the descriptor, the data of the
  person and the request; no request is left in the queue, and no other struct changes.\<close>

theorem requests_become_jobs:
  assumes "allocator (e_malloc (pf_env P))" "cb_increment (pf_cb P) = Some (rpc_struct_increment_cb (pf_env P))"
    and "store_inv {} (pr_store p)" "roomy (4 * length rqs) (pr_store p)" "fresh_bytes (length rqs) (pr_store p)"
    and "the_person fd p = Inr (Some x)" "queue_ok (np_request_que x)" "queue_list (np_request_que x) = rqs"
    and "is_struct (pr_store p) (RS_persondata p)" "struct_entry (pr_store p) (RS_persondata p) (np_ID x) pd"
      "is_struct (pr_store p) pd" "\<forall>rq\<in>set rqs. is_struct (pr_store p) rq"
  shows "\<exists>p' js q. message_receiver P fd p = Inr p' \<and> RS_thpool p' = RS_thpool p @ js \<and>
    distinct js \<and> (\<forall>j\<in>set js. mem (pr_store p) j = None) \<and>
    map (entry (pr_store p')) js = map (job_of P (np_fd x) pd) rqs \<and>
    the_person fd p' = Inr (Some (x\<lparr>np_request_que := q\<rparr>)) \<and> queue_list q = [] \<and> store_inv {} (pr_store p') \<and>
    (\<forall>u. u \<notin> set js \<longrightarrow> entry (pr_store p') u = entry (pr_store p) u)"
proof -
  have room: "roomy (4 * length rqs + 0) (pr_store p)" and rnd: "fresh_bytes (length rqs + 0) (pr_store p)"
    using assms(4,5) by simp_all
  obtain p' js q where 1: "receive_jobs P fd (length rqs) p = Inr p'" "RS_thpool p' = RS_thpool p @ js"
    "the_person fd p' = Inr (Some (x\<lparr>np_request_que := q\<rparr>))" "queue_list q = []" "store_inv {} (pr_store p')"
    "distinct js" "\<forall>j\<in>set js. mem (pr_store p) j = None" "map (entry (pr_store p')) js = map (job_of P (np_fd x) pd) rqs"
    "\<forall>u. u \<notin> set js \<longrightarrow> entry (pr_store p') u = entry (pr_store p) u"
    by (rule receive_all [OF assms(1-3) room rnd assms(6-12)]) blast
  have "message_receiver P fd p = Inr p'"
    using 1(1) by (simp add: message_receiver_def assms(6,8) rpc_net_person_request_ammount_def queue_ok_size [OF assms(7)])
  then show ?thesis using 1 by blast
qed

text \<open>A person with two requests.\<close>

lemma two_requests:
  obtains p :: "int list process" and x pd a b where "store_inv {} (pr_store p)" "roomy 8 (pr_store p)" "fresh_bytes 2 (pr_store p)"
    "the_person 0 p = Inr (Some x)" "queue_ok (np_request_que x)" "queue_list (np_request_que x) = [a, b]" "np_fd x = 0"
    "is_struct (pr_store p) (RS_persondata p)" "struct_entry (pr_store p) (RS_persondata p) (np_ID x) pd" "is_struct (pr_store p) pd"
    "\<forall>rq\<in>set [a, b]. is_struct (pr_store p) rq" "RS_thpool p = []"
proof -
  have p0: "populated empty_store {} (\<lambda>s k. None) (Suc 899)" using populated_empty by simp
  obtain t w1 where 1: "populated w1 {t} (\<lambda>s k. None) (Suc 898)" by (rule populated_create [OF p0]) simp
  obtain pd w2 where 2: "populated w2 {pd, t} (\<lambda>s k. None) (Suc 897)" by (rule populated_create [OF 1]) simp
  obtain a w3 where 3: "populated w3 {a, pd, t} (\<lambda>s k. None) (Suc 896)" by (rule populated_create [OF 2]) simp
  obtain b w4 where 4: "populated w4 {b, a, pd, t} (\<lambda>s k. None) (Suc 895)" by (rule populated_create [OF 3]) simp
  obtain w where w: "populated w {b, a, pd, t} ((\<lambda>s k. None)(t := [''me'' \<mapsto> c_to_rpc [] C_rpc_struct pd])) 895"
    by (rule populated_struct [where s = t and q = pd and k = "''me''", OF 4]) simp_all
  obtain q where q: "sc_queue_add_last True null (sc_queue_init True null) a = Inr q" "queue_ok q" "queue_list q = [a]"
    using add_last_list [of "sc_queue_init True null" null a] init_list [of null] by (auto simp: queue_limit_def)
  obtain r where r: "queue_ok r" "queue_list r = [a, b]"
    using add_last_list [OF q(2), of null b] q(3) by (auto simp: queue_limit_def)
  let ?w = "w\<lparr>entropy := replicate 128 1\<rparr>" and ?x = "\<lparr>np_ID = ''me'', np_request_que = r, np_fd = 0\<rparr>"
  let ?p = "(set_store ?w (idle_process [] [Some ?x]))\<lparr>RS_persondata := t\<rparr> :: int list process"
  have st: "pr_store ?p = ?w" "RS_persondata ?p = t" "RS_thpool ?p = []" "the_person 0 ?p = Inr (Some ?x)"
    by (simp_all add: pr_store_def set_store_def idle_process_def the_person_def)
  have "store_inv {} ?w" by (rule store_inv_entropy [OF populatedD(1) [OF w]])
  moreover have "roomy 8 ?w" using roomy_less [OF populatedD(2) [OF w], of 8] by (simp add: roomy_def)
  moreover have "is_struct ?w s" if "s \<in> {b, a, pd, t}" for s using populatedD(4) [OF w that] by (simp add: is_struct_def)
  moreover have "struct_entry ?w t ''me'' pd" using populatedD(3) [OF w] by (simp add: struct_entry_def entry_def c_to_rpc_fields)
  ultimately show thesis using that [of ?p ?x a b pd] r st by (simp add: fresh_bytes_def)
qed

theorem requests_become_jobs_witness:
  "\<exists>p p' x j1 j2. the_person 0 p = Inr (Some x) \<and> length (queue_list (np_request_que x)) = 2 \<and>
    message_receiver (plain_platform short_kernel) 0 p = Inr p' \<and> RS_thpool p = [] \<and> RS_thpool p' = [j1, j2]"
proof -
  let ?P = "plain_platform short_kernel"
  have E: "allocator (e_malloc (pf_env ?P))" "cb_increment (pf_cb ?P) = Some (rpc_struct_increment_cb (pf_env ?P))"
    using plain_env_allocates cbs_simps(2) by (simp_all add: plain_platform_def)
  obtain p :: "int list process" and x pd a b where p: "store_inv {} (pr_store p)" "roomy 8 (pr_store p)" "fresh_bytes 2 (pr_store p)"
    "the_person 0 p = Inr (Some x)" "queue_ok (np_request_que x)" "queue_list (np_request_que x) = [a, b]"
    "is_struct (pr_store p) (RS_persondata p)" "struct_entry (pr_store p) (RS_persondata p) (np_ID x) pd" "is_struct (pr_store p) pd"
    "\<forall>rq\<in>set [a, b]. is_struct (pr_store p) rq" "RS_thpool p = []"
    by (rule two_requests)
  have room: "roomy (4 * length [a, b]) (pr_store p)" "fresh_bytes (length [a, b]) (pr_store p)"
    using p(2,3) by (simp_all add: numeral_2_eq_2)
  from requests_become_jobs [OF E p(1) room p(4-10)]
  obtain p' js where "message_receiver ?P 0 p = Inr p'" "RS_thpool p' = RS_thpool p @ js"
    "map (entry (pr_store p')) js = map (job_of ?P (np_fd x) pd) [a, b]" by blast
  moreover from this(3) have "length js = 2" by (metis length_map length_Cons list.size(3) Suc_1 One_nat_def)
  then obtain j1 j2 where "js = [j1, j2]" by (auto simp: length_Suc_conv numeral_eq_Suc)
  ultimately show ?thesis using p(4,6,11) by (intro exI [of _ p] exI [of _ p'] exI [of _ x] exI [of _ j1] exI [of _ j2]) simp
qed

section \<open>A question over the network\<close>

text \<open>What the struct of a job holds.\<close>

lemma job_parts:
  assumes inv: "store_inv {} w" and job: "is_struct w job" "entry w job = job_of P fd pd rq" and junk: "length (pf_junk P) = 8"
    and fd: "- (2 ^ 31) \<le> fd" "fd < 2 ^ 31"
  shows "get_int job ''fd'' w = Inr fd" "get_pointer job ''persondata'' C_rpc_struct null w = Inr (0, pd)"
    "get_pointer job ''request'' C_rpc_struct null w = Inr (0, rq)"
proof -
  obtain rs where rs: "mem w job = Some (Struct rs)" using job(1) by (auto simp: is_struct_def)
  have e: "entry w job ''fd'' = Some (c_to_rpc (pf_junk P) C_int32 (word_of_int fd))" by (simp add: job(2) job_of_def)
  have "sint (word_of_int fd :: 32 word) = fd" using fd by (simp add: sint_sbintrunc' signed_take_bit_int_eq_self)
  moreover have "(ucast (of_le_bytes (le_bytes 4 (word_of_int fd)) :: 64 word) :: 32 word) = word_of_int fd"
    by (simp add: of_le_bytes_le_bytes) (rule bit_word_eqI, auto simp: bit_simps)
  ultimately show "get_int job ''fd'' w = Inr fd"
    by (simp add: get_int_def int32_answer [OF junk inv rs e])
  show "get_pointer job ''persondata'' C_rpc_struct null w = Inr (0, pd)" "get_pointer job ''request'' C_rpc_struct null w = Inr (0, rq)"
    by (rule struct_pointer [OF inv job(1)], simp add: struct_entry_def job(2) job_of_def c_to_rpc_fields)+
qed

lemma flag_value:
  assumes "length junk = 8"
  shows "flat_value w (c_to_rpc junk C_int32 (found_flag g ID)) = Some (Flat_Number (found_flag g ID))"
proof -
  have "take 4 (memcpy junk (le_bytes 4 v) 4) = le_bytes 4 v" for v by (simp add: memcpy_def)
  then have "json_int_of (c_to_rpc junk C_int32 (found_flag g ID)) = sint (of_le_bytes (le_bytes 4 (found_flag g ID)) :: 64 word)"
    by (simp add: json_int_of_def c_to_rpc_def)
  also have "\<dots> = (if registered g ID = None then 0 else 1)" by (simp add: of_le_bytes_le_bytes found_flag_def)
  finally show ?thesis by (simp add: flat_value_def c_to_rpc_fields found_flag_def)
qed

lemma is_struct_keepsD: "keeps w w' \<Longrightarrow> text_entry w s k str \<Longrightarrow> entry w' s = entry w s \<Longrightarrow> text_entry w' s k str"
  using keepsD(2) by (auto simp: text_entry_def)

text \<open>The handler, on a reply that has just been created.\<close>

lemma question_served:
  assumes E: "allocator (e_malloc (pf_env P))" and cb: "cb_increment (pf_cb P) = Some (rpc_struct_increment_cb (pf_env P))"
    and reg: "registry_ok g" and code: "inj code" "methods_ok code methods (ro_store g)"
    and room: "roomy (Suc (Suc n)) (ro_store g)" and rnd: "fresh_bytes (Suc m) (ro_store g)"
    and rq: "is_struct (ro_store g) rq" "text_entry (ro_store g) rq ''method'' ''is_cobject''" "struct_entry (ro_store g) rq ''params'' pa"
      "is_struct (ro_store g) pa" "text_entry (ro_store g) pa ''ID'' ID"
  obtains re w1 w2 rs RID where "rpc_struct_create (pf_env P) (ro_store g) = Inr (re, w1)" "mem (ro_store g) re = None"
    "store_inv {} w1" "keeps (ro_store g) w1" "entry w1 = entry (ro_store g)"
    "rpc_server_localnet_job P code methods person rq re (g\<lparr>ro_store := w1\<rparr>) = Inr (0, g\<lparr>ro_store := w2\<rparr>)"
    "store_inv {} w2" "roomy n w2" "fresh_bytes m w2" "keeps (ro_store g) w2"
    "\<And>a. hashmap_get (ptracker w2) a = hashmap_get (ptracker (ro_store g)) a"
    "entry w2 = (entry (ro_store g))(re := [''is_cobject'' \<mapsto> c_to_rpc (pf_junk P) C_int32 (found_flag g ID)])"
    "mem w2 re = Some (Struct rs)" "rs_ID rs = RID @ [CHR 0x00]" "length RID = 64" "set RID \<subseteq> set ID_alphabet"
proof -
  let ?w = "ro_store g"
  have inv: "store_inv {} ?w" using reg by (simp add: registry_ok_def)
  obtain re w1 r1 where C: "rpc_struct_create (pf_env P) ?w = Inr (re, w1)" "store_inv {} w1" "roomy (Suc n) w1" "fresh_bytes m w1" "keeps ?w w1"
    "mem ?w re = None" "mem w1 re = Some (Struct r1)" "entry w1 = entry ?w" "ptracker w1 = ptracker ?w" "\<And>k. entry ?w re k = None"
    by (rule create_room [OF E inv room rnd]) blast
  have card: "card (dom (mem ?w)) < 2 ^ 63" using room by (simp add: roomy_def)
  obtain RID rnd' where ID: "length RID = 64" "set RID \<subseteq> set ID_alphabet"
    "w1 = put_obj re (Struct \<lparr>rs_map = string_map, rs_ID = RID @ [CHR 0x00], rs_copyof = null, rs_destructor = null\<rparr>) (?w\<lparr>entropy := rnd'\<rparr>)"
    by (rule create_effect [OF E inv card C(1)]) blast
  have r1: "rs_ID r1 = RID @ [CHR 0x00]" using C(7) by (simp add: ID(3)) auto
  let ?g = "g\<lparr>ro_store := w1\<rparr>"
  have reg1: "registry_ok ?g" by (rule registry_keeps [OF reg C(5,2)])
  have flag: "found_flag ?g ID = found_flag g ID" by (simp add: found_flag_def registered_def Let_def C(8) cong: option.case_cong)
  have me: "methods_ok code methods (ro_store ?g)"
    using code(2) struct_keeps [OF C(5)] by (auto simp: methods_ok_def C(8))
  have st: "is_struct w1 rq" "is_struct w1 pa" "struct_entry w1 rq ''params'' pa"
    "text_entry w1 rq ''method'' ''is_cobject''" "text_entry w1 pa ''ID'' ID"
    using struct_keeps [OF C(5) rq(1)] struct_keeps [OF C(5) rq(4)] rq(3) is_struct_keepsD [OF C(5) rq(2)] is_struct_keepsD [OF C(5) rq(5)]
    by (simp_all add: C(8) struct_entry_def)
  obtain e where e: "entry w1 rq ''method'' = Some e" "rt_type e = RPC_string" "mem w1 (ptr_value e) = Some (Cstring ''is_cobject'')"
    using st(4) by (auto simp: text_entry_def)
  have named: "the_cstring w1 (ptr_value e) = Inr ''is_cobject''"
    using e(3) store_inv_alive [OF C(2) e(3)] by (simp add: the_cstring_def)
  have job: "rpc_server_localnet_job P code methods person rq re ?g = is_cobject P pa re ?g"
    using dispatch [OF _ code(1) me, of rq P person re] C(2) st(1,3) named e(1,2)
    by (auto simp: method_names_def struct_entry_def)
  have room1: "roomy (Suc n) (ro_store ?g)" using C(3) by simp
  have pa1: "is_struct (ro_store ?g) pa" "text_entry (ro_store ?g) pa ''ID'' ID" using st by simp_all
  have re1: "mem (ro_store ?g) re = Some (Struct r1)" "entry (ro_store ?g) re ''is_cobject'' = None" using C(7,8,10) by simp_all
  obtain w2 where A: "is_cobject P pa re ?g = Inr (0, ?g\<lparr>ro_store := w2\<rparr>)" "store_inv {} w2" "roomy n w2" "keeps w1 w2"
    "\<forall>u j. entry w2 u j = (if u = re \<and> j = ''is_cobject'' then Some (c_to_rpc (pf_junk P) C_int32 (found_flag g ID)) else entry w1 u j)"
    "\<And>a. hashmap_get (ptracker w2) a = hashmap_get (ptracker w1) a" "entropy w2 = entropy w1"
    by (rule is_cobject_answers [OF E cb reg1 room1 pa1 re1]) (simp add: flag)
  obtain rs where rs: "mem w2 re = Some (Struct rs)" "rs_ID rs = RID @ [CHR 0x00]" using keepsD(1) [OF A(4) C(7)] r1 by auto
  have "entry w2 = (entry ?w)(re := [''is_cobject'' \<mapsto> c_to_rpc (pf_junk P) C_int32 (found_flag g ID)])"
    using C(8,10) by (intro ext) (simp add: A(5))
  then show thesis
    using that [OF C(1,6,2,5,8) _ A(2,3) fresh_bytes_cong [OF C(4) A(7)] keeps_trans [OF C(5) A(4)] _ _ rs ID(1,2)] job A(1,6) C(9)
    by simp
qed

lemma create_possible:
  assumes "allocator (e_malloc E)" "store_inv {} w" "card (dom (mem w)) < 2 ^ 63" "fresh_bytes (Suc m) w"
  obtains s w' where "rpc_struct_create E w = Inr (s, w')"
proof -
  have nz: "\<And>b. b \<in> set (take 64 (entropy w)) \<Longrightarrow> b \<noteq> 0" using assms(4) by (meson fresh_bytes_def in_set_takeD)
  obtain ID where ID: "make_ID (take 64 (entropy w)) (drop 64 (entropy w)) = Inr (ID, drop 64 (entropy w))"
    using make_ID_enough [OF nz, where rnd = "drop 64 (entropy w)"] by blast
  let ?we = "w\<lparr>entropy := drop 64 (entropy w)\<rparr>"
  let ?x = "Struct \<lparr>rs_map = string_map, rs_ID = ID @ [CHR 0x00], rs_copyof = null, rs_destructor = null\<rparr>"
  have inv: "store_inv {} ?we" and card: "card (dom (mem ?we)) < 2 ^ 63" using store_inv_entropy [OF assms(2)] assms(3) by simp_all
  obtain s where s: "new_obj E ?x ?we = Inr (s, put_obj s ?x ?we)" using new_obj_fresh [OF assms(1) inv card] by metis
  have "\<not> length (entropy w) < 64" using assms(4) by (simp add: fresh_bytes_def)
  then show thesis using that [of s "put_obj s ?x ?we"] ID s by (simp add: rpc_struct_create_def RPC_STRUCT_ID_SIZE_def)
qed

text \<open>The reply is sent in its JSON form, by way of a copy that is released again.\<close>

lemma answer_sent:
  assumes J: "jansson_ok (pf_json P)" "pf_depth P = Suc d" and E: "allocator (e_malloc (pf_env P))"
    and cb: "pf_cb P = rpc_struct_default_prec_cbs (pf_env P) n"
    and inv: "store_inv {} w" and re: "mem w re = Some (Struct rs)" "entry w re = [k \<mapsto> e]"
    and flat: "flat_value w e = Some (Flat_Number v)" "ascii k"
    and ID: "rs_ID rs = RID @ [CHR 0x00]" "length RID = 64" "set RID \<subseteq> set ID_alphabet"
    and room: "card (dom (mem w)) + 2 < 2 ^ 63" and rnd: "fresh_bytes (Suc m) w"
    and rk: "nested r w" "r re \<le> n" and untr: "hashmap_get (ptracker w) re = None"
    and p: "pr_store p = w"
  obtains j p' where "json_struct (pf_json P) j RID [k \<mapsto> Flat_Number v]"
    "rpc_net_send P fd re p = Inr (fst (rpc_net_send_json (pf_kernel P) (pf_text P) fd j (pr_kernel p)), p')"
    "pr_kernel p' = snd (rpc_net_send_json (pf_kernel P) (pf_text P) fd j (pr_kernel p))" "store_inv {} (pr_store p')"
    "dom (mem (pr_store p')) \<subseteq> dom (mem w)" "mem (pr_store p') re = None"
    "\<And>t. t \<noteq> re \<Longrightarrow> r re \<le> r t \<Longrightarrow> entry (pr_store p') t = entry w t"
proof -
  have map: "hashmap_get (rs_map rs) = [k \<mapsto> e]" using re by (simp add: entry_def fun_eq_iff)
  have fs: "flat_struct w re" using flat(1) by (simp add: flat_struct_def re(2))
  have view: "flat_view w re = [k \<mapsto> Flat_Number v]" using flat(1) by (auto simp: flat_view_def re(2) fun_eq_iff)
  have js: "in_json (flat_view w re)" using flat(2) by (simp add: view in_json_def)
  have size: "hb_size (rs_map rs) = 1" using hm.count [OF store_inv_struct(1) [OF inv re(1)]] map by simp
  have nul: "c_string (rs_ID rs) = Inr RID" "ascii RID" "length RID \<le> 64"
    using alphabet_text [OF ID(3)] ID(2) by (simp_all add: ID(1) c_string_terminated)
  have fr: "flat_room w (hb_size (rs_map rs) + 1)" using room by (simp add: size flat_room_def table_limit_def)
  have "card (dom (mem w)) < 2 ^ 63" using room by simp
  then obtain cp w1 where cp: "rpc_struct_create (pf_env P) w = Inr (cp, w1)" by (rule create_possible [OF E inv _ rnd])
  obtain j w2 where S: "rpc_struct_serialize (pf_env P) (pf_cb P) (pf_json P) (Suc d) re w = Inr (j, w2)"
    "json_struct (pf_json P) j RID (flat_view w re)" "mem w2 = mem w" "ptracker w2 = ptracker w"
    by (rule serialize_flat [OF J(1) E inv re(1) fs js nul(1,3,2) cp fr])
  have w2: "w2 = w\<lparr>entropy := entropy w2\<rparr>" using S(3,4) by (cases w; cases w2) simp
  have inv2: "store_inv {} w2" by (subst w2) (rule store_inv_entropy [OF inv])
  have ent: "entry w2 = entry w" using S(3) by (simp add: entry_def fun_eq_iff)
  have st: "is_struct w2 re" using re(1) S(3) by (simp add: is_struct_def)
  have nest: "nested r w2" using rk(1) by (simp add: nested_def ent)
  have untr2: "hashmap_get (ptracker w2) re = None" using untr S(4) by simp
  have alone: "\<forall>t k e. entry w2 t k = Some e \<longrightarrow> counted_type (rt_type e) \<longrightarrow> ptr_value e \<noteq> re"
    using store_invD(3) [OF inv2] untr2 unfolding elements_ok_def visible_def by fastforce
  obtain w3 where F: "rpc_struct_free (pf_env P) (pf_cb P) re w2 = Inr w3" "store_inv {} w3"
    "\<And>t. t \<noteq> re \<Longrightarrow> r re \<le> r t \<Longrightarrow> entry w3 t = entry w2 t" "dom (mem w3) \<subseteq> dom (mem w2)" "mem w3 re = None"
    unfolding cb by (rule free_nested [where E = "pf_env P" and n = n, OF inv2 nest st rk(2) untr2 alone]) blast
  let ?r = "rpc_net_send_json (pf_kernel P) (pf_text P) fd j (pr_kernel p)"
  let ?p = "set_store w3 ((set_store w2 p)\<lparr>pr_kernel := snd ?r\<rparr>)"
  have k: "pr_store (q\<lparr>pr_kernel := x\<rparr>) = pr_store q" "pr_kernel (set_store u q) = pr_kernel q" for q :: "'b process" and x u
    by (simp_all add: pr_store_def set_store_def)
  have "rpc_net_send P fd re p = Inr (fst ?r, ?p)"
    using S(1) F(1) p by (simp add: rpc_net_send_def in_store_def in_store_only_def J(2) k split: prod.split)
  then show thesis
    using that [of j ?p] S(2) F(2-5) by (simp add: view k ent S(3)) 
qed

text \<open>Releasing the job keeps the reply, which has one element that refers to nothing.\<close>

lemma job_released:
  assumes w: "store_inv {} w" "nested r w" "is_struct w job" "hashmap_get (ptracker w) job = None" "r job \<le> n" "mem w re = None"
    and w2: "store_inv {} w2" "roomy 2 w2" "keeps w w2" "\<And>a. hashmap_get (ptracker w2) a = hashmap_get (ptracker w) a"
      "entry w2 = (entry w)(re := [k \<mapsto> e])" "mem w2 re = Some (Struct rs)"
    and plain: "\<not> counted_type (rt_type e)"
  obtains w3 where "rpc_struct_free E (rpc_struct_default_prec_cbs E n) job w2 = Inr w3" "store_inv {} w3" "mem w3 re = Some (Struct rs)"
    "entry w3 re = [k \<mapsto> e]" "nested (r(re := r job)) w3" "hashmap_get (ptracker w3) re = None" "card (dom (mem w3)) + 2 < 2 ^ 63"
    "entropy w3 = entropy w2" "mem w3 job = None"
    "\<And>t. t \<noteq> job \<Longrightarrow> t \<noteq> re \<Longrightarrow> r job \<le> r t \<Longrightarrow> entry w3 t = entry w t"
proof -
  have ne: "re \<noteq> job" using w(3,6) by (auto simp: is_struct_def)
  let ?r = "r(re := r job)"
  have live: "ptr_value d \<noteq> re" if "entry w t j = Some d" "counted_type (rt_type d)" for t j d
    using untracked_if_absent(3) [OF w(1,6), of t j d] that by (simp add: visible_def)
  have rk: "nested ?r w2" using w(2) live plain by (auto simp: nested_def w2(5) split: if_splits)
  have untr: "hashmap_get (ptracker w2) job = None" "hashmap_get (ptracker w2) re = None"
    using w(4) untracked_if_absent(1) [OF w(1,6)] by (simp_all add: w2(4))
  have alone: "\<forall>t k e. entry w2 t k = Some e \<longrightarrow> counted_type (rt_type e) \<longrightarrow> ptr_value e \<noteq> job"
    using store_invD(3) [OF w2(1)] untr(1) unfolding elements_ok_def visible_def by fastforce
  have low: "?r job \<le> n" using w(5) ne by simp
  obtain w3 where F: "rpc_struct_free E (rpc_struct_default_prec_cbs E n) job w2 = Inr w3" "store_inv {} w3"
    "\<And>t rt. t \<noteq> job \<Longrightarrow> ?r job \<le> ?r t \<Longrightarrow> mem w2 t = Some (Struct rt) \<Longrightarrow> mem w3 t = Some (Struct rt)"
    "\<And>t. t \<noteq> job \<Longrightarrow> ?r job \<le> ?r t \<Longrightarrow> entry w3 t = entry w2 t" "\<And>t k e. entry w3 t k = Some e \<Longrightarrow> entry w2 t k = Some e"
    "\<And>a. hashmap_get (ptracker w2) a = None \<Longrightarrow> hashmap_get (ptracker w3) a = None" "dom (mem w3) \<subseteq> dom (mem w2)" "entropy w3 = entropy w2"
    "mem w3 job = None"
    by (rule free_nested [where E = E and n = n, OF w2(1) rk struct_keeps [OF w2(3) w(3)] low untr(1) alone]) blast
  have "nested ?r w3" using rk F(5) unfolding nested_def by blast
  moreover have "card (dom (mem w3)) + 2 < 2 ^ 63"
    using w2(2) card_mono [OF tracker_okD(2) [OF store_invD(1) [OF w2(1)]] F(7)] by (simp add: roomy_def)
  ultimately show thesis
    using that [OF F(1,2) F(3) [OF ne _ w2(6)] _ _ F(6) [OF untr(2)] _ F(8,9)] F(4) ne by (simp add: w2(5))
qed

text \<open>C6: A job with the question whether an ID belongs to an object of the server sends the answer of the
  registry to the client: a struct in its JSON form whose only element is 1 or 0 under "is_cobject". The
  job is released, the structs that are not below it stay as they are, and the connection is ended
  exactly when the reply could not be sent.\<close>

theorem question_over_network_answered:
  assumes "allocator (e_malloc (pf_env P))" "pf_cb P = rpc_struct_default_prec_cbs (pf_env P) n" "length (pf_junk P) = 8"
    "jansson_ok (pf_json P)" "pf_depth P = Suc d"
    "registry_ok (pr_objects p)" "inj code" "methods_ok code (RS_methods p) (pr_store p)"
    "roomy 4 (pr_store p)" "fresh_bytes 2 (pr_store p)" "nested r (pr_store p)"
    "is_struct (pr_store p) job" "entry (pr_store p) job = job_of P fd pd rq" "hashmap_get (ptracker (pr_store p)) job = None"
    "r job \<le> n" "- (2 ^ 31) \<le> fd" "fd < 2 ^ 31"
    "is_struct (pr_store p) rq" "text_entry (pr_store p) rq ''method'' ''is_cobject''" "struct_entry (pr_store p) rq ''params'' pa"
    "is_struct (pr_store p) pa" "text_entry (pr_store p) pa ''ID'' ID"
  shows "\<exists>p' j RID sent k. net_job P code job p = Inr p' \<and>
    json_struct (pf_json P) j RID [''is_cobject'' \<mapsto> Flat_Number (if registered (pr_objects p) ID = None then 0 else 1)] \<and>
    rpc_net_send_json (pf_kernel P) (pf_text P) fd j (pr_kernel p) = (sent, k) \<and>
    pr_kernel p' = (if sent = 0 then k else sk_close (pf_kernel P) fd (sk_shutdown (pf_kernel P) fd k)) \<and>
    store_inv {} (pr_store p') \<and> mem (pr_store p') job = None \<and>
    (\<forall>t. t \<noteq> job \<longrightarrow> r job \<le> r t \<longrightarrow> mem (pr_store p) t \<noteq> None \<longrightarrow> entry (pr_store p') t = entry (pr_store p) t)"
proof -
  let ?w = "pr_store p" and ?g = "pr_objects p" and ?E = "pf_env P"
  have g: "ro_store ?g = ?w" by (simp add: pr_store_def)
  have inv: "store_inv {} ?w" using assms(6) g by (simp add: registry_ok_def)
  have cb: "cb_increment (pf_cb P) = Some (rpc_struct_increment_cb ?E)" using assms(2) cbs_simps(2) by simp
  have room: "roomy (Suc (Suc 2)) (ro_store ?g)" and rnd: "fresh_bytes (Suc (Suc 0)) (ro_store ?g)"
    using assms(9,10) by (simp_all add: g numeral_eq_Suc)
  obtain re w1 w2 rs RID where Q: "rpc_struct_create ?E ?w = Inr (re, w1)" "mem ?w re = None" "store_inv {} w1" "keeps ?w w1" "entry w1 = entry ?w"
    "rpc_server_localnet_job P code (RS_methods p) pd rq re (?g\<lparr>ro_store := w1\<rparr>) = Inr (0, ?g\<lparr>ro_store := w2\<rparr>)"
    "store_inv {} w2" "roomy 2 w2" "fresh_bytes (Suc 0) w2" "keeps ?w w2" "\<And>a. hashmap_get (ptracker w2) a = hashmap_get (ptracker ?w) a"
    "entry w2 = (entry ?w)(re := [''is_cobject'' \<mapsto> c_to_rpc (pf_junk P) C_int32 (found_flag ?g ID)])"
    "mem w2 re = Some (Struct rs)" "rs_ID rs = RID @ [CHR 0x00]" "length RID = 64" "set RID \<subseteq> set ID_alphabet"
    by (rule question_served [where person = pd, OF assms(1) cb assms(6,7) assms(8) [folded g] room rnd assms(18-22) [folded g]])
      (simp add: g)
  have plain: "\<not> counted_type (rt_type (c_to_rpc (pf_junk P) C_int32 (found_flag ?g ID)))" by (simp add: c_to_rpc_fields counted_type_def)
  obtain w3 where F: "rpc_struct_free ?E (pf_cb P) job w2 = Inr w3" "store_inv {} w3" "mem w3 re = Some (Struct rs)"
    "entry w3 re = [''is_cobject'' \<mapsto> c_to_rpc (pf_junk P) C_int32 (found_flag ?g ID)]" "nested (r(re := r job)) w3"
    "hashmap_get (ptracker w3) re = None" "card (dom (mem w3)) + 2 < 2 ^ 63" "entropy w3 = entropy w2" "mem w3 job = None"
    "\<And>t. t \<noteq> job \<Longrightarrow> t \<noteq> re \<Longrightarrow> r job \<le> r t \<Longrightarrow> entry w3 t = entry ?w t"
    unfolding assms(2) by (rule job_released [where E = ?E, OF inv assms(11,12,14,15) Q(2,7,8,10-13) plain]) blast
  have asc: "ascii ''is_cobject''" by (simp add: ascii_def)
  let ?p3 = "set_store w3 (p\<lparr>pr_objects := ?g\<lparr>ro_store := w2\<rparr>\<rparr>)"
  have p3: "pr_store ?p3 = w3" "pr_kernel ?p3 = pr_kernel p" by (simp_all add: set_store_def pr_store_def)
  have low: "(r(re := r job)) re \<le> n" using assms(15) by simp
  obtain j p4 where A: "json_struct (pf_json P) j RID [''is_cobject'' \<mapsto> Flat_Number (found_flag ?g ID)]"
    "rpc_net_send P fd re ?p3 = Inr (fst (rpc_net_send_json (pf_kernel P) (pf_text P) fd j (pr_kernel ?p3)), p4)"
    "pr_kernel p4 = snd (rpc_net_send_json (pf_kernel P) (pf_text P) fd j (pr_kernel ?p3))" "store_inv {} (pr_store p4)"
    "dom (mem (pr_store p4)) \<subseteq> dom (mem w3)"
    "\<And>t. t \<noteq> re \<Longrightarrow> (r(re := r job)) re \<le> (r(re := r job)) t \<Longrightarrow> entry (pr_store p4) t = entry w3 t"
    by (rule answer_sent [OF assms(4,5,1,2) F(2-4) flag_value [OF assms(3)] asc Q(14-16) F(7) fresh_bytes_cong [OF Q(9) F(8)]
        F(5) low F(6) p3(1)]) blast
  obtain sent k where sk: "rpc_net_send_json (pf_kernel P) (pf_text P) fd j (pr_kernel p) = (sent, k)" by fastforce
  have parts: "get_int job ''fd'' w1 = Inr fd" "get_pointer job ''persondata'' C_rpc_struct null w1 = Inr (0, pd)"
    "get_pointer job ''request'' C_rpc_struct null w1 = Inr (0, rq)"
    using job_parts [OF Q(3) struct_keeps [OF Q(4) assms(12)] _ assms(3,16,17)] assms(13) by (simp_all add: Q(5))
  let ?p4 = "if sent = 0 then p4 else drop_connection P fd p4"
  have "net_job P code job p = Inr ?p4"
    using Q(1,6) F(1) A(2) sk
    by (simp add: net_job_def in_store_def parts in_objects_def in_store_only_def p3 set_store_def [of w1 p] pr_store_def [of "p\<lparr>pr_objects := x\<rparr>" for x])
  moreover have "pr_store (drop_connection P fd p4) = pr_store p4" by (simp add: drop_connection_def pr_store_def)
  moreover have "pr_kernel ?p4 = (if sent = 0 then k else sk_close (pf_kernel P) fd (sk_shutdown (pf_kernel P) fd k))"
    using A(3) sk by (simp add: drop_connection_def p3)
  moreover have "mem (pr_store p4) job = None" using A(5) F(9) by auto
  moreover have "entry (pr_store p4) t = entry ?w t" if "t \<noteq> job" "r job \<le> r t" "mem ?w t \<noteq> None" for t
  proof -
    have "t \<noteq> re" using that(3) Q(2) by auto
    then show ?thesis using A(6) [of t] F(10) [of t] that(1,2) by simp
  qed
  ultimately show ?thesis
    using A(1,4) sk by (intro exI [of _ ?p4] exI [of _ j] exI [of _ RID] exI [of _ sent] exI [of _ k]) (simp add: found_flag_def)
qed

text \<open>A server with one object and a person who has asked for it.\<close>

lemma asking_example:
  obtains p :: "int list process" and x pd rq pa r where "registry_ok (pr_objects p)" "methods_ok handler_address (RS_methods p) (pr_store p)"
    "roomy 8 (pr_store p)" "fresh_bytes 3 (pr_store p)" "the_person 0 p = Inr (Some x)" "np_fd x = 0" "queue_ok (np_request_que x)"
    "queue_list (np_request_que x) = [rq]" "is_struct (pr_store p) (RS_persondata p)" "struct_entry (pr_store p) (RS_persondata p) (np_ID x) pd"
    "is_struct (pr_store p) pd" "is_struct (pr_store p) rq" "is_struct (pr_store p) pa"
    "text_entry (pr_store p) rq ''method'' ''is_cobject''" "struct_entry (pr_store p) rq ''params'' pa" "text_entry (pr_store p) pa ''ID'' ''adder''"
    "registered (pr_objects p) ''adder'' \<noteq> None" "nested r (pr_store p)" "r rq \<le> 1" "r pd \<le> 1" "pr_kernel p = []"
proof -
  let ?n = "\<lambda>k. (10 :: nat) + k" and ?z = "(\<lambda>s k. None) :: addr \<Rightarrow> string \<Rightarrow> rpc_type_t option"
  have p0: "populated empty_store {} ?z (Suc (?n 889))" using populated_empty by simp
  obtain bn w1 where 1: "populated w1 {bn} ?z (Suc (?n 888))" by (rule populated_create [OF p0]) simp
  obtain bi w2 where 2: "bi \<notin> {bn}" "populated w2 {bi, bn} ?z (Suc (?n 887))" by (rule populated_create [OF 1]) simp
  obtain pc w3 where 3: "pc \<notin> {bi, bn}" "populated w3 {pc, bi, bn} ?z (Suc (?n 886))" by (rule populated_create [OF 2(2)]) simp
  obtain me w4 where 4: "me \<notin> {pc, bi, bn}" "populated w4 {me, pc, bi, bn} ?z (Suc (?n 885))" by (rule populated_create [OF 3(2)]) simp
  obtain pd w5 where 5: "pd \<notin> {me, pc, bi, bn}" "populated w5 {pd, me, pc, bi, bn} ?z (Suc (?n 884))" by (rule populated_create [OF 4(2)]) simp
  obtain rq w6 where 6: "rq \<notin> {pd, me, pc, bi, bn}" "populated w6 {rq, pd, me, pc, bi, bn} ?z (Suc (?n 883))"
    by (rule populated_create [OF 5(2)]) simp
  obtain pa w7 where 7: "pa \<notin> {rq, pd, me, pc, bi, bn}" "populated w7 {pa, rq, pd, me, pc, bi, bn} ?z (5 + ?n 878)"
    by (rule populated_create [OF 6(2)]) simp
  let ?S = "{pa, rq, pd, me, pc, bi, bn}" and ?st = "c_to_rpc [] C_rpc_struct"
  have "bn \<notin> {pa, rq, pd, me, pc, bi}" "bi \<notin> {pa, rq, pd, me, pc}" "pc \<notin> {pa, rq, pd, me}" "me \<notin> {pa, rq, pd}" "pd \<notin> {pa, rq}" "rq \<noteq> pa"
    using 2(1) 3(1) 4(1) 5(1) 6(1) 7(1) by auto
  note ne = this 2(1) 3(1) 4(1) 5(1) 6(1) 7(1)
  let ?ms = "\<lambda>k. map_option (\<lambda>m. c_to_rpc [] C_other_ptr (handler_address m)) (map_of method_names k)"
  obtain w8 where 8: "methods_ok handler_address me w8" "populated w8 ?S (?z(me := ?ms)) (Suc (?n 877))"
    by (rule populated_methods [OF 7(2), where s = me, OF _ _ handler_address_ok(2)]) auto
  obtain w9 where 9: "populated w9 ?S (?z(me := ?ms, bn := [''adder'' \<mapsto> ?st pd])) (Suc (?n 876))"
    by (rule populated_struct [where s = bn and q = pd and k = "''adder''", OF 8(2)]) (use ne in simp_all)
  let ?e1 = "?z(me := ?ms, bn := [''adder'' \<mapsto> ?st pd], pc := [''me'' \<mapsto> ?st pd])"
  obtain w10 where 10: "populated w10 ?S ?e1 (Suc (Suc (?n 874)))"
    by (rule populated_struct [where s = pc and q = pd and k = "''me''", OF 9]) (use ne in simp_all)
  obtain w11 t1 where 11: "populated w11 ?S (?e1(rq := [''method'' \<mapsto> t1])) (Suc (Suc (?n 872)))" "rt_type t1 = RPC_string"
    "mem w11 (ptr_value t1) = Some (Cstring ''is_cobject'')"
    by (rule populated_text [where s = rq and k = "''method''" and str = "''is_cobject''", OF 10]) (use ne in simp_all)
  let ?e2 = "\<lambda>t2. ?e1(rq := [''method'' \<mapsto> t1], pa := [''ID'' \<mapsto> t2])"
  obtain w12 t2 where 12: "keeps w11 w12" "populated w12 ?S (?e2 t2) (Suc (?n 871))" "rt_type t2 = RPC_string"
    "mem w12 (ptr_value t2) = Some (Cstring ''adder'')"
    by (rule populated_text [where s = pa and k = "''ID''" and str = "''adder''", OF 11(1)]) (use ne in simp_all)
  define es where "es = ?e1(rq := [''method'' \<mapsto> t1, ''params'' \<mapsto> ?st pa], pa := [''ID'' \<mapsto> t2])"
  have upd: "(?e2 t2)(rq := (?e2 t2 rq)(''params'' \<mapsto> ?st pa)) = es" using ne by (auto simp: es_def fun_eq_iff)
  obtain w where w: "keeps w12 w" "populated w ?S es (?n 871)"
    by (rule populated_struct [where s = rq and q = pa and k = "''params''", OF 12(2)]) (use ne upd in simp_all)
  obtain q where q: "queue_ok q" "queue_list q = [rq]"
    using add_last_list [of "sc_queue_init True null" null rq] init_list [of null] by (auto simp: queue_limit_def)
  let ?w = "w\<lparr>entropy := replicate 192 1\<rparr>" and ?x = "\<lparr>np_ID = ''me'', np_request_que = q, np_fd = 0\<rparr>"
  let ?g = "\<lparr>ro_store = ?w, RO_cobject_bname = bn, RO_cobject_bid = bi, RO_protocache = pc, RO_lobjects = null, RO_object_stack = None\<rparr>"
  let ?p = "(idle_process [] [Some ?x])\<lparr>pr_objects := ?g, RS_methods := me, RS_persondata := pc\<rparr> :: int list process"
  let ?r = "\<lambda>a. if a \<in> {rq, bn, pc} then 1 else (0 :: nat)"
  have st: "pr_store ?p = ?w" by (simp add: pr_store_def)
  have ent: "entry ?w = es" using populatedD(3) [OF w(2)] by (intro ext) (simp add: entry_def)
  have sts: "is_struct ?w s" if "s \<in> ?S" for s using populatedD(4) [OF w(2) that] by (simp add: is_struct_def)
  have inv: "store_inv {} ?w" by (rule store_inv_entropy [OF populatedD(1) [OF w(2)]])
  have texts: "mem ?w (ptr_value t1) = Some (Cstring ''is_cobject'')" "mem ?w (ptr_value t2) = Some (Cstring ''adder'')"
    using keepsD(2) [OF keeps_trans [OF 12(1) w(1)] 11(3)] keepsD(2) [OF w(1) 12(4)] by simp_all
  have "registry_ok ?g" using inv 2(1) 3(1) populatedD(4) [OF w(2)] by (auto simp: registry_ok_def)
  moreover have "methods_ok handler_address me ?w"
    using sts [of me] ne by (simp add: methods_ok_def ent es_def)
  moreover have "roomy 8 ?w" using roomy_less [OF populatedD(2) [OF w(2)], of 8] by (simp add: roomy_def)
  moreover have "fresh_bytes 3 ?w" by (simp add: fresh_bytes_def)
  moreover have "nested ?r ?w"
    using ne 11(2) 12(3) by (auto simp: nested_def ent es_def c_to_rpc_fields counted_type_def split: if_splits)
  moreover have "registered ?g ''adder'' \<noteq> None" using ne by (auto simp: registered_def ent es_def c_to_rpc_fields)
  moreover have "struct_entry ?w pc ''me'' pd" "struct_entry ?w rq ''params'' pa" "text_entry ?w rq ''method'' ''is_cobject''"
    "text_entry ?w pa ''ID'' ''adder''"
    using ne texts 11(2) 12(3) by (simp_all add: struct_entry_def text_entry_def ent es_def c_to_rpc_fields)
  ultimately show thesis
    using that [of ?p ?x rq pd pa ?r] q sts st ne by (simp add: idle_process_def the_person_def)
qed

theorem question_over_network_answered_witness:
  "\<exists>P code p job p' j RID. net_job (P :: (json, int list) platform) code job p = Inr p' \<and> mem (pr_store p') job = None \<and>
    json_struct tree_json j RID [''is_cobject'' \<mapsto> Flat_Number 1] \<and> pr_kernel p' = []"
proof -
  let ?P = "(plain_platform short_kernel)\<lparr>pf_text := \<lparr>json_dumps = \<lambda>j. Some ''text'', json_loadb = \<lambda>s. None\<rparr>\<rparr>"
  have E: "allocator (e_malloc (pf_env ?P))" "cb_increment (pf_cb ?P) = Some (rpc_struct_increment_cb (pf_env ?P))"
    using plain_env_allocates cbs_simps(2) by (simp_all add: plain_platform_def)
  have P: "pf_cb ?P = rpc_struct_default_prec_cbs (pf_env ?P) 2" "length (pf_junk ?P) = 8" "jansson_ok (pf_json ?P)" "pf_depth ?P = Suc 1"
    using tree_json_ok by (simp_all add: plain_platform_def)
  obtain p :: "int list process" and x pd rq pa r where p: "registry_ok (pr_objects p)" "methods_ok handler_address (RS_methods p) (pr_store p)"
    "roomy 8 (pr_store p)" "fresh_bytes 3 (pr_store p)" "the_person 0 p = Inr (Some x)" "np_fd x = 0" "queue_ok (np_request_que x)"
    "queue_list (np_request_que x) = [rq]" "is_struct (pr_store p) (RS_persondata p)" "struct_entry (pr_store p) (RS_persondata p) (np_ID x) pd"
    "is_struct (pr_store p) pd" "is_struct (pr_store p) rq" "is_struct (pr_store p) pa"
    "text_entry (pr_store p) rq ''method'' ''is_cobject''" "struct_entry (pr_store p) rq ''params'' pa" "text_entry (pr_store p) pa ''ID'' ''adder''"
    "registered (pr_objects p) ''adder'' \<noteq> None" "nested r (pr_store p)" "r rq \<le> 1" "r pd \<le> 1" "pr_kernel p = []"
    by (rule asking_example)
  have inv: "store_inv {} (pr_store p)" using p(1) by (simp add: registry_ok_def pr_store_def)
  have room: "roomy (4 + 4) (pr_store p)" "fresh_bytes (Suc 2) (pr_store p)" using p(3,4) by (simp_all add: numeral_eq_Suc)
  obtain p1 job where 1: "store_inv {} (pr_store p1)" "roomy 4 (pr_store p1)" "fresh_bytes 2 (pr_store p1)" "keeps (pr_store p) (pr_store p1)"
    "mem (pr_store p) job = None" "entry (pr_store p1) = (entry (pr_store p))(job := job_of ?P 0 pd rq)"
    "is_struct (pr_store p1) job" "hashmap_get (ptracker (pr_store p1)) job = None"
    "pr_objects p1 = (pr_objects p)\<lparr>ro_store := pr_store p1\<rparr>" "RS_methods p1 = RS_methods p" "pr_kernel p1 = pr_kernel p"
    by (rule receive_one [where l = 0, OF E inv room p(5,7-12)]) (simp only: p(6))
  let ?r = "r(job := 2)"
  have ne: "s \<noteq> job" if "is_struct (pr_store p) s" for s using that 1(5) by (auto simp: is_struct_def)
  have old: "entry (pr_store p1) s = entry (pr_store p) s" if "is_struct (pr_store p) s" for s using ne [OF that] by (simp add: 1(6))
  have reg: "registry_ok (pr_objects p1)"
    unfolding 1(9) by (rule registry_keeps [OF p(1) _ 1(1)]) (use 1(4) in \<open>simp add: pr_store_def\<close>)
  have me: "methods_ok handler_address (RS_methods p1) (pr_store p1)"
    using p(2) struct_keeps [OF 1(4)] old by (auto simp: methods_ok_def 1(10))
  have names: "RO_cobject_bname (pr_objects p) \<noteq> job" "RO_cobject_bid (pr_objects p) \<noteq> job"
    using p(1) 1(5) by (auto simp: registry_ok_def pr_store_def)
  have found: "registered (pr_objects p1) ''adder'' = registered (pr_objects p) ''adder''"
    using names by (simp add: registered_def Let_def 1(9) 1(6) pr_store_def [of p] cong: option.case_cong)
  have live: "ptr_value e \<noteq> job" if "entry (pr_store p) t k = Some e" "counted_type (rt_type e)" for t k e
    using untracked_if_absent(3) [OF inv 1(5), of t k e] that by (simp add: visible_def)
  have rk: "nested ?r (pr_store p1)"
    using p(18-20) live ne [OF p(11)] ne [OF p(12)]
    by (auto simp: nested_def 1(6) job_of_def c_to_rpc_fields counted_type_def split: if_splits)
  have facts: "is_struct (pr_store p1) rq" "text_entry (pr_store p1) rq ''method'' ''is_cobject''" "struct_entry (pr_store p1) rq ''params'' pa"
    "is_struct (pr_store p1) pa" "text_entry (pr_store p1) pa ''ID'' ''adder''"
    using struct_keeps [OF 1(4)] p(12,13,15) is_struct_keepsD [OF 1(4) p(14)] is_struct_keepsD [OF 1(4) p(16)] old
    by (simp_all add: struct_entry_def)
  have ej: "entry (pr_store p1) job = job_of ?P 0 pd rq" by (simp add: 1(6))
  have fd: "- (2 ^ 31) \<le> (0 :: int)" "(0 :: int) < 2 ^ 31" and low: "?r job \<le> 2" by simp_all
  from question_over_network_answered [OF E(1) P reg handler_address_ok(1) me 1(2,3) rk 1(7) ej 1(8) low fd facts]
  obtain p' j RID sent k where R: "net_job ?P handler_address job p1 = Inr p'"
    "json_struct (pf_json ?P) j RID [''is_cobject'' \<mapsto> Flat_Number (if registered (pr_objects p1) ''adder'' = None then 0 else 1)]"
    "rpc_net_send_json (pf_kernel ?P) (pf_text ?P) 0 j (pr_kernel p1) = (sent, k)"
    "pr_kernel p' = (if sent = 0 then k else sk_close (pf_kernel ?P) 0 (sk_shutdown (pf_kernel ?P) 0 k))" "mem (pr_store p') job = None"
    by blast
  have "sent = 0 \<and> k = []"
    using R(3) by (simp add: rpc_net_send_json_def plain_platform_def short_kernel_def 1(11) p(21))
  then show ?thesis
    using R(1,2,4,5) p(17) found
    by (intro exI [of _ ?P] exI [of _ handler_address] exI [of _ p1] exI [of _ job] exI [of _ p'] exI [of _ j] exI [of _ RID])
      (simp add: plain_platform_def)
qed

end
