(* ===== verification/Spec2Isabelle.thy ===== *)
theory Spec2Isabelle
  imports Hashmap_Claims Queue_Claims Thread_Pool_Hold Thread_Pool_Memory Value_Claims Struct_Claims Json_Claims Poll_Race Init_Claims Port_Claims Job_Claims
begin

text \<open>
  A verification development for ffiRPC, a C library for calling functions of a server process by name. Its
  parts, from the bottom up: hash functions and an open-addressing hash table (\<open>hashmap.c\<close>, \<open>hashmap.h\<close>);
  a ring-buffer queue (\<open>sc_queue.h\<close>); a thread pool with its job queue (\<open>thpool.c\<close>); a tracker that counts
  references to objects (\<open>ptracker.c\<close>); tagged values, sized buffers, function descriptions and structs
  (\<open>rpc_struct.h\<close>, \<open>rpc_sizedbuf.c\<close>, \<open>rpc_function.c\<close>, \<open>rpc_struct.c\<close>), with their JSON forms; a table of
  connections with two threads (\<open>poll_network.c\<close>); objects whose functions are called through libffi
  (\<open>rpc_object.c\<close>); messages and the persons that send them (\<open>rpc_network.c\<close>); the server that turns messages into
  jobs of the thread pool (\<open>rpc_server.c\<close>); services that are started in order (\<open>rpc_init.c\<close>); and clients
  (\<open>rpc_client.c\<close>).

  \<^bold>\<open>Vocabulary\<close> (\<open>Prelude\<close>, \<open>Alloc\<close>, \<open>Store\<close>). An operation that can go wrong returns a \<open>run\<close>: the value, or
  the \<open>fault\<close> that C leaves undefined or that an \<open>assert\<close> stops. Machine integers are words; sizes are
  naturals where the code cannot wrap and \<open>mask_index\<close> where it relies on wrapping. Memory is a map from
  addresses to objects; \<open>malloc\<close> is a parameter and \<open>allocator\<close> states what is asked of it. An access to an
  address without an object of the right kind is a fault, so that a result without a fault means that no
  released memory was used.

  \<^bold>\<open>Hash table\<close> (\<open>Hash_Functions\<close>, \<open>Hashmap\<close> and the theories after it). \<open>Hashmap\<close> has one definition per
  function of \<open>hashmap.c\<close>, on the array of slots; \<open>Hashmap_Props\<close> and \<open>Hashmap_Correct\<close> prove the probing
  invariant and what each operation does; \<open>Hashmap_Ops\<close> and \<open>Hashmap_Table\<close> state the interface
  \<open>finite_table\<close> (a finite map with an invariant) and interpret it as \<open>hm\<close>; \<open>Hashmap_Iter\<close> and
  \<open>Hashmap_Loops\<close> treat iterators and the \<open>foreach\<close> loops, whose removal-safe form is reduced to a fold.

  \<^bold>\<open>Queues and the thread pool\<close> (\<open>Sc_Queue\<close>, \<open>Jobqueue\<close>, \<open>Thread_Pool\<close>, \<open>Thread_Pool_Props\<close>). Both queues
  interpret the interface \<open>fifo\<close>. The pool is a transition system whose steps are the sections of the code
  between lock operations; invariants are proved by induction over reachable states. \<open>Thread_Pool_Hold\<close> adds
  pausing: a signal stops a worker between two of its steps. \<open>Thread_Pool_Memory\<close> has the blocks that a pool
  allocates and releases; each call of \<open>malloc\<close> may fail (\<open>failing_allocator\<close>).

  \<^bold>\<open>Values\<close> (\<open>Rpc_Types\<close>, \<open>Jansson\<close>, \<open>Rpc_Values\<close>). C objects are their bytes. The JSON library is a record of
  functions with named laws (\<open>jansson_ok\<close>), which a small library of trees satisfies.

  \<^bold>\<open>Structs\<close> (\<open>Origins\<close>, \<open>Ptracker\<close>, \<open>Rpc_Struct\<close>, \<open>Rpc_Elements\<close>, \<open>Rpc_Json\<close>). One definition per function of
  \<open>ptracker.c\<close> and \<open>rpc_struct.c\<close> on one shared \<open>store\<close>. The callbacks of the tracker and the release
  functions call each other; \<open>rpc_struct_default_prec_cbs\<close> unrolls them to a depth \<open>n\<close>, and the theorems hold
  for any \<open>n\<close> at least the nesting depth of the structs. \<open>Struct_Inv\<close> states the invariant (counts are numbers of
  holders), \<open>Struct_Build\<close> that building keeps it, \<open>Struct_Release\<close> that releasing keeps it; \<open>Json_Flat\<close>,
  \<open>Json_Copy\<close>, \<open>Json_Serialize\<close> and \<open>Json_Parse\<close> treat the JSON form of structs of numbers, reals and strings.
  \<open>Store_Room\<close> bounds what an operation allocates, \<open>Store_Texts\<close> follows strings, and \<open>Store_Examples\<close> and
  \<open>Struct_Examples\<close> build the stores that witnesses use.

  \<^bold>\<open>Connections\<close> (\<open>Poll_Network\<close>, \<open>Poll_Race\<close>). The table of connections of \<open>poll_network.c\<close>: one turn of the
  polling thread is equivalent to serving a list. \<open>Poll_Race\<close> cuts adding and removing a connection into their
  accesses and interleaves them, since the code has no lock.

  \<^bold>\<open>Objects\<close> (\<open>Rpc_Object\<close>, \<open>Object_Calls\<close>). The registry of \<open>rpc_object.c\<close>, the stack of objects being called
  and the call itself; what a called function does is the parameter \<open>ffi_call\<close>.

  \<^bold>\<open>Server\<close> (\<open>Rpc_Network\<close>, \<open>Rpc_Server\<close>, \<open>Rpc_Ports\<close>). \<open>rpc_network.c\<close>: messages, persons and their queues of
  requests. \<open>rpc_server.c\<close>: the handlers, the jobs and the ports. Their state is a \<open>process\<close>: the objects with
  their store, the tables of the server and the state of the kernel. A \<open>platform\<close> has what is not in the
  repository (the calls for sockets, the JSON library, \<open>malloc\<close>, libffi), as functions with named laws; calls
  for listening sockets are a parameter of \<open>Rpc_Ports\<close>. \<open>server_step\<close> takes a turn of one thread.

  \<^bold>\<open>Services and clients\<close> (\<open>Rpc_Init\<close>, \<open>Rpc_Client\<close>, \<open>Rpc_Closure\<close>). Services start after those they depend on;
  \<open>rpc_service_load\<close> has fuel \<open>n\<close>, and a bound on the length of chains of dependencies is enough. A client sends a
  request over a connection or within its process; \<open>Rpc_Closure\<close> makes the functions of an object callable.

  \<^bold>\<open>Properties\<close> are in the theories named \<open>..._Claims\<close> and at the end of \<open>Thread_Pool_Hold\<close>,
  \<open>Thread_Pool_Memory\<close> and \<open>Poll_Race\<close>. \<open>Job_Claims\<close> follows a question through the parts: from a queue of
  requests to a job, through the registry to an answer in JSON form on the connection.

  \<^bold>\<open>Fuel\<close>. \<open>pf_depth\<close> bounds the nesting of JSON, the depth \<open>n\<close> of the callbacks that of structs, \<open>free_requests\<close>
  makes as many rounds as the queue had entries. Each theorem that says that an operation returns names the
  bound that is enough; running out is the fault \<open>No_Fuel\<close> and never a result.

  \<^bold>\<open>Not modelled\<close>. The floating-point statistics of the hash table; \<open>time_logger\<close> and other output; names of
  threads, and failures of \<open>pthread_create\<close>. Locks are atomic sections, and outside the thread pool and \<open>Poll_Race\<close>
  one thread runs at a time. \<open>local_userdata_free\<close>, which is never called. The invariant \<open>store_inv\<close> leaves out
  destructors and disowned pointers, so that a store with the closures of a client is outside it, and there is no
  theorem about a call through a closure from end to end. Tests and build files.
\<close>

end
